(* ===== verification/Prelude.thy ===== *)
theory Prelude
  imports Complex_Main "HOL-Library.Multiset" "HOL-Library.Char_ord" "HOL-Library.List_Lexorder"
    "HOL-Library.AList" "HOL-Library.Word"
begin

text \<open>
  Shared vocabulary of the development: the Go base types as the model uses them, the
  standard-library operations on them (time arithmetic, \<open>sort.Slice\<close>, loops that keep the
  first best element, maps that the code ranges over), and the generic facts about them.

  \<^item> \<open>time.Time\<close> is an \<open>int\<close>: nanoseconds since the Unix epoch, UTC. \<open>Before\<close>, \<open>After\<close> and
    \<open>Equal\<close> are \<open><\<close>, \<open>>\<close> and \<open>=\<close>; \<open>Add\<close> and \<open>Sub\<close> are \<open>+\<close> and \<open>-\<close>.
  \<^item> A Go string is a \<open>string\<close> (a list of bytes); a \<open>float64\<close> is a \<open>real\<close> (rounding is not
    modelled).
  \<^item> A Go map that is only looked up is a partial function; a map the code ranges over is an
    association list, whose order stands for the iteration order of that run.
\<close>

named_theorems go_simps \<open>evaluation of the model's Go-level helpers\<close>

section \<open>Time\<close>

type_synonym gotime = int

type_synonym duration = int

definition second_ns :: duration where
  "second_ns = 1000000000"

definition minute_ns :: duration where
  "minute_ns = 60000000000"

definition day_ns :: duration where
  "day_ns = 86400000000000"

text \<open>The zero \<open>time.Time\<close> (January 1 of year 1, UTC).\<close>

definition zero_time :: gotime where
  "zero_time = - 62135596800000000000"

definition minutes :: "int \<Rightarrow> duration" where
  "minutes n = n * minute_ns"

definition seconds :: "int \<Rightarrow> duration" where
  "seconds n = n * second_ns"

lemmas time_defs [go_simps] = second_ns_def minute_ns_def day_ns_def minutes_def seconds_def

lemma minute_ns_pos [simp]: "0 < minute_ns"
  by (simp add: minute_ns_def)

lemma day_ns_pos [simp]: "0 < day_ns"
  by (simp add: day_ns_def)

lemma second_ns_pos [simp]: "0 < second_ns"
  by (simp add: second_ns_def)

lemma minutes_nonneg [simp]: "0 \<le> minutes n \<longleftrightarrow> 0 \<le> n"
  by (simp add: minutes_def zero_le_mult_iff minute_ns_def)

lemma minutes_mono [simp]: "minutes m \<le> minutes n \<longleftrightarrow> m \<le> n"
  by (simp add: minutes_def minute_ns_def)

lemma minutes_less [simp]: "minutes m < minutes n \<longleftrightarrow> m < n"
  by (simp add: minutes_def minute_ns_def)

lemma minutes_0 [simp]: "minutes 0 = 0"
  by (simp add: minutes_def)

text \<open>
  \<open>time.Date(t.Year(), t.Month(), t.Day(), 0, 0, 0, 0, time.UTC)\<close>: midnight, as a UTC time,
  of the civil day that \<open>t\<close> shows on a clock \<open>off\<close> nanoseconds ahead of UTC (\<open>off\<close> is the
  zone offset the value carries).
\<close>

definition midnight :: "duration \<Rightarrow> gotime \<Rightarrow> gotime" where
  "midnight off t = (t + off) div day_ns * day_ns"

lemma midnight_le: "midnight off t \<le> t + off"
proof -
  have "(t + off) div day_ns * day_ns = (t + off) - (t + off) mod day_ns"
    by (simp add: minus_mod_eq_div_mult)
  then show ?thesis by (simp add: midnight_def)
qed

lemma midnight_gt: "t + off < midnight off t + day_ns"
proof -
  have "(t + off) div day_ns * day_ns = (t + off) - (t + off) mod day_ns"
    by (simp add: minus_mod_eq_div_mult)
  moreover have "(t + off) mod day_ns < day_ns" by simp
  ultimately show ?thesis by (simp add: midnight_def)
qed

text \<open>\<open>for dt.Before(lo) { dt = dt.Add(24 * time.Hour) }\<close>\<close>

function push_days :: "gotime \<Rightarrow> gotime \<Rightarrow> gotime" where
  "push_days lo dt = (if dt < lo then push_days lo (dt + day_ns) else dt)"
  by pat_completeness auto
termination
  by (relation "measure (\<lambda>(lo, dt). nat (lo - dt))") (auto simp: day_ns_def)

declare push_days.simps [simp del]

lemma push_days_ge: "lo \<le> push_days lo dt"
proof (induction lo dt rule: push_days.induct)
  case (1 lo dt)
  then show ?case by (cases "dt < lo") (simp_all add: push_days.simps [of lo dt])
qed

lemma push_days_ge_start: "dt \<le> push_days lo dt"
proof (induction lo dt rule: push_days.induct)
  case (1 lo dt)
  show ?case
  proof (cases "dt < lo")
    case True
    with 1 have "dt + day_ns \<le> push_days lo (dt + day_ns)" by simp
    moreover have "dt \<le> dt + day_ns" by (simp add: day_ns_def)
    ultimately show ?thesis using True by (simp add: push_days.simps [of lo dt])
  qed (simp add: push_days.simps [of lo dt])
qed

lemma push_days_mod: "push_days lo dt mod day_ns = dt mod day_ns"
proof (induction lo dt rule: push_days.induct)
  case (1 lo dt)
  then show ?case by (cases "dt < lo") (simp_all add: push_days.simps [of lo dt])
qed

lemma push_days_id: "lo \<le> dt \<Longrightarrow> push_days lo dt = dt"
  by (simp add: push_days.simps [of lo dt])

lemma push_days_lt: "dt < lo \<Longrightarrow> push_days lo dt < lo + day_ns"
proof (induction lo dt rule: push_days.induct)
  case (1 lo dt)
  then show ?case
    by (cases "dt + day_ns < lo")
      (simp_all add: push_days.simps [of lo dt] push_days.simps [of lo "dt + day_ns"])
qed

text \<open>\<open>for dep.After(hi) { dep = dep.Add(-24 * time.Hour) }\<close>\<close>

function pull_days :: "gotime \<Rightarrow> gotime \<Rightarrow> gotime" where
  "pull_days hi dt = (if hi < dt then pull_days hi (dt - day_ns) else dt)"
  by pat_completeness auto
termination
  by (relation "measure (\<lambda>(hi, dt). nat (dt - hi))") (auto simp: day_ns_def)

declare pull_days.simps [simp del]

lemma pull_days_le: "pull_days hi dt \<le> hi"
proof (induction hi dt rule: pull_days.induct)
  case (1 hi dt)
  then show ?case by (cases "hi < dt") (simp_all add: pull_days.simps [of hi dt])
qed

lemma pull_days_mod: "pull_days hi dt mod day_ns = dt mod day_ns"
proof (induction hi dt rule: pull_days.induct)
  case (1 hi dt)
  then show ?case by (cases "hi < dt") (simp_all add: pull_days.simps [of hi dt])
qed

section \<open>Sorting\<close>

text \<open>
  \<open>sort.Slice(xs, lt)\<close> as an insertion sort. Go's sort is not stable: among elements that
  \<open>lt\<close> does not separate the order of the model is one of the orders the code can give.
\<close>

fun insert_by :: "('a \<Rightarrow> 'a \<Rightarrow> bool) \<Rightarrow> 'a \<Rightarrow> 'a list \<Rightarrow> 'a list" where
  "insert_by lt x [] = [x]"
| "insert_by lt x (y # ys) = (if lt y x then y # insert_by lt x ys else x # y # ys)"

fun sort_by :: "('a \<Rightarrow> 'a \<Rightarrow> bool) \<Rightarrow> 'a list \<Rightarrow> 'a list" where
  "sort_by lt [] = []"
| "sort_by lt (x # xs) = insert_by lt x (sort_by lt xs)"

lemma mset_insert_by [simp]: "mset (insert_by lt x ys) = add_mset x (mset ys)"
  by (induction ys) auto

lemma mset_sort_by [simp]: "mset (sort_by lt xs) = mset xs"
  by (induction xs) auto

lemma set_sort_by [simp]: "set (sort_by lt xs) = set xs"
  by (metis mset_sort_by set_mset_mset)

lemma set_insert_by [simp]: "set (insert_by lt x ys) = insert x (set ys)"
  by (induction ys) auto

lemma length_sort_by [simp]: "length (sort_by lt xs) = length xs"
  by (metis mset_sort_by size_mset)

lemma distinct_sort_by [simp]: "distinct (sort_by lt xs) \<longleftrightarrow> distinct xs"
  by (rule mset_eq_imp_distinct_iff) simp

lemma sort_by_Nil_iff [simp]: "sort_by lt xs = [] \<longleftrightarrow> xs = []"
  by (metis length_0_conv length_sort_by)

text \<open>A strict weak order, as \<open>sort.Slice\<close> expects of its argument.\<close>

definition weak_order :: "('a \<Rightarrow> 'a \<Rightarrow> bool) \<Rightarrow> bool" where
  "weak_order lt \<longleftrightarrow>
     (\<forall>x y. lt x y \<longrightarrow> \<not> lt y x) \<and>
     (\<forall>x y z. \<not> lt y x \<longrightarrow> \<not> lt z y \<longrightarrow> \<not> lt z x)"

lemma weak_orderI [intro?]:
  assumes "\<And>x y. lt x y \<Longrightarrow> \<not> lt y x"
    and "\<And>x y z. \<not> lt y x \<Longrightarrow> \<not> lt z y \<Longrightarrow> \<not> lt z x"
  shows "weak_order lt"
  using assms unfolding weak_order_def by blast

lemma weak_order_key: "weak_order (\<lambda>x y. (f x :: 'b :: linorder) < f y)"
  by (rule weak_orderI) auto

lemma weak_orderD:
  assumes "weak_order lt"
  shows "lt x y \<Longrightarrow> \<not> lt y x"
    and "\<not> lt y x \<Longrightarrow> \<not> lt z y \<Longrightarrow> \<not> lt z x"
  using assms unfolding weak_order_def by blast+

lemma sorted_insert_by:
  assumes w: "weak_order lt" and s: "sorted_wrt (\<lambda>x y. \<not> lt y x) ys"
  shows "sorted_wrt (\<lambda>x y. \<not> lt y x) (insert_by lt x ys)"
  using s
proof (induction ys)
  case Nil
  then show ?case by simp
next
  case (Cons y ys)
  show ?case
  proof (cases "lt y x")
    case True
    with Cons weak_orderD(1) [OF w True] show ?thesis by simp
  next
    case False
    with Cons.prems have "\<forall>z \<in> set ys. \<not> lt z x"
      using weak_orderD(2) [OF w] by auto
    with False Cons.prems show ?thesis by simp
  qed
qed

lemma sorted_sort_by:
  assumes "weak_order lt"
  shows "sorted_wrt (\<lambda>x y. \<not> lt y x) (sort_by lt xs)"
  by (induction xs) (auto intro: sorted_insert_by [OF assms])

lemma insert_by_id: "(\<And>y. y \<in> set ys \<Longrightarrow> \<not> lt y x) \<Longrightarrow> insert_by lt x ys = x # ys"
  by (cases ys) auto

lemma sort_by_id:
  "sorted_wrt (\<lambda>x y. \<not> lt y x) xs \<Longrightarrow> sort_by lt xs = xs"
  by (induction xs) (auto simp: insert_by_id)

section \<open>Scans that keep the first best element\<close>

text \<open>
  The loop \<open>for x in xs { if better(x, best) { best = x } }\<close> with \<open>better\<close> a strict comparison
  of a score, as the code writes it in several places: the element kept is the first one of
  minimal score.
\<close>

fun scan_min :: "('a \<Rightarrow> 'b :: linorder) \<Rightarrow> 'a option \<Rightarrow> 'a list \<Rightarrow> 'a option" where
  "scan_min f best [] = best"
| "scan_min f best (x # xs) =
     scan_min f (case best of None \<Rightarrow> Some x | Some b \<Rightarrow> if f x < f b then Some x else best) xs"

lemma scan_min_Some_start: "\<exists>y. scan_min f (Some b) xs = Some y \<and> f y \<le> f b \<and> (y = b \<or> y \<in> set xs)"
proof (induction xs arbitrary: b)
  case Nil
  then show ?case by simp
next
  case (Cons x xs)
  show ?case
  proof (cases "f x < f b")
    case True
    with Cons [of x] show ?thesis by fastforce
  next
    case False
    with Cons [of b] show ?thesis by fastforce
  qed
qed

lemma scan_min_Some [simp]: "\<exists>y. scan_min f (Some b) xs = Some y"
  using scan_min_Some_start [of f b xs] by auto

lemma scan_min_None_iff [simp]: "scan_min f best xs = None \<longleftrightarrow> best = None \<and> xs = []"
  by (cases best; cases xs) auto

lemma scan_min_le:
  "scan_min f best xs = Some y \<Longrightarrow>
     (\<forall>x \<in> set xs. f y \<le> f x) \<and> (\<forall>b. best = Some b \<longrightarrow> f y \<le> f b) \<and> (y \<in> set xs \<or> best = Some y)"
proof (induction xs arbitrary: best)
  case Nil
  then show ?case by simp
next
  case (Cons x xs)
  let ?b = "case best of None \<Rightarrow> Some x | Some b \<Rightarrow> if f x < f b then Some x else best"
  from Cons.prems have "scan_min f ?b xs = Some y" by simp
  note ih = Cons.IH [OF this]
  show ?case
  proof (cases best)
    case None
    with ih show ?thesis by auto
  next
    case (Some b)
    show ?thesis
    proof (cases "f x < f b")
      case True
      with ih Some show ?thesis by auto
    next
      case False
      with ih Some show ?thesis by auto
    qed
  qed
qed

lemma scan_min_minimal: "scan_min f None xs = Some y \<Longrightarrow> y \<in> set xs \<and> (\<forall>x \<in> set xs. f y \<le> f x)"
  using scan_min_le [of f None xs y] by simp

section \<open>Maps and lists\<close>

text \<open>\<open>m[k]\<close> of a map the code ranges over, and the keys of such a map.\<close>

lemma map_of_update [simp]: "map_of (AList.update k v m) = (map_of m)(k \<mapsto> v)"
  by (simp add: update_conv')

lemma map_of_delete [simp]: "map_of (AList.delete k m) = (map_of m)(k := None)"
  by (simp add: delete_conv')

lemma distinct_keys_update [simp]:
  "distinct (map fst (AList.update k v m)) \<longleftrightarrow> distinct (map fst m)"
  by (induction m) (auto simp: dom_update [unfolded image_image] update_keys)

text \<open>\<open>m[k] = append(m[k], x)\<close> for a map of slices.\<close>

definition map_append :: "'k \<Rightarrow> 'v \<Rightarrow> ('k \<times> 'v list) list \<Rightarrow> ('k \<times> 'v list) list" where
  "map_append k x m = AList.update k (case map_of m k of None \<Rightarrow> [x] | Some xs \<Rightarrow> xs @ [x]) m"

definition map_get :: "('k \<times> 'v list) list \<Rightarrow> 'k \<Rightarrow> 'v list" where
  "map_get m k = (case map_of m k of None \<Rightarrow> [] | Some xs \<Rightarrow> xs)"

lemma map_get_append [simp]:
  "map_get (map_append k x m) k' = (if k' = k then map_get m k @ [x] else map_get m k')"
  by (simp add: map_get_def map_append_def split: option.splits)

definition group_by :: "('a \<Rightarrow> 'k) \<Rightarrow> 'a list \<Rightarrow> ('k \<times> 'a list) list" where
  "group_by key xs = fold (\<lambda>x. map_append (key x) x) xs []"

lemma map_get_fold_append:
  "map_get (fold (\<lambda>x. map_append (key x) x) xs m) k = map_get m k @ filter (\<lambda>x. key x = k) xs"
  by (induction xs arbitrary: m) auto

lemma map_get_group_by [simp]: "map_get (group_by key xs) k = filter (\<lambda>x. key x = k) xs"
  by (simp add: group_by_def map_get_fold_append) (simp add: map_get_def)

text \<open>Truncating division and remainder of Go's integers.\<close>

definition go_div :: "int \<Rightarrow> int \<Rightarrow> int" where
  "go_div a b = sgn a * sgn b * (\<bar>a\<bar> div \<bar>b\<bar>)"

definition go_mod :: "int \<Rightarrow> int \<Rightarrow> int" where
  "go_mod a b = a - go_div a b * b"

lemma go_div_nonneg: "0 \<le> a \<Longrightarrow> 0 < b \<Longrightarrow> go_div a b = a div b"
  by (cases "a = 0") (auto simp: go_div_def)


lemma fold_keeps:
  "P s \<Longrightarrow> (\<And>x s. x \<in> set xs \<Longrightarrow> P s \<Longrightarrow> P (f x s)) \<Longrightarrow> P (fold f xs s)"
  by (induction xs arbitrary: s) auto

lemma fold_reaches:
  "x \<in> set xs \<Longrightarrow> (\<And>s. Q s \<Longrightarrow> P (f x s)) \<Longrightarrow> (\<And>y s. y \<in> set xs \<Longrightarrow> P s \<Longrightarrow> P (f y s)) \<Longrightarrow>
   Q s \<Longrightarrow> (\<And>y s. y \<in> set xs \<Longrightarrow> Q s \<Longrightarrow> Q (f y s)) \<Longrightarrow> P (fold f xs s)"
proof (induction xs arbitrary: s)
  case (Cons y ys)
  show ?case
  proof (cases "x = y")
    case True
    then have "P (f y s)" using Cons.prems by simp
    then have "P (fold f ys (f y s))" by (rule fold_keeps) (use Cons.prems(3) in auto)
    then show ?thesis by simp
  next
    case False
    then have "x \<in> set ys" using Cons.prems(1) by simp
    moreover have "Q (f y s)" using Cons.prems(4,5) by simp
    ultimately show ?thesis using Cons.IH [of "f y s"] Cons.prems by simp
  qed
qed simp

lemma distinct_keys_map_append [simp]: "distinct (map fst (map_append k x m)) \<longleftrightarrow> distinct (map fst m)"
  by (simp add: map_append_def)

lemma map_get_entry: "distinct (map fst m) \<Longrightarrow> (k, v) \<in> set m \<Longrightarrow> map_get m k = v"
  by (simp add: map_get_def)

lemma map_get_nonempty: "x \<in> set (map_get m k) \<Longrightarrow> (k, map_get m k) \<in> set m"
  by (auto simp: map_get_def dest: map_of_SomeD split: option.splits)


text \<open>A table (a map from keys to rows) whose rows all satisfy a predicate.\<close>

lemma update_rows:
  assumes "distinct (map fst m)" "\<forall>(k, x) \<in> set m. P k x" "P i j"
  shows "\<forall>(k, x) \<in> set (AList.update i j m). P k x"
proof clarify
  fix k x assume "(k, x) \<in> set (AList.update i j m)"
  with assms(1) have "map_of (AList.update i j m) k = Some x"
    by (simp only: map_of_eq_Some_iff distinct_keys_update)
  then show "P k x" using assms(2,3) by (auto split: if_splits dest: map_of_SomeD)
qed

lemma delete_rows: "\<forall>(k, x) \<in> set m. P k x \<Longrightarrow> \<forall>(k, x) \<in> set (AList.delete i m). P k x"
  by (auto simp: AList.delete_eq)

lemma distinct_keys_delete [simp]: "distinct (map fst m) \<Longrightarrow> distinct (map fst (AList.delete i m))"
  by (simp add: AList.distinct_delete)

lemma distinct_keys_filter [simp]: "distinct (map fst m) \<Longrightarrow> distinct (map fst (filter P m))"
  by (rule distinct_map_filter)

lemma map_of_filter_rows:
  "distinct (map fst m) \<Longrightarrow>
     map_of (filter (\<lambda>(k, x). P k x) m) i = (case map_of m i of None \<Rightarrow> None | Some x \<Rightarrow> if P i x then Some x else None)"
  by (induction m) (auto simp: map_of_eq_None_iff split: option.splits)

end
