(* ===== verification/GoText.thy ===== *)
theory GoText
  imports Prelude "HOL-Library.Sublist"
begin

text \<open>
  Go strings and the functions of \<open>strings\<close>, \<open>unicode\<close> and \<open>unicode/utf8\<close> that the source
  calls. A Go string is a list of bytes (\<open>string\<close>); \<open>[]rune(s)\<close> is \<open>runes s\<close>, the UTF-8
  decoding with U+FFFD for each invalid byte; \<open>string(rs)\<close> is \<open>utf8 rs\<close>. Case mapping is the
  one of ASCII, Latin-1 and the basic Cyrillic block (U+0400 to U+045F), the scripts of the
  registry data; other letters are left alone.
\<close>

section \<open>UTF-8\<close>

type_synonym rune = nat

definition rune_error :: rune where
  "rune_error = 65533"

definition is_cont :: "nat \<Rightarrow> bool" where
  "is_cont b \<longleftrightarrow> 128 \<le> b \<and> b < 192"

definition byte :: "char \<Rightarrow> nat" where
  "byte c = of_char c"

fun runes :: "string \<Rightarrow> rune list" where
  "runes [] = []"
| "runes (c # cs) =
     (if byte c < 128 then byte c # runes cs
      else (case cs of
          [] \<Rightarrow> [rune_error]
        | c1 # cs1 \<Rightarrow>
            if 194 \<le> byte c \<and> byte c < 224 \<and> is_cont (byte c1)
            then ((byte c - 192) * 64 + (byte c1 - 128)) # runes cs1
            else if 224 \<le> byte c \<and> byte c < 240 \<and> is_cont (byte c1)
                 \<and> (byte c = 224 \<longrightarrow> 160 \<le> byte c1) \<and> (byte c = 237 \<longrightarrow> byte c1 < 160)
            then (case cs1 of
                [] \<Rightarrow> rune_error # runes cs
              | c2 # cs2 \<Rightarrow>
                  if is_cont (byte c2)
                  then ((byte c - 224) * 4096 + (byte c1 - 128) * 64 + (byte c2 - 128)) # runes cs2
                  else rune_error # runes cs)
            else if 240 \<le> byte c \<and> byte c < 245 \<and> is_cont (byte c1)
                 \<and> (byte c = 240 \<longrightarrow> 144 \<le> byte c1) \<and> (byte c = 244 \<longrightarrow> byte c1 < 144)
            then (case cs1 of
                c2 # c3 # cs3 \<Rightarrow>
                  if is_cont (byte c2) \<and> is_cont (byte c3)
                  then ((byte c - 240) * 262144 + (byte c1 - 128) * 4096 + (byte c2 - 128) * 64
                        + (byte c3 - 128)) # runes cs3
                  else rune_error # runes cs
              | _ \<Rightarrow> rune_error # runes cs)
            else rune_error # runes cs))"

definition utf8_rune :: "rune \<Rightarrow> string" where
  "utf8_rune r =
     (if r < 128 then [char_of r]
      else if r < 2048 then [char_of (192 + r div 64), char_of (128 + r mod 64)]
      else if r < 65536 then
        [char_of (224 + r div 4096), char_of (128 + r div 64 mod 64), char_of (128 + r mod 64)]
      else [char_of (240 + r div 262144), char_of (128 + r div 4096 mod 64),
            char_of (128 + r div 64 mod 64), char_of (128 + r mod 64)])"

definition utf8 :: "rune list \<Rightarrow> string" where
  "utf8 rs = concat (map utf8_rune rs)"

text \<open>Code points that UTF-8 can carry: below U+110000 and no surrogate.\<close>

definition valid_rune :: "rune \<Rightarrow> bool" where
  "valid_rune r \<longleftrightarrow> r < 1114112 \<and> \<not> (55296 \<le> r \<and> r < 57344)"

lemma byte_char_of [simp]: "n < 256 \<Longrightarrow> byte (char_of n) = n"
  by (simp add: byte_def of_char_mod_256)

lemma utf8_Nil [simp]: "utf8 [] = []"
  by (simp add: utf8_def)

lemma utf8_Cons: "utf8 (r # rs) = utf8_rune r @ utf8 rs"
  by (simp add: utf8_def)

lemma utf8_append [simp]: "utf8 (rs @ ss) = utf8 rs @ utf8 ss"
  by (simp add: utf8_def)

lemma runes_utf8_rune:
  assumes "valid_rune r"
  shows "runes (utf8_rune r @ cs) = r # runes cs"
proof -
  consider (one) "r < 128" | (two) "128 \<le> r" "r < 2048" | (three) "2048 \<le> r" "r < 65536"
    | (four) "65536 \<le> r" "r < 1114112"
    using assms unfolding valid_rune_def by linarith
  then show ?thesis
  proof cases
    case one
    then show ?thesis by (simp add: utf8_rune_def)
  next
    case two
    have d: "r div 64 < 32" "2 \<le> r div 64" using two by auto
    have m: "r mod 64 < 64" by simp
    have b1: "byte (char_of (192 + r div 64)) = 192 + r div 64" using d by simp
    have b2: "byte (char_of (128 + r mod 64)) = 128 + r mod 64" using m by simp
    have e: "r div 64 * 64 + r mod 64 = r" by simp
    show ?thesis using two d m by (simp add: utf8_rune_def b1 b2 is_cont_def e)
  next
    case three
    define a b c where "a = r div 4096" and "b = r div 64 mod 64" and "c = r mod 64"
    have d: "a < 16" "b < 64" "c < 64" using three by (auto simp: a_def b_def c_def)
    have q: "r div 64 div 64 = r div 4096" by (simp flip: div_mult2_eq)
    have e: "a * 4096 + b * 64 + c = r"
      using div_mult_mod_eq [of "r div 64" 64] div_mult_mod_eq [of r 64]
      unfolding a_def b_def c_def q by linarith
    have b1: "byte (char_of (224 + a)) = 224 + a" "byte (char_of (128 + b)) = 128 + b"
      "byte (char_of (128 + c)) = 128 + c" using d by simp_all
    have s1: "224 + a = 224 \<longrightarrow> 160 \<le> 128 + b" using three e d by auto
    have s2: "224 + a = 237 \<longrightarrow> 128 + b < 160"
      using assms e d three unfolding valid_rune_def by auto
    have u: "utf8_rune r = [char_of (224 + a), char_of (128 + b), char_of (128 + c)]"
      using three by (simp add: utf8_rune_def a_def b_def c_def)
    show ?thesis using d s1 s2 e by (simp add: u b1 is_cont_def)
  next
    case four
    define a b c d where "a = r div 262144" and "b = r div 4096 mod 64" and "c = r div 64 mod 64"
      and "d = r mod 64"
    have l: "a < 5" "b < 64" "c < 64" "d < 64" using four by (auto simp: a_def b_def c_def d_def)
    have q: "r div 64 div 64 = r div 4096" "r div 4096 div 64 = r div 262144"
      by (simp_all flip: div_mult2_eq)
    have e: "a * 262144 + b * 4096 + c * 64 + d = r"
      using div_mult_mod_eq [of "r div 4096" 64] div_mult_mod_eq [of "r div 64" 64]
        div_mult_mod_eq [of r 64]
      unfolding a_def b_def c_def d_def q by linarith
    have b1: "byte (char_of (240 + a)) = 240 + a" "byte (char_of (128 + b)) = 128 + b"
      "byte (char_of (128 + c)) = 128 + c" "byte (char_of (128 + d)) = 128 + d" using l by simp_all
    have s1: "240 + a = 240 \<longrightarrow> 144 \<le> 128 + b" using four e l by auto
    have s2: "240 + a = 244 \<longrightarrow> 128 + b < 144" using four e l by auto
    have u: "utf8_rune r = [char_of (240 + a), char_of (128 + b), char_of (128 + c), char_of (128 + d)]"
      using four by (simp add: utf8_rune_def a_def b_def c_def d_def)
    show ?thesis using l s1 s2 e by (simp add: u b1 is_cont_def)
  qed
qed

lemma runes_utf8 [simp]: "list_all valid_rune rs \<Longrightarrow> runes (utf8 rs) = rs"
  by (induction rs) (auto simp: utf8_Cons runes_utf8_rune)

section \<open>Character classes and case\<close>

definition is_space :: "rune \<Rightarrow> bool" where
  "is_space r \<longleftrightarrow> (9 \<le> r \<and> r \<le> 13) \<or> r = 32 \<or> r = 133 \<or> r = 160 \<or> r = 5760
     \<or> (8192 \<le> r \<and> r \<le> 8202) \<or> r = 8232 \<or> r = 8233 \<or> r = 8239 \<or> r = 8287 \<or> r = 12288"

definition is_digit :: "rune \<Rightarrow> bool" where
  "is_digit r \<longleftrightarrow> 48 \<le> r \<and> r \<le> 57"

definition is_letter :: "rune \<Rightarrow> bool" where
  "is_letter r \<longleftrightarrow> (65 \<le> r \<and> r \<le> 90) \<or> (97 \<le> r \<and> r \<le> 122) \<or> r = 170 \<or> r = 181 \<or> r = 186
     \<or> (192 \<le> r \<and> r \<le> 255 \<and> r \<noteq> 215 \<and> r \<noteq> 247) \<or> (1024 \<le> r \<and> r \<le> 1153)"

definition lower_rune :: "rune \<Rightarrow> rune" where
  "lower_rune r =
     (if 65 \<le> r \<and> r \<le> 90 then r + 32
      else if 192 \<le> r \<and> r \<le> 222 \<and> r \<noteq> 215 then r + 32
      else if 1024 \<le> r \<and> r \<le> 1039 then r + 80
      else if 1040 \<le> r \<and> r \<le> 1071 then r + 32
      else r)"

definition upper_rune :: "rune \<Rightarrow> rune" where
  "upper_rune r =
     (if 97 \<le> r \<and> r \<le> 122 then r - 32
      else if 224 \<le> r \<and> r \<le> 254 \<and> r \<noteq> 247 then r - 32
      else if 1104 \<le> r \<and> r \<le> 1119 then r - 80
      else if 1072 \<le> r \<and> r \<le> 1103 then r - 32
      else r)"

definition to_lower :: "string \<Rightarrow> string" where
  "to_lower s = utf8 (map lower_rune (runes s))"

definition to_upper :: "string \<Rightarrow> string" where
  "to_upper s = utf8 (map upper_rune (runes s))"

lemma lower_rune_ranges:
  "65 \<le> r \<Longrightarrow> r \<le> 90 \<Longrightarrow> lower_rune r = r + 32"
  "192 \<le> r \<Longrightarrow> r \<le> 222 \<Longrightarrow> r \<noteq> 215 \<Longrightarrow> lower_rune r = r + 32"
  "1024 \<le> r \<Longrightarrow> r \<le> 1039 \<Longrightarrow> lower_rune r = r + 80"
  "1040 \<le> r \<Longrightarrow> r \<le> 1071 \<Longrightarrow> lower_rune r = r + 32"
  "91 \<le> r \<Longrightarrow> r \<le> 191 \<Longrightarrow> lower_rune r = r"
  "223 \<le> r \<Longrightarrow> r \<le> 1023 \<Longrightarrow> lower_rune r = r"
  "1072 \<le> r \<Longrightarrow> lower_rune r = r"
  by (simp_all add: lower_rune_def)

lemma lower_rune_idem [simp]: "lower_rune (lower_rune r) = lower_rune r"
proof (cases "lower_rune r = r")
  case False
  then consider "65 \<le> r" "r \<le> 90" | "192 \<le> r" "r \<le> 222" "r \<noteq> 215" | "1024 \<le> r" "r \<le> 1039"
    | "1040 \<le> r" "r \<le> 1071"
    by (auto simp: lower_rune_def split: if_splits)
  then show ?thesis by cases (simp_all add: lower_rune_ranges)
qed simp

lemma valid_lower_rune [simp]: "valid_rune r \<Longrightarrow> valid_rune (lower_rune r)"
  by (cases "r < 1072") (auto simp: valid_rune_def lower_rune_def)

lemma valid_upper_rune [simp]: "valid_rune r \<Longrightarrow> valid_rune (upper_rune r)"
  by (cases "r < 1120") (auto simp: valid_rune_def upper_rune_def)

text \<open>The separator of joined keys.\<close>

definition nul :: string where
  "nul = [char_of (0::nat)]"

section \<open>Searching, splitting, joining\<close>

definition has_prefix :: "string \<Rightarrow> string \<Rightarrow> bool" where
  "has_prefix s p \<longleftrightarrow> take (length p) s = p"

definition has_suffix :: "string \<Rightarrow> string \<Rightarrow> bool" where
  "has_suffix s p \<longleftrightarrow> has_prefix (rev s) (rev p)"

fun contains :: "string \<Rightarrow> string \<Rightarrow> bool" where
  "contains [] p \<longleftrightarrow> p = []"
| "contains (c # cs) p \<longleftrightarrow> has_prefix (c # cs) p \<or> contains cs p"

lemma has_prefix_iff: "has_prefix s p \<longleftrightarrow> (\<exists>t. s = p @ t)"
  unfolding has_prefix_def by (metis append_eq_conv_conj)

lemma has_suffix_iff: "has_suffix s p \<longleftrightarrow> (\<exists>t. s = t @ p)"
proof
  assume "has_suffix s p"
  then obtain t where "rev s = rev p @ t" by (auto simp: has_suffix_def has_prefix_iff)
  then have "s = rev t @ p" by (metis rev_append rev_rev_ident)
  then show "\<exists>t. s = t @ p" ..
qed (auto simp: has_suffix_def has_prefix_iff)

lemma contains_iff: "contains s p \<longleftrightarrow> (\<exists>u v. s = u @ p @ v)"
proof (induction s)
  case (Cons c cs)
  show ?case
  proof
    assume "contains (c # cs) p"
    then consider "has_prefix (c # cs) p" | "contains cs p" by auto
    then show "\<exists>u v. c # cs = u @ p @ v"
    proof cases
      case 1
      then show ?thesis by (metis has_prefix_iff append_Nil)
    next
      case 2
      then show ?thesis using Cons by (metis append_Cons)
    qed
  next
    assume "\<exists>u v. c # cs = u @ p @ v"
    then obtain u v where uv: "c # cs = u @ p @ v" by blast
    show "contains (c # cs) p"
    proof (cases u)
      case Nil
      with uv have "has_prefix (c # cs) p" by (auto simp: has_prefix_iff)
      then show ?thesis by simp
    next
      case (Cons d u')
      with uv have "cs = u' @ p @ v" by simp
      with \<open>contains cs p = (\<exists>u v. cs = u @ p @ v)\<close> show ?thesis by auto
    qed
  qed
qed auto

text \<open>\<open>strings.Fields\<close> and \<open>strings.TrimSpace\<close> work on runes.\<close>

fun fields_aux :: "rune list \<Rightarrow> rune list \<Rightarrow> rune list list" where
  "fields_aux acc [] = (if acc = [] then [] else [acc])"
| "fields_aux acc (r # rs) =
     (if is_space r then (if acc = [] then fields_aux [] rs else acc # fields_aux [] rs)
      else fields_aux (acc @ [r]) rs)"

definition Fields :: "string \<Rightarrow> string list" where
  "Fields s = map utf8 (fields_aux [] (runes s))"

definition trim_runes :: "(rune \<Rightarrow> bool) \<Rightarrow> rune list \<Rightarrow> rune list" where
  "trim_runes P rs = rev (dropWhile P (rev (dropWhile P rs)))"

text \<open>Go cuts the bytes of the string; here the runes are cut and encoded again. The two differ only in bytes that are
not UTF-8, which come out as the encoding of U+FFFD.\<close>

definition trim_space :: "string \<Rightarrow> string" where
  "trim_space s = utf8 (trim_runes is_space (runes s))"

text \<open>\<open>strings.Trim(s, cutset)\<close>\<close>

definition trim :: "string \<Rightarrow> rune list \<Rightarrow> string" where
  "trim s cutset = utf8 (trim_runes (\<lambda>r. r \<in> set cutset) (runes s))"

fun split_char :: "char \<Rightarrow> string \<Rightarrow> string list" where
  "split_char d [] = [[]]"
| "split_char d (c # cs) =
     (if c = d then [] # split_char d cs
      else (case split_char d cs of [] \<Rightarrow> [[c]] | p # ps \<Rightarrow> (c # p) # ps))"

text \<open>\<open>strings.ReplaceAll(s, old, new)\<close> for a non-empty \<open>old\<close>: matches from the left without overlap;
  \<open>k\<close> bytes of the last match are still to be skipped.\<close>

fun replace_skip :: "nat \<Rightarrow> string \<Rightarrow> string \<Rightarrow> string \<Rightarrow> string" where
  "replace_skip k old new [] = []"
| "replace_skip (Suc k) old new (c # cs) = replace_skip k old new cs"
| "replace_skip 0 old new (c # cs) =
     (if has_prefix (c # cs) old then new @ replace_skip (length old - 1) old new cs
      else c # replace_skip 0 old new cs)"

definition replace_all :: "string \<Rightarrow> string \<Rightarrow> string \<Rightarrow> string" where
  "replace_all old new s = replace_skip 0 old new s"

fun join :: "string \<Rightarrow> string list \<Rightarrow> string" where
  "join sep [] = []"
| "join sep [s] = s"
| "join sep (s # t # ts) = s @ sep @ join sep (t # ts)"

lemma split_char_nonempty [simp]: "split_char d s \<noteq> []"
  by (cases s) (auto split: list.splits)

lemma join_Cons: "ps \<noteq> [] \<Longrightarrow> join sep (p # ps) = p @ sep @ join sep ps"
  by (cases ps) auto

lemma join_Cons_head: "join sep ((c # p) # ps) = c # join sep (p # ps)"
  by (cases ps) auto

text \<open>Splitting at a separator and joining with it again gives the string back.\<close>

lemma join_split_char [simp]: "join [d] (split_char d s) = s"
proof (induction s)
  case (Cons c cs)
  show ?case
  proof (cases "c = d")
    case True
    with Cons show ?thesis by (simp add: join_Cons)
  next
    case False
    obtain p ps where "split_char d cs = p # ps" by (cases "split_char d cs") auto
    with Cons False show ?thesis by (simp add: join_Cons_head)
  qed
qed simp

lemma split_char_append:
  "d \<notin> set p \<Longrightarrow> split_char d (p @ d # s) = p # split_char d s"
  by (induction p) auto

lemma split_char_atom: "d \<notin> set p \<Longrightarrow> split_char d p = [p]"
  by (induction p) auto

lemma split_char_join: "ps \<noteq> [] \<Longrightarrow> list_all (\<lambda>p. d \<notin> set p) ps \<Longrightarrow> split_char d (join [d] ps) = ps"
proof (induction ps)
  case (Cons p ps)
  show ?case
  proof (cases ps)
    case (Cons q qs)
    then have "join [d] (p # ps) = p @ d # join [d] ps" by (simp add: join_Cons)
    then show ?thesis using Cons.IH Cons.prems \<open>ps = q # qs\<close> by (simp add: split_char_append)
  qed (use Cons.prems in \<open>simp add: split_char_atom\<close>)
qed simp

lemma split_char_no_sep: "p \<in> set (split_char d s) \<Longrightarrow> d \<notin> set p"
proof (induction s arbitrary: p)
  case (Cons c cs)
  obtain q qs where q: "split_char d cs = q # qs" by (cases "split_char d cs") auto
  show ?case
  proof (cases "c = d")
    case True
    with Cons show ?thesis by auto
  next
    case False
    with Cons.prems q have "p = c # q \<or> p \<in> set qs" by auto
    with Cons.IH q False show ?thesis by auto
  qed
qed simp

lemma fields_aux_nonempty: "f \<in> set (fields_aux acc rs) \<Longrightarrow> f \<noteq> []"
  by (induction acc rs rule: fields_aux.induct) (auto split: if_splits)

lemma fields_aux_no_space:
  "\<forall>r \<in> set acc. \<not> is_space r \<Longrightarrow> f \<in> set (fields_aux acc rs) \<Longrightarrow> r \<in> set f \<Longrightarrow> \<not> is_space r"
proof (induction acc rs rule: fields_aux.induct)
  case (1 acc)
  then show ?case by (auto split: if_splits)
next
  case (2 acc r' rs)
  then show ?case by (auto split: if_splits)
qed

text \<open>Decimal rendering, as \<open>strconv.Itoa\<close> and \<open>fmt\<close>'s \<open>%d\<close> give it.\<close>

fun nat_digits :: "nat \<Rightarrow> string" where
  "nat_digits n = (if n < 10 then [char_of (48 + n)] else nat_digits (n div 10) @ [char_of (48 + n mod 10)])"

declare nat_digits.simps [simp del]

definition itoa :: "int \<Rightarrow> string" where
  "itoa n = (if n < 0 then ''-'' @ nat_digits (nat (- n)) else nat_digits (nat n))"

text \<open>\<open>strconv.Atoi\<close>: an optional sign and at least one decimal digit.\<close>

fun digits_value :: "nat \<Rightarrow> string \<Rightarrow> nat option" where
  "digits_value acc [] = Some acc"
| "digits_value acc (c # cs) =
     (if is_digit (byte c) then digits_value (acc * 10 + (byte c - 48)) cs else None)"

definition atoi :: "string \<Rightarrow> int option" where
  "atoi s =
     (case s of
        [] \<Rightarrow> None
      | c # cs \<Rightarrow>
          if c = CHR ''-'' then (if cs = [] then None else map_option (\<lambda>n. - int n) (digits_value 0 cs))
          else if c = CHR ''+'' then (if cs = [] then None else map_option int (digits_value 0 cs))
          else map_option int (digits_value 0 s))"

lemma nat_digits_nonempty [simp]: "nat_digits n \<noteq> []"
  by (subst nat_digits.simps) auto

lemma digits_value_append:
  "digits_value acc (xs @ ys) = Option.bind (digits_value acc xs) (\<lambda>v. digits_value v ys)"
  by (induction xs arbitrary: acc) auto

lemma digits_value_nat_digits: "digits_value 0 (nat_digits n) = Some n"
proof (induction n rule: nat_digits.induct)
  case (1 n)
  show ?case
  proof (cases "n < 10")
    case True
    then show ?thesis by (subst nat_digits.simps) (simp add: is_digit_def)
  next
    case False
    have "n mod 10 < 10" by simp
    then show ?thesis using False 1
      by (subst nat_digits.simps) (simp add: digits_value_append is_digit_def)
  qed
qed

lemma nat_digits_hd: "\<exists>d::nat. \<exists>cs. nat_digits n = char_of (48 + d) # cs \<and> d < 10"
proof (induction n rule: nat_digits.induct)
  case (1 n)
  show ?case
  proof (cases "n < 10")
    case True
    then show ?thesis
      by (intro exI [of _ n] exI [of _ "[]"]) (subst nat_digits.simps, simp)
  next
    case False
    with 1 obtain d :: nat and cs where "nat_digits (n div 10) = char_of (48 + d) # cs" "d < 10"
      by auto
    then have "nat_digits n = char_of (48 + d) # cs @ [char_of (48 + n mod 10)]"
      using False by (subst nat_digits.simps) simp
    with \<open>d < 10\<close> show ?thesis by blast
  qed
qed

text \<open>Rendering an integer and reading it back.\<close>

lemma atoi_itoa [simp]: "atoi (itoa n) = Some n"
proof (cases "n < 0")
  case True
  then show ?thesis by (simp add: atoi_def itoa_def digits_value_nat_digits)
next
  case False
  obtain d :: nat and cs where d: "nat_digits (nat n) = char_of (48 + d) # cs" "d < 10"
    using nat_digits_hd by blast
  have "byte (char_of (48 + d)) = 48 + d" using d(2) by simp
  moreover have "byte CHR ''-'' = 45" "byte CHR ''+'' = 43" by (simp_all add: byte_def)
  ultimately have "char_of (48 + d) \<noteq> CHR ''-''" "char_of (48 + d) \<noteq> CHR ''+''" by auto
  then show ?thesis using False d(1) digits_value_nat_digits [of "nat n"]
    by (simp add: atoi_def itoa_def)
qed

lemma itoa_inject [simp]: "itoa m = itoa n \<longleftrightarrow> m = n"
  by (metis atoi_itoa option.inject)

section \<open>Idempotence\<close>

text \<open>Decoding gives code points that UTF-8 can carry, so lower-casing is idempotent.\<close>

lemma valid_rune_error [simp]: "valid_rune rune_error"
  by (simp add: valid_rune_def rune_error_def)

lemma byte_lt [simp]: "byte c < 256"
  by (simp add: byte_def)

lemma runes_valid: "list_all valid_rune (runes s)"
proof (induction s rule: runes.induct)
  case (2 c cs)
  have b: "byte c' < 256" for c' by simp
  show ?case
  proof (cases "byte c < 128")
    case True
    with 2 show ?thesis by (simp add: valid_rune_def)
  next
    case False
    have two: "valid_rune ((byte c - 192) * 64 + (byte c1 - 128))"
      if "194 \<le> byte c" "byte c < 224" "is_cont (byte c1)" for c1
      using that unfolding valid_rune_def is_cont_def by linarith
    have three: "valid_rune ((byte c - 224) * 4096 + (byte c1 - 128) * 64 + (byte c2 - 128))"
      if "224 \<le> byte c" "byte c < 240" "is_cont (byte c1)" "byte c = 237 \<longrightarrow> byte c1 < 160" "is_cont (byte c2)"
      for c1 c2
    proof -
      consider "byte c \<le> 236" | "byte c = 237" | "238 \<le> byte c" by linarith
      then show ?thesis
        by cases (use that in \<open>unfold valid_rune_def is_cont_def, linarith+\<close>)
    qed
    have four: "valid_rune ((byte c - 240) * 262144 + (byte c1 - 128) * 4096 + (byte c2 - 128) * 64 + (byte c3 - 128))"
      if "240 \<le> byte c" "byte c < 245" "is_cont (byte c1)" "byte c = 240 \<longrightarrow> 144 \<le> byte c1"
        "byte c = 244 \<longrightarrow> byte c1 < 144" "is_cont (byte c2)" "is_cont (byte c3)" for c1 c2 c3
    proof -
      note h = that
      define n where "n = (byte c - 240) * 262144 + (byte c1 - 128) * 4096 + (byte c2 - 128) * 64 + (byte c3 - 128)"
      have k: "byte c1 - 128 < 64" "byte c2 - 128 < 64" "byte c3 - 128 < 64"
        using h(3,6,7) unfolding is_cont_def by linarith+
      consider "byte c = 240" | "241 \<le> byte c" "byte c \<le> 243" | "byte c = 244" using h(1,2) by linarith
      then have "65536 \<le> n \<and> n < 1114112"
      proof cases
        case 1
        then have "16 \<le> byte c1 - 128" "n = (byte c1 - 128) * 4096 + (byte c2 - 128) * 64 + (byte c3 - 128)"
          using h(4) unfolding n_def by simp_all
        with k show ?thesis by linarith
      next
        case 2
        then have "1 \<le> byte c - 240" "byte c - 240 \<le> 3" by linarith+
        with k show ?thesis unfolding n_def by linarith
      next
        case 3
        then have "byte c1 - 128 < 16" "byte c - 240 = 4" using h(5) h(3) unfolding is_cont_def by simp_all
        with k show ?thesis unfolding n_def by linarith
      qed
      then show ?thesis unfolding n_def [symmetric] valid_rune_def by simp
    qed
    show ?thesis
      using 2 False by (auto simp: two three four split: list.splits)
  qed
qed simp

lemma to_lower_idem [simp]: "to_lower (to_lower s) = to_lower s"
proof -
  have "list_all valid_rune (map lower_rune (runes s))"
    using runes_valid [of s] by (induction "runes s") (auto simp: list_all_iff)
  then show ?thesis unfolding to_lower_def by (simp add: comp_def)
qed

lemma upper_rune_idem [simp]: "upper_rune (upper_rune r) = upper_rune r"
proof (cases "upper_rune r = r")
  case False
  then consider "97 \<le> r" "r \<le> 122" | "224 \<le> r" "r \<le> 254" "r \<noteq> 247" | "1104 \<le> r" "r \<le> 1119"
    | "1072 \<le> r" "r \<le> 1103"
    by (auto simp: upper_rune_def split: if_splits)
  then show ?thesis by cases (auto simp: upper_rune_def)
qed simp

lemma upper_rune_changed: "upper_rune r \<noteq> r \<Longrightarrow> 65 \<le> upper_rune r \<and> \<not> is_space (upper_rune r) \<and> \<not> is_space r"
  by (auto simp: upper_rune_def is_space_def split: if_splits)

lemma is_space_upper [simp]: "is_space (upper_rune r) = is_space r"
  using upper_rune_changed [of r] by (cases "upper_rune r = r") auto

lemma trim_runes_idem [simp]: "trim_runes P (trim_runes P rs) = trim_runes P rs"
proof -
  let ?a = "dropWhile P rs"
  let ?b = "rev (dropWhile P (rev ?a))"
  have "dropWhile P ?b = ?b"
  proof (cases "?b = []")
    case False
    obtain zs where z: "?a = ?b @ zs" by (metis rev_append rev_rev_ident takeWhile_dropWhile_id)
    with False have a: "?a \<noteq> []" by (metis append_is_Nil_conv)
    have "hd ?a = hd ?b" using z False by (metis hd_append2)
    then have "\<not> P (hd ?b)" using hd_dropWhile [OF a] by simp
    then show ?thesis using False by (cases ?b) auto
  next
    case True
    show ?thesis unfolding True by simp
  qed
  then show ?thesis by (simp add: trim_runes_def)
qed

lemma set_trim_runes: "set (trim_runes P rs) \<subseteq> set rs"
proof
  fix x assume "x \<in> set (trim_runes P rs)"
  then have "x \<in> set (dropWhile P (rev (dropWhile P rs)))" by (simp add: trim_runes_def)
  from set_dropWhileD [OF this] show "x \<in> set rs" using set_dropWhileD [of x P rs] by simp
qed

lemma trim_runes_valid: "list_all valid_rune rs \<Longrightarrow> list_all valid_rune (trim_runes P rs)"
  using set_trim_runes [of P rs] by (auto simp: list_all_iff)

lemma trim_runes_map: "trim_runes P (map f rs) = map f (trim_runes (P \<circ> f) rs)"
  by (simp add: trim_runes_def dropWhile_map rev_map)

lemma upper_trim_idem:
  "to_upper (trim_space (to_upper (trim_space s))) = to_upper (trim_space s)"
proof -
  let ?r = "trim_runes is_space (runes s)"
  have v: "list_all valid_rune ?r" by (simp add: trim_runes_valid runes_valid)
  then have u: "list_all valid_rune (map upper_rune ?r)" by (auto simp: list_all_iff)
  have "is_space \<circ> upper_rune = is_space" by (simp add: fun_eq_iff)
  then have "trim_runes is_space (map upper_rune ?r) = map upper_rune ?r" by (simp add: trim_runes_map)
  then show ?thesis using u v by (simp add: to_upper_def trim_space_def comp_def)
qed

lemmas string_eval = byte_def to_upper_def to_lower_def trim_space_def trim_runes_def is_space_def
  upper_rune_def lower_rune_def utf8_def utf8_rune_def char_of_eq_iff take_bit_eq_mod

end
