(* ===== verification/Network.thy ===== *)
theory Network
  imports GoText
begin

text \<open>
  The canonical data model (\<open>internal/model/model.go\<close>): modes, stops, trips, transfers,
  connections, the network with its build-time indexes, search parameters and journeys; the
  speed limits, the mode parser, \<open>BuildIndexes\<close> and \<open>BuildWalkTransfers\<close>.
  Maps the code ranges over are association lists in iteration order.
\<close>

section \<open>Coordinates and distance\<close>

record coords =
  co_lat :: real
  co_lon :: real

text \<open>Conversion \<open>int(f)\<close> of a float truncates towards zero.\<close>

definition go_trunc :: "real \<Rightarrow> int" where
  "go_trunc x = (if 0 \<le> x then \<lfloor>x\<rfloor> else \<lceil>x\<rceil>)"

text \<open>The argument of the arcsine in the haversine formula, and the formula itself.\<close>

definition haversine_h :: "real \<Rightarrow> real \<Rightarrow> real \<Rightarrow> real \<Rightarrow> real" where
  "haversine_h lat1 lon1 lat2 lon2 =
     (let dLat = (lat2 - lat1) * pi / 180;
          dLon = (lon2 - lon1) * pi / 180;
          sa = sin (dLat / 2);
          sb = sin (dLon / 2)
      in sa * sa + cos (lat1 * pi / 180) * cos (lat2 * pi / 180) * sb * sb)"

definition haversineKm :: "real \<Rightarrow> real \<Rightarrow> real \<Rightarrow> real \<Rightarrow> real" where
  "haversineKm lat1 lon1 lat2 lon2 = 2 * 6371 * arcsin (sqrt (haversine_h lat1 lon1 lat2 lon2))"

definition valid_lat :: "real \<Rightarrow> bool" where
  "valid_lat x \<longleftrightarrow> - 90 \<le> x \<and> x \<le> 90"

lemma haversine_h_sym: "haversine_h a b c d = haversine_h c d a b"
proof -
  have "(a - c) * pi / 180 / 2 = - ((c - a) * pi / 180 / 2)"
    and "(b - d) * pi / 180 / 2 = - ((d - b) * pi / 180 / 2)" by (simp_all add: field_simps)
  then show ?thesis by (simp add: haversine_h_def Let_def mult.commute mult.left_commute)
qed

lemma haversine_h_same [simp]: "haversine_h a b a b = 0"
  by (simp add: haversine_h_def Let_def)

lemma cos_lat_nonneg: "valid_lat x \<Longrightarrow> 0 \<le> cos (x * pi / 180)"
proof -
  assume "valid_lat x"
  then have "(- 90) * pi \<le> x * pi" "x * pi \<le> 90 * pi"
    unfolding valid_lat_def by (auto intro!: mult_right_mono simp del: mult_minus_left)
  then have "- (pi / 2) \<le> x * pi / 180" "x * pi / 180 \<le> pi / 2" by auto
  then show ?thesis by (rule cos_ge_zero)
qed

lemma haversine_h_nonneg:
  assumes "valid_lat a" "valid_lat c"
  shows "0 \<le> haversine_h a b c d"
  using cos_lat_nonneg [OF assms(1)] cos_lat_nonneg [OF assms(2)]
  by (simp add: haversine_h_def Let_def mult.assoc)

lemma haversine_h_le_1: "haversine_h a b c d \<le> 1"
proof -
  define u v w where "u = a * pi / 180" and "v = c * pi / 180" and "w = (d - b) * pi / 180 / 2"
  have uv: "(c - a) * pi / 180 / 2 = (v - u) / 2" by (simp add: u_def v_def field_simps)
  have "cos u * cos v = (cos (u - v) + cos (u + v)) / 2" by (simp add: cos_diff cos_add)
  also have "\<dots> \<le> (cos (u - v) + 1) / 2" by simp
  also have "cos (u - v) = cos (2 * ((v - u) / 2))"
  proof -
    have "2 * ((v - u) / 2) = v - u" by simp
    moreover have "cos (u - v) = cos (v - u)" by (simp add: cos_diff mult.commute)
    ultimately show ?thesis by (simp only:)
  qed
  also have "\<dots> = 2 * (cos ((v - u) / 2))\<^sup>2 - 1" by (rule cos_double_cos)
  finally have c: "cos u * cos v \<le> (cos ((v - u) / 2))\<^sup>2" by simp
  have s: "0 \<le> (sin w)\<^sup>2" "(sin w)\<^sup>2 \<le> 1" by (simp_all add: abs_square_le_1)
  have "cos u * cos v * (sin w)\<^sup>2 \<le> (cos ((v - u) / 2))\<^sup>2 * (sin w)\<^sup>2"
    using c s(1) by (rule mult_right_mono)
  also have "\<dots> \<le> (cos ((v - u) / 2))\<^sup>2 * 1"
    using s(2) by (rule mult_left_mono) simp
  finally have "(sin ((v - u) / 2))\<^sup>2 + cos u * cos v * (sin w)\<^sup>2 \<le> 1"
    using sin_cos_squared_add [of "(v - u) / 2"] by linarith
  moreover have "haversine_h a b c d = (sin ((v - u) / 2))\<^sup>2 + cos u * cos v * (sin w)\<^sup>2"
    unfolding haversine_h_def Let_def uv
    by (simp only: power2_eq_square mult.assoc u_def [symmetric] v_def [symmetric] w_def [symmetric])
  ultimately show ?thesis by simp
qed

lemma haversineKm_sym: "haversineKm a b c d = haversineKm c d a b"
  by (simp add: haversineKm_def haversine_h_sym [of a b])

lemma haversineKm_same [simp]: "haversineKm a b a b = 0"
  by (simp add: haversineKm_def)

lemma haversineKm_bounds:
  assumes "valid_lat a" "valid_lat c"
  shows "0 \<le> haversineKm a b c d" and "haversineKm a b c d \<le> 6371 * pi"
proof -
  let ?h = "sqrt (haversine_h a b c d)"
  have h: "0 \<le> ?h" "?h \<le> 1"
    using haversine_h_nonneg [OF assms] haversine_h_le_1 by simp_all
  have h': "- 1 \<le> ?h" using h(1) by linarith
  have "arcsin 0 \<le> arcsin ?h" using h by (intro arcsin_le_arcsin) auto
  then show "0 \<le> haversineKm a b c d" by (simp add: haversineKm_def)
  have "arcsin ?h \<le> pi / 2" using h' h(2) by (rule arcsin_ubound)
  then show "haversineKm a b c d \<le> 6371 * pi" by (simp add: haversineKm_def)
qed

text \<open>A quarter turn along the equator, a distance that evaluates in closed form.\<close>

lemma haversineKm_antipodes: "haversineKm 0 (- 90) 0 90 = 6371 * pi"
  by (simp add: haversineKm_def haversine_h_def Let_def)

section \<open>Modes\<close>

type_synonym mode = string

definition ModeWalk :: mode where [go_simps]: "ModeWalk = ''walk''"
definition ModeBus :: mode where [go_simps]: "ModeBus = ''bus''"
definition ModeCoach :: mode where [go_simps]: "ModeCoach = ''coach''"
definition ModeTram :: mode where [go_simps]: "ModeTram = ''tram''"
definition ModeRail :: mode where [go_simps]: "ModeRail = ''rail''"
definition ModeMetro :: mode where [go_simps]: "ModeMetro = ''metro''"
definition ModeTaxi :: mode where [go_simps]: "ModeTaxi = ''taxi''"
definition ModeCar :: mode where [go_simps]: "ModeCar = ''car''"
definition ModeFlight :: mode where [go_simps]: "ModeFlight = ''flight''"

definition MaxSpeed :: "mode \<Rightarrow> real" where
  "MaxSpeed m = (if m = ModeFlight then 1000 else if m = ModeRail then 250 else 120)"

definition ParseTransitMode :: "string \<Rightarrow> mode option" where
  "ParseTransitMode s =
     (if s = ''bus'' \<or> s = ''BUS'' then Some ModeBus
      else if s = ''coach'' \<or> s = ''COACH'' then Some ModeBus
      else if s = ''tram'' \<or> s = ''TRAM'' then Some ModeTram
      else if s = ''rail'' \<or> s = ''RAIL'' then Some ModeRail
      else if s = ''metro'' \<or> s = ''METRO'' then Some ModeMetro
      else if s = ''flight'' \<or> s = ''FLIGHT'' then Some ModeFlight
      else if s = ''walk'' \<or> s = ''WALK'' then Some ModeWalk
      else None)"

fun parse_modes_loop :: "mode list \<Rightarrow> string list \<Rightarrow> mode list" where
  "parse_modes_loop out [] = out"
| "parse_modes_loop out (p # ps) =
     (let p' = trim_space p in
      if p' = '''' then parse_modes_loop out ps
      else (case ParseTransitMode p' of
          Some m \<Rightarrow> parse_modes_loop (if m \<in> set out then out else out @ [m]) ps
        | None \<Rightarrow> parse_modes_loop out ps))"

definition ParseTransitModes :: "string \<Rightarrow> mode list" where
  "ParseTransitModes csv = (if csv = '''' then [] else parse_modes_loop [] (split_char CHR '','' csv))"

lemma MaxSpeed_pos: "0 < MaxSpeed m"
  by (simp add: MaxSpeed_def)

lemma parse_modes_loop_set:
  "set (parse_modes_loop out ps) =
     set out \<union> {m. \<exists>p \<in> set ps. ParseTransitMode (trim_space p) = Some m}"
proof (induction out ps rule: parse_modes_loop.induct)
  case (2 out p ps)
  show ?case
  proof (cases "trim_space p = ''''")
    case True
    then have "ParseTransitMode (trim_space p) = None" by (simp add: ParseTransitMode_def)
    with 2 True show ?thesis by simp
  next
    case False
    with 2 show ?thesis by (auto simp: Let_def split: option.splits)
  qed
qed simp

lemma parse_modes_loop_distinct: "distinct out \<Longrightarrow> distinct (parse_modes_loop out ps)"
  by (induction out ps rule: parse_modes_loop.induct) (auto simp: Let_def split: option.splits)

section \<open>Stops, trips, connections\<close>

record stop =
  stop_id :: string
  stop_provider :: string
  stop_name :: string
  stop_lat :: real
  stop_lon :: real
  stop_type :: string
  stop_zone :: string
  stop_cell :: "64 word" \<comment> \<open>\<open>GeoCell\<close>, set by \<open>BuildIndexes\<close>\<close>

definition Coordinates :: "stop \<Rightarrow> coords" where
  "Coordinates s = \<lparr>co_lat = stop_lat s, co_lon = stop_lon s\<rparr>"

definition StopTypeStation :: string where [go_simps]: "StopTypeStation = ''station''"
definition StopTypePlatform :: string where [go_simps]: "StopTypePlatform = ''platform''"
definition StopTypeHub :: string where [go_simps]: "StopTypeHub = ''hub''"
definition StopTypeAirport :: string where [go_simps]: "StopTypeAirport = ''airport''"

definition IsHub :: "stop \<Rightarrow> bool" where
  "IsHub s \<longleftrightarrow> stop_type s = StopTypeHub"

record stop_time =
  st_stop :: string
  st_seq :: int
  st_arr :: int
  st_dep :: int
  st_pickup :: int
  st_dropoff :: int
  st_provisional :: bool

record trip =
  trip_id :: string
  trip_route :: string
  trip_provider :: string
  trip_mode :: mode
  trip_service :: int
  trip_stops :: "stop_time list"

record route =
  route_id :: string
  route_provider :: string
  route_short :: string
  route_long :: string
  route_mode :: mode

record transfer =
  tr_from :: string
  tr_to :: string
  tr_minutes :: int
  tr_min_time :: int
  tr_dist :: int

record connection =
  c_trip :: string
  c_provider :: string
  c_route :: string
  c_mode :: mode
  c_from :: string
  c_to :: string
  c_dep :: gotime
  c_arr :: gotime

record fare_attribute =
  fa_id :: string
  fa_price :: real
  fa_currency :: string
  fa_basis :: string

record fare_rule =
  fr_fare :: string
  fr_route :: string
  fr_origin :: "string option"
  fr_dest :: "string option"

record zone =
  zn_id :: string
  zn_ru :: string
  zn_en :: string
  zn_lat :: real
  zn_lon :: real

record network =
  n_stops :: "(string \<times> stop) list"
  n_routes :: "(string \<times> route) list"
  n_trips :: "(string \<times> trip) list"
  n_connections :: "connection list"
  n_transfers :: "transfer list"
  n_fares :: "(string \<times> fare_attribute) list"
  n_fare_rules :: "fare_rule list"
  n_zones :: "(string \<times> zone) list"
  n_stop_zones :: "(string \<times> string) list"
  n_by_stop :: "(string \<times> transfer list) list"
  n_provisional :: "string \<Rightarrow> bool"
  n_route_stops :: "(string \<times> string list) list"
  n_trip_stops :: "(string \<times> string list) list"
  n_min_time :: gotime
  n_max_time :: gotime

definition NewNetwork :: network where
  "NewNetwork =
     \<lparr>n_stops = [], n_routes = [], n_trips = [], n_connections = [], n_transfers = [],
      n_fares = [], n_fare_rules = [], n_zones = [], n_stop_zones = [], n_by_stop = [],
      n_provisional = (\<lambda>_. False), n_route_stops = [], n_trip_stops = [],
      n_min_time = zero_time, n_max_time = zero_time\<rparr>"

text \<open>\<open>net.Stops[id]\<close>, with \<open>nil\<close> for an absent key.\<close>

definition stop_at :: "network \<Rightarrow> string \<Rightarrow> stop option" where
  "stop_at net i = map_of (n_stops net) i"

section \<open>Search parameters and journeys\<close>

record search_params =
  p_departure :: gotime
  p_arrival :: "gotime option"
  p_zone_offset :: duration \<comment> \<open>the offset from UTC carried by the request's times\<close>
  p_max_transfers :: int
  p_modes :: "mode list"
  p_max_walk :: int
  p_allow_gap :: bool
  p_preference :: string

definition PreferenceArrival :: string where [go_simps]: "PreferenceArrival = ''arrival''"
definition PreferenceTransfers :: string where [go_simps]: "PreferenceTransfers = ''transfers''"

record cost =
  cost_has :: bool
  cost_amount :: real
  cost_currency :: string
  cost_basis :: string
  cost_method :: string

definition no_cost :: cost where
  "no_cost = \<lparr>cost_has = False, cost_amount = 0, cost_currency = '''', cost_basis = '''', cost_method = ''''\<rparr>"

record leg_point =
  lp_stop :: string
  lp_name :: string
  lp_lat :: real
  lp_lon :: real

record leg =
  l_mode :: mode
  l_provider :: string
  l_route :: string
  l_trip :: string
  l_from :: leg_point
  l_to :: leg_point
  l_dep :: gotime
  l_arr :: gotime
  l_self :: bool
  l_cost :: cost

text \<open>
  A promoted journey carries the demoted one, with its own alternatives, among its
  alternatives: the type is recursive.
\<close>

datatype journey =
  Journey (j_from: coords) (j_to: coords) (j_dep: gotime) (j_arr: gotime) (j_legs: "leg list")
    (j_transfers: int) (j_alts: "journey list")

end
