(* ===== verification/StopNames.thy ===== *)
theory StopNames
  imports Network
begin

text \<open>
  Classification of stops by name (\<open>IsVillageName\<close>, \<open>InferStopType\<close> of \<open>internal/model/model.go\<close>)
  and the administrative levels of \<open>level.go\<close>. The Russian words are written as code points.
\<close>

section \<open>Village stops\<close>

definition ru_op :: string where "ru_op = utf8 [1086, 1087]"
definition ru_pov_dot :: string where "ru_pov_dot = utf8 [1087, 1086, 1074, 46]"

definition village_words :: "string list" where
  "village_words =
     [utf8 [1086, 1089, 1090, 1072, 1085, 1086, 1074, 1086, 1095, 1085, 1099, 1081, 32, 1087, 1091, 1085, 1082, 1090],
      utf8 [1086, 1089, 1090, 46, 32, 1087, 1091, 1085, 1082, 1090],
      utf8 [1086, 1089, 1090, 1072, 1085, 1086, 1074, 1086, 1095, 1085, 1099, 1081],
      utf8 [1087, 1086, 1074, 1086, 1088, 1086, 1090], ru_pov_dot]"

text \<open>One token, cleaned of blanks and punctuation.\<close>

definition village_token :: "string \<Rightarrow> bool" where
  "village_token tok =
     (let clean = trim tok [32, 9, 34, 39, 171, 187, 46, 44, 59, 58, 33, 42] in
      if clean \<in> {ru_op, utf8 [1086, 1087, 46], utf8 [1086, 46, 1087, 46], utf8 [1086, 46, 1087]} then True
      else has_prefix clean ru_op \<and> length (runes clean) \<le> 5 \<and>
           (clean = ru_op \<or> has_prefix clean (utf8 [1086, 1087, 171]) \<or> has_prefix clean (utf8 [1086, 1087, 34])))"

definition IsVillageName :: "string \<Rightarrow> bool" where
  "IsVillageName name =
     (let lower = to_lower name in
      if list_ex (contains lower) village_words then True
      else if list_ex village_token (Fields lower) then True
      else if has_prefix lower (utf8 [1086, 1087, 32]) \<or> contains lower (utf8 [32, 1086, 1087, 32])
           \<or> contains lower (utf8 [32, 1086, 1087, 171]) \<or> contains lower (utf8 [1086, 1087, 32, 171]) then True
      else contains lower (utf8 [32, 1087, 1086, 1074, 32]) \<or> has_prefix lower (utf8 [1087, 1086, 1074, 32])
           \<or> contains lower ru_pov_dot)"

definition VillagePenaltyMinutes :: "string \<Rightarrow> int" where
  "VillagePenaltyMinutes name = (if IsVillageName name then 15 else 0)"

section \<open>Stop types\<close>

definition ru_avtovokzal :: string where
  "ru_avtovokzal = utf8 [1072, 1074, 1090, 1086, 1074, 1086, 1082, 1079, 1072, 1083]"

definition ru_avtostantsiya :: string where
  "ru_avtostantsiya = utf8 [1072, 1074, 1090, 1086, 1089, 1090, 1072, 1085, 1094, 1080, 1103]"

definition hub_token :: "string \<Rightarrow> bool" where
  "hub_token t \<longleftrightarrow> t = utf8 [1072, 1074] \<or> t = utf8 [1072, 1074, 1090] \<or> t = utf8 [1072, 47, 1074]
     \<or> contains t ru_avtovokzal \<or> contains t ru_avtostantsiya"

definition InferStopType :: "string \<Rightarrow> string" where
  "InferStopType name =
     (let lower = to_lower name in
      if contains lower (utf8 [1072, 1101, 1088, 1086, 1087, 1086, 1088, 1090]) then StopTypeAirport
      else if list_ex hub_token (Fields lower) then StopTypeHub
      else if contains lower ru_avtovokzal \<or> contains lower ru_avtostantsiya then StopTypeHub
      else if IsVillageName name then StopTypePlatform
      else if contains lower (utf8 [1074, 1086, 1082, 1079, 1072, 1083]) then StopTypeStation
      else StopTypeStation)"

text \<open>classification by name does not depend on letter case.\<close>

theorem classification_case_insensitive:
  "IsVillageName (to_lower n) = IsVillageName n \<and> InferStopType (to_lower n) = InferStopType n \<and>
   VillagePenaltyMinutes (to_lower n) = VillagePenaltyMinutes n"
proof -
  have v: "IsVillageName (to_lower n) = IsVillageName n" by (simp add: IsVillageName_def)
  then show ?thesis by (simp add: InferStopType_def VillagePenaltyMinutes_def Let_def)
qed

section \<open>Administrative levels\<close>

datatype level = LevelCountry | LevelFederalDistrict | LevelRegion | LevelDistrict | LevelCity | LevelCityDistrict

definition LevelForAdminLevel :: "int \<Rightarrow> level option" where
  "LevelForAdminLevel n =
     map_of [(2, LevelCountry), (3, LevelFederalDistrict), (4, LevelRegion), (6, LevelDistrict),
             (8, LevelCity), (9, LevelCityDistrict), (10, LevelCityDistrict)] n"

fun AdminLevel :: "level \<Rightarrow> int" where
  "AdminLevel LevelCountry = 2"
| "AdminLevel LevelFederalDistrict = 3"
| "AdminLevel LevelRegion = 4"
| "AdminLevel LevelDistrict = 6"
| "AdminLevel LevelCity = 8"
| "AdminLevel LevelCityDistrict = 9"

fun level_String :: "level \<Rightarrow> string" where
  "level_String LevelCountry = ''country''"
| "level_String LevelFederalDistrict = ''federal_district''"
| "level_String LevelRegion = ''region''"
| "level_String LevelDistrict = ''district''"
| "level_String LevelCity = ''city''"
| "level_String LevelCityDistrict = ''city_district''"

text \<open>\<open>AdminLevel\<close> inverts \<open>LevelForAdminLevel\<close> except on the second level of city
  districts, and different levels print differently.\<close>

theorem level_roundtrip:
  "LevelForAdminLevel (AdminLevel l) = Some l \<and>
   (LevelForAdminLevel n = Some l \<longleftrightarrow> n = AdminLevel l \<or> (n = 10 \<and> l = LevelCityDistrict)) \<and>
   (level_String l = level_String l' \<longleftrightarrow> l = l')"
  by (cases l; cases l') (auto simp: LevelForAdminLevel_def split: if_splits)

end
