(* ===== verification/Geo.thy ===== *)
theory Geo
  imports Network
begin

unbundle bit_operations_syntax

text \<open>
  The \<open>geo\<close> package: great-circle distance, walking times, the nearest-stop search
  (\<open>geo.go\<close>) and its grid index (\<open>index.go\<close>), whose cell keys are 64-bit words.
\<close>

section \<open>Distances and walking times\<close>

definition Haversine :: "coords \<Rightarrow> coords \<Rightarrow> real" where
  "Haversine a b = 2 * 6371 * arcsin (sqrt (haversine_h (co_lat a) (co_lon a) (co_lat b) (co_lon b)))"

definition max_int :: int where
  "max_int = 9223372036854775807"

text \<open>
  \<open>float64(math.MaxInt)\<close> is \<open>2\<^sup>6\<^sup>3\<close>, one above \<open>max_int\<close>. Infinities and NaN do not exist on
  the reals.
\<close>

definition WalkTimeMinutes :: "real \<Rightarrow> int" where
  "WalkTimeMinutes distKm =
     (if distKm \<le> 0 then 0
      else let m = distKm / 5 * 60 in if m > 9223372036854775808 then max_int else \<lceil>m\<rceil>)"

definition WalkRadiusKm :: "int \<Rightarrow> real" where
  "WalkRadiusKm maxWalk = 5 * of_int maxWalk / 60"

lemma Haversine_sym: "Haversine a b = Haversine b a"
  by (simp add: Haversine_def haversine_h_sym [of "co_lat a"])

lemma Haversine_same [simp]: "Haversine a a = 0"
  by (simp add: Haversine_def)

lemma Haversine_model: "Haversine a b = haversineKm (co_lat a) (co_lon a) (co_lat b) (co_lon b)"
  by (simp add: Haversine_def haversineKm_def)

lemma Haversine_bounds:
  assumes "valid_lat (co_lat a)" "valid_lat (co_lat b)"
  shows "0 \<le> Haversine a b \<and> Haversine a b \<le> 6371 * pi"
  using haversineKm_bounds [OF assms] by (simp add: Haversine_model)

lemma WalkTimeMinutes_nonneg [simp]: "0 \<le> WalkTimeMinutes d"
  by (auto simp: WalkTimeMinutes_def Let_def max_int_def)

text \<open>Within a limit of \<open>m\<close> minutes exactly when inside the radius for \<open>m\<close> minutes.\<close>

lemma WalkTimeMinutes_le_iff:
  assumes "0 \<le> m" "m < max_int"
  shows "WalkTimeMinutes d \<le> m \<longleftrightarrow> d \<le> WalkRadiusKm m"
proof (cases "d \<le> 0")
  case True
  have "0 \<le> WalkRadiusKm m" using assms by (simp add: WalkRadiusKm_def)
  with True assms show ?thesis by (simp add: WalkTimeMinutes_def)
next
  case False
  have r: "d / 5 * 60 \<le> of_int m \<longleftrightarrow> d \<le> WalkRadiusKm m"
    by (simp add: WalkRadiusKm_def field_simps)
  show ?thesis
  proof (cases "d / 5 * 60 > 9223372036854775808")
    case True
    have "of_int m < (9223372036854775808 :: real)" using assms by (simp add: max_int_def)
    with True have "\<not> d / 5 * 60 \<le> of_int m" by linarith
    with r have "\<not> d \<le> WalkRadiusKm m" by blast
    with True False assms show ?thesis by (simp add: WalkTimeMinutes_def Let_def)
  next
    case False
    with \<open>\<not> d \<le> 0\<close> have "WalkTimeMinutes d = \<lceil>d / 5 * 60\<rceil>"
      by (simp add: WalkTimeMinutes_def Let_def)
    then show ?thesis using r by (simp only: ceiling_le_iff)
  qed
qed

section \<open>Nearest stops\<close>

text \<open>The order of the result: by distance, then by identifier.\<close>

definition dist_less :: "coords \<Rightarrow> stop \<Rightarrow> stop \<Rightarrow> bool" where
  "dist_less p a b =
     (let d1 = Haversine p (Coordinates a); d2 = Haversine p (Coordinates b)
      in if d1 \<noteq> d2 then d1 < d2 else stop_id a < stop_id b)"

definition take_limit :: "int \<Rightarrow> 'a list \<Rightarrow> 'a list" where
  "take_limit limit xs = (if 0 < limit \<and> limit < int (length xs) then take (nat limit) xs else xs)"

definition NearestStops :: "(string \<times> stop) list \<Rightarrow> coords \<Rightarrow> int \<Rightarrow> int \<Rightarrow> stop list" where
  "NearestStops stops p maxWalk limit =
     take_limit limit
       (sort_by (dist_less p)
          (filter (\<lambda>s. Haversine p (Coordinates s) \<le> WalkRadiusKm maxWalk) (map snd stops)))"

lemma weak_order_dist_less: "weak_order (dist_less p)"
  by (rule weak_orderI) (auto simp: dist_less_def Let_def split: if_splits)

lemma set_take_limit: "set (take_limit limit xs) \<subseteq> set xs"
  by (auto simp: take_limit_def dest: in_set_takeD)

lemma take_limit_0 [simp]: "take_limit 0 xs = xs"
  by (simp add: take_limit_def)

lemma sorted_wrt_take_limit: "sorted_wrt P xs \<Longrightarrow> sorted_wrt P (take_limit limit xs)"
  by (simp add: take_limit_def sorted_wrt_take)

lemma set_NearestStops_0:
  "set (NearestStops stops p maxWalk 0) =
     {s \<in> snd ` set stops. Haversine p (Coordinates s) \<le> WalkRadiusKm maxWalk}"
  by (auto simp: NearestStops_def)

lemma NearestStops_sorted:
  "sorted_wrt (\<lambda>a b. \<not> dist_less p b a) (NearestStops stops p maxWalk limit)"
  unfolding NearestStops_def by (intro sorted_wrt_take_limit sorted_sort_by weak_order_dist_less)

lemma NearestStops_sorted_dist:
  "sorted_wrt (\<lambda>a b. Haversine p (Coordinates a) \<le> Haversine p (Coordinates b))
     (NearestStops stops p maxWalk limit)"
proof (rule sorted_wrt_mono_rel [OF _ NearestStops_sorted])
  fix a b
  assume "\<not> dist_less p b a"
  then show "Haversine p (Coordinates a) \<le> Haversine p (Coordinates b)"
    by (auto simp: dist_less_def Let_def split: if_splits)
qed

section \<open>The grid index\<close>

record spatial_index =
  si_size :: real
  si_cells :: "64 word \<Rightarrow> stop list"

definition cellKey :: "real \<Rightarrow> real \<Rightarrow> real \<Rightarrow> 64 word" where
  "cellKey la lo cellSize =
     (let x = \<lfloor>lo / cellSize\<rfloor>; y = \<lfloor>la / cellSize\<rfloor>
      in push_bit 32 (word_of_int x) XOR (word_of_int y AND 0xffffffff))"

fun index_add :: "real \<Rightarrow> (64 word \<Rightarrow> stop list) \<Rightarrow> (string \<times> stop) list \<Rightarrow> (64 word \<Rightarrow> stop list)" where
  "index_add cs cells [] = cells"
| "index_add cs cells ((k, s) # rest) =
     (if stop_lat s = 0 \<and> stop_lon s = 0 then index_add cs cells rest
      else let key = cellKey (stop_lat s) (stop_lon s) cs
           in index_add cs (cells(key := cells key @ [s])) rest)"

definition NewSpatialIndex :: "(string \<times> stop) list \<Rightarrow> spatial_index" where
  "NewSpatialIndex stops = \<lparr>si_size = 1 / 100, si_cells = index_add (1 / 100) (\<lambda>_. []) stops\<rparr>"

text \<open>The key a query computes for the cell at \<open>(x, y)\<close>: \<open>(int64(x) << 32) ^ int64(int32(y))\<close>.\<close>

definition query_key :: "int \<Rightarrow> int \<Rightarrow> 64 word" where
  "query_key x y = push_bit 32 (word_of_int x) XOR scast (word_of_int y :: 32 word)"

fun collect_cell :: "coords \<Rightarrow> real \<Rightarrow> stop list \<Rightarrow> string list \<times> stop list \<Rightarrow> string list \<times> stop list" where
  "collect_cell p maxKm [] acc = acc"
| "collect_cell p maxKm (s # ss) (seen, cands) =
     (if stop_id s \<in> set seen then collect_cell p maxKm ss (seen, cands)
      else collect_cell p maxKm ss
        (stop_id s # seen,
         if Haversine p (Coordinates s) \<le> maxKm then cands @ [s] else cands))"

definition query_radius_km :: "int \<Rightarrow> real" where
  "query_radius_km maxWalk =
     (let maxKm = 5 * of_int maxWalk / 60 in if maxKm \<le> 0 then 5 * 30 / 60 else maxKm)"

definition cell_radius :: "real \<Rightarrow> int" where
  "cell_radius maxKm = \<lceil>maxKm / (111 / 100)\<rceil> + 1"

definition query_keys :: "spatial_index \<Rightarrow> coords \<Rightarrow> int \<Rightarrow> 64 word list" where
  "query_keys idx p r =
     (let cx = \<lfloor>co_lon p / si_size idx\<rfloor>; cy = \<lfloor>co_lat p / si_size idx\<rfloor>
      in concat (map (\<lambda>dx. map (\<lambda>dy. query_key (cx + dx) (cy + dy)) [-r..r]) [-r..r]))"

definition Nearest :: "spatial_index \<Rightarrow> coords \<Rightarrow> int \<Rightarrow> int \<Rightarrow> stop list" where
  "Nearest idx p maxWalk limit =
     (let maxKm = query_radius_km maxWalk;
          keys = query_keys idx p (cell_radius maxKm);
          (seen, cands) = fold (\<lambda>k. collect_cell p maxKm (si_cells idx k)) keys ([], [])
      in take_limit limit (sort_by (dist_less p) cands))"

subsection \<open>What the index stores and what a query collects\<close>

lemma set_index_add:
  "s \<in> set (index_add cs cells stops k) \<longleftrightarrow>
     s \<in> set (cells k) \<or>
     (s \<in> snd ` set stops \<and> \<not> (stop_lat s = 0 \<and> stop_lon s = 0) \<and> k = cellKey (stop_lat s) (stop_lon s) cs)"
proof (induction stops arbitrary: cells)
  case (Cons e rest)
  obtain i t where e: "e = (i, t)" by (cases e)
  let ?key = "cellKey (stop_lat t) (stop_lon t) cs"
  show ?case
  proof (cases "stop_lat t = 0 \<and> stop_lon t = 0")
    case True
    with e Cons.IH [of cells] show ?thesis by auto
  next
    case False
    define cells' where "cells' = cells(?key := cells ?key @ [t])"
    have eq: "index_add cs cells (e # rest) = index_add cs cells' rest"
      by (simp only: e index_add.simps Let_def if_not_P [OF False] cells'_def)
    have "s \<in> set (cells' k) \<longleftrightarrow> s \<in> set (cells k) \<or> (k = ?key \<and> s = t)"
      by (auto simp: cells'_def)
    with False e Cons.IH [of cells'] show ?thesis unfolding eq by auto
  qed
qed simp

lemma set_cells_NewSpatialIndex:
  "s \<in> set (si_cells (NewSpatialIndex stops) k) \<longleftrightarrow>
     s \<in> snd ` set stops \<and> \<not> (stop_lat s = 0 \<and> stop_lon s = 0) \<and>
     k = cellKey (stop_lat s) (stop_lon s) (1 / 100)"
  by (simp add: NewSpatialIndex_def set_index_add)

lemma collect_cell_sound:
  assumes "collect_cell p maxKm ss (seen, cands) = (seen', cands')"
  shows "set cands' \<subseteq> set cands \<union> {s \<in> set ss. Haversine p (Coordinates s) \<le> maxKm}"
  using assms
proof (induction p maxKm ss "(seen, cands)" arbitrary: seen cands rule: collect_cell.induct)
  case (2 p maxKm s ss seen cands)
  show ?case
  proof (cases "stop_id s \<in> set seen")
    case True
    with "2.prems" "2.hyps"(1) [OF True] show ?thesis by auto
  next
    case False
    with "2.prems" "2.hyps"(2) [OF False] show ?thesis by (auto split: if_splits)
  qed
qed simp

lemma fold_collect_sound:
  assumes "fold (\<lambda>k. collect_cell p maxKm (cells k)) keys (seen, cands) = (seen', cands')"
  shows "set cands' \<subseteq> set cands \<union> {s. (\<exists>k \<in> set keys. s \<in> set (cells k)) \<and> Haversine p (Coordinates s) \<le> maxKm}"
  using assms
proof (induction keys arbitrary: seen cands)
  case (Cons k keys)
  obtain seen1 cands1 where c: "collect_cell p maxKm (cells k) (seen, cands) = (seen1, cands1)"
    by fastforce
  with Cons.prems have "fold (\<lambda>k. collect_cell p maxKm (cells k)) keys (seen1, cands1) = (seen', cands')"
    by simp
  from Cons.IH [OF this] collect_cell_sound [OF c] show ?case by auto
qed simp

text \<open>
  Completeness of the collection when the identifiers of the stored stops are unique:
  everything seen and in range has been collected.
\<close>

definition collected :: "stop set \<Rightarrow> coords \<Rightarrow> real \<Rightarrow> string list \<times> stop list \<Rightarrow> bool" where
  "collected U p maxKm acc \<longleftrightarrow>
     (\<forall>s \<in> U. stop_id s \<in> set (fst acc) \<longrightarrow> Haversine p (Coordinates s) \<le> maxKm \<longrightarrow> s \<in> set (snd acc))"

lemma collect_cell_complete:
  assumes "inj_on stop_id U" "set ss \<subseteq> U" "collected U p maxKm (seen, cands)"
    and "collect_cell p maxKm ss (seen, cands) = (seen', cands')"
  shows "collected U p maxKm (seen', cands') \<and> set seen \<subseteq> set seen' \<and> stop_id ` set ss \<subseteq> set seen'"
  using assms(2-)
proof (induction p maxKm ss "(seen, cands)" arbitrary: seen cands rule: collect_cell.induct)
  case (2 p maxKm s ss seen cands)
  show ?case
  proof (cases "stop_id s \<in> set seen")
    case True
    with 2 show ?thesis by auto
  next
    case False
    have "collected U p maxKm (stop_id s # seen, if Haversine p (Coordinates s) \<le> maxKm then cands @ [s] else cands)"
      using "2.prems"(1,2) assms(1) unfolding collected_def by (auto dest: inj_onD)
    with "2.hyps"(2) [OF False] "2.prems" False show ?thesis by auto
  qed
qed simp

lemma fold_collect_complete:
  assumes "inj_on stop_id U" "\<And>k. set (cells k) \<subseteq> U" "collected U p maxKm (seen, cands)"
    and "fold (\<lambda>k. collect_cell p maxKm (cells k)) keys (seen, cands) = (seen', cands')"
  shows "collected U p maxKm (seen', cands') \<and> set seen \<subseteq> set seen' \<and>
    (\<forall>k \<in> set keys. stop_id ` set (cells k) \<subseteq> set seen')"
  using assms(3,4)
proof (induction keys arbitrary: seen cands)
  case (Cons k keys)
  obtain seen1 cands1 where c: "collect_cell p maxKm (cells k) (seen, cands) = (seen1, cands1)"
    by fastforce
  note step = collect_cell_complete [OF assms(1) assms(2) Cons.prems(1) c]
  from c Cons.prems have "fold (\<lambda>k. collect_cell p maxKm (cells k)) keys (seen1, cands1) = (seen', cands')"
    by simp
  from Cons.IH [OF _ this] step show ?case by auto
qed simp

subsection \<open>Keys\<close>

lemma bit_query_low: "n < 32 \<Longrightarrow> bit (query_key x y) n \<longleftrightarrow> bit y n"
  by (cases "n = 31")
    (simp_all add: query_key_def bit_xor_iff bit_push_bit_iff bit_signed_iff bit_word_of_int_iff min_def)

lemma bit_query_high:
  "32 \<le> n \<Longrightarrow> n < 64 \<Longrightarrow> bit (query_key x y) n \<longleftrightarrow> (bit x (n - 32) \<noteq> bit y 31)"
  by (auto simp: query_key_def bit_xor_iff bit_push_bit_iff bit_signed_iff bit_word_of_int_iff min_def)

lemma mask32: "(0xffffffff :: 64 word) = mask 32"
  by (simp add: mask_eq_exp_minus_1)

lemma bit_cellKey_low:
  "n < 32 \<Longrightarrow> bit (cellKey la lo cs) n \<longleftrightarrow> bit \<lfloor>la / cs\<rfloor> n"
  by (simp add: cellKey_def Let_def mask32 bit_xor_iff bit_and_iff bit_push_bit_iff bit_word_of_int_iff bit_mask_iff)

lemma bit_cellKey_high:
  "32 \<le> n \<Longrightarrow> n < 64 \<Longrightarrow> bit (cellKey la lo cs) n \<longleftrightarrow> bit \<lfloor>lo / cs\<rfloor> (n - 32)"
  by (auto simp: cellKey_def Let_def mask32 bit_xor_iff bit_and_iff bit_push_bit_iff bit_word_of_int_iff bit_mask_iff)

text \<open>The sign bit of a 32-bit value.\<close>

lemma bit31_nonneg: "0 \<le> y \<Longrightarrow> y < 2 ^ 31 \<Longrightarrow> \<not> bit (y :: int) 31"
  by (simp add: bit_iff_odd)

lemma bit31_neg: "y < 0 \<Longrightarrow> - (2 ^ 31) \<le> y \<Longrightarrow> bit (y :: int) 31"
proof -
  assume "y < 0" "- (2 ^ 31) \<le> y"
  then have "y div 2 ^ 31 = - 1" by (simp add: div_eq_minus1 div_pos_neg_trivial)
  then show ?thesis by (simp add: bit_iff_odd)
qed

lemma cellKey_eq_query:
  assumes "0 \<le> \<lfloor>la / cs\<rfloor>" "\<lfloor>la / cs\<rfloor> < 2 ^ 31"
  shows "cellKey la lo cs = query_key \<lfloor>lo / cs\<rfloor> \<lfloor>la / cs\<rfloor>"
proof (rule bit_word_eqI)
  fix n
  assume "n < LENGTH(64)"
  then show "bit (cellKey la lo cs) n = bit (query_key \<lfloor>lo / cs\<rfloor> \<lfloor>la / cs\<rfloor>) n"
    using bit31_nonneg [OF assms]
    by (cases "n < 32") (simp_all add: bit_cellKey_low bit_query_low bit_cellKey_high bit_query_high)
qed

lemma cellKey_neq_query:
  assumes y: "\<lfloor>la / cs\<rfloor> < 0" "- (2 ^ 31) \<le> \<lfloor>la / cs\<rfloor>"
    and x: "0 \<le> \<lfloor>lo / cs\<rfloor>" "\<lfloor>lo / cs\<rfloor> < 2 ^ 31"
    and q: "0 \<le> x'" "x' < 2 ^ 31" "- (2 ^ 31) \<le> y'" "y' < 2 ^ 31"
  shows "cellKey la lo cs \<noteq> query_key x' y'"
proof (cases "y' < 0")
  case True
  have "\<not> bit (cellKey la lo cs) 63" using bit31_nonneg [OF x] by (simp add: bit_cellKey_high)
  moreover have "bit (query_key x' y') 63"
    using bit31_nonneg [OF q(1,2)] bit31_neg [OF True q(3)] by (simp add: bit_query_high)
  ultimately show ?thesis by auto
next
  case False
  have "bit (cellKey la lo cs) 31" using bit31_neg [OF y] by (simp add: bit_cellKey_low)
  moreover have "\<not> bit (query_key x' y') 31"
    using bit31_nonneg [of y'] False q by (simp add: bit_query_low)
  ultimately show ?thesis by auto
qed


section \<open>What a query returns\<close>

lemma query_radius_pos: "0 < mw \<Longrightarrow> query_radius_km mw = WalkRadiusKm mw"
  by (simp add: query_radius_km_def WalkRadiusKm_def Let_def)

lemma Nearest_subset:
  "set (Nearest (NewSpatialIndex stops) p mw limit) \<subseteq>
     {s \<in> snd ` set stops. Haversine p (Coordinates s) \<le> query_radius_km mw}"
proof -
  let ?idx = "NewSpatialIndex stops" and ?r = "query_radius_km mw"
  obtain seen cands where f:
    "fold (\<lambda>k. collect_cell p ?r (si_cells ?idx k)) (query_keys ?idx p (cell_radius ?r)) ([], []) = (seen, cands)"
    by fastforce
  from fold_collect_sound [OF f]
  have "set cands \<subseteq> {s \<in> snd ` set stops. Haversine p (Coordinates s) \<le> ?r}"
    by (auto simp: set_cells_NewSpatialIndex)
  then show ?thesis using set_take_limit [of limit "sort_by (dist_less p) cands"] f
    by (auto simp: Nearest_def Let_def)
qed

lemma Nearest_sorted:
  "sorted_wrt (\<lambda>a b. \<not> dist_less p b a) (Nearest idx p mw limit)"
  unfolding Nearest_def Let_def
  by (auto split: prod.splits intro: sorted_wrt_take_limit sorted_sort_by weak_order_dist_less)

lemma Nearest_collects:
  assumes inj: "inj_on stop_id (snd ` set stops)"
    and s: "s \<in> snd ` set stops" "\<not> (stop_lat s = 0 \<and> stop_lon s = 0)"
    and d: "Haversine p (Coordinates s) \<le> query_radius_km mw"
    and k: "cellKey (stop_lat s) (stop_lon s) (1 / 100) \<in>
      set (query_keys (NewSpatialIndex stops) p (cell_radius (query_radius_km mw)))"
  shows "s \<in> set (Nearest (NewSpatialIndex stops) p mw 0)"
proof -
  let ?idx = "NewSpatialIndex stops" and ?r = "query_radius_km mw"
  obtain seen cands where f:
    "fold (\<lambda>k. collect_cell p ?r (si_cells ?idx k)) (query_keys ?idx p (cell_radius ?r)) ([], []) = (seen, cands)"
    by fastforce
  have c: "\<And>k. set (si_cells ?idx k) \<subseteq> snd ` set stops"
    by (auto simp: set_cells_NewSpatialIndex)
  have "collected (snd ` set stops) p ?r ([], [])" by (simp add: collected_def)
  note full = fold_collect_complete [OF inj c this f]
  have "s \<in> set (si_cells ?idx (cellKey (stop_lat s) (stop_lon s) (1 / 100)))"
    using s by (simp add: set_cells_NewSpatialIndex)
  with full k have "stop_id s \<in> set seen" by blast
  with full s d have "s \<in> set cands" unfolding collected_def by auto
  with f show ?thesis by (auto simp: Nearest_def Let_def)
qed

lemma set_query_keys:
  "set (query_keys (NewSpatialIndex stops) p r) =
     (\<Union>dx \<in> {-r..r}. \<Union>dy \<in> {-r..r}.
        {query_key (\<lfloor>co_lon p / (1 / 100)\<rfloor> + dx) (\<lfloor>co_lat p / (1 / 100)\<rfloor> + dy)})"
  by (auto simp: query_keys_def NewSpatialIndex_def Let_def)

lemma query_keys_iff:
  "k \<in> set (query_keys (NewSpatialIndex stops) p r) \<longleftrightarrow>
     (\<exists>x y. k = query_key x y \<and> \<bar>x - \<lfloor>co_lon p / (1 / 100)\<rfloor>\<bar> \<le> r \<and> \<bar>y - \<lfloor>co_lat p / (1 / 100)\<rfloor>\<bar> \<le> r)"
  (is "?l \<longleftrightarrow> ?r")
proof
  assume ?l
  then obtain dx dy where d: "dx \<in> {-r..r}" "dy \<in> {-r..r}"
    "k = query_key (\<lfloor>co_lon p / (1 / 100)\<rfloor> + dx) (\<lfloor>co_lat p / (1 / 100)\<rfloor> + dy)"
    unfolding set_query_keys by blast
  show ?r
    by (rule exI [of _ "\<lfloor>co_lon p / (1 / 100)\<rfloor> + dx"], rule exI [of _ "\<lfloor>co_lat p / (1 / 100)\<rfloor> + dy"])
      (use d in auto)
next
  assume ?r
  then obtain x y where xy: "k = query_key x y" "\<bar>x - \<lfloor>co_lon p / (1 / 100)\<rfloor>\<bar> \<le> r"
    "\<bar>y - \<lfloor>co_lat p / (1 / 100)\<rfloor>\<bar> \<le> r" by blast
  define dx dy where "dx = x - \<lfloor>co_lon p / (1 / 100)\<rfloor>" and "dy = y - \<lfloor>co_lat p / (1 / 100)\<rfloor>"
  have "dx \<in> {-r..r}" "dy \<in> {-r..r}" using xy by (auto simp: dx_def dy_def)
  moreover have "k = query_key (\<lfloor>co_lon p / (1 / 100)\<rfloor> + dx) (\<lfloor>co_lat p / (1 / 100)\<rfloor> + dy)"
    using xy(1) by (simp add: dx_def dy_def)
  ultimately show ?l unfolding set_query_keys by blast
qed

text \<open>North of the equator the grid index is complete for the cells it visits: with unique stop
  identifiers, a stop with coordinates whose cell is at most \<open>cell_radius\<close> cells away from the
  query's in both directions and which is within the walking radius is in the result of
  \<open>Nearest\<close>.
\<close>

theorem Nearest_complete_north:
  assumes "inj_on stop_id (snd ` set stops)"
    and "s \<in> snd ` set stops" "\<not> (stop_lat s = 0 \<and> stop_lon s = 0)"
    and "Haversine p (Coordinates s) \<le> query_radius_km mw"
    and "0 \<le> \<lfloor>stop_lat s / (1 / 100)\<rfloor>" "\<lfloor>stop_lat s / (1 / 100)\<rfloor> < 2 ^ 31"
    and "\<bar>\<lfloor>stop_lon s / (1 / 100)\<rfloor> - \<lfloor>co_lon p / (1 / 100)\<rfloor>\<bar> \<le> cell_radius (query_radius_km mw)"
    and "\<bar>\<lfloor>stop_lat s / (1 / 100)\<rfloor> - \<lfloor>co_lat p / (1 / 100)\<rfloor>\<bar> \<le> cell_radius (query_radius_km mw)"
  shows "s \<in> set (Nearest (NewSpatialIndex stops) p mw 0)"
proof (rule Nearest_collects [OF assms(1-4)])
  show "cellKey (stop_lat s) (stop_lon s) (1 / 100) \<in>
      set (query_keys (NewSpatialIndex stops) p (cell_radius (query_radius_km mw)))"
    unfolding query_keys_iff cellKey_eq_query [OF assms(5,6)] using assms(7,8) by blast
qed

text \<open>Two stops fifty kilometres from the equator, one on each side.\<close>

definition southern_stop :: stop where
  "southern_stop =
     \<lparr>stop_id = ''s'', stop_provider = ''gtfs'', stop_name = ''S'', stop_lat = - (1 / 2), stop_lon = 30,
      stop_type = ''station'', stop_zone = '''', stop_cell = 0\<rparr>"

definition northern_stop :: stop where
  "northern_stop = southern_stop\<lparr>stop_id := ''n'', stop_lat := 1 / 2\<rparr>"

lemma radius_30: "query_radius_km 30 = 5 / 2" "cell_radius (5 / 2) = 4"
proof -
  have "\<lceil>(5 / 2 :: real) / (111 / 100)\<rceil> = 3" by (simp add: ceiling_eq_iff)
  then show "cell_radius (5 / 2) = 4" by (simp add: cell_radius_def)
qed (simp add: query_radius_km_def Let_def)

theorem Nearest_complete_north_witness:
  "northern_stop \<in> set (Nearest (NewSpatialIndex [(''n'', northern_stop)]) (Coordinates northern_stop) 30 0)"
  by (rule Nearest_complete_north)
    (simp_all add: northern_stop_def southern_stop_def radius_30 Coordinates_def)

text \<open>South of the equator it is not: a stop whose latitude cell is negative and whose longitude
  cell is not is never returned to a query from the eastern hemisphere, at whatever distance,
  because \<open>cellKey\<close> zero-extends the latitude cell into the key and \<open>Nearest\<close> sign-extends it.
\<close>

theorem Nearest_misses_south:
  assumes "\<lfloor>stop_lat s / (1 / 100)\<rfloor> < 0" "- (2 ^ 31) \<le> \<lfloor>stop_lat s / (1 / 100)\<rfloor>"
    and "0 \<le> \<lfloor>stop_lon s / (1 / 100)\<rfloor>" "\<lfloor>stop_lon s / (1 / 100)\<rfloor> < 2 ^ 31"
    and "cell_radius (query_radius_km mw) \<le> \<lfloor>co_lon p / (1 / 100)\<rfloor>"
      "\<lfloor>co_lon p / (1 / 100)\<rfloor> + cell_radius (query_radius_km mw) < 2 ^ 31"
    and "\<bar>\<lfloor>co_lat p / (1 / 100)\<rfloor>\<bar> + cell_radius (query_radius_km mw) < 2 ^ 31"
  shows "s \<notin> set (Nearest (NewSpatialIndex stops) p mw limit)"
proof
  let ?idx = "NewSpatialIndex stops" and ?r = "query_radius_km mw"
  assume s: "s \<in> set (Nearest ?idx p mw limit)"
  obtain seen cands where f:
    "fold (\<lambda>k. collect_cell p ?r (si_cells ?idx k)) (query_keys ?idx p (cell_radius ?r)) ([], []) = (seen, cands)"
    by fastforce
  from s f set_take_limit [of limit "sort_by (dist_less p) cands"] have "s \<in> set cands"
    by (auto simp: Nearest_def Let_def)
  with fold_collect_sound [OF f] obtain k where
    "k \<in> set (query_keys ?idx p (cell_radius ?r))" "k = cellKey (stop_lat s) (stop_lon s) (1 / 100)"
    by (auto simp: set_cells_NewSpatialIndex)
  then obtain x y where xy: "cellKey (stop_lat s) (stop_lon s) (1 / 100) = query_key x y"
    "\<bar>x - \<lfloor>co_lon p / (1 / 100)\<rfloor>\<bar> \<le> cell_radius ?r" "\<bar>y - \<lfloor>co_lat p / (1 / 100)\<rfloor>\<bar> \<le> cell_radius ?r"
    using query_keys_iff by metis
  have "0 \<le> x" "x < 2 ^ 31" "- (2 ^ 31) \<le> y" "y < 2 ^ 31" using xy(2,3) assms(5-7) by linarith+
  then show False using cellKey_neq_query [OF assms(1-4)] xy(1) by blast
qed

theorem Nearest_misses_south_witness:
  "southern_stop \<notin> set (Nearest (NewSpatialIndex [(''s'', southern_stop)]) (Coordinates southern_stop) 30 0) \<and>
   southern_stop \<in> set (NearestStops [(''s'', southern_stop)] (Coordinates southern_stop) 30 0)"
proof
  show "southern_stop \<notin> set (Nearest (NewSpatialIndex [(''s'', southern_stop)]) (Coordinates southern_stop) 30 0)"
    by (rule Nearest_misses_south) (simp_all add: southern_stop_def radius_30 Coordinates_def)
  show "southern_stop \<in> set (NearestStops [(''s'', southern_stop)] (Coordinates southern_stop) 30 0)"
    by (simp add: set_NearestStops_0 WalkRadiusKm_def)
qed

end
