(* ===== verification/Csa.thy ===== *)
theory Csa
  imports Geo
begin

text \<open>
  The connection-scan engine of \<open>internal/planner/planner.go\<close>: the plausibility filter, the walking
  closure \<open>relax\<close>, the scan, \<open>reconstruct\<close>, \<open>buildLegs\<close> and \<open>csa\<close>. The walking closure and the
  walk back over the predecessors may not terminate on bad data, so they are options: \<open>None\<close> is
  divergence. Errors the code returns, and the nil dereference it can run into, are values of
  \<open>plan_error\<close>.
\<close>

section \<open>The engine\<close>

datatype plan_error =
    NilDeref \<comment> \<open>a stop of the answer is not in \<open>net.Stops\<close>: \<open>legPoint(nil)\<close> panics\<close>
  | NoPath string string
  | TransferLimit int int
  | DirectOnly
  | NoTripBefore string string gotime
  | NoStopNear string int
  | GapTooLong string string int int

definition isImplausibleConnection :: "connection \<Rightarrow> network \<Rightarrow> bool" where
  "isImplausibleConnection c net =
     (case (stop_at net (c_from c), stop_at net (c_to c)) of
        (Some fromS, Some toS) \<Rightarrow>
          if (stop_lat fromS = 0 \<and> stop_lon fromS = 0) \<or> (stop_lat toS = 0 \<and> stop_lon toS = 0) then False
          else (let dist = Haversine (Coordinates fromS) (Coordinates toS);
                    dur = of_int (c_arr c - c_dep c) / of_int minute_ns
                in if dur \<le> 0 \<or> dist < 5 then False else dist / (dur / 60) > MaxSpeed (c_mode c))
      | _ \<Rightarrow> False)"

datatype prev = PrevConn connection | PrevFoot string

datatype step = StepConn connection | StepFoot string string

type_synonym labels = "(string \<rightharpoonup> gotime) \<times> (string \<rightharpoonup> prev)"

text \<open>\<open>arr[s]\<close>: the zero time for an absent key.\<close>

definition arr_get :: "(string \<rightharpoonup> gotime) \<Rightarrow> string \<Rightarrow> gotime" where
  "arr_get arr s = (case arr s of None \<Rightarrow> zero_time | Some t \<Rightarrow> t)"

definition improves :: "(string \<rightharpoonup> gotime) \<Rightarrow> string \<Rightarrow> gotime \<Rightarrow> bool" where
  "improves arr s t = (case arr s of None \<Rightarrow> True | Some t0 \<Rightarrow> t < t0)"

fun relax_edges ::
    "(string \<Rightarrow> bool) \<Rightarrow> string \<Rightarrow> gotime \<Rightarrow> transfer list \<Rightarrow> labels \<Rightarrow> string list \<Rightarrow> labels \<times> string list" where
  "relax_edges prov cur curT [] lab queue = (lab, queue)"
| "relax_edges prov cur curT (tr # trs) (arr, pred) queue =
     (if prov (tr_to tr) then relax_edges prov cur curT trs (arr, pred) queue
      else (let cand = curT + minutes (tr_minutes tr) in
        if improves arr (tr_to tr) cand
        then relax_edges prov cur curT trs
               (arr(tr_to tr \<mapsto> cand), pred(tr_to tr \<mapsto> PrevFoot cur)) (queue @ [tr_to tr])
        else relax_edges prov cur curT trs (arr, pred) queue))"

partial_function (option) relax ::
    "(string \<times> transfer list) list \<Rightarrow> (string \<Rightarrow> bool) \<Rightarrow> string list \<Rightarrow> labels \<Rightarrow> labels option" where
  "relax tfs prov queue lab =
     (case queue of
        [] \<Rightarrow> Some lab
      | cur # rest \<Rightarrow>
          if prov cur then relax tfs prov rest lab
          else (case relax_edges prov cur (arr_get (fst lab) cur) (map_get tfs cur) lab rest of
              (lab', queue') \<Rightarrow> relax tfs prov queue' lab'))"

text \<open>
  The scan, for a given walking closure \<open>rlx\<close> (the closure \<open>relax\<close> in the code): one pass over the
  connections; each is skipped for its mode, its speed, an unreached or too late origin or a
  destination already reached no later, and boarded otherwise.
\<close>

type_synonym relaxer =
  "(string \<times> transfer list) list \<Rightarrow> (string \<Rightarrow> bool) \<Rightarrow> string list \<Rightarrow> labels \<Rightarrow> labels option"

definition usable :: "network \<Rightarrow> mode list \<Rightarrow> connection \<Rightarrow> bool" where
  "usable net allowed c \<longleftrightarrow>
     (allowed = [] \<or> c_mode c \<in> set allowed) \<and> \<not> isImplausibleConnection c net"

definition boardable :: "network \<Rightarrow> mode list \<Rightarrow> (string \<rightharpoonup> gotime) \<Rightarrow> connection \<Rightarrow> bool" where
  "boardable net allowed arr c =
     (if \<not> usable net allowed c then False
      else (case arr (c_from c) of
          None \<Rightarrow> False
        | Some atFrom \<Rightarrow> if c_dep c < atFrom then False else improves arr (c_to c) (c_arr c)))"

fun scan :: "relaxer \<Rightarrow> network \<Rightarrow> mode list \<Rightarrow> (string \<times> transfer list) list \<Rightarrow>
    connection list \<Rightarrow> labels \<Rightarrow> labels option" where
  "scan rlx net allowed tfs [] lab = Some lab"
| "scan rlx net allowed tfs (c # cs) (arr, pred) =
     (if \<not> boardable net allowed arr c then scan rlx net allowed tfs cs (arr, pred)
      else (case rlx tfs (n_provisional net) [c_to c] (arr(c_to c \<mapsto> c_arr c), pred(c_to c \<mapsto> PrevConn c)) of
          None \<Rightarrow> None
        | Some lab \<Rightarrow> scan rlx net allowed tfs cs lab))"

partial_function (option) reconstruct_loop ::
    "(string \<rightharpoonup> prev) \<Rightarrow> string \<Rightarrow> string \<Rightarrow> step list \<Rightarrow> step list option" where
  "reconstruct_loop pred fromStop stop racc =
     (if stop = fromStop then Some racc
      else (case pred stop of
          None \<Rightarrow> Some racc
        | Some pr \<Rightarrow>
            (case pr of
               PrevConn c \<Rightarrow> reconstruct_loop pred fromStop (c_from c) (racc @ [StepConn c])
             | PrevFoot u \<Rightarrow> reconstruct_loop pred fromStop u (racc @ [StepFoot u stop]))))"

definition reconstruct :: "(string \<rightharpoonup> prev) \<Rightarrow> string \<Rightarrow> string \<Rightarrow> step list option" where
  "reconstruct pred fromStop toStop = map_option rev (reconstruct_loop pred fromStop toStop [])"

definition legPoint :: "stop \<Rightarrow> leg_point" where
  "legPoint s = \<lparr>lp_stop = stop_id s, lp_name = stop_name s, lp_lat = stop_lat s, lp_lon = stop_lon s\<rparr>"

definition ride_leg :: "connection \<Rightarrow> stop \<Rightarrow> stop \<Rightarrow> leg" where
  "ride_leg c f t =
     \<lparr>l_mode = c_mode c, l_provider = c_provider c, l_route = c_route c, l_trip = c_trip c,
      l_from = legPoint f, l_to = legPoint t, l_dep = c_dep c, l_arr = c_arr c,
      l_self = False, l_cost = no_cost\<rparr>"

definition walk_leg :: "stop \<Rightarrow> stop \<Rightarrow> gotime \<Rightarrow> gotime \<Rightarrow> leg" where
  "walk_leg f t dep ar =
     \<lparr>l_mode = ModeWalk, l_provider = stop_provider f, l_route = '''', l_trip = '''',
      l_from = legPoint f, l_to = legPoint t, l_dep = dep, l_arr = ar,
      l_self = False, l_cost = no_cost\<rparr>"

definition end_leg :: "leg list \<Rightarrow> leg option \<Rightarrow> leg list" where
  "end_leg legs cur = (case cur of None \<Rightarrow> legs | Some l \<Rightarrow> legs @ [l])"

definition same_trip :: "leg option \<Rightarrow> connection \<Rightarrow> bool" where
  "same_trip cur c = (case cur of None \<Rightarrow> False | Some l \<Rightarrow> l_trip l \<noteq> '''' \<and> l_trip l = c_trip c)"

fun build_loop :: "network \<Rightarrow> (string \<rightharpoonup> gotime) \<Rightarrow> leg list \<Rightarrow> leg option \<Rightarrow> step list \<Rightarrow> plan_error + leg list" where
  "build_loop net arr legs cur [] = Inr (end_leg legs cur)"
| "build_loop net arr legs cur (StepConn c # rest) =
     (case (stop_at net (c_from c), stop_at net (c_to c)) of
        (fr, Some t) \<Rightarrow>
          if same_trip cur c
          then build_loop net arr legs (map_option (\<lambda>l. l\<lparr>l_to := legPoint t, l_arr := c_arr c\<rparr>) cur) rest
          else (case fr of
              None \<Rightarrow> Inl NilDeref
            | Some f \<Rightarrow> build_loop net arr (end_leg legs cur) (Some (ride_leg c f t)) rest)
      | (_, None) \<Rightarrow> Inl NilDeref)"
| "build_loop net arr legs cur (StepFoot u v # rest) =
     (case (stop_at net u, stop_at net v) of
        (Some f, Some t) \<Rightarrow>
          build_loop net arr (end_leg legs cur @ [walk_leg f t (arr_get arr u) (arr_get arr v)]) None rest
      | _ \<Rightarrow> Inl NilDeref)"

definition buildLegs :: "network \<Rightarrow> (string \<rightharpoonup> gotime) \<Rightarrow> step list \<Rightarrow> plan_error + leg list" where
  "buildLegs net arr steps = build_loop net arr [] None steps"

definition conn_less :: "connection \<Rightarrow> connection \<Rightarrow> bool" where
  "conn_less a b = (if c_dep a = c_dep b then c_arr a < c_arr b else c_dep a < c_dep b)"

definition csa_connections :: "network \<Rightarrow> connection list" where
  "csa_connections net =
     (let conns = n_connections net in
      if conns = [] \<or> c_dep (hd conns) > c_dep (last conns) then sort_by conn_less conns else conns)"

definition csa_transfers :: "network \<Rightarrow> (string \<times> transfer list) list" where
  "csa_transfers net =
     (if n_by_stop net = [] \<and> n_transfers net \<noteq> [] then group_by tr_from (n_transfers net)
      else n_by_stop net)"

definition transfer_limit :: "int \<Rightarrow> leg list \<Rightarrow> plan_error + leg list" where
  "transfer_limit maxT legs =
     (if 0 < maxT \<and> int (length legs) - 1 > maxT then Inl (TransferLimit (int (length legs) - 1) maxT)
      else if maxT = 0 \<and> int (length legs) - 1 > 0 then Inl DirectOnly
      else Inr legs)"

definition csa_labels :: "network \<Rightarrow> string \<Rightarrow> gotime \<Rightarrow> search_params \<Rightarrow> labels option" where
  "csa_labels net fromStop depart params =
     (case relax (csa_transfers net) (n_provisional net) [fromStop] ([fromStop \<mapsto> depart], Map.empty) of
        None \<Rightarrow> None
      | Some lab \<Rightarrow> scan relax net (p_modes params) (csa_transfers net) (csa_connections net) lab)"

definition csa :: "network \<Rightarrow> string \<Rightarrow> string \<Rightarrow> gotime \<Rightarrow> search_params \<Rightarrow> (plan_error + leg list) option" where
  "csa net fromStop toStop depart params =
     (case csa_labels net fromStop depart params of
        None \<Rightarrow> None
      | Some (arr, pred) \<Rightarrow>
          if pred toStop = None then Some (Inl (NoPath fromStop toStop))
          else (case reconstruct pred fromStop toStop of
              None \<Rightarrow> None
            | Some steps \<Rightarrow>
                (case buildLegs net arr steps of
                   Inl e \<Rightarrow> Some (Inl e)
                 | Inr legs \<Rightarrow>
                     Some (transfer_limit (if p_max_transfers params < 0 then - 1 else p_max_transfers params) legs))))"

end
