(* ===== verification/Csa_Correct.thy ===== *)
theory Csa_Correct
  imports Csa
begin

text \<open>
  Correctness of the connection scan: the label invariant and its preservation by one
  improvement, the contract of a walking closure as a locale and \<open>relax\<close> as its instance,
  termination, and soundness and optimality of the labels against the inductive set of all
  journeys \<open>reach\<close>.
\<close>

section \<open>Journeys\<close>

definition walk_edge :: "(string \<times> transfer list) list \<Rightarrow> (string \<Rightarrow> bool) \<Rightarrow> string \<Rightarrow> string \<Rightarrow> duration \<Rightarrow> bool" where
  "walk_edge tfs prov u v w \<longleftrightarrow>
     \<not> prov u \<and> \<not> prov v \<and> (\<exists>tr \<in> set (map_get tfs u). tr_to tr = v \<and> w = minutes (tr_minutes tr))"

text \<open>
  \<open>reach \<dots> C v t\<close>: some journey that leaves \<open>s\<close> at \<open>d\<close>, rides only connections of \<open>C\<close> that pass
  the filters and walks only between confirmed stops is at \<open>v\<close> at time \<open>t\<close>.
\<close>

inductive reach ::
    "network \<Rightarrow> mode list \<Rightarrow> (string \<times> transfer list) list \<Rightarrow> string \<Rightarrow> gotime \<Rightarrow> connection set \<Rightarrow>
     string \<Rightarrow> gotime \<Rightarrow> bool"
  for net allowed tfs s d C where
  start: "reach net allowed tfs s d C s d"
| ride: "reach net allowed tfs s d C (c_from c) t \<Longrightarrow> c \<in> C \<Longrightarrow> usable net allowed c \<Longrightarrow> t \<le> c_dep c \<Longrightarrow>
     reach net allowed tfs s d C (c_to c) (c_arr c)"
| walk: "reach net allowed tfs s d C u t \<Longrightarrow> walk_edge tfs (n_provisional net) u v w \<Longrightarrow>
     reach net allowed tfs s d C v (t + w)"

lemma reach_mono: "reach net allowed tfs s d C v t \<Longrightarrow> C \<subseteq> C' \<Longrightarrow> reach net allowed tfs s d C' v t"
  by (induction rule: reach.induct) (auto intro: reach.intros)

definition nonneg_transfers :: "(string \<times> transfer list) list \<Rightarrow> bool" where
  "nonneg_transfers tfs \<longleftrightarrow> (\<forall>(k, trs) \<in> set tfs. \<forall>tr \<in> set trs. 0 \<le> tr_minutes tr)"

lemma map_get_in: "tr \<in> set (map_get m k) \<Longrightarrow> \<exists>trs. (k, trs) \<in> set m \<and> tr \<in> set trs"
  by (cases "map_of m k") (auto simp: map_get_def dest: map_of_SomeD)

lemma nonneg_transfersD: "nonneg_transfers tfs \<Longrightarrow> tr \<in> set (map_get tfs k) \<Longrightarrow> 0 \<le> tr_minutes tr"
  unfolding nonneg_transfers_def using map_get_in by fastforce

lemma walk_edge_nonneg: "nonneg_transfers tfs \<Longrightarrow> walk_edge tfs prov u v w \<Longrightarrow> 0 \<le> w"
  unfolding walk_edge_def using nonneg_transfersD by fastforce

definition targets :: "(string \<times> transfer list) list \<Rightarrow> string set" where
  "targets tfs = tr_to ` (\<Union>(k, trs) \<in> set tfs. set trs)"

lemma finite_targets [simp]: "finite (targets tfs)"
  unfolding targets_def by (intro finite_imageI finite_UN_I) auto

lemma targetsI: "tr \<in> set (map_get tfs k) \<Longrightarrow> tr_to tr \<in> targets tfs"
  unfolding targets_def using map_get_in by fastforce

section \<open>The label invariant\<close>

fun prev_src :: "prev \<Rightarrow> string" where
  "prev_src (PrevConn c) = c_from c"
| "prev_src (PrevFoot u) = u"

fun link_ok :: "(connection \<Rightarrow> bool) \<Rightarrow> (string \<times> transfer list) list \<Rightarrow> (string \<Rightarrow> bool) \<Rightarrow>
    (string \<rightharpoonup> gotime) \<Rightarrow> string \<Rightarrow> prev \<Rightarrow> bool" where
  "link_ok U tfs prov arr v (PrevConn c) \<longleftrightarrow>
     U c \<and> c_to c = v \<and> arr v = Some (c_arr c) \<and> (\<exists>a. arr (c_from c) = Some a \<and> a \<le> c_dep c)"
| "link_ok U tfs prov arr v (PrevFoot u) \<longleftrightarrow>
     (\<exists>a b w. arr u = Some a \<and> arr v = Some b \<and> walk_edge tfs prov u v w \<and> a + w \<le> b)"

definition pred_edges :: "(string \<rightharpoonup> prev) \<Rightarrow> (string \<times> string) set" where
  "pred_edges pred = {(prev_src p, v) | v p. pred v = Some p}"

definition label_inv :: "(connection \<Rightarrow> bool) \<Rightarrow> (string \<times> transfer list) list \<Rightarrow> (string \<Rightarrow> bool) \<Rightarrow>
    string \<Rightarrow> gotime \<Rightarrow> labels \<Rightarrow> bool" where
  "label_inv U tfs prov s d lab \<longleftrightarrow>
     fst lab s = Some d \<and> snd lab s = None \<and>
     (\<forall>v a. fst lab v = Some a \<longrightarrow> d \<le> a) \<and>
     (\<forall>v. v \<noteq> s \<longrightarrow> (fst lab v \<noteq> None \<longleftrightarrow> snd lab v \<noteq> None)) \<and>
     (\<forall>v p. snd lab v = Some p \<longrightarrow> link_ok U tfs prov (fst lab) v p) \<and>
     acyclic (pred_edges (snd lab))"

lemma label_invD:
  assumes "label_inv U tfs prov s d (arr, pred)"
  shows "arr s = Some d" "pred s = None" "arr v = Some a \<Longrightarrow> d \<le> a"
    "v \<noteq> s \<Longrightarrow> arr v \<noteq> None \<longleftrightarrow> pred v \<noteq> None"
    "pred v = Some p \<Longrightarrow> link_ok U tfs prov arr v p" "acyclic (pred_edges pred)"
  using assms unfolding label_inv_def by auto

definition arr_le :: "(string \<rightharpoonup> gotime) \<Rightarrow> (string \<rightharpoonup> gotime) \<Rightarrow> bool" where
  "arr_le arr' arr \<longleftrightarrow> (\<forall>v a. arr v = Some a \<longrightarrow> (\<exists>b. arr' v = Some b \<and> b \<le> a))"

lemma arr_le_refl [simp]: "arr_le arr arr"
  by (simp add: arr_le_def)

lemma arr_le_trans: "arr_le x y \<Longrightarrow> arr_le y z \<Longrightarrow> arr_le x z"
  unfolding arr_le_def by (meson order_trans)

lemma arr_le_upd: "improves arr v t \<Longrightarrow> arr_le (arr(v \<mapsto> t)) arr"
  by (auto simp: arr_le_def improves_def split: option.splits)

lemma improves_False: "\<not> improves arr v t \<longleftrightarrow> (\<exists>b. arr v = Some b \<and> b \<le> t)"
  by (auto simp: improves_def split: option.splits)

text \<open>Along the predecessor edges the labels only grow.\<close>

lemma link_le:
  assumes U: "\<And>c. U c \<Longrightarrow> c_dep c \<le> c_arr c" and n: "nonneg_transfers tfs"
    and "link_ok U tfs prov arr v p"
  shows "\<exists>a b. arr (prev_src p) = Some a \<and> arr v = Some b \<and> a \<le> b"
  using assms(3)
proof (cases p)
  case (PrevConn c)
  with assms(3) U show ?thesis by fastforce
next
  case (PrevFoot u)
  with assms(3) walk_edge_nonneg [OF n] show ?thesis by fastforce
qed

lemma pred_edges_le:
  assumes U: "\<And>c. U c \<Longrightarrow> c_dep c \<le> c_arr c" and n: "nonneg_transfers tfs"
    and i: "label_inv U tfs prov s d (arr, pred)"
    and "(u, v) \<in> (pred_edges pred)\<^sup>*" "arr u = Some a"
  shows "\<exists>b. arr v = Some b \<and> a \<le> b"
  using assms(4)
proof (induction rule: rtrancl_induct)
  case base
  with assms(5) show ?case by simp
next
  case (step y z)
  then obtain p where "pred z = Some p" "prev_src p = y" by (auto simp: pred_edges_def)
  with link_le [OF U n label_invD(5) [OF i]] step.IH show ?case by fastforce
qed

text \<open>
  The one-step lemma: setting the label of \<open>v\<close> to a better time \<open>t\<close> with a predecessor whose own
  label is at most \<open>t\<close> keeps the invariant.
\<close>

lemma link_ok_upd:
  assumes "link_ok U tfs prov arr x p" "x \<noteq> v" "improves arr v t"
  shows "link_ok U tfs prov (arr(v \<mapsto> t)) x p"
proof (cases p)
  case (PrevConn c)
  with assms show ?thesis by (auto simp: improves_def split: option.splits)
next
  case (PrevFoot u)
  with assms show ?thesis by (fastforce simp: improves_def split: option.splits)
qed

lemma label_inv_improve:
  assumes U: "\<And>c. U c \<Longrightarrow> c_dep c \<le> c_arr c" and n: "nonneg_transfers tfs"
    and i: "label_inv U tfs prov s d (arr, pred)"
    and imp: "improves arr v t"
    and src: "arr (prev_src p) = Some a" "a \<le> t"
    and ok: "\<And>arr'. arr' v = Some t \<Longrightarrow> arr' (prev_src p) = Some a \<Longrightarrow> link_ok U tfs prov arr' v p"
  shows "label_inv U tfs prov s d (arr(v \<mapsto> t), pred(v \<mapsto> p))"
proof -
  note D = label_invD [OF i]
  have d: "d \<le> a" using D(3) src(1) by blast
  have vs: "v \<noteq> s" using D(1) imp d src(2) by (auto simp: improves_def)
  have vu: "v \<noteq> prev_src p" using imp src by (auto simp: improves_def)
  have "pred_edges (pred(v \<mapsto> p)) = insert (prev_src p, v) (pred_edges (pred(v := None)))"
    by (auto simp: pred_edges_def)
  moreover have "acyclic (insert (prev_src p, v) (pred_edges (pred(v := None))))"
  proof -
    have sub: "pred_edges (pred(v := None)) \<subseteq> pred_edges pred"
      by (auto simp: pred_edges_def split: if_splits)
    have "(v, prev_src p) \<notin> (pred_edges pred)\<^sup>*"
    proof
      assume r: "(v, prev_src p) \<in> (pred_edges pred)\<^sup>*"
      show False
      proof (cases "arr v")
        case (Some b)
        with pred_edges_le [OF U n i r] src imp show False by (fastforce simp: improves_def)
      next
        case None
        from r vu obtain y where "(v, y) \<in> pred_edges pred" by (meson converse_rtranclE)
        then obtain q where "pred y = Some q" "prev_src q = v" by (auto simp: pred_edges_def)
        with link_le [OF U n D(5)] None show False by fastforce
      qed
    qed
    then have "(v, prev_src p) \<notin> (pred_edges (pred(v := None)))\<^sup>*"
      using rtrancl_mono [OF sub] by blast
    then show ?thesis using acyclic_subset [OF D(6) sub] by (simp add: acyclic_insert)
  qed
  moreover have "link_ok U tfs prov (arr(v \<mapsto> t)) x q" if "(pred(v \<mapsto> p)) x = Some q" for x q
  proof (cases "x = v")
    case True
    with that have "q = p" by simp
    with True show ?thesis using ok [of "arr(v \<mapsto> t)"] src(1) vu by simp
  next
    case False
    with that D(5) link_ok_upd [OF _ False imp] show ?thesis by simp
  qed
  moreover have "x \<noteq> s \<longrightarrow> ((arr(v \<mapsto> t)) x \<noteq> None \<longleftrightarrow> (pred(v \<mapsto> p)) x \<noteq> None)" for x
    using D(4) [of x] by simp
  moreover have "(arr(v \<mapsto> t)) x = Some b \<longrightarrow> d \<le> b" for x b
    using D(3) [of x b] d src(2) by auto
  ultimately show ?thesis
    unfolding label_inv_def fst_conv snd_conv using D(1,2) vs by (simp del: fun_upd_apply) simp
qed

lemma label_inv_init: "label_inv U tfs prov s d ([s \<mapsto> d], Map.empty)"
  by (auto simp: label_inv_def pred_edges_def acyclic_def)


section \<open>Progress of the walking closure\<close>

definition unreached :: "(string \<times> transfer list) list \<Rightarrow> (string \<rightharpoonup> gotime) \<Rightarrow> nat" where
  "unreached tfs arr = card {v \<in> targets tfs. arr v = None}"

definition slack :: "(string \<times> transfer list) list \<Rightarrow> gotime \<Rightarrow> (string \<rightharpoonup> gotime) \<Rightarrow> nat" where
  "slack tfs d arr = (\<Sum>v \<in> targets tfs. case arr v of None \<Rightarrow> 0 | Some a \<Rightarrow> nat (a - d))"

definition progress :: "(string \<times> transfer list) list \<Rightarrow> gotime \<Rightarrow> (string \<rightharpoonup> gotime) \<Rightarrow> (string \<rightharpoonup> gotime) \<Rightarrow> bool" where
  "progress tfs d arr' arr \<longleftrightarrow>
     unreached tfs arr' < unreached tfs arr \<or>
     (unreached tfs arr' = unreached tfs arr \<and> slack tfs d arr' < slack tfs d arr)"

lemma progress_trans: "progress tfs d x y \<Longrightarrow> progress tfs d y z \<Longrightarrow> progress tfs d x z"
  unfolding progress_def by linarith

lemma improve_progress:
  assumes v: "v \<in> targets tfs" and imp: "improves arr v t" and d: "d \<le> t"
  shows "progress tfs d (arr(v \<mapsto> t)) arr"
proof (cases "arr v")
  case None
  have eq: "{x \<in> targets tfs. (arr(v \<mapsto> t)) x = None} = {x \<in> targets tfs. arr x = None} - {v}"
    by auto
  have inn: "v \<in> {x \<in> targets tfs. arr x = None}" using v None by simp
  have "finite {x \<in> targets tfs. arr x = None}" by simp
  from card_Diff1_less [OF this inn] have "unreached tfs (arr(v \<mapsto> t)) < unreached tfs arr"
    unfolding unreached_def eq .
  then show ?thesis by (simp add: progress_def)
next
  case (Some b)
  let ?f = "\<lambda>arr v. case arr v of None \<Rightarrow> 0 | Some a \<Rightarrow> nat (a - d)"
  have "{x \<in> targets tfs. (arr(v \<mapsto> t)) x = None} = {x \<in> targets tfs. arr x = None}"
    using Some by auto
  then have u: "unreached tfs (arr(v \<mapsto> t)) = unreached tfs arr" by (simp add: unreached_def)
  have tb: "t < b" using imp Some by (simp add: improves_def)
  have "slack tfs d (arr(v \<mapsto> t)) = ?f (arr(v \<mapsto> t)) v + (\<Sum>x \<in> targets tfs - {v}. ?f (arr(v \<mapsto> t)) x)"
    unfolding slack_def by (rule sum.remove [OF finite_targets v])
  also have "(\<Sum>x \<in> targets tfs - {v}. ?f (arr(v \<mapsto> t)) x) = (\<Sum>x \<in> targets tfs - {v}. ?f arr x)"
    by (rule sum.cong) auto
  also have "?f (arr(v \<mapsto> t)) v < ?f arr v" using Some tb d by simp
  also have "?f arr v + (\<Sum>x \<in> targets tfs - {v}. ?f arr x) = slack tfs d arr"
    unfolding slack_def by (rule sum.remove [OF finite_targets v, symmetric])
  finally have "slack tfs d (arr(v \<mapsto> t)) < slack tfs d arr" by (simp del: fun_upd_apply)
  with u show ?thesis unfolding progress_def by blast
qed

text \<open>A property of labels that walking keeps, such as being reached by some journey.\<close>

definition walk_stable :: "(string \<times> transfer list) list \<Rightarrow> (string \<Rightarrow> bool) \<Rightarrow> (string \<Rightarrow> gotime \<Rightarrow> bool) \<Rightarrow> bool" where
  "walk_stable tfs prov R \<longleftrightarrow> (\<forall>u v w t. R u t \<longrightarrow> walk_edge tfs prov u v w \<longrightarrow> R v (t + w))"

definition holds_on :: "(string \<rightharpoonup> gotime) \<Rightarrow> (string \<Rightarrow> gotime \<Rightarrow> bool) \<Rightarrow> bool" where
  "holds_on arr R \<longleftrightarrow> (\<forall>v a. arr v = Some a \<longrightarrow> R v a)"

definition walk_closed_upto :: "string set \<Rightarrow> (string \<times> transfer list) list \<Rightarrow> (string \<Rightarrow> bool) \<Rightarrow> (string \<rightharpoonup> gotime) \<Rightarrow> bool" where
  "walk_closed_upto Q tfs prov arr \<longleftrightarrow>
     (\<forall>u a v w. arr u = Some a \<longrightarrow> u \<notin> Q \<longrightarrow> walk_edge tfs prov u v w \<longrightarrow> (\<exists>b. arr v = Some b \<and> b \<le> a + w))"

text \<open>
  What one pass over the transfers of \<open>cur\<close> does, as a relation between the labels and queue
  before and after.
\<close>

definition pass_post :: "(connection \<Rightarrow> bool) \<Rightarrow> (string \<times> transfer list) list \<Rightarrow> (string \<Rightarrow> bool) \<Rightarrow>
    string \<Rightarrow> gotime \<Rightarrow> string \<Rightarrow> gotime \<Rightarrow> transfer list \<Rightarrow> labels \<Rightarrow> string list \<Rightarrow> labels \<Rightarrow> string list \<Rightarrow> bool" where
  "pass_post U tfs prov s d cur t trs lab queue lab' queue' \<longleftrightarrow>
     label_inv U tfs prov s d lab' \<and> fst lab' cur = Some t \<and> arr_le (fst lab') (fst lab) \<and>
     set queue \<subseteq> set queue' \<and> set queue' \<subseteq> set queue \<union> dom (fst lab') \<and>
     (\<forall>v. fst lab' v = fst lab v \<or> (v \<in> set queue' \<and> (\<exists>b. fst lab' v = Some b \<and> t \<le> b))) \<and>
     (\<forall>tr \<in> set trs. \<not> prov (tr_to tr) \<longrightarrow> (\<exists>b. fst lab' (tr_to tr) = Some b \<and> b \<le> t + minutes (tr_minutes tr))) \<and>
     (\<forall>R. walk_stable tfs prov R \<longrightarrow> holds_on (fst lab) R \<longrightarrow> holds_on (fst lab') R) \<and>
     ((lab' = lab \<and> queue' = queue) \<or> progress tfs d (fst lab') (fst lab))"

lemma relax_edges_spec:
  assumes U: "\<And>c. U c \<Longrightarrow> c_dep c \<le> c_arr c" and n: "nonneg_transfers tfs"
    and cur: "\<not> prov cur"
    and "set trs \<subseteq> set (map_get tfs cur)" "label_inv U tfs prov s d (arr, pred)" "arr cur = Some t"
    and "relax_edges prov cur t trs (arr, pred) queue = (lab', queue')"
  shows "pass_post U tfs prov s d cur t trs (arr, pred) queue lab' queue'"
  using assms(4-)
proof (induction trs arbitrary: arr pred queue)
  case Nil
  then show ?case by (auto simp: pass_post_def)
next
  case (Cons tr trs)
  define v where "v = tr_to tr"
  define t' where "t' = t + minutes (tr_minutes tr)"
  have tr: "tr \<in> set (map_get tfs cur)" using Cons.prems(1) by simp
  have w: "0 \<le> minutes (tr_minutes tr)" using nonneg_transfersD [OF n tr] by simp
  consider (skip) "prov v" | (worse) "\<not> prov v" "\<not> improves arr v t'" | (better) "\<not> prov v" "improves arr v t'"
    by blast
  then show ?case
  proof cases
    case skip
    with Cons have "pass_post U tfs prov s d cur t trs (arr, pred) queue lab' queue'"
      by (auto simp: v_def)
    with skip show ?thesis unfolding pass_post_def by (auto simp: v_def)
  next
    case worse
    with Cons have p: "pass_post U tfs prov s d cur t trs (arr, pred) queue lab' queue'"
      by (auto simp: v_def t'_def Let_def)
    obtain b where "arr v = Some b" "b \<le> t'" using worse(2) by (auto simp: improves_False)
    with p have "\<exists>b. fst lab' v = Some b \<and> b \<le> t'"
      unfolding pass_post_def arr_le_def by (metis fst_conv order_trans)
    with p show ?thesis unfolding pass_post_def by (auto simp: v_def t'_def)
  next
    case better
    let ?arr = "arr(v \<mapsto> t')" and ?pred = "pred(v \<mapsto> PrevFoot cur)"
    have edge: "walk_edge tfs prov cur v (minutes (tr_minutes tr))"
      using cur better(1) tr by (auto simp: walk_edge_def v_def)
    have inv: "label_inv U tfs prov s d (?arr, ?pred)"
      by (rule label_inv_improve [OF U n Cons.prems(2) better(2), of _ t])
        (use Cons.prems(3) w edge in \<open>auto simp: t'_def\<close>)
    have tt: "t \<le> t'" using w by (simp only: t'_def le_add_same_cancel1)
    have cv: "cur \<noteq> v" using Cons.prems(3) better(2) tt by (auto simp: improves_def)
    have dt: "d \<le> t'" using label_invD(3) [OF Cons.prems(2,3)] tt by (rule order_trans)
    have prog: "progress tfs d ?arr arr"
      by (rule improve_progress [OF _ better(2) dt]) (use targetsI [OF tr] in \<open>simp add: v_def\<close>)
    have p: "pass_post U tfs prov s d cur t trs (?arr, ?pred) (queue @ [v]) lab' queue'"
    proof (rule Cons.IH [OF _ inv])
      show "set trs \<subseteq> set (map_get tfs cur)" using Cons.prems(1) by simp
      show "?arr cur = Some t" using Cons.prems(3) cv by simp
      show "relax_edges prov cur t trs (?arr, ?pred) (queue @ [v]) = (lab', queue')"
        using Cons.prems(4) better unfolding v_def t'_def by (simp add: Let_def del: fun_upd_apply)
    qed
    have stable: "holds_on ?arr R" if "walk_stable tfs prov R" "holds_on arr R" for R
      using that edge Cons.prems(3) unfolding walk_stable_def holds_on_def t'_def by (metis fun_upd_apply option.inject)
    have le: "arr_le ?arr arr" by (rule arr_le_upd [OF better(2)])
    have vt: "\<exists>b. fst lab' v = Some b \<and> b \<le> t'"
      using p unfolding pass_post_def arr_le_def by auto
    have changed: "\<forall>x. fst lab' x = arr x \<or> (x \<in> set queue' \<and> (\<exists>b. fst lab' x = Some b \<and> t \<le> b))"
    proof
      fix x
      have "fst lab' x = ?arr x \<or> (x \<in> set queue' \<and> (\<exists>b. fst lab' x = Some b \<and> t \<le> b))" "v \<in> set queue'"
        using p unfolding pass_post_def by auto
      then show "fst lab' x = arr x \<or> (x \<in> set queue' \<and> (\<exists>b. fst lab' x = Some b \<and> t \<le> b))"
        using w by (cases "x = v") (auto simp: t'_def)
    qed
    have p': "set (queue @ [v]) \<subseteq> set queue'" "set queue' \<subseteq> set (queue @ [v]) \<union> dom (fst lab')"
      "arr_le (fst lab') ?arr" "lab' = (?arr, ?pred) \<or> progress tfs d (fst lab') ?arr"
      "walk_stable tfs prov R \<Longrightarrow> holds_on ?arr R \<Longrightarrow> holds_on (fst lab') R" for R
      using p unfolding pass_post_def fst_conv by blast+
    show ?thesis
      unfolding pass_post_def fst_conv
    proof (intro conjI)
      show "set queue \<subseteq> set queue'" "set queue' \<subseteq> set queue \<union> dom (fst lab')"
        using p'(1,2) vt by auto
      show "arr_le (fst lab') arr" by (rule arr_le_trans [OF p'(3) le])
      show "\<forall>x. fst lab' x = arr x \<or> x \<in> set queue' \<and> (\<exists>b. fst lab' x = Some b \<and> t \<le> b)"
        by (rule changed)
      show "\<forall>R. walk_stable tfs prov R \<longrightarrow> holds_on arr R \<longrightarrow> holds_on (fst lab') R"
        using p'(5) stable by blast
      show "(lab' = (arr, pred) \<and> queue' = queue) \<or> progress tfs d (fst lab') arr"
        using p'(4) prog progress_trans by fastforce
      show "\<forall>tr' \<in> set (tr # trs). \<not> prov (tr_to tr') \<longrightarrow>
          (\<exists>b. fst lab' (tr_to tr') = Some b \<and> b \<le> t + minutes (tr_minutes tr'))"
        using p vt unfolding pass_post_def v_def t'_def by simp
    qed (use p in \<open>unfold pass_post_def, blast+\<close>)
  qed
qed


section \<open>The contract of the walking closure\<close>

text \<open>
  \<open>closes\<close>: what a walking closure promises of the labels it returns. They satisfy the invariant,
  are nowhere later, admit no improvement by a walk, and satisfy every property of labels that
  walking keeps.
\<close>

definition closes :: "(connection \<Rightarrow> bool) \<Rightarrow> (string \<times> transfer list) list \<Rightarrow> (string \<Rightarrow> bool) \<Rightarrow>
    string \<Rightarrow> gotime \<Rightarrow> labels \<Rightarrow> labels \<Rightarrow> bool" where
  "closes U tfs prov s d lab lab' \<longleftrightarrow>
     label_inv U tfs prov s d lab' \<and> arr_le (fst lab') (fst lab) \<and>
     walk_closed_upto {} tfs prov (fst lab') \<and>
     (\<forall>R. walk_stable tfs prov R \<longrightarrow> holds_on (fst lab) R \<longrightarrow> holds_on (fst lab') R)"

definition measure_rel ::
    "(string \<times> transfer list) list \<Rightarrow> gotime \<Rightarrow> ((string list \<times> labels) \<times> (string list \<times> labels)) set" where
  "measure_rel tfs d = inv_image (less_than <*lex*> less_than <*lex*> less_than)
     (\<lambda>(queue, lab). (unreached tfs (fst lab), slack tfs d (fst lab), length queue))"

lemma wf_measure_rel: "wf (measure_rel tfs d)"
  unfolding measure_rel_def by (intro wf_inv_image wf_lex_prod wf_less_than)

lemma pass_closed:
  assumes p: "pass_post U tfs prov s d cur t (map_get tfs cur) (arr, pred) rest lab' queue'"
    and c: "walk_closed_upto (set (cur # rest)) tfs prov arr"
  shows "walk_closed_upto (set queue') tfs prov (fst lab')"
  unfolding walk_closed_upto_def
proof (intro allI impI)
  fix u a v w
  assume u: "fst lab' u = Some a" "u \<notin> set queue'" and e: "walk_edge tfs prov u v w"
  have arru: "arr u = Some a" using p u unfolding pass_post_def by (metis fst_conv)
  show "\<exists>b. fst lab' v = Some b \<and> b \<le> a + w"
  proof (cases "u = cur")
    case True
    with p u(1) have "a = t" unfolding pass_post_def by auto
    moreover obtain tr where "tr \<in> set (map_get tfs cur)" "tr_to tr = v" "w = minutes (tr_minutes tr)" "\<not> prov v"
      using e True by (auto simp: walk_edge_def)
    ultimately show ?thesis using p unfolding pass_post_def by blast
  next
    case False
    have "set rest \<subseteq> set queue'" using p unfolding pass_post_def by blast
    with False u(2) have "u \<notin> set (cur # rest)" by auto
    with c arru e obtain b where "arr v = Some b" "b \<le> a + w"
      unfolding walk_closed_upto_def by blast
    moreover have "arr_le (fst lab') arr" using p by (auto simp: pass_post_def)
    ultimately show ?thesis unfolding arr_le_def by (meson order_trans)
  qed
qed

lemma walk_closed_upto_drop:
  assumes "walk_closed_upto (insert cur Q) tfs prov arr" "prov cur"
  shows "walk_closed_upto Q tfs prov arr"
  unfolding walk_closed_upto_def
proof (intro allI impI)
  fix u a v w
  assume *: "arr u = Some a" "u \<notin> Q" "walk_edge tfs prov u v w"
  then have "u \<noteq> cur" using assms(2) by (auto simp: walk_edge_def)
  with * assms(1) show "\<exists>b. arr v = Some b \<and> b \<le> a + w" unfolding walk_closed_upto_def by blast
qed

lemma closes_trans:
  "closes U tfs prov s d lab1 lab2 \<Longrightarrow> arr_le (fst lab1) (fst lab0) \<Longrightarrow>
   (\<And>R. walk_stable tfs prov R \<Longrightarrow> holds_on (fst lab0) R \<Longrightarrow> holds_on (fst lab1) R) \<Longrightarrow>
   closes U tfs prov s d lab0 lab2"
  unfolding closes_def using arr_le_trans by blast

lemma relax_closes:
  assumes U: "\<And>c. U c \<Longrightarrow> c_dep c \<le> c_arr c" and n: "nonneg_transfers tfs"
  shows "label_inv U tfs prov s d lab \<Longrightarrow> set queue \<subseteq> dom (fst lab) \<Longrightarrow>
    walk_closed_upto (set queue) tfs prov (fst lab) \<Longrightarrow>
    \<exists>lab'. relax tfs prov queue lab = Some lab' \<and> closes U tfs prov s d lab lab'"
proof (induction "(queue, lab)" arbitrary: queue lab rule: wf_induct_rule [OF wf_measure_rel [of tfs d]])
  case 1
  note IH = "1.hyps" and inv = "1.prems"(1) and dom = "1.prems"(2) and cl = "1.prems"(3)
  show ?case
  proof (cases queue)
    case Nil
    then show ?thesis using inv cl by (auto simp: relax.simps closes_def)
  next
    case (Cons cur rest)
    show ?thesis
    proof (cases "prov cur")
      case True
      have "\<exists>lab'. relax tfs prov rest lab = Some lab' \<and> closes U tfs prov s d lab lab'"
      proof (rule IH)
        show "((rest, lab), queue, lab) \<in> measure_rel tfs d" by (simp add: measure_rel_def Cons)
        show "walk_closed_upto (set rest) tfs prov (fst lab)"
          by (rule walk_closed_upto_drop [where prov = prov, OF _ True]) (use cl Cons in simp)
      qed (use inv dom Cons in auto)
      then show ?thesis using True Cons by (simp add: relax.simps)
    next
      case False
      obtain t where t: "fst lab cur = Some t" using dom Cons by auto
      obtain lab1 queue1 where r: "relax_edges prov cur t (map_get tfs cur) lab rest = (lab1, queue1)"
        by (meson surj_pair)
      have p: "pass_post U tfs prov s d cur t (map_get tfs cur) (fst lab, snd lab) rest lab1 queue1"
        by (rule relax_edges_spec [where prov = prov, OF U n False]) (use inv t r in auto)
      have "\<exists>lab'. relax tfs prov queue1 lab1 = Some lab' \<and> closes U tfs prov s d lab1 lab'"
      proof (rule IH)
        have "(lab1 = lab \<and> queue1 = rest) \<or> progress tfs d (fst lab1) (fst lab)"
          using p unfolding pass_post_def by simp
        then show "((queue1, lab1), queue, lab) \<in> measure_rel tfs d"
          by (auto simp: measure_rel_def progress_def Cons)
        show "label_inv U tfs prov s d lab1" using p by (simp add: pass_post_def)
        have "set queue1 \<subseteq> set rest \<union> dom (fst lab1)" "arr_le (fst lab1) (fst lab)"
          using p by (auto simp: pass_post_def)
        then show "set queue1 \<subseteq> dom (fst lab1)"
          using dom Cons unfolding arr_le_def by fastforce
        show "walk_closed_upto (set queue1) tfs prov (fst lab1)"
          by (rule pass_closed [OF p]) (use cl Cons in simp)
      qed
      then obtain lab' where "relax tfs prov queue1 lab1 = Some lab'" "closes U tfs prov s d lab1 lab'"
        by blast
      moreover have "closes U tfs prov s d lab lab'"
        by (rule closes_trans [OF \<open>closes U tfs prov s d lab1 lab'\<close>]) (use p in \<open>auto simp: pass_post_def\<close>)
      ultimately show ?thesis using False Cons t r by (simp add: relax.simps arr_get_def)
    qed
  qed
qed

text \<open>
  The interface the scan relies on. \<open>rlx\<close> is called on labels that are closed except at the
  stops of the queue.
\<close>

locale walking_closure =
  fixes rlx :: relaxer
  assumes rlx_closes:
    "(\<And>c. U c \<Longrightarrow> c_dep c \<le> c_arr c) \<Longrightarrow> nonneg_transfers tfs \<Longrightarrow> label_inv U tfs prov s d lab \<Longrightarrow>
     set queue \<subseteq> dom (fst lab) \<Longrightarrow> walk_closed_upto (set queue) tfs prov (fst lab) \<Longrightarrow>
     \<exists>lab'. rlx tfs prov queue lab = Some lab' \<and> closes U tfs prov s d lab lab'"


section \<open>The scan\<close>

definition ride_stable :: "network \<Rightarrow> mode list \<Rightarrow> connection list \<Rightarrow> (string \<Rightarrow> gotime \<Rightarrow> bool) \<Rightarrow> bool" where
  "ride_stable net allowed cs R \<longleftrightarrow>
     (\<forall>c \<in> set cs. usable net allowed c \<longrightarrow> (\<forall>t \<le> c_dep c. R (c_from c) t \<longrightarrow> R (c_to c) (c_arr c)))"

definition ride_closed :: "network \<Rightarrow> mode list \<Rightarrow> connection set \<Rightarrow> (string \<rightharpoonup> gotime) \<Rightarrow> bool" where
  "ride_closed net allowed C arr \<longleftrightarrow>
     (\<forall>c \<in> C. usable net allowed c \<longrightarrow> (\<forall>a \<le> c_dep c. arr (c_from c) = Some a \<longrightarrow>
        (\<exists>b. arr (c_to c) = Some b \<and> b \<le> c_arr c)))"

definition on_time :: "network \<Rightarrow> mode list \<Rightarrow> connection set \<Rightarrow> connection \<Rightarrow> bool" where
  "on_time net allowed C c \<longleftrightarrow> c \<in> C \<and> usable net allowed c"

context walking_closure
begin

lemma board_closes:
  assumes U: "\<And>c. on_time net allowed C c \<Longrightarrow> c_dep c \<le> c_arr c" and n: "nonneg_transfers tfs"
    and inv: "label_inv (on_time net allowed C) tfs (n_provisional net) s d (arr, pred)"
    and cl: "walk_closed_upto {} tfs (n_provisional net) arr"
    and b: "boardable net allowed arr c" "c \<in> C"
  shows "\<exists>lab'. rlx tfs (n_provisional net) [c_to c] (arr(c_to c \<mapsto> c_arr c), pred(c_to c \<mapsto> PrevConn c)) = Some lab' \<and>
    closes (on_time net allowed C) tfs (n_provisional net) s d
      (arr(c_to c \<mapsto> c_arr c), pred(c_to c \<mapsto> PrevConn c)) lab' \<and>
    (\<forall>v. fst lab' v = arr v \<or> (\<exists>x. fst lab' v = Some x \<and> c_arr c \<le> x))"
proof -
  let ?prov = "n_provisional net"
  let ?arr = "arr(c_to c \<mapsto> c_arr c)" and ?pred = "pred(c_to c \<mapsto> PrevConn c)"
  let ?U = "on_time net allowed C"
  obtain a where a: "usable net allowed c" "arr (c_from c) = Some a" "a \<le> c_dep c" "improves arr (c_to c) (c_arr c)"
    using b(1) unfolding boardable_def by (auto split: if_splits option.splits)
  have Uc: "?U c" using a(1) b(2) by (simp add: on_time_def)
  have le: "a \<le> c_arr c" using a(3) U [OF Uc] by simp
  have inv': "label_inv ?U tfs ?prov s d (?arr, ?pred)"
    by (rule label_inv_improve [OF U n inv a(4), of _ a]) (use a Uc le in auto)
  have al: "arr_le ?arr arr" by (rule arr_le_upd [OF a(4)])
  have cl': "walk_closed_upto {c_to c} tfs ?prov ?arr"
    unfolding walk_closed_upto_def
  proof (intro allI impI)
    fix u x v w assume *: "?arr u = Some x" "u \<notin> {c_to c}" "walk_edge tfs ?prov u v w"
    then have "arr u = Some x" by simp
    with *(3) cl obtain y where "arr v = Some y" "y \<le> x + w"
      unfolding walk_closed_upto_def by blast
    with al show "\<exists>b. ?arr v = Some b \<and> b \<le> x + w" unfolding arr_le_def by (meson order_trans)
  qed
  obtain lab' where l: "rlx tfs ?prov [c_to c] (?arr, ?pred) = Some lab'"
    and c: "closes ?U tfs ?prov s d (?arr, ?pred) lab'"
    using rlx_closes [OF U n inv', of "[c_to c]"] cl' by auto
  let ?R = "\<lambda>v t. c_arr c \<le> t \<or> (\<exists>x. arr v = Some x \<and> x \<le> t)"
  have "walk_stable tfs ?prov ?R"
    unfolding walk_stable_def
  proof (intro allI impI)
    fix u v w t assume R: "?R u t" and e: "walk_edge tfs ?prov u v w"
    have w: "0 \<le> w" using walk_edge_nonneg [OF n e] .
    show "?R v (t + w)"
    proof (cases "c_arr c \<le> t")
      case True
      with w show ?thesis by linarith
    next
      case False
      with R obtain x where "arr u = Some x" "x \<le> t" by blast
      with cl e obtain y where "arr v = Some y" "y \<le> x + w" unfolding walk_closed_upto_def by blast
      with \<open>x \<le> t\<close> show ?thesis by fastforce
    qed
  qed
  moreover have "holds_on ?arr ?R" by (auto simp: holds_on_def)
  ultimately have R: "holds_on (fst lab') ?R" using c by (auto simp: closes_def)
  have "fst lab' v = arr v \<or> (\<exists>x. fst lab' v = Some x \<and> c_arr c \<le> x)" for v
  proof (cases "fst lab' v")
    case None
    have "arr_le (fst lab') arr" using c arr_le_trans [OF _ al] by (auto simp: closes_def)
    with None have "arr v = None" unfolding arr_le_def by (metis not_None_eq option.distinct(1))
    with None show ?thesis by simp
  next
    case (Some x)
    with R consider "c_arr c \<le> x" | y where "arr v = Some y" "y \<le> x"
      unfolding holds_on_def by blast
    then show ?thesis
    proof cases
      case (2 y)
      have "arr_le (fst lab') arr" using c arr_le_trans [OF _ al] by (auto simp: closes_def)
      with 2 Some have "x \<le> y" unfolding arr_le_def by (metis option.inject)
      with 2 Some show ?thesis by simp
    qed (use Some in simp)
  qed
  with l c show ?thesis by blast
qed

lemma scan_spec:
  assumes U: "\<And>c. on_time net allowed C c \<Longrightarrow> c_dep c \<le> c_arr c" and n: "nonneg_transfers tfs"
  shows "label_inv (on_time net allowed C) tfs (n_provisional net) s d lab \<Longrightarrow>
    walk_closed_upto {} tfs (n_provisional net) (fst lab) \<Longrightarrow> set cs \<subseteq> C \<Longrightarrow>
    \<exists>lab'. scan rlx net allowed tfs cs lab = Some lab' \<and>
      label_inv (on_time net allowed C) tfs (n_provisional net) s d lab' \<and>
      walk_closed_upto {} tfs (n_provisional net) (fst lab') \<and> arr_le (fst lab') (fst lab) \<and>
      (\<forall>R. walk_stable tfs (n_provisional net) R \<longrightarrow> ride_stable net allowed cs R \<longrightarrow>
         holds_on (fst lab) R \<longrightarrow> holds_on (fst lab') R)"
proof (induction cs arbitrary: lab)
  case Nil
  then show ?case by simp
next
  case (Cons c cs)
  obtain arr pred where lab [simp]: "lab = (arr, pred)" by (cases lab)
  show ?case
  proof (cases "boardable net allowed arr c")
    case False
    with Cons.IH [of lab] Cons.prems show ?thesis by (auto simp: ride_stable_def)
  next
    case True
    let ?arr = "arr(c_to c \<mapsto> c_arr c)"
    obtain lab1 where l1: "rlx tfs (n_provisional net) [c_to c] (?arr, pred(c_to c \<mapsto> PrevConn c)) = Some lab1"
      and c1: "closes (on_time net allowed C) tfs (n_provisional net) s d (?arr, pred(c_to c \<mapsto> PrevConn c)) lab1"
      using board_closes [OF U n Cons.prems(1,2)[unfolded lab fst_conv] True] Cons.prems(3) by auto
    obtain lab2 where l2: "scan rlx net allowed tfs cs lab1 = Some lab2"
      "label_inv (on_time net allowed C) tfs (n_provisional net) s d lab2"
      "walk_closed_upto {} tfs (n_provisional net) (fst lab2)" "arr_le (fst lab2) (fst lab1)"
      "\<And>R. walk_stable tfs (n_provisional net) R \<Longrightarrow> ride_stable net allowed cs R \<Longrightarrow>
         holds_on (fst lab1) R \<Longrightarrow> holds_on (fst lab2) R"
      using Cons.IH [of lab1] c1 Cons.prems(3) unfolding closes_def by (metis insert_subset list.simps(15))
    have imp: "improves arr (c_to c) (c_arr c)" "usable net allowed c"
      and "\<exists>a \<le> c_dep c. arr (c_from c) = Some a"
      using True unfolding boardable_def by (auto split: if_splits option.splits)
    then obtain a where a: "a \<le> c_dep c" "arr (c_from c) = Some a" by blast
    have "arr_le (fst lab1) arr" using c1 arr_le_trans arr_le_upd [OF imp(1)] by (auto simp: closes_def)
    then have "arr_le (fst lab2) arr" using l2(4) arr_le_trans by blast
    moreover have "holds_on (fst lab2) R"
      if "walk_stable tfs (n_provisional net) R" "ride_stable net allowed (c # cs) R" "holds_on arr R" for R
    proof (rule l2(5) [OF that(1)])
      show "ride_stable net allowed cs R" using that(2) by (simp add: ride_stable_def)
      have "R (c_to c) (c_arr c)" using that(2,3) imp(2) a by (auto simp: ride_stable_def holds_on_def)
      then have "holds_on ?arr R" using that(3) by (simp add: holds_on_def)
      then show "holds_on (fst lab1) R" using c1 that(1) by (auto simp: closes_def)
    qed
    ultimately show ?thesis using True l1 l2 by (simp del: fun_upd_apply)
  qed
qed

text \<open>
  With the connections in order of departure and every usable ride taking time, a label that
  changes while \<open>c\<close> is boarded is too late for every connection scanned before, so what is closed
  under the scanned rides stays closed.
\<close>

lemma board_ride_closed:
  assumes rc: "ride_closed net allowed D arr"
    and before: "\<forall>c' \<in> insert c D. c_dep c' \<le> c_dep c" "c_dep c < c_arr c"
    and le: "arr_le arr' (arr(c_to c \<mapsto> c_arr c))" "arr_le arr' arr"
    and ch: "\<forall>v. arr' v = arr v \<or> (\<exists>x. arr' v = Some x \<and> c_arr c \<le> x)"
  shows "ride_closed net allowed (insert c D) arr'"
  unfolding ride_closed_def
proof (intro ballI impI allI)
  fix c' a
  assume c': "c' \<in> insert c D" "usable net allowed c'" and a: "a \<le> c_dep c'" "arr' (c_from c') = Some a"
  show "\<exists>b. arr' (c_to c') = Some b \<and> b \<le> c_arr c'"
  proof (cases "c' = c")
    case True
    with le(1) show ?thesis unfolding arr_le_def by simp
  next
    case False
    have "a < c_arr c" using a(1) before c'(1) by fastforce
    with ch a(2) have "arr (c_from c') = Some a" by (metis not_le option.inject)
    with rc c' a(1) False obtain b where "arr (c_to c') = Some b" "b \<le> c_arr c'"
      unfolding ride_closed_def by blast
    with le(2) show ?thesis unfolding arr_le_def by (meson order_trans)
  qed
qed

lemma scan_ride_closed:
  assumes U: "\<And>c. on_time net allowed C c \<Longrightarrow> c_dep c < c_arr c" and n: "nonneg_transfers tfs"
  shows "label_inv (on_time net allowed C) tfs (n_provisional net) s d lab \<Longrightarrow>
    walk_closed_upto {} tfs (n_provisional net) (fst lab) \<Longrightarrow> set cs \<subseteq> C \<Longrightarrow>
    scan rlx net allowed tfs cs lab = Some lab' \<Longrightarrow>
    sorted_wrt (\<lambda>a b. c_dep a \<le> c_dep b) cs \<Longrightarrow> (\<forall>a \<in> D. \<forall>b \<in> set cs. c_dep a \<le> c_dep b) \<Longrightarrow>
    ride_closed net allowed D (fst lab) \<Longrightarrow> ride_closed net allowed (D \<union> set cs) (fst lab')"
proof (induction cs arbitrary: lab D)
  case Nil
  then show ?case by simp
next
  case (Cons c cs)
  obtain arr pred where lab [simp]: "lab = (arr, pred)" by (cases lab)
  have U': "\<And>c. on_time net allowed C c \<Longrightarrow> c_dep c \<le> c_arr c" using U by force
  have D: "\<forall>a \<in> insert c D. \<forall>b \<in> set cs. c_dep a \<le> c_dep b" using Cons.prems(5,6) by auto
  have "ride_closed net allowed (insert c D \<union> set cs) (fst lab')"
  proof (cases "boardable net allowed arr c")
    case False
    show ?thesis
    proof (rule Cons.IH [OF Cons.prems(1,2) _ _ _ D])
      have "ride_closed net allowed {c} arr"
        using False by (auto simp: ride_closed_def boardable_def improves_False split: if_splits)
      with Cons.prems(7) show "ride_closed net allowed (insert c D) (fst lab)"
        by (simp add: ride_closed_def)
    qed (use Cons.prems False in auto)
  next
    case True
    let ?arr = "arr(c_to c \<mapsto> c_arr c)"
    obtain lab1 where l1: "rlx tfs (n_provisional net) [c_to c] (?arr, pred(c_to c \<mapsto> PrevConn c)) = Some lab1"
      and c1: "closes (on_time net allowed C) tfs (n_provisional net) s d (?arr, pred(c_to c \<mapsto> PrevConn c)) lab1"
      and ch: "\<forall>v. fst lab1 v = arr v \<or> (\<exists>x. fst lab1 v = Some x \<and> c_arr c \<le> x)"
      using board_closes [OF U' n Cons.prems(1,2)[unfolded lab fst_conv] True] Cons.prems(3) by auto
    have imp: "improves arr (c_to c) (c_arr c)" "usable net allowed c"
      using True unfolding boardable_def by (auto split: if_splits option.splits)
    show ?thesis
    proof (rule Cons.IH [OF _ _ _ _ _ D])
      show "label_inv (on_time net allowed C) tfs (n_provisional net) s d lab1"
        "walk_closed_upto {} tfs (n_provisional net) (fst lab1)" using c1 by (auto simp: closes_def)
      show "scan rlx net allowed tfs cs lab1 = Some lab'" using Cons.prems(4) True l1 by simp
      have le: "arr_le (fst lab1) ?arr" using c1 by (auto simp: closes_def)
      have "c_dep c < c_arr c" using U Cons.prems(3) imp(2) by (auto simp: on_time_def)
      then show "ride_closed net allowed (insert c D) (fst lab1)"
        using board_ride_closed [OF _ _ _ le arr_le_trans [OF le arr_le_upd [OF imp(1)]] ch] Cons.prems(6,7)
        by auto
    qed (use Cons.prems in auto)
  qed
  then show ?case by simp
qed

end

interpretation csa_walk: walking_closure relax
  by unfold_locales (rule relax_closes)

text \<open>Closed labels are at most the time of any journey.\<close>

lemma closed_optimal:
  assumes "arr s = Some d" "walk_closed_upto {} tfs (n_provisional net) arr" "ride_closed net allowed C arr"
    and "reach net allowed tfs s d C v t"
  shows "\<exists>b. arr v = Some b \<and> b \<le> t"
  using assms(4)
proof (induction rule: reach.induct)
  case start
  then show ?case using assms(1) by simp
next
  case (ride c t)
  then obtain b where "arr (c_from c) = Some b" "b \<le> c_dep c" by fastforce
  with assms(3) ride show ?case unfolding ride_closed_def by blast
next
  case (walk u t v w)
  then obtain b where "arr u = Some b" "b \<le> t" by blast
  moreover with assms(2) walk obtain b' where "arr v = Some b'" "b' \<le> b + w"
    unfolding walk_closed_upto_def by blast
  ultimately show ?case by fastforce
qed

end
