(* ===== verification/Csa_Journeys.thy ===== *)
theory Csa_Journeys
  imports Csa_Correct
begin

text \<open>
  From labels to journeys: the labels of \<open>csa\<close> exist and are exactly the earliest arrivals, the walk
  back over the predecessors ends and gives a path, and the legs of \<open>buildLegs\<close> join up in place and
  time. The properties of \<open>csa\<close> follow.
\<close>

section \<open>The labels of the engine\<close>

definition rides_forward :: "network \<Rightarrow> mode list \<Rightarrow> bool" where
  "rides_forward net allowed \<longleftrightarrow>
     (\<forall>c \<in> set (n_connections net). usable net allowed c \<longrightarrow> c_dep c \<le> c_arr c)"

definition rides_take_time :: "network \<Rightarrow> mode list \<Rightarrow> bool" where
  "rides_take_time net allowed \<longleftrightarrow>
     (\<forall>c \<in> set (n_connections net). usable net allowed c \<longrightarrow> c_dep c < c_arr c)"

definition csa_reach :: "network \<Rightarrow> search_params \<Rightarrow> string \<Rightarrow> gotime \<Rightarrow> string \<Rightarrow> gotime \<Rightarrow> bool" where
  "csa_reach net params s d v t \<longleftrightarrow>
     reach net (p_modes params) (csa_transfers net) s d (set (n_connections net)) v t"

abbreviation csa_rides :: "network \<Rightarrow> search_params \<Rightarrow> connection \<Rightarrow> bool" where
  "csa_rides net params \<equiv> on_time net (p_modes params) (set (n_connections net))"

abbreviation csa_inv :: "network \<Rightarrow> search_params \<Rightarrow> string \<Rightarrow> gotime \<Rightarrow> labels \<Rightarrow> bool" where
  "csa_inv net params \<equiv> label_inv (csa_rides net params) (csa_transfers net) (n_provisional net)"

lemma set_csa_connections [simp]: "set (csa_connections net) = set (n_connections net)"
  by (simp add: csa_connections_def Let_def)

lemma rides_take_time_forward: "rides_take_time net allowed \<Longrightarrow> rides_forward net allowed"
  unfolding rides_take_time_def rides_forward_def by fastforce

lemma start_labels:
  assumes "rides_forward net (p_modes params)" "nonneg_transfers (csa_transfers net)"
  obtains lab where
    "relax (csa_transfers net) (n_provisional net) [s] ([s \<mapsto> d], Map.empty) = Some lab"
    "csa_inv net params s d lab"
    "walk_closed_upto {} (csa_transfers net) (n_provisional net) (fst lab)"
    "\<And>R. walk_stable (csa_transfers net) (n_provisional net) R \<Longrightarrow> R s d \<Longrightarrow> holds_on (fst lab) R"
proof -
  have "walk_closed_upto (set [s]) (csa_transfers net) (n_provisional net) [s \<mapsto> d]"
    by (auto simp: walk_closed_upto_def split: if_splits)
  then obtain lab where l: "relax (csa_transfers net) (n_provisional net) [s] ([s \<mapsto> d], Map.empty) = Some lab"
    "closes (csa_rides net params) (csa_transfers net) (n_provisional net) s d ([s \<mapsto> d], Map.empty) lab"
    using csa_walk.rlx_closes [where U = "csa_rides net params" and prov = "n_provisional net" and s = s and d = d and queue = "[s]", OF _ assms(2) label_inv_init] assms(1)
    by (auto simp: rides_forward_def on_time_def)
  have "holds_on (fst lab) R" if "walk_stable (csa_transfers net) (n_provisional net) R" "R s d" for R
  proof -
    have "holds_on [s \<mapsto> d] R" using that(2) by (simp add: holds_on_def)
    with that(1) l(2) show ?thesis by (simp add: closes_def)
  qed
  then show thesis
    by (rule that [OF l(1), rotated -1]) (use l(2) in \<open>simp_all add: closes_def\<close>)
qed

lemma csa_labels_spec:
  assumes f: "rides_forward net (p_modes params)" and n: "nonneg_transfers (csa_transfers net)"
  obtains lab where "csa_labels net s d params = Some lab" "csa_inv net params s d lab"
    "walk_closed_upto {} (csa_transfers net) (n_provisional net) (fst lab)"
    "holds_on (fst lab) (csa_reach net params s d)"
proof -
  obtain lab0 where l0:
    "relax (csa_transfers net) (n_provisional net) [s] ([s \<mapsto> d], Map.empty) = Some lab0"
    "csa_inv net params s d lab0"
    "walk_closed_upto {} (csa_transfers net) (n_provisional net) (fst lab0)"
    "\<And>R. walk_stable (csa_transfers net) (n_provisional net) R \<Longrightarrow> R s d \<Longrightarrow> holds_on (fst lab0) R"
    by (rule start_labels [OF f n, of s d]) blast
  obtain lab where l: "scan relax net (p_modes params) (csa_transfers net) (csa_connections net) lab0 = Some lab"
    "csa_inv net params s d lab" "walk_closed_upto {} (csa_transfers net) (n_provisional net) (fst lab)"
    "\<And>R. walk_stable (csa_transfers net) (n_provisional net) R \<Longrightarrow>
       ride_stable net (p_modes params) (csa_connections net) R \<Longrightarrow> holds_on (fst lab0) R \<Longrightarrow> holds_on (fst lab) R"
    using csa_walk.scan_spec [OF _ n l0(2,3), of "csa_connections net"] f
    by (auto simp: rides_forward_def on_time_def)
  have ws: "walk_stable (csa_transfers net) (n_provisional net) (csa_reach net params s d)"
    by (auto simp: walk_stable_def csa_reach_def intro: reach.walk)
  have "holds_on (fst lab) (csa_reach net params s d)"
  proof (rule l(4) [OF ws])
    show "ride_stable net (p_modes params) (csa_connections net) (csa_reach net params s d)"
      by (auto simp: ride_stable_def csa_reach_def intro: reach.ride)
    show "holds_on (fst lab0) (csa_reach net params s d)"
      by (rule l0(4) [OF ws]) (simp add: csa_reach_def reach.start)
  qed
  then show thesis by (rule that [rotated -1]) (use l l0 in \<open>auto simp: csa_labels_def\<close>)
qed

text \<open>A label is never later than any journey.\<close>

lemma csa_labels_optimal:
  assumes f: "rides_take_time net (p_modes params)" and n: "nonneg_transfers (csa_transfers net)"
    and so: "sorted_wrt (\<lambda>a b. c_dep a \<le> c_dep b) (csa_connections net)"
    and l: "csa_labels net s d params = Some lab" and r: "csa_reach net params s d v t"
  shows "\<exists>b. fst lab v = Some b \<and> b \<le> t"
proof -
  note f' = rides_take_time_forward [OF f]
  obtain lab0 where l0:
    "relax (csa_transfers net) (n_provisional net) [s] ([s \<mapsto> d], Map.empty) = Some lab0"
    "csa_inv net params s d lab0"
    "walk_closed_upto {} (csa_transfers net) (n_provisional net) (fst lab0)"
    by (rule start_labels [OF f' n, of s d]) blast
  have sc: "scan relax net (p_modes params) (csa_transfers net) (csa_connections net) lab0 = Some lab"
    using l l0(1) by (simp add: csa_labels_def)
  have "ride_closed net (p_modes params) ({} \<union> set (csa_connections net)) (fst lab)"
    by (rule csa_walk.scan_ride_closed [OF _ n l0(2,3) _ sc so])
      (use f in \<open>auto simp: ride_closed_def rides_take_time_def on_time_def\<close>)
  moreover obtain "walk_closed_upto {} (csa_transfers net) (n_provisional net) (fst lab)"
    "csa_inv net params s d lab"
    by (rule csa_labels_spec [OF f' n, of s d]) (use l in auto)
  ultimately show ?thesis
    using closed_optimal [of "fst lab" s d] r by (auto simp: csa_reach_def label_inv_def)
qed

lemma reach_finite: "reach net allowed tfs s d C v t \<Longrightarrow> v \<in> insert s (targets tfs \<union> c_to ` C)"
  by (induction rule: reach.induct) (auto simp: walk_edge_def targetsI)

lemma holds_reach_finite: "holds_on arr (csa_reach net params s d) \<Longrightarrow> finite (dom arr)"
proof -
  assume h: "holds_on arr (csa_reach net params s d)"
  have "dom arr \<subseteq> insert s (targets (csa_transfers net) \<union> c_to ` set (n_connections net))"
    using h reach_finite unfolding holds_on_def csa_reach_def by blast
  then show ?thesis by (rule finite_subset) simp
qed

section \<open>The walk back\<close>

fun step_from :: "step \<Rightarrow> string" where
  "step_from (StepConn c) = c_from c"
| "step_from (StepFoot u v) = u"

fun step_to :: "step \<Rightarrow> string" where
  "step_to (StepConn c) = c_to c"
| "step_to (StepFoot u v) = v"

fun step_path :: "string \<Rightarrow> step list \<Rightarrow> string \<Rightarrow> bool" where
  "step_path u [] v = (u = v)"
| "step_path u (st # sts) v = (step_from st = u \<and> step_path (step_to st) sts v)"

lemma step_path_snoc: "step_path u (sts @ [st]) v \<longleftrightarrow> step_path u sts (step_from st) \<and> step_to st = v"
  by (induction sts arbitrary: u) auto

fun step_ok :: "(connection \<Rightarrow> bool) \<Rightarrow> (string \<times> transfer list) list \<Rightarrow> (string \<Rightarrow> bool) \<Rightarrow>
    (string \<rightharpoonup> gotime) \<Rightarrow> step \<Rightarrow> bool" where
  "step_ok U tfs prov arr (StepConn c) = link_ok U tfs prov arr (c_to c) (PrevConn c)"
| "step_ok U tfs prov arr (StepFoot u v) = link_ok U tfs prov arr v (PrevFoot u)"

lemma wf_pred_edges:
  assumes "label_inv U tfs prov s d (arr, pred)" "finite (dom arr)"
  shows "wf (pred_edges pred)"
proof (rule finite_acyclic_wf [OF _ label_invD(6) [OF assms(1)]])
  have "dom pred \<subseteq> dom arr"
    using label_invD(2,4) [OF assms(1)] by (metis domIff subsetI)
  moreover have "pred_edges pred = (\<lambda>v. (prev_src (the (pred v)), v)) ` dom pred"
    by (force simp: pred_edges_def)
  ultimately show "finite (pred_edges pred)" using assms(2) by (simp add: finite_subset)
qed

lemma reconstruct_loop_path:
  assumes i: "label_inv U tfs prov s d (arr, pred)" and fin: "finite (dom arr)"
  shows "arr v \<noteq> None \<Longrightarrow> \<exists>sts. reconstruct_loop pred s v racc = Some (racc @ rev sts) \<and>
    step_path s sts v \<and> (\<forall>st \<in> set sts. step_ok U tfs prov arr st) \<and> (v \<noteq> s \<longrightarrow> sts \<noteq> [])"
proof (induction v arbitrary: racc rule: wf_induct_rule [OF wf_pred_edges [OF assms]])
  case (1 v)
  show ?case
  proof (cases "v = s")
    case True
    then show ?thesis by (intro exI [of _ "[]"]) (simp add: reconstruct_loop.simps)
  next
    case False
    then obtain p where p: "pred v = Some p" using label_invD(4) [OF i False] "1.prems" by auto
    define st where "st = (case p of PrevConn c \<Rightarrow> StepConn c | PrevFoot u \<Rightarrow> StepFoot u v)"
    have ok: "link_ok U tfs prov arr v p" by (rule label_invD(5) [OF i p])
    have st: "step_from st = prev_src p" "step_to st = v" "step_ok U tfs prov arr st"
      using ok by (auto simp: st_def split: prev.splits)
    have "(prev_src p, v) \<in> pred_edges pred" using p by (auto simp: pred_edges_def)
    moreover have "arr (prev_src p) \<noteq> None" using ok by (cases p) auto
    ultimately obtain sts where "reconstruct_loop pred s (prev_src p) (racc @ [st]) = Some ((racc @ [st]) @ rev sts)"
      "step_path s sts (prev_src p)" "\<forall>st \<in> set sts. step_ok U tfs prov arr st"
      using "1.IH" by blast
    moreover have "reconstruct_loop pred s v racc = reconstruct_loop pred s (prev_src p) (racc @ [st])"
      using False p by (subst reconstruct_loop.simps) (auto simp: st_def split: prev.splits)
    ultimately show ?thesis
      using st by (intro exI [of _ "sts @ [st]"]) (auto simp: step_path_snoc)
  qed
qed

lemma reconstruct_path:
  assumes "label_inv U tfs prov s d (arr, pred)" "finite (dom arr)" "pred v \<noteq> None"
  shows "\<exists>sts. reconstruct pred s v = Some sts \<and> step_path s sts v \<and>
    (\<forall>st \<in> set sts. step_ok U tfs prov arr st) \<and> sts \<noteq> []"
proof -
  have v: "v \<noteq> s" using assms(3) label_invD(2) [OF assms(1)] by auto
  moreover have "arr v \<noteq> None" using label_invD(4) [OF assms(1) v] assms(3) by auto
  ultimately show ?thesis
    using reconstruct_loop_path [OF assms(1,2), of v "[]"] by (auto simp: reconstruct_def)
qed


section \<open>The legs\<close>

definition stops_known :: "network \<Rightarrow> string set \<Rightarrow> bool" where
  "stops_known net V \<longleftrightarrow> (\<forall>v \<in> V. \<exists>x. stop_at net v = Some x \<and> stop_id x = v)"

text \<open>Two legs join up: the second starts where the first ends, and not before.\<close>

definition leg_join :: "leg \<Rightarrow> leg \<Rightarrow> bool" where
  "leg_join a b \<longleftrightarrow> lp_stop (l_to a) = lp_stop (l_from b) \<and> l_arr a \<le> l_dep b"

definition leg_ok :: "network \<Rightarrow> mode list \<Rightarrow> leg \<Rightarrow> bool" where
  "leg_ok net allowed l \<longleftrightarrow> l_dep l \<le> l_arr l \<and>
     (l_mode l = ModeWalk \<or> allowed = [] \<or> l_mode l \<in> set allowed) \<and>
     (\<exists>f. stop_at net (lp_stop (l_from l)) = Some f \<and> l_from l = legPoint f) \<and>
     (\<exists>t. stop_at net (lp_stop (l_to l)) = Some t \<and> l_to l = legPoint t)"

text \<open>
  A door-to-door chain of legs from \<open>s\<close>, not before \<open>d\<close>, to \<open>v\<close>, at \<open>t\<close>.
\<close>

definition journey_ok :: "network \<Rightarrow> mode list \<Rightarrow> string \<Rightarrow> gotime \<Rightarrow> string \<Rightarrow> gotime \<Rightarrow> leg list \<Rightarrow> bool" where
  "journey_ok net allowed s d v t legs \<longleftrightarrow>
     successively leg_join legs \<and> (\<forall>l \<in> set legs. leg_ok net allowed l) \<and> legs \<noteq> [] \<and>
     lp_stop (l_from (hd legs)) = s \<and> d \<le> l_dep (hd legs) \<and>
     lp_stop (l_to (last legs)) = v \<and> l_arr (last legs) = t"

definition partial_ok :: "network \<Rightarrow> mode list \<Rightarrow> (string \<rightharpoonup> gotime) \<Rightarrow> string \<Rightarrow> gotime \<Rightarrow> string \<Rightarrow> leg list \<Rightarrow> bool" where
  "partial_ok net allowed arr s d u legs \<longleftrightarrow>
     (if legs = [] then u = s else (\<exists>t. arr u = Some t \<and> journey_ok net allowed s d u t legs))"

lemma partial_ok_snoc:
  assumes p: "partial_ok net allowed arr s d u legs" and l: "leg_ok net allowed l"
    and "lp_stop (l_from l) = u" "lp_stop (l_to l) = v" "arr v = Some (l_arr l)"
    and u: "arr u = Some a" "a \<le> l_dep l" "d \<le> a"
  shows "partial_ok net allowed arr s d v (legs @ [l])"
proof (cases "legs = []")
  case True
  with assms show ?thesis by (auto simp: partial_ok_def journey_ok_def)
next
  case False
  with p u have j: "journey_ok net allowed s d u a legs" by (auto simp: partial_ok_def)
  then have "leg_join (last legs) l" using assms by (auto simp: journey_ok_def leg_join_def)
  then have "successively leg_join (legs @ [l])"
    using j False by (simp add: journey_ok_def successively_append_iff)
  then have "journey_ok net allowed s d v (l_arr l) (legs @ [l])"
    using j False l assms by (auto simp: journey_ok_def)
  then show ?thesis using assms(5) by (simp add: partial_ok_def)
qed

lemma partial_ok_extend:
  assumes p: "partial_ok net allowed arr s d u (legs @ [l])" and u: "arr u = Some a" "a \<le> t"
    and t: "stop_at net v = Some x" "stop_id x = v" and v: "arr v = Some t"
  shows "partial_ok net allowed arr s d v (legs @ [l\<lparr>l_to := legPoint x, l_arr := t\<rparr>])"
proof -
  let ?l = "l\<lparr>l_to := legPoint x, l_arr := t\<rparr>"
  have j: "journey_ok net allowed s d u a (legs @ [l])" using p u by (auto simp: partial_ok_def)
  have lp: "lp_stop (legPoint x) = v" using t by (simp add: legPoint_def)
  have "leg_ok net allowed l" "l_arr l = a" using j by (auto simp: journey_ok_def)
  then have "leg_ok net allowed ?l" using u(2) t lp by (auto simp: leg_ok_def)
  moreover have "successively leg_join (legs @ [?l])"
    using j by (auto simp: journey_ok_def successively_append_iff leg_join_def)
  moreover have "lp_stop (l_from (hd (legs @ [?l]))) = s" "d \<le> l_dep (hd (legs @ [?l]))"
    using j by (cases legs; simp add: journey_ok_def)+
  ultimately have "journey_ok net allowed s d v t (legs @ [?l])"
    using j lp by (auto simp: journey_ok_def)
  with v show ?thesis by (simp add: partial_ok_def)
qed

lemma end_leg_nil [simp]: "end_leg legs None = legs"
  and end_leg_some [simp]: "end_leg legs (Some l) = legs @ [l]"
  by (simp_all add: end_leg_def)

lemma build_loop_ok:
  assumes U: "\<And>c. U c \<Longrightarrow> c_dep c \<le> c_arr c \<and> (allowed = [] \<or> c_mode c \<in> set allowed)"
    and n: "nonneg_transfers tfs" and st: "stops_known net (dom arr)"
    and d: "\<And>x a. arr x = Some a \<Longrightarrow> d \<le> a"
  shows "step_path u sts v \<Longrightarrow> \<forall>x \<in> set sts. step_ok U tfs (n_provisional net) arr x \<Longrightarrow>
    partial_ok net allowed arr s d u (end_leg legs cur) \<Longrightarrow>
    \<exists>out. build_loop net arr legs cur sts = Inr out \<and> partial_ok net allowed arr s d v out \<and>
      (sts \<noteq> [] \<or> end_leg legs cur \<noteq> [] \<longrightarrow> out \<noteq> [])"
proof (induction sts arbitrary: u legs cur)
  case Nil
  then show ?case by simp
next
  case (Cons x sts)
  show ?case
  proof (cases x)
    case (StepConn c)
    have ok: "U c" "arr (c_to c) = Some (c_arr c)" and "\<exists>a. arr (c_from c) = Some a \<and> a \<le> c_dep c"
      using Cons.prems(2) StepConn by auto
    then obtain a where a: "arr (c_from c) = Some a" "a \<le> c_dep c" by blast
    have u: "c_from c = u" "step_path (c_to c) sts v" using Cons.prems(1) StepConn by auto
    obtain f where f: "stop_at net (c_from c) = Some f" "stop_id f = c_from c"
      using st a(1) unfolding stops_known_def by blast
    obtain t where t: "stop_at net (c_to c) = Some t" "stop_id t = c_to c"
      using st ok(2) unfolding stops_known_def by blast
    have le: "c_dep c \<le> c_arr c" using U [OF ok(1)] ..
    show ?thesis
    proof (cases "same_trip cur c")
      case True
      then obtain l where l: "cur = Some l" by (auto simp: same_trip_def split: option.splits)
      let ?l = "l\<lparr>l_to := legPoint t, l_arr := c_arr c\<rparr>"
      have "partial_ok net allowed arr s d (c_to c) (end_leg legs (Some ?l))"
        using partial_ok_extend [OF _ a(1) _ t ok(2)] Cons.prems(3) a(2) le l u(1) by simp
      then show ?thesis
        using Cons.IH [OF u(2), of legs "Some ?l"] Cons.prems(2) StepConn True l f t by auto
    next
      case False
      have "leg_ok net allowed (ride_leg c f t)"
        using U [OF ok(1)] f t by (auto simp: leg_ok_def ride_leg_def legPoint_def)
      then have "partial_ok net allowed arr s d (c_to c) (end_leg legs cur @ [ride_leg c f t])"
        by (rule partial_ok_snoc [OF Cons.prems(3)])
          (use a d ok f t u in \<open>auto simp: ride_leg_def legPoint_def\<close>)
      then show ?thesis
        using Cons.IH [OF u(2), of "end_leg legs cur" "Some (ride_leg c f t)"] Cons.prems(2) StepConn False f t
        by auto
    qed
  next
    case (StepFoot y z)
    obtain a b w where ok: "arr y = Some a" "arr z = Some b" "walk_edge tfs (n_provisional net) y z w" "a + w \<le> b"
      using Cons.prems(2) StepFoot by auto
    have u: "y = u" "step_path z sts v" using Cons.prems(1) StepFoot by auto
    obtain f where f: "stop_at net y = Some f" "stop_id f = y"
      using st ok(1) unfolding stops_known_def by blast
    obtain t where t: "stop_at net z = Some t" "stop_id t = z"
      using st ok(2) unfolding stops_known_def by blast
    have le: "a \<le> b" using ok(4) walk_edge_nonneg [OF n ok(3)] by simp
    let ?w = "walk_leg f t (arr_get arr y) (arr_get arr z)"
    have "leg_ok net allowed ?w"
      using f t le ok by (auto simp: leg_ok_def walk_leg_def legPoint_def arr_get_def)
    then have "partial_ok net allowed arr s d z (end_leg legs cur @ [?w])"
      by (rule partial_ok_snoc [OF Cons.prems(3)])
        (use ok d f t u in \<open>auto simp: walk_leg_def legPoint_def arr_get_def\<close>)
    then show ?thesis
      using Cons.IH [OF u(2), of "end_leg legs cur @ [?w]" None] Cons.prems(2) StepFoot f t by auto
  qed
qed


section \<open>The engine as a whole\<close>

text \<open>
  What the loader of the network establishes: every stop that a connection arrives at or a transfer
  leads to, and the origin, is in \<open>net.Stops\<close> under its own id, and transfers take no negative time.
\<close>

definition csa_known :: "network \<Rightarrow> string \<Rightarrow> bool" where
  "csa_known net s \<longleftrightarrow>
     stops_known net (insert s (targets (csa_transfers net) \<union> c_to ` set (n_connections net))) \<and>
     nonneg_transfers (csa_transfers net)"

lemma csa_outcome:
  assumes f: "rides_forward net (p_modes params)" and k: "csa_known net s"
  obtains (no_path) "v = s \<or> (\<forall>lab. csa_labels net s d params = Some lab \<longrightarrow> fst lab v = None)"
      "csa net s v d params = Some (Inl (NoPath s v))"
  | (legs) lab t legs where "v \<noteq> s" "csa_labels net s d params = Some lab" "fst lab v = Some t"
      "csa_reach net params s d v t" "journey_ok net (p_modes params) s d v t legs"
      "csa net s v d params =
         Some (transfer_limit (if p_max_transfers params < 0 then - 1 else p_max_transfers params) legs)"
proof -
  have n: "nonneg_transfers (csa_transfers net)" using k by (simp add: csa_known_def)
  obtain lab where l: "csa_labels net s d params = Some lab" "csa_inv net params s d lab"
    "holds_on (fst lab) (csa_reach net params s d)"
    by (rule csa_labels_spec [OF f n])
  obtain arr pred where lab: "lab = (arr, pred)" by (cases lab)
  note i = l(2) [unfolded lab]
  have r: "holds_on arr (csa_reach net params s d)" using l(3) lab by simp
  show thesis
  proof (cases "pred v")
    case None
    then have "v = s \<or> arr v = None" using label_invD(4) [OF i, of v] by blast
    with None l(1) lab show thesis by (intro no_path) (auto simp: csa_def)
  next
    case (Some p)
    have vs: "v \<noteq> s" using Some label_invD(2) [OF i] by auto
    obtain t where t: "arr v = Some t" using label_invD(4) [OF i vs] Some by auto
    obtain sts where sts: "reconstruct pred s v = Some sts" "step_path s sts v" "sts \<noteq> []"
      "\<forall>st \<in> set sts. step_ok (csa_rides net params) (csa_transfers net) (n_provisional net) arr st"
      using reconstruct_path [OF i holds_reach_finite [OF r]] Some by blast
    have "dom arr \<subseteq> insert s (targets (csa_transfers net) \<union> c_to ` set (n_connections net))"
      using r reach_finite unfolding holds_on_def csa_reach_def by blast
    then have st: "stops_known net (dom arr)"
      using k unfolding csa_known_def stops_known_def by blast
    have "partial_ok net (p_modes params) arr s d s (end_leg [] None)" by (simp add: partial_ok_def)
    moreover have "\<And>x a. arr x = Some a \<Longrightarrow> d \<le> a" by (rule label_invD(3) [OF i])
    moreover have "\<And>c. csa_rides net params c \<Longrightarrow>
        c_dep c \<le> c_arr c \<and> (p_modes params = [] \<or> c_mode c \<in> set (p_modes params))"
      using f by (auto simp: on_time_def usable_def rides_forward_def)
    ultimately obtain legs where bl: "buildLegs net arr sts = Inr legs"
      "partial_ok net (p_modes params) arr s d v legs" "legs \<noteq> []"
      using build_loop_ok [where allowed = "p_modes params" and legs = "[]" and cur = None and d = d and arr = arr and s = s,
          OF _ n st _ sts(2,4)] sts(3)
      by (auto simp: buildLegs_def)
    show thesis
      by (rule legs [OF vs l(1), of t legs])
        (use bl t l(1) lab sts(1) Some r in \<open>auto simp: csa_def partial_ok_def holds_on_def\<close>)
  qed
qed

lemma transfer_limit_Inr: "transfer_limit m legs = Inr legs' \<longleftrightarrow>
    legs' = legs \<and> (0 \<le> m \<longrightarrow> int (length legs) - 1 \<le> m)"
  by (auto simp: transfer_limit_def)

lemmas transfer_limit_Inr' = transfer_limit_Inr [THEN eq_commute [THEN trans]]

lemma transfer_limit_not_NilDeref [simp]: "transfer_limit m legs \<noteq> Inl NilDeref"
  and transfer_limit_not_NoPath [simp]: "transfer_limit m legs \<noteq> Inl (NoPath a b)"
  by (simp_all add: transfer_limit_def)


lemma csa_total:
  assumes "rides_forward net (p_modes params)" "csa_known net s"
  shows "\<exists>r. csa net s v d params = Some r \<and> r \<noteq> Inl NilDeref"
  by (rule csa_outcome [OF assms, of v d]) auto

lemma csa_journey:
  assumes "rides_forward net (p_modes params)" "csa_known net s"
    and "csa net s v d params = Some (Inr legs)"
  shows "\<exists>t. csa_reach net params s d v t \<and> journey_ok net (p_modes params) s d v t legs \<and>
    (0 \<le> p_max_transfers params \<longrightarrow> int (length legs) - 1 \<le> p_max_transfers params)"
proof (rule csa_outcome [OF assms(1,2), of v d])
  fix lab t legs'
  assume "csa_reach net params s d v t" "journey_ok net (p_modes params) s d v t legs'"
    and c: "csa net s v d params =
      Some (transfer_limit (if p_max_transfers params < 0 then - 1 else p_max_transfers params) legs')"
  moreover have "legs = legs'" "0 \<le> p_max_transfers params \<longrightarrow> int (length legs) - 1 \<le> p_max_transfers params"
    using c assms(3) by (auto simp: transfer_limit_Inr transfer_limit_Inr' split: if_splits)
  ultimately show ?thesis by blast
qed (use assms(3) in auto)

section \<open>Properties of \<open>csa\<close>\<close>

text \<open>C23: On a network whose usable rides do not arrive before they depart, \<open>csa\<close> returns: the
  walking closure and the walk back terminate, and no stop of the answer is missing.\<close>

theorem csa_returns:
  assumes "rides_forward net (p_modes params)" "csa_known net s"
  shows "\<exists>r. csa net s v d params = Some r \<and> r \<noteq> Inl NilDeref"
  by (rule csa_total [OF assms])

text \<open>C3: An answer of \<open>csa\<close> is a journey: its legs run from the origin, not before the departure
  asked for, to the destination, each starts where the one before ends and not before it ends, uses an
  allowed mode and stops of the network, their number respects the transfer limit, and the arrival
  is that of a real journey over the connections and transfers.\<close>

theorem csa_sound:
  assumes "rides_forward net (p_modes params)" "csa_known net s"
    and "csa net s v d params = Some (Inr legs)"
  shows "\<exists>t. csa_reach net params s d v t \<and> journey_ok net (p_modes params) s d v t legs \<and>
    (0 \<le> p_max_transfers params \<longrightarrow> int (length legs) - 1 \<le> p_max_transfers params)"
  by (rule csa_journey [OF assms])

lemma csa_no_earlier:
  assumes "rides_take_time net (p_modes params)" "csa_known net s"
    and "sorted_wrt (\<lambda>a b. c_dep a \<le> c_dep b) (csa_connections net)"
    and "csa_reach net params s d v t" "v \<noteq> s" "csa net s v d params = Some r"
  shows "case r of Inr legs \<Rightarrow> l_arr (last legs) \<le> t
     | Inl e \<Rightarrow> (\<exists>n. e = TransferLimit n (p_max_transfers params)) \<or> e = DirectOnly"
proof (rule csa_outcome [OF rides_take_time_forward [OF assms(1)] assms(2), of v d])
  have n: "nonneg_transfers (csa_transfers net)" using assms(2) by (simp add: csa_known_def)
  note opt = csa_labels_optimal [OF assms(1) n assms(3) _ assms(4)]
  {
    assume none: "v = s \<or> (\<forall>lab. csa_labels net s d params = Some lab \<longrightarrow> fst lab v = None)"
    obtain lab where "csa_labels net s d params = Some lab"
      by (rule csa_labels_spec [OF rides_take_time_forward [OF assms(1)] n])
    with none assms(5) opt show ?thesis by fastforce
  next
    fix lab b legs
    assume l: "csa_labels net s d params = Some lab" "fst lab v = Some b"
      and j: "journey_ok net (p_modes params) s d v b legs"
      and c: "csa net s v d params =
        Some (transfer_limit (if p_max_transfers params < 0 then - 1 else p_max_transfers params) legs)"
    have "b \<le> t" "l_arr (last legs) = b" using opt [OF l(1)] l(2) j by (auto simp: journey_ok_def)
    with c assms(6) show ?thesis by (auto simp: transfer_limit_def split: if_splits)
  }
qed

text \<open>C1: With the connections in departure order and every usable ride taking time, the answer of
  \<open>csa\<close> arrives no later than any journey, and when a journey exists the only errors left are the
  two of the transfer limit.\<close>

theorem csa_earliest:
  assumes "rides_take_time net (p_modes params)" "csa_known net s"
    and "sorted_wrt (\<lambda>a b. c_dep a \<le> c_dep b) (csa_connections net)"
    and "csa_reach net params s d v t" "v \<noteq> s" "csa net s v d params = Some r"
  shows "case r of Inr legs \<Rightarrow> l_arr (last legs) \<le> t
     | Inl e \<Rightarrow> (\<exists>n. e = TransferLimit n (p_max_transfers params)) \<or> e = DirectOnly"
  by (rule csa_no_earlier [OF assms])

text \<open>C22: \<open>csa\<close> reports that there is no path exactly when there is none, or when origin and
  destination are the same stop.\<close>

theorem csa_no_path_iff:
  assumes "rides_take_time net (p_modes params)" "csa_known net s"
    and "sorted_wrt (\<lambda>a b. c_dep a \<le> c_dep b) (csa_connections net)"
  shows "csa net s v d params = Some (Inl (NoPath s v)) \<longleftrightarrow>
    v = s \<or> (\<forall>t. \<not> csa_reach net params s d v t)"
proof (rule csa_outcome [OF rides_take_time_forward [OF assms(1)] assms(2), of v d])
  have n: "nonneg_transfers (csa_transfers net)" using assms(2) by (simp add: csa_known_def)
  {
    assume none: "v = s \<or> (\<forall>lab. csa_labels net s d params = Some lab \<longrightarrow> fst lab v = None)"
      and c: "csa net s v d params = Some (Inl (NoPath s v))"
    obtain lab where lab: "csa_labels net s d params = Some lab"
      by (rule csa_labels_spec [OF rides_take_time_forward [OF assms(1)] n])
    have "\<not> csa_reach net params s d v t" if "v \<noteq> s" for t
      using csa_labels_optimal [OF assms(1) n assms(3) lab, of v t] none lab that by fastforce
    with c show ?thesis by blast
  next
    fix lab t legs
    assume "v \<noteq> s" "csa_reach net params s d v t"
      and "csa net s v d params =
        Some (transfer_limit (if p_max_transfers params < 0 then - 1 else p_max_transfers params) legs)"
    then show ?thesis by auto
  }
qed

section \<open>A small network\<close>

text \<open>
  Three stops: a ride from A to B, a walk from B to C and a later, slower ride from A to C. It is
  the concrete input of the witnesses. Its coordinates are the zero values, which the plausibility
  filter skips.
\<close>

definition demo_stop :: "string \<Rightarrow> stop" where
  "demo_stop i = \<lparr>stop_id = i, stop_provider = ''p'', stop_name = i, stop_lat = 0, stop_lon = 0,
     stop_type = StopTypeStation, stop_zone = '''', stop_cell = 0\<rparr>"

definition demo_conn :: "string \<Rightarrow> string \<Rightarrow> string \<Rightarrow> gotime \<Rightarrow> gotime \<Rightarrow> connection" where
  "demo_conn i f t dep ar = \<lparr>c_trip = i, c_provider = ''p'', c_route = ''r'', c_mode = ModeBus,
     c_from = f, c_to = t, c_dep = dep, c_arr = ar\<rparr>"

definition demo_net :: network where
  "demo_net = NewNetwork\<lparr>
     n_stops := [(''A'', demo_stop ''A''), (''B'', demo_stop ''B''), (''C'', demo_stop ''C'')],
     n_connections := [demo_conn ''t1'' ''A'' ''B'' (minutes 10) (minutes 20),
       demo_conn ''t2'' ''A'' ''C'' (minutes 30) (minutes 50)],
     n_transfers := [\<lparr>tr_from = ''B'', tr_to = ''C'', tr_minutes = 5, tr_min_time = 300, tr_dist = 400\<rparr>]\<rparr>"

definition demo_params :: search_params where
  "demo_params = \<lparr>p_departure = 0, p_arrival = None, p_zone_offset = 0, p_max_transfers = - 1,
     p_modes = [ModeBus], p_max_walk = 15, p_allow_gap = False, p_preference = PreferenceArrival\<rparr>"

lemmas demo_defs = demo_net_def demo_params_def demo_conn_def demo_stop_def NewNetwork_def

lemma demo_transfers: "csa_transfers demo_net =
    [(''B'', [\<lparr>tr_from = ''B'', tr_to = ''C'', tr_minutes = 5, tr_min_time = 300, tr_dist = 400\<rparr>])]"
  by (simp add: csa_transfers_def demo_defs group_by_def map_append_def)

lemma demo_usable: "c \<in> set (n_connections demo_net) \<Longrightarrow> usable demo_net [ModeBus] c"
  by (auto simp: usable_def isImplausibleConnection_def stop_at_def demo_defs split: option.splits)

lemma demo_rides: "rides_take_time demo_net (p_modes demo_params)"
  unfolding rides_take_time_def by (simp add: demo_defs minutes_def)

lemma demo_known: "csa_known demo_net ''A''"
  unfolding csa_known_def demo_transfers
  by (auto simp: stops_known_def targets_def nonneg_transfers_def stop_at_def demo_defs)

lemma demo_sorted: "sorted_wrt (\<lambda>a b. c_dep a \<le> c_dep b) (csa_connections demo_net)"
  by (simp add: csa_connections_def demo_defs Let_def minutes_def)

lemma demo_modes [simp]: "p_modes demo_params = [ModeBus]"
  by (simp add: demo_params_def)

lemma demo_csa: "csa demo_net ''A'' ''C'' 0 demo_params = Some (Inr
    [ride_leg (demo_conn ''t1'' ''A'' ''B'' (minutes 10) (minutes 20)) (demo_stop ''A'') (demo_stop ''B''),
     walk_leg (demo_stop ''B'') (demo_stop ''C'') (minutes 20) (minutes 25)])"
  unfolding csa_def csa_labels_def demo_transfers
  by (simp add: relax.simps csa_connections_def demo_defs Let_def minutes_def minute_ns_def arr_get_def
      map_get_def improves_def boardable_def usable_def isImplausibleConnection_def stop_at_def
      reconstruct_def reconstruct_loop.simps buildLegs_def same_trip_def ride_leg_def walk_leg_def
      transfer_limit_def)

lemma demo_reach: "csa_reach demo_net demo_params ''A'' 0 ''C'' (minutes 50)"
proof -
  let ?c = "demo_conn ''t2'' ''A'' ''C'' (minutes 30) (minutes 50)"
  have c: "?c \<in> set (n_connections demo_net)" by (simp add: demo_net_def)
  have "reach demo_net [ModeBus] (csa_transfers demo_net) ''A'' 0 (set (n_connections demo_net)) (c_to ?c) (c_arr ?c)"
    by (rule reach.ride [where t = 0, OF _ c demo_usable [OF c]])
      (use reach.start in \<open>simp_all add: demo_conn_def minutes_def minute_ns_def\<close>)
  then show ?thesis by (simp add: csa_reach_def demo_params_def demo_conn_def)
qed

lemma csa_returns_witness: "\<exists>r. csa demo_net ''A'' ''C'' 0 demo_params = Some r \<and> r \<noteq> Inl NilDeref"
  by (rule csa_returns [OF rides_take_time_forward [OF demo_rides] demo_known])

lemma csa_sound_witness: "\<exists>t legs. csa_reach demo_net demo_params ''A'' 0 ''C'' t \<and>
    journey_ok demo_net [ModeBus] ''A'' 0 ''C'' t legs \<and> length legs = Suc (Suc 0)"
proof -
  obtain t where "csa_reach demo_net demo_params ''A'' 0 ''C'' t"
    "journey_ok demo_net (p_modes demo_params) ''A'' 0 ''C'' t
      [ride_leg (demo_conn ''t1'' ''A'' ''B'' (minutes 10) (minutes 20)) (demo_stop ''A'') (demo_stop ''B''),
       walk_leg (demo_stop ''B'') (demo_stop ''C'') (minutes 20) (minutes 25)]"
    using csa_sound [OF rides_take_time_forward [OF demo_rides] demo_known demo_csa] by blast
  then show ?thesis unfolding demo_modes by (intro exI conjI) (assumption+, simp)
qed

lemma csa_earliest_witness: "\<exists>legs. csa demo_net ''A'' ''C'' 0 demo_params = Some (Inr legs) \<and>
    l_arr (last legs) \<le> minutes 50"
  using csa_earliest [OF demo_rides demo_known demo_sorted demo_reach _ demo_csa] demo_csa by simp

lemma csa_no_path_iff_witness: "csa demo_net ''A'' ''Z'' 0 demo_params = Some (Inl (NoPath ''A'' ''Z'')) \<longleftrightarrow>
    ''Z'' = ''A'' \<or> (\<forall>t. \<not> csa_reach demo_net demo_params ''A'' 0 ''Z'' t)"
  by (rule csa_no_path_iff [OF demo_rides demo_known demo_sorted])

end
