(* ===== verification/NetBuild.thy ===== *)
theory NetBuild
  imports StopNames Csa_Journeys
begin

text \<open>
  Preparation of a network for planning (\<open>internal/model/model.go\<close>): \<open>BuildIndexes\<close>, the walking
  transfers of \<open>BuildWalkTransfers\<close>, and the sequence of calls with which the stores finish
  \<open>LoadNetwork\<close>. A prepared network meets the hypotheses of the connection scan.
\<close>

section \<open>Indexes\<close>

definition geoCell :: "real \<Rightarrow> real \<Rightarrow> 64 word" where
  "geoCell la lo =
     (let latI = go_trunc ((la + 90) * 100000); lonI = go_trunc ((lo + 180) * 100000)
      in push_bit 32 (word_of_int latI) OR ucast (word_of_int lonI :: 32 word))"

definition provisional_in :: "(string \<times> trip) list \<Rightarrow> string \<Rightarrow> bool" where
  "provisional_in trips i \<longleftrightarrow>
     list_ex (\<lambda>(k, t). list_ex (\<lambda>st. st_stop st = i \<and> st_provisional st) (trip_stops t)) trips"

definition index_trip :: "(string \<times> trip) \<Rightarrow>
    (string \<times> string list) list \<times> (string \<times> string list) list \<Rightarrow>
    (string \<times> string list) list \<times> (string \<times> string list) list" where
  "index_trip kt maps =
     (let t = snd kt; ids = map st_stop (trip_stops t)
      in (AList.update (trip_route t) (map_get (fst maps) (trip_route t) @ ids) (fst maps),
          AList.update (trip_id t) ids (snd maps)))"

fun time_bounds :: "gotime \<times> gotime \<Rightarrow> connection list \<Rightarrow> gotime \<times> gotime" where
  "time_bounds b [] = b"
| "time_bounds (lo, hi) (c # cs) =
     time_bounds (if c_dep c < lo then c_dep c else lo, if hi < c_arr c then c_arr c else hi) cs"

definition BuildIndexes :: "network \<Rightarrow> network" where
  "BuildIndexes net =
     (let (route_stops, trip_stops') = fold index_trip (n_trips net) ([], []);
          (lo, hi) = (case n_connections net of
              [] \<Rightarrow> (n_min_time net, n_max_time net)
            | c # cs \<Rightarrow> time_bounds (c_dep c, c_arr c) cs)
      in net\<lparr>n_by_stop := group_by tr_from (n_transfers net),
             n_provisional := provisional_in (n_trips net),
             n_route_stops := route_stops, n_trip_stops := trip_stops',
             n_min_time := lo, n_max_time := hi,
             n_stops := map (\<lambda>(i, s). (i, s\<lparr>stop_cell := geoCell (stop_lat s) (stop_lon s)\<rparr>)) (n_stops net)\<rparr>)"

lemma time_bounds_spec:
  "fst (time_bounds (lo, hi) cs) = Min (insert lo (c_dep ` set cs)) \<and>
   snd (time_bounds (lo, hi) cs) = Max (insert hi (c_arr ` set cs))"
proof (induction cs arbitrary: lo hi)
  case (Cons c cs)
  have "Min (insert (if c_dep c < lo then c_dep c else lo) (c_dep ` set cs)) = Min (insert lo (c_dep ` set (c # cs)))"
    by (cases "cs = []") (auto simp: min_def)
  moreover have "Max (insert (if hi < c_arr c then c_arr c else hi) (c_arr ` set cs)) = Max (insert hi (c_arr ` set (c # cs)))"
    by (cases "cs = []") (auto simp: max_def)
  ultimately show ?case using Cons by simp
qed simp

lemma BuildIndexes_sel:
  "n_by_stop (BuildIndexes net) = group_by tr_from (n_transfers net)"
  "n_provisional (BuildIndexes net) = provisional_in (n_trips net)"
  "n_trips (BuildIndexes net) = n_trips net"
  "n_connections (BuildIndexes net) = n_connections net"
  "n_transfers (BuildIndexes net) = n_transfers net"
  "n_stops (BuildIndexes net) =
     map (\<lambda>(i, s). (i, s\<lparr>stop_cell := geoCell (stop_lat s) (stop_lon s)\<rparr>)) (n_stops net)"
  by (simp_all add: BuildIndexes_def Let_def split: prod.splits)

lemma map_of_map_snd: "map_of (map (\<lambda>(i, s). (i, f s)) xs) k = map_option f (map_of xs k)"
  by (induction xs) auto

lemma stop_at_BuildIndexes:
  "stop_at (BuildIndexes net) i =
     map_option (\<lambda>s. s\<lparr>stop_cell := geoCell (stop_lat s) (stop_lon s)\<rparr>) (stop_at net i)"
  by (simp add: stop_at_def BuildIndexes_sel map_of_map_snd)

lemma trip_stops_index:
  "map_of (snd (fold index_trip trips m)) i = map_of (map (\<lambda>(k, t). (trip_id t, map st_stop (trip_stops t))) (rev trips) @ snd m) i"
  by (induction trips arbitrary: m) (auto simp: index_trip_def Let_def map_add_def fun_upd_def split: option.splits)

section \<open>Walking transfers\<close>

definition WalkTransferRadiusM :: real where
  "WalkTransferRadiusM = 400"

definition WalkTransferMinutes :: "real \<Rightarrow> int" where
  "WalkTransferMinutes distM = go_trunc (distM / 5000 * 60) + 2"

type_synonym walk_cell = "int \<times> int"

definition walk_cell :: "real \<Rightarrow> real \<Rightarrow> walk_cell" where
  "walk_cell la lo = (go_trunc ((la + 90) * 10), go_trunc ((lo + 180) * 10))"

definition pair_key :: "string \<Rightarrow> string \<Rightarrow> string" where
  "pair_key a b = a @ ''|'' @ b"

type_synonym walk_state = "transfer list \<times> string set"

definition add_arc :: "string \<Rightarrow> string \<Rightarrow> real \<Rightarrow> walk_state \<Rightarrow> walk_state" where
  "add_arc a b d st =
     (if pair_key a b \<in> snd st then st
      else (fst st @ [\<lparr>tr_from = a, tr_to = b, tr_minutes = WalkTransferMinutes d, tr_min_time = 0, tr_dist = 0\<rparr>],
            insert (pair_key a b) (snd st)))"

definition stop_dist_m :: "stop \<Rightarrow> stop \<Rightarrow> real" where
  "stop_dist_m a b = haversineKm (stop_lat a) (stop_lon a) (stop_lat b) (stop_lon b) * 1000"

definition add_pair :: "network \<Rightarrow> string \<Rightarrow> string \<Rightarrow> walk_state \<Rightarrow> walk_state" where
  "add_pair net i j st =
     (case (stop_at net i, stop_at net j) of
        (Some a, Some b) \<Rightarrow>
          (let d = stop_dist_m a b in
           if d > WalkTransferRadiusM then st else add_arc j i d (add_arc i j d st))
      | _ \<Rightarrow> st)"

fun pairs_within :: "network \<Rightarrow> string list \<Rightarrow> walk_state \<Rightarrow> walk_state" where
  "pairs_within net [] st = st"
| "pairs_within net (i # ids) st = pairs_within net ids (fold (add_pair net i) ids st)"

definition pairs_across :: "network \<Rightarrow> string list \<Rightarrow> string list \<Rightarrow> walk_state \<Rightarrow> walk_state" where
  "pairs_across net ids nids st = fold (\<lambda>i. fold (add_pair net i) nids) ids st"

definition by_cell :: "network \<Rightarrow> (walk_cell \<times> string list) list" where
  "by_cell net =
     fold (\<lambda>(i, s) m. if n_provisional net i then m else map_append (walk_cell (stop_lat s) (stop_lon s)) i m)
       (n_stops net) []"

definition cell_offsets :: "(int \<times> int) list" where
  "cell_offsets = [(1, 0), (0, 1), (1, 1), (1, -1)]"

text \<open>The two loops over the map of cells take it in the order of its list, which is that of the stops; the theorems below
are on sets of stops and hold for any order of them.\<close>

definition walk_within :: "network \<Rightarrow> walk_state \<Rightarrow> walk_state" where
  "walk_within net = fold (\<lambda>(c, ids). pairs_within net ids) (by_cell net)"

definition walk_across :: "network \<Rightarrow> walk_state \<Rightarrow> walk_state" where
  "walk_across net =
     fold (\<lambda>(c, ids). fold (\<lambda>off. pairs_across net ids
         (map_get (by_cell net) (fst c + fst off, snd c + snd off))) cell_offsets)
       (by_cell net)"

definition BuildWalkTransfers :: "network \<Rightarrow> network" where
  "BuildWalkTransfers net =
     (let seen = (\<lambda>tr. pair_key (tr_from tr) (tr_to tr)) ` set (n_transfers net)
      in net\<lparr>n_transfers := fst (walk_across net (walk_within net (n_transfers net, seen)))\<rparr>)"


section \<open>What the walking transfers are\<close>

lemma by_cell_spec:
  "set (map_get (by_cell net) c) =
     {i. \<exists>s. (i, s) \<in> set (n_stops net) \<and> \<not> n_provisional net i \<and> walk_cell (stop_lat s) (stop_lon s) = c}"
  and by_cell_distinct: "distinct (map fst (by_cell net))"
proof -
  let ?f = "\<lambda>(i, s) m. if n_provisional net i then m else map_append (walk_cell (stop_lat s) (stop_lon s)) i m"
  have "set (map_get (fold ?f xs m) c) = set (map_get m c) \<union>
      {i. \<exists>s. (i, s) \<in> set xs \<and> \<not> n_provisional net i \<and> walk_cell (stop_lat s) (stop_lon s) = c}" for xs m
  proof (induction xs arbitrary: m)
    case (Cons x xs)
    obtain i s where x: "x = (i, s)" by (cases x)
    have "set (map_get (?f x m) c) = set (map_get m c) \<union>
        {j. j = i \<and> \<not> n_provisional net i \<and> walk_cell (stop_lat s) (stop_lon s) = c}"
      by (auto simp: x)
    with Cons [of "?f x m"] show ?case by (auto simp: x)
  qed simp
  from this [of "n_stops net" "[]"] show "set (map_get (by_cell net) c) =
     {i. \<exists>s. (i, s) \<in> set (n_stops net) \<and> \<not> n_provisional net i \<and> walk_cell (stop_lat s) (stop_lon s) = c}"
    by (simp add: by_cell_def map_get_def)
  show "distinct (map fst (by_cell net))"
    unfolding by_cell_def by (rule fold_keeps) auto
qed

text \<open>What the loops keep: old transfers first, sound new ones after, and \<open>seen\<close> lists the arcs.\<close>

definition walkable :: "network \<Rightarrow> string \<Rightarrow> string \<Rightarrow> real \<Rightarrow> bool" where
  "walkable net i j d \<longleftrightarrow>
     (\<exists>a b. stop_at net i = Some a \<and> stop_at net j = Some b \<and> d = stop_dist_m a b) \<and>
     d \<le> WalkTransferRadiusM \<and> \<not> n_provisional net i \<and> \<not> n_provisional net j"

definition walk_inv :: "network \<Rightarrow> transfer list \<Rightarrow> walk_state \<Rightarrow> bool" where
  "walk_inv net old st \<longleftrightarrow>
     snd st = (\<lambda>tr. pair_key (tr_from tr) (tr_to tr)) ` set (fst st) \<and>
     (\<exists>new. fst st = old @ new \<and>
        (\<forall>tr \<in> set new. \<exists>d. walkable net (tr_from tr) (tr_to tr) d \<and> tr_minutes tr = WalkTransferMinutes d))"

lemma add_arc_inv:
  assumes "walk_inv net old st" "walkable net a b d"
  shows "walk_inv net old (add_arc a b d st)"
proof (cases "pair_key a b \<in> snd st")
  case False
  let ?t = "\<lparr>tr_from = a, tr_to = b, tr_minutes = WalkTransferMinutes d, tr_min_time = 0, tr_dist = 0\<rparr>"
  obtain new where "fst st = old @ new"
    "\<forall>tr \<in> set new. \<exists>d. walkable net (tr_from tr) (tr_to tr) d \<and> tr_minutes tr = WalkTransferMinutes d"
    using assms(1) unfolding walk_inv_def by blast
  moreover have "\<exists>d. walkable net (tr_from ?t) (tr_to ?t) d \<and> tr_minutes ?t = WalkTransferMinutes d"
    using assms(2) by auto
  ultimately have "\<exists>new'. fst st @ [?t] = old @ new' \<and>
      (\<forall>tr \<in> set new'. \<exists>d. walkable net (tr_from tr) (tr_to tr) d \<and> tr_minutes tr = WalkTransferMinutes d)"
    by (intro exI [of _ "new @ [?t]"]) auto
  then show ?thesis using False assms(1) by (auto simp: add_arc_def walk_inv_def)
qed (use assms in \<open>simp add: add_arc_def\<close>)

lemma stop_dist_sym: "stop_dist_m a b = stop_dist_m b a"
  by (simp add: stop_dist_m_def haversineKm_sym [of "stop_lat a"])

lemma add_pair_inv:
  assumes "walk_inv net old st" "\<not> n_provisional net i" "\<not> n_provisional net j"
  shows "walk_inv net old (add_pair net i j st)"
proof -
  have "walkable net i j (stop_dist_m a b) \<and> walkable net j i (stop_dist_m a b)"
    if "stop_at net i = Some a" "stop_at net j = Some b" "\<not> stop_dist_m a b > WalkTransferRadiusM" for a b
    using that assms(2,3) stop_dist_sym by (fastforce simp: walkable_def)
  then show ?thesis
    using add_arc_inv assms(1) unfolding add_pair_def by (auto simp: Let_def split: option.splits)
qed

lemma pairs_within_inv:
  "walk_inv net old st \<Longrightarrow> \<forall>i \<in> set ids. \<not> n_provisional net i \<Longrightarrow> walk_inv net old (pairs_within net ids st)"
proof (induction ids arbitrary: st)
  case (Cons i ids)
  have "walk_inv net old (fold (add_pair net i) ids st)"
    by (rule fold_keeps [where P = "walk_inv net old", OF Cons.prems(1)]) (use Cons.prems(2) add_pair_inv in auto)
  with Cons show ?case by simp
qed simp

lemma pairs_across_inv:
  assumes "walk_inv net old st" "\<forall>i \<in> set ids \<union> set nids. \<not> n_provisional net i"
  shows "walk_inv net old (pairs_across net ids nids st)"
  unfolding pairs_across_def
proof (rule fold_keeps [where P = "walk_inv net old", OF assms(1)])
  fix i s assume "i \<in> set ids" "walk_inv net old s"
  then show "walk_inv net old (fold (add_pair net i) nids s)"
    by (intro fold_keeps [where P = "walk_inv net old"]) (use assms(2) add_pair_inv in auto)
qed

lemma cell_confirmed: "i \<in> set (map_get (by_cell net) c) \<Longrightarrow> \<not> n_provisional net i"
  by (auto simp: by_cell_spec)

lemma cell_entry: "(c, ids) \<in> set (by_cell net) \<Longrightarrow> ids = map_get (by_cell net) c"
  using map_get_entry [OF by_cell_distinct] by metis

lemma walk_within_inv: "walk_inv net old st \<Longrightarrow> walk_inv net old (walk_within net st)"
  unfolding walk_within_def
proof (rule fold_keeps [where P = "walk_inv net old"], assumption)
  fix x s assume x: "x \<in> set (by_cell net)" and s: "walk_inv net old s"
  obtain c ids where [simp]: "x = (c, ids)" by (cases x)
  have "\<forall>i \<in> set ids. \<not> n_provisional net i" using x cell_entry cell_confirmed by (metis \<open>x = (c, ids)\<close>)
  with s show "walk_inv net old ((\<lambda>(c, ids). pairs_within net ids) x s)" by (simp add: pairs_within_inv)
qed

lemma walk_across_inv: "walk_inv net old st \<Longrightarrow> walk_inv net old (walk_across net st)"
  unfolding walk_across_def
proof (rule fold_keeps [where P = "walk_inv net old"], assumption)
  fix x s assume x: "x \<in> set (by_cell net)" and s: "walk_inv net old s"
  obtain c ids where [simp]: "x = (c, ids)" by (cases x)
  have ids: "ids = map_get (by_cell net) c" using x cell_entry by simp
  have "walk_inv net old (fold (\<lambda>off. pairs_across net ids
      (map_get (by_cell net) (fst c + fst off, snd c + snd off))) cell_offsets s)"
  proof (rule fold_keeps [where P = "walk_inv net old", OF s])
    fix off s' assume "walk_inv net old s'"
    moreover have "\<forall>i \<in> set ids \<union> set (map_get (by_cell net) (fst c + fst off, snd c + snd off)). \<not> n_provisional net i"
      unfolding ids using cell_confirmed by blast
    ultimately show "walk_inv net old (pairs_across net ids
        (map_get (by_cell net) (fst c + fst off, snd c + snd off)) s')" by (rule pairs_across_inv)
  qed
  then show "walk_inv net old ((\<lambda>(c, ids). fold (\<lambda>off. pairs_across net ids
      (map_get (by_cell net) (fst c + fst off, snd c + snd off))) cell_offsets) x s)" by simp
qed

lemma BuildWalkTransfers_inv:
  obtains seen where "walk_inv net (n_transfers net) (n_transfers (BuildWalkTransfers net), seen)"
    "n_transfers (BuildWalkTransfers net) =
       fst (walk_across net (walk_within net (n_transfers net, (\<lambda>tr. pair_key (tr_from tr) (tr_to tr)) ` set (n_transfers net))))"
    "seen = snd (walk_across net (walk_within net (n_transfers net, (\<lambda>tr. pair_key (tr_from tr) (tr_to tr)) ` set (n_transfers net))))"
proof -
  let ?st = "(n_transfers net, (\<lambda>tr. pair_key (tr_from tr) (tr_to tr)) ` set (n_transfers net))"
  have "walk_inv net (n_transfers net) ?st" by (auto simp: walk_inv_def)
  then have "walk_inv net (n_transfers net) (walk_across net (walk_within net ?st))"
    by (intro walk_across_inv walk_within_inv)
  then show thesis by (intro that) (auto simp: BuildWalkTransfers_def)
qed

lemma new_walk_transfers:
  assumes "\<forall>(i, s) \<in> set (n_stops net). valid_lat (stop_lat s)"
  shows "\<exists>new. n_transfers (BuildWalkTransfers net) = n_transfers net @ new \<and>
    (\<forall>tr \<in> set new. 2 \<le> tr_minutes tr \<and>
       (\<exists>d. walkable net (tr_from tr) (tr_to tr) d \<and> tr_minutes tr = WalkTransferMinutes d))"
proof -
  obtain seen where "walk_inv net (n_transfers net) (n_transfers (BuildWalkTransfers net), seen)"
    by (rule BuildWalkTransfers_inv)
  then obtain new where new: "n_transfers (BuildWalkTransfers net) = n_transfers net @ new"
    "\<forall>tr \<in> set new. \<exists>d. walkable net (tr_from tr) (tr_to tr) d \<and> tr_minutes tr = WalkTransferMinutes d"
    by (auto simp: walk_inv_def)
  moreover have "2 \<le> WalkTransferMinutes d" if "walkable net i j d" for i j d
  proof -
    obtain a b where ab: "stop_at net i = Some a" "stop_at net j = Some b" "d = stop_dist_m a b"
      using \<open>walkable net i j d\<close> by (auto simp: walkable_def)
    have "valid_lat (stop_lat a)" "valid_lat (stop_lat b)"
      using assms ab by (auto simp: stop_at_def dest!: map_of_SomeD)
    then have "0 \<le> d" using haversineKm_bounds(1) ab(3) by (simp add: stop_dist_m_def)
    then show ?thesis by (simp add: WalkTransferMinutes_def go_trunc_def)
  qed
  ultimately show ?thesis by metis
qed

text \<open>\<open>BuildWalkTransfers\<close> keeps the transfers of the network, in place and unchanged, and adds
  after them only walks between two confirmed stops of the network at most 400 m apart, each of the
  walking time for that distance and of at least two minutes.\<close>

theorem walk_transfers_sound:
  assumes "\<forall>(i, s) \<in> set (n_stops net). valid_lat (stop_lat s)"
  shows "\<exists>new. n_transfers (BuildWalkTransfers net) = n_transfers net @ new \<and>
    (\<forall>tr \<in> set new. 2 \<le> tr_minutes tr \<and>
       (\<exists>d. walkable net (tr_from tr) (tr_to tr) d \<and> tr_minutes tr = WalkTransferMinutes d))"
  by (rule new_walk_transfers [OF assms])


section \<open>Every close pair is joined\<close>

lemma snd_add_arc: "snd (add_arc a b d st) = insert (pair_key a b) (snd st)"
  by (auto simp: add_arc_def)

lemma add_pair_seen: "k \<in> snd st \<Longrightarrow> k \<in> snd (add_pair net i j st)"
  by (auto simp: add_pair_def Let_def snd_add_arc split: option.splits)

lemma add_pair_joins:
  assumes "stop_at net i = Some a" "stop_at net j = Some b" "stop_dist_m a b \<le> WalkTransferRadiusM"
  shows "pair_key i j \<in> snd (add_pair net i j st)" "pair_key j i \<in> snd (add_pair net i j st)"
  using assms by (auto simp: add_pair_def Let_def snd_add_arc split: option.splits)

lemma fold_add_pair_seen: "k \<in> snd st \<Longrightarrow> k \<in> snd (fold (add_pair net i) ids st)"
  by (rule fold_keeps [where P = "\<lambda>st. k \<in> snd st"]) (auto intro: add_pair_seen)

lemma pairs_within_seen: "k \<in> snd st \<Longrightarrow> k \<in> snd (pairs_within net ids st)"
  by (induction ids arbitrary: st) (simp_all add: fold_add_pair_seen)

lemma pairs_across_seen: "k \<in> snd st \<Longrightarrow> k \<in> snd (pairs_across net ids nids st)"
  unfolding pairs_across_def
  by (rule fold_keeps [where P = "\<lambda>st. k \<in> snd st"]) (auto intro: fold_add_pair_seen)

lemma fold_add_pair_joins:
  assumes "stop_at net i = Some a" "stop_at net j = Some b" "stop_dist_m a b \<le> WalkTransferRadiusM"
    and "j \<in> set ids"
  shows "{pair_key i j, pair_key j i} \<subseteq> snd (fold (add_pair net i) ids st)"
  by (rule fold_reaches [where Q = "\<lambda>_. True" and x = j])
    (use assms add_pair_joins add_pair_seen in auto)

lemma pairs_within_joins:
  assumes "stop_at net i = Some a" "stop_at net j = Some b" "stop_dist_m a b \<le> WalkTransferRadiusM"
  shows "i \<in> set ids \<Longrightarrow> j \<in> set ids \<Longrightarrow> i \<noteq> j \<Longrightarrow>
    {pair_key i j, pair_key j i} \<subseteq> snd (pairs_within net ids st)"
proof (induction ids arbitrary: st)
  case (Cons k ids)
  consider "k = i" "j \<in> set ids" | "k = j" "i \<in> set ids" | "i \<in> set ids" "j \<in> set ids"
    using Cons.prems by auto
  then show ?case
  proof cases
    case 1
    then show ?thesis using fold_add_pair_joins [OF assms] pairs_within_seen by simp
  next
    case 2
    have "stop_dist_m b a \<le> WalkTransferRadiusM" using assms(3) by (simp add: stop_dist_sym)
    then show ?thesis using fold_add_pair_joins [OF assms(2,1)] 2 pairs_within_seen by simp
  next
    case 3
    then show ?thesis using Cons by simp
  qed
qed simp

lemma pairs_across_joins:
  assumes "stop_at net i = Some a" "stop_at net j = Some b" "stop_dist_m a b \<le> WalkTransferRadiusM"
    and "i \<in> set ids" "j \<in> set nids"
  shows "{pair_key i j, pair_key j i} \<subseteq> snd (pairs_across net ids nids st)"
  unfolding pairs_across_def
  by (rule fold_reaches [where Q = "\<lambda>_. True" and x = i])
    (use assms fold_add_pair_joins fold_add_pair_seen in auto)

lemma walk_within_joins:
  assumes "stop_at net i = Some a" "stop_at net j = Some b" "stop_dist_m a b \<le> WalkTransferRadiusM"
    and "i \<in> set (map_get (by_cell net) c)" "j \<in> set (map_get (by_cell net) c)" "i \<noteq> j"
  shows "{pair_key i j, pair_key j i} \<subseteq> snd (walk_within net st)"
  unfolding walk_within_def
  by (rule fold_reaches [where Q = "\<lambda>_. True" and x = "(c, map_get (by_cell net) c)"])
    (use assms pairs_within_joins pairs_within_seen map_get_nonempty in \<open>auto split: prod.splits\<close>)

lemma fold_offsets_seen:
  "k \<in> snd st \<Longrightarrow> k \<in> snd (fold (\<lambda>off. pairs_across net ids (f off)) offs st)"
  by (rule fold_keeps [where P = "\<lambda>st. k \<in> snd st"]) (auto intro: pairs_across_seen)

lemma walk_across_seen: "k \<in> snd st \<Longrightarrow> k \<in> snd (walk_across net st)"
  unfolding walk_across_def
  by (rule fold_keeps [where P = "\<lambda>st. k \<in> snd st"]) (auto intro: fold_offsets_seen split: prod.splits)

lemma walk_across_joins:
  assumes "stop_at net i = Some a" "stop_at net j = Some b" "stop_dist_m a b \<le> WalkTransferRadiusM"
    and "i \<in> set (map_get (by_cell net) c)" "off \<in> set cell_offsets"
    and "j \<in> set (map_get (by_cell net) (fst c + fst off, snd c + snd off))"
  shows "{pair_key i j, pair_key j i} \<subseteq> snd (walk_across net st)"
  unfolding walk_across_def
proof (rule fold_reaches [where Q = "\<lambda>_. True" and x = "(c, map_get (by_cell net) c)"])
  fix s
  have "{pair_key i j, pair_key j i} \<subseteq> snd (fold (\<lambda>off. pairs_across net (map_get (by_cell net) c)
      (map_get (by_cell net) (fst c + fst off, snd c + snd off))) cell_offsets s)"
    by (rule fold_reaches [where Q = "\<lambda>_. True" and x = off])
      (use assms pairs_across_joins pairs_across_seen in auto)
  then show "{pair_key i j, pair_key j i} \<subseteq> snd ((\<lambda>(c, ids). fold (\<lambda>off. pairs_across net ids
      (map_get (by_cell net) (fst c + fst off, snd c + snd off))) cell_offsets) (c, map_get (by_cell net) c) s)"
    by simp
qed (use assms(4) map_get_nonempty fold_offsets_seen in \<open>auto split: prod.splits\<close>)

lemma pair_key_inject:
  "CHR ''|'' \<notin> set a \<Longrightarrow> CHR ''|'' \<notin> set i \<Longrightarrow> pair_key a b = pair_key i j \<longleftrightarrow> a = i \<and> b = j"
proof (induction a arbitrary: i)
  case Nil
  then show ?case by (cases i) (auto simp: pair_key_def)
next
  case (Cons x a)
  then show ?case by (cases i) (auto simp: pair_key_def)
qed

definition cells_touch :: "walk_cell \<Rightarrow> walk_cell \<Rightarrow> bool" where
  "cells_touch c c' \<longleftrightarrow> \<bar>fst c' - fst c\<bar> \<le> 1 \<and> \<bar>snd c' - snd c\<bar> \<le> 1"

lemma cells_touch_cases:
  assumes "cells_touch c c'"
  obtains "c' = c"
  | off where "off \<in> set cell_offsets" "c' = (fst c + fst off, snd c + snd off)"
  | off where "off \<in> set cell_offsets" "c = (fst c' + fst off, snd c' + snd off)"
proof -
  define x y where "x = fst c' - fst c" and "y = snd c' - snd c"
  have "x \<in> {-1, 0, 1}" "y \<in> {-1, 0, 1}" using assms by (auto simp: cells_touch_def x_def y_def)
  then consider "x = 0 \<and> y = 0" | "(x, y) \<in> set cell_offsets" | "(- x, - y) \<in> set cell_offsets"
    by (auto simp: cell_offsets_def)
  then show thesis
  proof cases
    case 1
    then show thesis using that(1) by (auto simp: x_def y_def prod_eq_iff)
  next
    case 2
    then show thesis by (rule that(2)) (simp add: x_def y_def)
  next
    case 3
    then show thesis by (rule that(3)) (simp add: x_def y_def)
  qed
qed

text \<open>C9: After \<open>BuildWalkTransfers\<close> every two different confirmed stops that are at most 400 m apart
  and whose grid cells touch are joined by a transfer, if no identifier contains the separator of
  the pair keys.\<close>

theorem walk_transfers_complete:
  assumes i: "stop_at net i = Some a" "\<not> n_provisional net i" and j: "stop_at net j = Some b" "\<not> n_provisional net j"
    and "i \<noteq> j" "stop_dist_m a b \<le> WalkTransferRadiusM"
    and "cells_touch (walk_cell (stop_lat a) (stop_lon a)) (walk_cell (stop_lat b) (stop_lon b))"
    and bar: "\<forall>(k, s) \<in> set (n_stops net). CHR ''|'' \<notin> set k"
      "\<forall>tr \<in> set (n_transfers net). CHR ''|'' \<notin> set (tr_from tr)"
  shows "\<exists>tr \<in> set (n_transfers (BuildWalkTransfers net)). tr_from tr = i \<and> tr_to tr = j"
proof -
  obtain seen where w: "walk_inv net (n_transfers net) (n_transfers (BuildWalkTransfers net), seen)"
    "seen = snd (walk_across net (walk_within net (n_transfers net, (\<lambda>tr. pair_key (tr_from tr) (tr_to tr)) ` set (n_transfers net))))"
    by (rule BuildWalkTransfers_inv)
  let ?ci = "walk_cell (stop_lat a) (stop_lon a)" and ?cj = "walk_cell (stop_lat b) (stop_lon b)"
  have ci: "i \<in> set (map_get (by_cell net) ?ci)" and cj: "j \<in> set (map_get (by_cell net) ?cj)"
    using i j by (auto simp: by_cell_spec stop_at_def dest: map_of_SomeD)
  have sym: "stop_dist_m b a \<le> WalkTransferRadiusM" using assms(6) by (simp add: stop_dist_sym)
  have "pair_key i j \<in> seen"
    using assms(7)
  proof (rule cells_touch_cases)
    assume "?cj = ?ci"
    with walk_within_joins [OF i(1) j(1) assms(6) ci _ assms(5)] cj walk_across_seen show ?thesis
      unfolding w(2) by simp
  next
    fix off assume "off \<in> set cell_offsets" "?cj = (fst ?ci + fst off, snd ?ci + snd off)"
    with walk_across_joins [OF i(1) j(1) assms(6) ci] cj show ?thesis unfolding w(2) by simp
  next
    fix off assume "off \<in> set cell_offsets" "?ci = (fst ?cj + fst off, snd ?cj + snd off)"
    with walk_across_joins [OF j(1) i(1) sym cj] ci show ?thesis unfolding w(2) by simp
  qed
  then obtain tr where tr: "tr \<in> set (n_transfers (BuildWalkTransfers net))"
    "pair_key (tr_from tr) (tr_to tr) = pair_key i j"
    using w(1) by (fastforce simp: walk_inv_def)
  have "CHR ''|'' \<notin> set (tr_from tr)"
  proof (cases "tr \<in> set (n_transfers net)")
    case False
    then obtain s where "stop_at net (tr_from tr) = Some s"
      using w(1) tr(1) by (fastforce simp: walk_inv_def walkable_def)
    then show ?thesis using bar(1) by (auto simp: stop_at_def dest!: map_of_SomeD)
  qed (use bar(2) in blast)
  moreover have "CHR ''|'' \<notin> set i" using i(1) bar(1) by (auto simp: stop_at_def dest!: map_of_SomeD)
  ultimately have "tr_from tr = i \<and> tr_to tr = j" using tr(2) pair_key_inject by simp
  then show ?thesis using tr(1) by blast
qed


lemma walk_transfers_sound_witness:
  "\<exists>new. n_transfers (BuildWalkTransfers demo_net) = n_transfers demo_net @ new \<and>
    (\<forall>tr \<in> set new. 2 \<le> tr_minutes tr \<and>
       (\<exists>d. walkable demo_net (tr_from tr) (tr_to tr) d \<and> tr_minutes tr = WalkTransferMinutes d))"
  by (rule walk_transfers_sound) (simp add: demo_defs valid_lat_def)

lemma walk_transfers_complete_witness:
  "\<exists>tr \<in> set (n_transfers (BuildWalkTransfers demo_net)). tr_from tr = ''C'' \<and> tr_to tr = ''A''"
  by (rule walk_transfers_complete [of _ _ "demo_stop ''C''" _ "demo_stop ''A''"])
    (simp_all add: demo_defs stop_at_def stop_dist_m_def WalkTransferRadiusM_def cells_touch_def)

section \<open>A finished network\<close>

text \<open>
  The calls with which \<open>LoadNetwork\<close> ends: indexes (for the provisional stops), walking transfers,
  indexes again (for the new transfers), and the order of the connections.
\<close>

definition finish_network :: "network \<Rightarrow> network" where
  "finish_network net =
     (let net1 = BuildIndexes (BuildWalkTransfers (BuildIndexes net))
      in net1\<lparr>n_connections := sort_by conn_less (n_connections net1)\<rparr>)"

lemma BuildWalkTransfers_sel:
  "n_stops (BuildWalkTransfers net) = n_stops net" "n_trips (BuildWalkTransfers net) = n_trips net"
  "n_connections (BuildWalkTransfers net) = n_connections net"
  "stop_at (BuildWalkTransfers net) = stop_at net"
  by (simp_all add: BuildWalkTransfers_def stop_at_def fun_eq_iff)

lemma weak_order_conn_less: "weak_order conn_less"
  by (rule weak_orderI) (auto simp: conn_less_def split: if_splits)

lemma sorted_conn_less: "sorted_wrt (\<lambda>a b. c_dep a \<le> c_dep b) (sort_by conn_less cs)"
  by (rule sorted_wrt_mono_rel [OF _ sorted_sort_by [OF weak_order_conn_less]])
    (auto simp: conn_less_def split: if_splits)

lemma finish_sel:
  "n_transfers (finish_network net) = n_transfers (BuildWalkTransfers (BuildIndexes net))"
  "n_by_stop (finish_network net) = group_by tr_from (n_transfers (finish_network net))"
  "set (n_connections (finish_network net)) = set (n_connections net)"
  "n_provisional (finish_network net) = provisional_in (n_trips net)"
  by (simp_all add: finish_network_def Let_def BuildIndexes_sel BuildWalkTransfers_sel)

lemma stop_at_finish:
  "stop_at (finish_network net) i =
     map_option (\<lambda>s. s\<lparr>stop_cell := geoCell (stop_lat s) (stop_lon s)\<rparr>) (stop_at net i)"
proof -
  have "stop_at (finish_network net) i = stop_at (BuildIndexes (BuildWalkTransfers (BuildIndexes net))) i"
    by (simp add: finish_network_def Let_def stop_at_def)
  also have "\<dots> = map_option (\<lambda>s. s\<lparr>stop_cell := geoCell (stop_lat s) (stop_lon s)\<rparr>) (stop_at net i)"
    by (simp add: stop_at_BuildIndexes BuildWalkTransfers_sel option.map_comp comp_def)
  finally show ?thesis .
qed

lemma targets_group: "targets (group_by tr_from trs) = tr_to ` set trs"
proof -
  have d: "distinct (map fst (group_by tr_from trs))"
    unfolding group_by_def by (rule fold_keeps) auto
  have "(\<Union>(k, ts) \<in> set (group_by tr_from trs). set ts) = set trs"
  proof (intro equalityI subsetI)
    fix x assume "x \<in> (\<Union>(k, ts) \<in> set (group_by tr_from trs). set ts)"
    then obtain k ts where kt: "(k, ts) \<in> set (group_by tr_from trs)" "x \<in> set ts" by blast
    from map_get_entry [OF d kt(1)] kt(2) show "x \<in> set trs" by auto
  next
    fix x assume "x \<in> set trs"
    then have x: "x \<in> set (map_get (group_by tr_from trs) (tr_from x))" by simp
    from map_get_nonempty [OF this] x show "x \<in> (\<Union>(k, ts) \<in> set (group_by tr_from trs). set ts)" by fastforce
  qed
  then show ?thesis by (simp add: targets_def)
qed

lemma nonneg_group:
  assumes "\<forall>tr \<in> set trs. 0 \<le> tr_minutes tr"
  shows "nonneg_transfers (group_by tr_from trs)"
proof -
  have d: "distinct (map fst (group_by tr_from trs))"
    unfolding group_by_def by (rule fold_keeps) auto
  have "0 \<le> tr_minutes tr" if kt: "(k, ts) \<in> set (group_by tr_from trs)" "tr \<in> set ts" for k ts tr
    using map_get_entry [OF d kt(1)] kt(2) assms by auto
  then show ?thesis unfolding nonneg_transfers_def by blast
qed

lemma csa_transfers_finish: "csa_transfers (finish_network net) = group_by tr_from (n_transfers (finish_network net))"
  by (simp add: csa_transfers_def finish_sel(2))

definition closed_network :: "network \<Rightarrow> bool" where
  "closed_network net \<longleftrightarrow>
     (\<forall>(i, s) \<in> set (n_stops net). stop_id s = i \<and> valid_lat (stop_lat s)) \<and>
     (\<forall>c \<in> set (n_connections net). stop_at net (c_to c) \<noteq> None) \<and>
     (\<forall>tr \<in> set (n_transfers net). stop_at net (tr_to tr) \<noteq> None \<and> 0 \<le> tr_minutes tr)"

lemma network_ready:
  assumes net: "closed_network net" and s: "stop_at net s \<noteq> None"
  shows "csa_known (finish_network net) s \<and>
    sorted_wrt (\<lambda>a b. c_dep a \<le> c_dep b) (csa_connections (finish_network net))"
proof
  let ?n = "finish_network net"
  have lat: "\<forall>(i, s) \<in> set (n_stops (BuildIndexes net)). valid_lat (stop_lat s)"
    using net by (auto simp: BuildIndexes_sel closed_network_def)
  obtain new where new: "n_transfers ?n = n_transfers net @ new"
    "\<forall>tr \<in> set new. 2 \<le> tr_minutes tr \<and> (\<exists>d. walkable (BuildIndexes net) (tr_from tr) (tr_to tr) d \<and>
       tr_minutes tr = WalkTransferMinutes d)"
    using new_walk_transfers [OF lat] unfolding finish_sel(1) BuildIndexes_sel(5) by blast
  have tr: "stop_at net (tr_to tr) \<noteq> None \<and> 0 \<le> tr_minutes tr" if "tr \<in> set (n_transfers ?n)" for tr
    using that net new by (fastforce simp: closed_network_def walkable_def stop_at_BuildIndexes)
  have known: "\<exists>x. stop_at ?n v = Some x \<and> stop_id x = v" if "stop_at net v \<noteq> None" for v
  proof -
    obtain x where x: "stop_at net v = Some x" using \<open>stop_at net v \<noteq> None\<close> by blast
    then have "stop_id x = v"
      using net by (auto simp: stop_at_def closed_network_def dest!: map_of_SomeD)
    with x show ?thesis by (simp add: stop_at_finish)
  qed
  have "stops_known ?n (insert s (targets (csa_transfers ?n) \<union> c_to ` set (n_connections ?n)))"
    unfolding stops_known_def csa_transfers_finish targets_group finish_sel(3)
    using known s tr net by (auto simp: closed_network_def)
  moreover have "nonneg_transfers (csa_transfers ?n)"
    unfolding csa_transfers_finish by (rule nonneg_group) (use tr in blast)
  ultimately show "csa_known ?n s" by (simp add: csa_known_def)
  have "sorted_wrt (\<lambda>a b. c_dep a \<le> c_dep b) (n_connections ?n)"
    by (simp add: finish_network_def Let_def sorted_conn_less)
  then show "sorted_wrt (\<lambda>a b. c_dep a \<le> c_dep b) (csa_connections ?n)"
    using sorted_conn_less by (simp add: csa_connections_def Let_def)
qed

text \<open>a network whose stops are stored under their identifiers, and whose connections and transfers
  lead to known stops and take no negative time, is fit for the scan once finished: every origin in it
  is known to the engine and the connections are scanned in departure order.\<close>

theorem finished_network_ready:
  assumes net: "closed_network net" and s: "stop_at net s \<noteq> None"
  shows "csa_known (finish_network net) s \<and>
    sorted_wrt (\<lambda>a b. c_dep a \<le> c_dep b) (csa_connections (finish_network net))"
  by (rule network_ready [OF assms])

lemma finished_network_ready_witness:
  "csa_known (finish_network demo_net) ''A'' \<and>
   sorted_wrt (\<lambda>a b. c_dep a \<le> c_dep b) (csa_connections (finish_network demo_net))"
  by (rule finished_network_ready)
    (simp_all add: closed_network_def demo_defs stop_at_def valid_lat_def)

end
