(* ===== verification/Raptor.thy ===== *)
theory Raptor
  imports NetBuild
begin

text \<open>
  The round-based engine of \<open>internal/planner/raptor.go\<close>. Each round boards, for every route, the
  earliest trip at a marked stop and scans it; the timetable is shifted by whole days until a
  departure fits. The order of the association lists stands for the iteration order of the maps.
\<close>

section \<open>The engine\<close>

definition raptor_trip_less :: "trip \<Rightarrow> trip \<Rightarrow> bool" where
  "raptor_trip_less a b =
     (case (trip_stops a, trip_stops b) of
        (f # _, g # _) \<Rightarrow> st_dep f < st_dep g
      | _ \<Rightarrow> trip_id a < trip_id b)"

definition route_trips :: "network \<Rightarrow> mode list \<Rightarrow> (string \<times> trip list) list" where
  "route_trips net allowed =
     map (\<lambda>(r, ts). (r, sort_by raptor_trip_less ts))
       (group_by trip_route (filter (\<lambda>t. allowed = [] \<or> trip_mode t \<in> set allowed) (map snd (n_trips net))))"

definition raptor_transfers :: "network \<Rightarrow> (string \<times> transfer list) list" where
  "raptor_transfers net = (if n_by_stop net = [] then group_by tr_from (n_transfers net) else n_by_stop net)"

text \<open>
  \<open>relax\<close> of this engine pushes improved stops on the caller's queue and never on its own, so it
  looks at the transfers of one stop only.
\<close>

definition raptor_walk_time :: "transfer \<Rightarrow> duration" where
  "raptor_walk_time tr =
     (if 0 < tr_min_time tr \<and> tr_min_time tr \<noteq> tr_minutes tr then minutes (tr_min_time tr)
      else minutes (tr_minutes tr))"

fun raptor_relax_edges :: "string \<Rightarrow> gotime \<Rightarrow> transfer list \<Rightarrow> labels \<Rightarrow> string list \<Rightarrow> labels \<times> string list" where
  "raptor_relax_edges cur curT [] lab queue = (lab, queue)"
| "raptor_relax_edges cur curT (tr # trs) (arr, pred) queue =
     (let cand = curT + raptor_walk_time tr in
      if improves arr (tr_to tr) cand
      then raptor_relax_edges cur curT trs (arr(tr_to tr \<mapsto> cand), pred(tr_to tr \<mapsto> PrevFoot cur))
             (if tr_to tr \<in> set queue then queue else queue @ [tr_to tr])
      else raptor_relax_edges cur curT trs (arr, pred) queue)"

definition raptor_relax :: "(string \<times> transfer list) list \<Rightarrow> string \<Rightarrow> labels \<Rightarrow> labels \<times> string list" where
  "raptor_relax tfs s lab = raptor_relax_edges s (arr_get (fst lab) s) (map_get tfs s) lab []"

text \<open>The first marked stop of a trip, and the boarding chosen on a route.\<close>

fun first_marked :: "string list \<Rightarrow> stop_time list \<Rightarrow> stop_time list option" where
  "first_marked marked [] = None"
| "first_marked marked (st # sts) = (if st_stop st \<in> set marked then Some (st # sts) else first_marked marked sts)"

definition board_time :: "gotime \<Rightarrow> duration \<Rightarrow> (string \<rightharpoonup> gotime) \<Rightarrow> stop_time \<Rightarrow> gotime" where
  "board_time depart off arr st =
     push_days (arr_get arr (st_stop st)) (push_days depart (midnight off depart + seconds (st_dep st)))"

fun best_board :: "gotime \<Rightarrow> duration \<Rightarrow> (string \<rightharpoonup> gotime) \<Rightarrow> string list \<Rightarrow>
    (trip \<times> stop_time list \<times> gotime) option \<Rightarrow> trip list \<Rightarrow> (trip \<times> stop_time list \<times> gotime) option" where
  "best_board depart off arr marked best [] = best"
| "best_board depart off arr marked best (t # ts) =
     (case first_marked marked (trip_stops t) of
        Some (st # sts) \<Rightarrow>
          (let dt = board_time depart off arr st in
           best_board depart off arr marked
             (case best of
                None \<Rightarrow> Some (t, st # sts, dt)
              | Some (t0, sts0, dt0) \<Rightarrow> if dt < dt0 then Some (t, st # sts, dt) else best) ts)
      | _ \<Rightarrow> best_board depart off arr marked best ts)"

definition isImplausibleLeg :: "stop option \<Rightarrow> stop option \<Rightarrow> gotime \<Rightarrow> gotime \<Rightarrow> mode \<Rightarrow> bool" where
  "isImplausibleLeg fs ts dep ar md =
     (case (fs, ts) of
        (Some fromS, Some toS) \<Rightarrow>
          if (stop_lat fromS = 0 \<and> stop_lon fromS = 0) \<or> (stop_lat toS = 0 \<and> stop_lon toS = 0) then False
          else (let dist = Haversine (Coordinates fromS) (Coordinates toS);
                    dur = of_int (ar - dep) / of_int minute_ns
                in if dur \<le> 0 \<or> dist < 5 then False else dist / (dur / 60) > MaxSpeed md)
      | _ \<Rightarrow> False)"

text \<open>One segment of the scanned trip, from one stop time to the next.\<close>

definition segment_times :: "gotime \<Rightarrow> (string \<rightharpoonup> gotime) \<Rightarrow> stop_time \<Rightarrow> stop_time \<Rightarrow> gotime \<times> gotime" where
  "segment_times base arr f t =
     (let dep = base + seconds (st_dep f);
          ar0 = base + seconds (st_arr t);
          ar = (if ar0 < dep then ar0 + day_ns else ar0);
          dep' = push_days (arr_get arr (st_stop f)) dep
      in (dep', ar + (dep' - dep)))"

definition segment_conn :: "trip \<Rightarrow> stop_time \<Rightarrow> stop_time \<Rightarrow> gotime \<Rightarrow> gotime \<Rightarrow> connection" where
  "segment_conn tr f t dep ar =
     \<lparr>c_trip = trip_id tr, c_provider = trip_provider tr, c_route = trip_route tr, c_mode = trip_mode tr,
      c_from = st_stop f, c_to = st_stop t, c_dep = dep, c_arr = ar\<rparr>"

definition scan_segment :: "network \<Rightarrow> (string \<times> transfer list) list \<Rightarrow> gotime \<Rightarrow> trip \<Rightarrow>
    stop_time \<Rightarrow> stop_time \<Rightarrow> labels \<times> string list \<Rightarrow> labels \<times> string list" where
  "scan_segment net tfs base tr f t st =
     (let (lab, marks) = st; (arr, pred) = lab; (dep, ar) = segment_times base arr f t in
      if \<not> improves arr (st_stop t) ar then st
      else if (case arr (st_stop f) of None \<Rightarrow> False | Some atFrom \<Rightarrow> dep < atFrom) then st
      else if isImplausibleLeg (stop_at net (st_stop f)) (stop_at net (st_stop t)) dep ar (trip_mode tr) then st
      else (let (lab', q) = raptor_relax tfs (st_stop t)
                  (arr(st_stop t \<mapsto> ar), pred(st_stop t \<mapsto> PrevConn (segment_conn tr f t dep ar)))
            in (lab', marks @ st_stop t # q)))"

fun scan_trip :: "network \<Rightarrow> (string \<times> transfer list) list \<Rightarrow> gotime \<Rightarrow> trip \<Rightarrow> stop_time list \<Rightarrow>
    labels \<times> string list \<Rightarrow> labels \<times> string list" where
  "scan_trip net tfs base tr (f # t # sts) st =
     scan_trip net tfs base tr (t # sts) (scan_segment net tfs base tr f t st)"
| "scan_trip net tfs base tr _ st = st"

definition scan_route :: "network \<Rightarrow> (string \<times> transfer list) list \<Rightarrow> gotime \<Rightarrow> duration \<Rightarrow> string list \<Rightarrow>
    string \<times> trip list \<Rightarrow> labels \<times> string list \<Rightarrow> labels \<times> string list" where
  "scan_route net tfs depart off marked rt st =
     (case best_board depart off (fst (fst st)) marked None (snd rt) of
        None \<Rightarrow> st
      | Some (tr, sts, dt) \<Rightarrow> scan_trip net tfs (midnight off depart) tr sts st)"

fun raptor_rounds :: "network \<Rightarrow> (string \<times> transfer list) list \<Rightarrow> (string \<times> trip list) list \<Rightarrow> gotime \<Rightarrow>
    duration \<Rightarrow> nat \<Rightarrow> string list \<Rightarrow> labels \<Rightarrow> labels" where
  "raptor_rounds net tfs routes depart off 0 marked lab = lab"
| "raptor_rounds net tfs routes depart off (Suc n) marked lab =
     (let (lab', new) = fold (scan_route net tfs depart off marked) routes (lab, []) in
      if new = [] then lab' else raptor_rounds net tfs routes depart off n new lab')"

definition raptor_labels :: "network \<Rightarrow> string \<Rightarrow> gotime \<Rightarrow> search_params \<Rightarrow> labels" where
  "raptor_labels net fromStop depart params =
     (let maxT = (if p_max_transfers params < 0 then 100 else p_max_transfers params);
          tfs = raptor_transfers net;
          lab0 = fst (raptor_relax tfs fromStop ([fromStop \<mapsto> depart], Map.empty))
      in raptor_rounds net tfs (route_trips net (p_modes params)) depart (p_zone_offset params)
           (nat (maxT + 2)) [fromStop] lab0)"

definition raptor :: "network \<Rightarrow> string \<Rightarrow> string \<Rightarrow> gotime \<Rightarrow> search_params \<Rightarrow> (plan_error + leg list) option" where
  "raptor net fromStop toStop depart params =
     (let (arr, pred) = raptor_labels net fromStop depart params in
      if pred toStop = None then csa net fromStop toStop depart params
      else (case reconstruct pred fromStop toStop of
          None \<Rightarrow> None
        | Some steps \<Rightarrow>
            (case buildLegs net arr steps of
               Inl e \<Rightarrow> Some (Inl e)
             | Inr legs \<Rightarrow>
                 Some (transfer_limit (if p_max_transfers params < 0 then 100 else p_max_transfers params) legs))))"

section \<open>Where the engine goes wrong\<close>

definition far_stop :: "string \<Rightarrow> real \<Rightarrow> stop" where
  "far_stop i lo = (demo_stop i)\<lparr>stop_lon := lo\<rparr>"

definition demo_time :: "string \<Rightarrow> int \<Rightarrow> stop_time" where
  "demo_time i sec = \<lparr>st_stop = i, st_seq = 0, st_arr = sec, st_dep = sec, st_pickup = 0, st_dropoff = 0, st_provisional = False\<rparr>"

definition far_trip :: trip where
  "far_trip = \<lparr>trip_id = ''t'', trip_route = ''r'', trip_provider = ''p'', trip_mode = ModeBus, trip_service = 0,
     trip_stops = [demo_time ''S'' 600, demo_time ''A'' 1200, demo_time ''B'' 1800]\<rparr>"

definition far_net :: "transfer list \<Rightarrow> network" where
  "far_net trs = NewNetwork\<lparr>
     n_stops := [(''S'', far_stop ''S'' (- 90)), (''A'', far_stop ''A'' 90), (''B'', far_stop ''B'' 90)],
     n_trips := [(''t'', far_trip)], n_transfers := trs\<rparr>"

lemmas far_defs = far_net_def far_trip_def demo_time_def far_stop_def

lemma far_dist: "Haversine (Coordinates (far_stop ''S'' (- 90))) (Coordinates (far_stop ''A'' 90)) = 6371 * pi"
  by (simp add: Haversine_model Coordinates_def far_stop_def demo_stop_def haversineKm_antipodes)

lemma far_SA: "isImplausibleLeg (stop_at (far_net trs) ''S'') (stop_at (far_net trs) ''A'') dep (dep + seconds 600) ModeBus"
proof -
  have "120 * 10 / 60 < 6371 * pi" using pi_ge_two by simp
  then show ?thesis
    using far_dist pi_ge_two
    by (simp add: isImplausibleLeg_def stop_at_def far_net_def NewNetwork_def Let_def)
      (simp add: far_stop_def demo_stop_def seconds_def second_ns_def minute_ns_def MaxSpeed_def go_simps field_simps)
qed

lemma far_AB: "\<not> isImplausibleLeg (stop_at (far_net trs) ''A'') (stop_at (far_net trs) ''B'') dep ar ModeBus"
  by (simp add: isImplausibleLeg_def stop_at_def far_net_def NewNetwork_def Let_def far_stop_def demo_stop_def Coordinates_def Haversine_model)


lemma far_routes: "route_trips (far_net trs) [ModeBus] = [(''r'', [far_trip])]"
  by (simp add: route_trips_def far_net_def NewNetwork_def far_trip_def group_by_def map_append_def)

lemma far_segment_SA: "arr ''S'' = Some 0 \<Longrightarrow> scan_segment (far_net trs) tfs 0 far_trip (demo_time ''S'' 600) (demo_time ''A'' 1200) ((arr, pred), m) = ((arr, pred), m)"
  using far_SA [of trs "seconds 600"]
  by (simp add: scan_segment_def segment_times_def demo_time_def seconds_def second_ns_def push_days.simps arr_get_def far_trip_def)


definition far_params :: search_params where
  "far_params = demo_params\<lparr>p_max_transfers := 1\<rparr>"

lemma far_max: "p_max_transfers far_params = 1"
  by (simp add: far_params_def)

definition far_ride :: connection where
  "far_ride = segment_conn far_trip (demo_time ''A'' 1200) (demo_time ''B'' 1800) (seconds 1200) (seconds 1800)"

lemma far_segment_AB: "arr ''A'' = None \<Longrightarrow> arr ''B'' = None \<Longrightarrow>
  scan_segment (far_net trs) tfs 0 far_trip (demo_time ''A'' 1200) (demo_time ''B'' 1800) ((arr, pred), []) =
  (case raptor_relax tfs ''B'' (arr(''B'' \<mapsto> seconds 1800), pred(''B'' \<mapsto> PrevConn far_ride)) of
     (lab, q) \<Rightarrow> (lab, ''B'' # q))"
  using far_AB [of trs]
  by (simp add: scan_segment_def segment_times_def demo_time_def seconds_def second_ns_def push_days.simps
      arr_get_def improves_def far_trip_def zero_time_def far_ride_def)

lemma far_first: "first_marked [''S''] (trip_stops far_trip) = Some (trip_stops far_trip)"
  by (simp add: far_trip_def demo_time_def)

lemma far_round1:
  "scan_route (far_net trs) tfs 0 0 [''S''] (''r'', [far_trip]) (([''S'' \<mapsto> 0], Map.empty), []) =
   (case raptor_relax tfs ''B'' ([''S'' \<mapsto> 0, ''B'' \<mapsto> seconds 1800], [''B'' \<mapsto> PrevConn far_ride]) of
     (lab, q) \<Rightarrow> (lab, ''B'' # q))"
proof -
  have "trip_stops far_trip = [demo_time ''S'' 600, demo_time ''A'' 1200, demo_time ''B'' 1800]"
    by (simp add: far_trip_def)
  then show ?thesis
    using far_first
    by (simp add: scan_route_def far_segment_SA far_segment_AB midnight_def)
qed

lemma far_labels_plain:
  "raptor_labels (far_net []) ''S'' 0 far_params =
     ([''S'' \<mapsto> 0, ''B'' \<mapsto> seconds 1800], [''B'' \<mapsto> PrevConn far_ride])"
proof -
  have t: "raptor_transfers (far_net []) = []" by (simp add: raptor_transfers_def far_net_def NewNetwork_def group_by_def)
  show ?thesis
    by (simp add: raptor_labels_def far_routes t raptor_relax_def map_get_def far_params_def demo_params_def
        numeral_3_eq_3 far_round1)
      (simp add: scan_route_def far_trip_def demo_time_def)
qed

definition back_walk :: transfer where
  "back_walk = \<lparr>tr_from = ''B'', tr_to = ''A'', tr_minutes = 5, tr_min_time = 0, tr_dist = 0\<rparr>"

lemma far_labels_walk:
  "raptor_labels (far_net [back_walk]) ''S'' 0 far_params =
     ([''S'' \<mapsto> 0, ''B'' \<mapsto> seconds 1800, ''A'' \<mapsto> seconds 2100],
      [''B'' \<mapsto> PrevConn far_ride, ''A'' \<mapsto> PrevFoot ''B''])"
proof -
  have t: "raptor_transfers (far_net [back_walk]) = [(''B'', [back_walk])]"
    by (simp add: raptor_transfers_def far_net_def NewNetwork_def group_by_def map_append_def back_walk_def)
  have e: "seconds 1800 + minutes 5 = seconds 2100" by (simp add: go_simps)
  show ?thesis
    by (simp add: raptor_labels_def far_routes t raptor_relax_def map_get_def far_params_def demo_params_def
        numeral_3_eq_3 far_round1,
      simp add: back_walk_def raptor_walk_time_def improves_def arr_get_def e,
      simp add: scan_route_def far_trip_def demo_time_def midnight_def scan_segment_def segment_times_def
        arr_get_def improves_def seconds_def second_ns_def push_days.simps day_ns_def board_time_def)
qed

text \<open>The walk back never ends on a cycle of predecessors that misses the origin.\<close>

lemma reconstruct_loop_cycle:
  assumes "reconstruct_loop pred s v racc = Some steps" "v \<in> C"
  shows "\<not> (s \<notin> C \<and> (\<forall>x \<in> C. \<exists>p. pred x = Some p \<and> prev_src p \<in> C))"
  using assms(2)
proof (induction rule: reconstruct_loop.raw_induct [OF _ assms(1)])
  case (1 rec pred s v racc steps)
  show ?case
  proof
    assume c: "s \<notin> C \<and> (\<forall>x \<in> C. \<exists>p. pred x = Some p \<and> prev_src p \<in> C)"
    with 1(3) obtain p where p: "pred v = Some p" "prev_src p \<in> C" "v \<noteq> s" by blast
    show False
    proof (cases p)
      case (PrevConn c')
      with p 1(2) have "rec pred s (c_from c') (racc @ [StepConn c']) = Some steps" by simp
      from 1(1) [OF this] p PrevConn c show False by simp
    next
      case (PrevFoot u)
      with p 1(2) have "rec pred s u (racc @ [StepFoot u v]) = Some steps" by simp
      from 1(1) [OF this] p PrevFoot c show False by simp
    qed
  qed
qed

text \<open>When the speed filter drops a segment of a trip the round-based engine rides on from a stop it
  never reached: on the network of the example, whose only trip leaves S for A at an impossible speed,
  it answers with a ride from A to B for a journey from S to B.\<close>

theorem raptor_teleports:
  "raptor (far_net []) ''S'' ''B'' 0 far_params =
     Some (Inr [ride_leg far_ride (far_stop ''A'' 90) (far_stop ''B'' 90)]) \<and>
   (\<forall>allowed d t. \<not> journey_ok (far_net []) allowed ''S'' d ''B'' t
      [ride_leg far_ride (far_stop ''A'' 90) (far_stop ''B'' 90)])"
proof
  have r: "c_from far_ride = ''A''" "c_to far_ride = ''B''"
    by (simp_all add: far_ride_def segment_conn_def demo_time_def)
  have s: "stop_at (far_net []) ''A'' = Some (far_stop ''A'' 90)" "stop_at (far_net []) ''B'' = Some (far_stop ''B'' 90)"
    by (simp_all add: stop_at_def far_net_def NewNetwork_def)
  show "raptor (far_net []) ''S'' ''B'' 0 far_params =
     Some (Inr [ride_leg far_ride (far_stop ''A'' 90) (far_stop ''B'' 90)])"
    by (simp add: raptor_def far_labels_plain reconstruct_def reconstruct_loop.simps buildLegs_def same_trip_def
        transfer_limit_def far_max r s)
  show "\<forall>allowed d t. \<not> journey_ok (far_net []) allowed ''S'' d ''B'' t
      [ride_leg far_ride (far_stop ''A'' 90) (far_stop ''B'' 90)]"
    by (simp add: journey_ok_def ride_leg_def legPoint_def far_stop_def demo_stop_def)
qed

text \<open>C38: And when a transfer leads back to the stop it jumped to, the walk back over the predecessors
  never ends: \<open>raptor\<close> does not return.\<close>

theorem raptor_diverges: "raptor (far_net [back_walk]) ''S'' ''A'' 0 far_params = None"
proof -
  let ?pred = "[''B'' \<mapsto> PrevConn far_ride, ''A'' \<mapsto> PrevFoot ''B''] :: string \<rightharpoonup> prev"
  have "\<forall>x \<in> {''A'', ''B''}. \<exists>p. ?pred x = Some p \<and> prev_src p \<in> {''A'', ''B''}"
    by (simp add: far_ride_def segment_conn_def demo_time_def)
  then have "reconstruct_loop ?pred ''S'' ''A'' [] \<noteq> Some steps" for steps
    using reconstruct_loop_cycle [of ?pred "''S''" "''A''" "[]" steps "{''A'', ''B''}"] by auto
  then have "reconstruct ?pred ''S'' ''A'' = None"
    by (cases "reconstruct_loop ?pred ''S'' ''A'' []") (auto simp: reconstruct_def)
  then show ?thesis by (simp add: raptor_def far_labels_walk)
qed

end
