(* ===== verification/Pricing.thy ===== *)
theory Pricing
  imports Geo
begin

text \<open>
  The \<open>pricing\<close> package: currencies (\<open>currency.go\<close>) and the cost of legs and journeys
  (\<open>pricing.go\<close>). The package variable \<open>DefaultCurrencyVar\<close> is the argument \<open>dflt\<close>. A price lookup
  that finds no fare is an estimate by distance.
\<close>

section \<open>Currencies\<close>

definition supported :: "string list" where
  "supported = [''RUB'', ''USD'', ''EUR'', ''KZT'', ''BYN'', ''CNY'']"

definition NormalizeCurrency :: "string \<Rightarrow> string" where
  "NormalizeCurrency s = to_upper (trim_space s)"

datatype currency_error = CurrencyEmpty | CurrencyLength string | CurrencyUnsupported string

definition ValidateCurrency :: "string \<Rightarrow> currency_error option" where
  "ValidateCurrency s =
     (let c = NormalizeCurrency s in
      if c = '''' then Some CurrencyEmpty
      else if length c \<noteq> 3 then Some (CurrencyLength s)
      else if c \<notin> set supported then Some (CurrencyUnsupported s)
      else None)"

definition IsSupported :: "string \<Rightarrow> bool" where
  "IsSupported c \<longleftrightarrow> NormalizeCurrency c \<in> set supported"

definition DefaultCurrency :: "string \<Rightarrow> string" where
  "DefaultCurrency dflt = (if dflt \<noteq> '''' then NormalizeCurrency dflt else ''RUB'')"

definition CurrencyOrDefault :: "string \<Rightarrow> string \<Rightarrow> string" where
  "CurrencyOrDefault dflt c =
     (if c = '''' then DefaultCurrency dflt
      else (let n = NormalizeCurrency c in if \<not> IsSupported n then DefaultCurrency dflt else n))"

definition Configure :: "string \<Rightarrow> string \<Rightarrow> string" where
  "Configure dflt new =
     (if new = '''' then dflt
      else if ValidateCurrency new \<noteq> None then dflt
      else NormalizeCurrency new)"

lemma supported_normal: "c \<in> set supported \<Longrightarrow> NormalizeCurrency c = c"
proof -
  have "list_all (\<lambda>c. NormalizeCurrency c = c) supported"
    by (simp add: supported_def NormalizeCurrency_def string_eval)
  then show "c \<in> set supported \<Longrightarrow> NormalizeCurrency c = c" by (simp add: list_all_iff)
qed

lemma NormalizeCurrency_idem [simp]: "NormalizeCurrency (NormalizeCurrency s) = NormalizeCurrency s"
  by (simp add: NormalizeCurrency_def upper_trim_idem)

lemma supported_nonempty: "c \<in> set supported \<Longrightarrow> c \<noteq> '''' \<and> length c = 3"
  by (auto simp: supported_def)

lemma DefaultCurrency_supported: "dflt \<in> set supported \<Longrightarrow> DefaultCurrency dflt \<in> set supported"
  by (auto simp: DefaultCurrency_def supported_normal supported_nonempty)

lemma CurrencyOrDefault_supported:
  assumes "dflt \<in> set supported"
  shows "CurrencyOrDefault dflt c \<in> set supported"
  using DefaultCurrency_supported [OF assms]
  by (auto simp: CurrencyOrDefault_def Let_def IsSupported_def)

lemma CurrencyOrDefault_id: "c \<in> set supported \<Longrightarrow> CurrencyOrDefault dflt c = c"
  by (simp add: CurrencyOrDefault_def Let_def IsSupported_def supported_normal supported_nonempty)

section \<open>Prices\<close>

definition pricePerKm :: "mode \<Rightarrow> real" where
  "pricePerKm m =
     (if m = ModeFlight then 8 else if m = ModeRail then 35 / 10
      else if m = ModeTram \<or> m = ModeMetro then 2 else 25 / 10)"

definition estimatePrice :: "stop option \<Rightarrow> stop option \<Rightarrow> mode \<Rightarrow> real" where
  "estimatePrice fs ts m =
     (case (fs, ts) of
        (Some f, Some t) \<Rightarrow>
          (let d0 = Haversine (Coordinates f) (Coordinates t);
               d = (if d0 < 1 then 1 else d0);
               p0 = d * pricePerKm m;
               p = (if p0 < 50 then 50 else p0)
           in of_int (go_trunc (p + 1 / 2)))
      | _ \<Rightarrow> 0)"

definition CostBasisEstimate :: string where "CostBasisEstimate = ''estimate''"
definition CostBasisFare :: string where "CostBasisFare = ''fare''"

definition zone_ok :: "network \<Rightarrow> string option \<Rightarrow> string \<Rightarrow> bool" where
  "zone_ok net zone stp =
     (case zone of
        None \<Rightarrow> True
      | Some z \<Rightarrow> z = '''' \<or> map_of (n_stop_zones net) stp = Some z)"

fun find_fare :: "network \<Rightarrow> leg \<Rightarrow> fare_rule list \<Rightarrow> fare_attribute option" where
  "find_fare net l [] = None"
| "find_fare net l (r # rs) =
     (if fr_route r \<noteq> '''' \<and> fr_route r \<noteq> l_route l then find_fare net l rs
      else if \<not> zone_ok net (fr_origin r) (lp_stop (l_from l)) then find_fare net l rs
      else if \<not> zone_ok net (fr_dest r) (lp_stop (l_to l)) then find_fare net l rs
      else (case map_of (n_fares net) (fr_fare r) of Some fa \<Rightarrow> Some fa | None \<Rightarrow> find_fare net l rs))"

text \<open>When a stop is missing both ends are taken from the leg itself.\<close>

definition leg_stop :: "leg_point \<Rightarrow> stop" where
  "leg_stop p = \<lparr>stop_id = '''', stop_provider = '''', stop_name = '''', stop_lat = lp_lat p, stop_lon = lp_lon p,
     stop_type = '''', stop_zone = '''', stop_cell = 0\<rparr>"

definition estimate_stops :: "network \<Rightarrow> leg \<Rightarrow> stop \<times> stop" where
  "estimate_stops net l =
     (case (stop_at net (lp_stop (l_from l)), stop_at net (lp_stop (l_to l))) of
        (Some f, Some t) \<Rightarrow> (f, t)
      | _ \<Rightarrow> (leg_stop (l_from l), leg_stop (l_to l)))"

definition CostForLeg :: "string \<Rightarrow> network \<Rightarrow> leg \<Rightarrow> cost" where
  "CostForLeg dflt net l =
     (if l_mode l = ModeWalk then no_cost
      else (case (if n_fares net = [] then None else find_fare net l (n_fare_rules net)) of
          Some fa \<Rightarrow> \<lparr>cost_has = True, cost_amount = fa_price fa, cost_currency = CurrencyOrDefault dflt (fa_currency fa),
             cost_basis = CostBasisFare, cost_method = ''fare''\<rparr>
        | None \<Rightarrow> (let (f, t) = estimate_stops net l in
            \<lparr>cost_has = True, cost_amount = estimatePrice (Some f) (Some t) (l_mode l),
             cost_currency = CurrencyOrDefault dflt '''', cost_basis = CostBasisEstimate, cost_method = ''estimate''\<rparr>)))"

definition priced_leg :: "string \<Rightarrow> network \<Rightarrow> leg \<Rightarrow> leg" where
  "priced_leg dflt net l =
     (let c = CostForLeg dflt net l
      in l\<lparr>l_cost := if cost_has c then c\<lparr>cost_currency := CurrencyOrDefault dflt (cost_currency c)\<rparr> else c\<rparr>)"

fun with_legs :: "(leg list \<Rightarrow> leg list) \<Rightarrow> journey \<Rightarrow> journey" where
  "with_legs f (Journey a b dep ar legs n alts) = Journey a b dep ar (f legs) n alts"

fun EnrichJourney :: "string \<Rightarrow> network \<Rightarrow> journey \<Rightarrow> journey" where
  "EnrichJourney dflt net (Journey a b dep ar legs n alts) =
     Journey a b dep ar (map (priced_leg dflt net) legs) n (map (with_legs (map (priced_leg dflt net))) alts)"

definition TotalPriceByCurrency :: "string \<Rightarrow> journey \<Rightarrow> (string \<times> real) list" where
  "TotalPriceByCurrency dflt j =
     fold (\<lambda>l totals. if cost_has (l_cost l)
         then (let cur = CurrencyOrDefault dflt (cost_currency (l_cost l))
               in AList.update cur ((case map_of totals cur of None \<Rightarrow> 0 | Some x \<Rightarrow> x) + cost_amount (l_cost l)) totals)
         else totals) (j_legs j) []"

definition TotalPrice :: "string \<Rightarrow> journey \<Rightarrow> real \<times> string \<times> bool" where
  "TotalPrice dflt j =
     (let totals = TotalPriceByCurrency dflt j in
      if totals = [] then (0, '''', False)
      else (snd (last totals), fst (last totals), True))"

section \<open>Properties\<close>

text \<open>Whatever currency is configured, the default stays a supported one, and every currency that is
  read from data becomes a supported one.\<close>

theorem currency_always_supported:
  assumes "dflt \<in> set supported"
  shows "Configure dflt new \<in> set supported \<and> CurrencyOrDefault (Configure dflt new) c \<in> set supported \<and>
    (ValidateCurrency new = None \<longrightarrow> Configure dflt new = NormalizeCurrency new)"
proof -
  have "Configure dflt new \<in> set supported"
    using assms by (auto simp: Configure_def ValidateCurrency_def Let_def split: if_splits)
  moreover have "NormalizeCurrency '''' = ''''" by (simp add: NormalizeCurrency_def string_eval)
  then have "ValidateCurrency '''' \<noteq> None" by (simp add: ValidateCurrency_def)
  then have "ValidateCurrency new = None \<longrightarrow> Configure dflt new = NormalizeCurrency new"
    by (auto simp: Configure_def)
  ultimately show ?thesis using CurrencyOrDefault_supported by blast
qed

lemma currency_always_supported_witness:
  "Configure ''RUB'' '' usd '' \<in> set supported \<and> CurrencyOrDefault (Configure ''RUB'' '' usd '') ''xx'' \<in> set supported
     \<and> Configure ''RUB'' '' usd '' = ''USD''"
proof -
  have n: "NormalizeCurrency '' usd '' = ''USD''" by (simp add: NormalizeCurrency_def string_eval)
  have "''RUB'' \<in> set supported" by (simp add: supported_def)
  from currency_always_supported [OF this, of "'' usd ''" "''xx''"] show ?thesis
    by (simp add: ValidateCurrency_def n) (simp add: supported_def)
qed

lemma estimatePrice_ge: "50 \<le> estimatePrice (Some f) (Some t) m"
proof -
  have "50 \<le> go_trunc (p + 1 / 2)" if "50 \<le> p" for p :: real
    using that by (simp add: go_trunc_def le_floor_iff)
  from of_int_le_iff [where 'a = real, THEN iffD2, OF this] show ?thesis
    by (simp add: estimatePrice_def Let_def)
qed

lemma estimatePrice_nonneg: "0 \<le> estimatePrice (Some f) (Some t) m"
  using estimatePrice_ge [of f t m] by linarith

text \<open>What a priced leg is.\<close>

definition priced_ok :: "network \<Rightarrow> leg \<Rightarrow> leg \<Rightarrow> bool" where
  "priced_ok net l l' \<longleftrightarrow> l' = l\<lparr>l_cost := l_cost l'\<rparr> \<and>
     (if l_mode l = ModeWalk then \<not> cost_has (l_cost l')
      else cost_has (l_cost l') \<and> cost_currency (l_cost l') \<in> set supported \<and>
        ((\<exists>fa \<in> snd ` set (n_fares net). cost_basis (l_cost l') = CostBasisFare \<and> cost_amount (l_cost l') = fa_price fa) \<or>
         (cost_basis (l_cost l') = CostBasisEstimate \<and> 50 \<le> cost_amount (l_cost l'))))"

lemma find_fare_in: "find_fare net l rs = Some fa \<Longrightarrow> fa \<in> snd ` set (n_fares net)"
proof (induction rs)
  case (Cons r rs)
  then show ?case by (auto split: if_splits option.splits dest!: map_of_SomeD intro: rev_image_eqI)
qed simp

lemma priced_leg_ok:
  assumes "dflt \<in> set supported"
  shows "priced_ok net l (priced_leg dflt net l)"
proof (cases "l_mode l = ModeWalk")
  case True
  then show ?thesis by (simp add: priced_leg_def CostForLeg_def priced_ok_def no_cost_def)
next
  case False
  note cur = CurrencyOrDefault_supported [OF assms]
  show ?thesis
  proof (cases "if n_fares net = [] then None else find_fare net l (n_fare_rules net)")
    case None
    obtain f t where ft: "estimate_stops net l = (f, t)" by fastforce
    show ?thesis using False None cur estimatePrice_ge
      by (simp add: priced_leg_def CostForLeg_def priced_ok_def ft)
  next
    case (Some fa)
    then have "fa \<in> snd ` set (n_fares net)" using find_fare_in by (auto split: if_splits)
    then show ?thesis using False Some cur
      by (simp add: priced_leg_def CostForLeg_def priced_ok_def) blast
  qed
qed

text \<open>Enriching a journey prices every leg of it and of its alternatives and changes nothing else:
  walks cost nothing, every ride has a cost in a supported currency, either the price of a fare of the
  network or an estimate of at least 50.\<close>

theorem enrich_prices_legs:
  assumes "dflt \<in> set supported"
  shows "list_all2 (priced_ok net) (j_legs j) (j_legs (EnrichJourney dflt net j)) \<and>
    list_all2 (\<lambda>a a'. list_all2 (priced_ok net) (j_legs a) (j_legs a') \<and> a' = with_legs (\<lambda>_. j_legs a') a)
      (j_alts j) (j_alts (EnrichJourney dflt net j)) \<and>
    j_dep (EnrichJourney dflt net j) = j_dep j \<and> j_arr (EnrichJourney dflt net j) = j_arr j \<and>
    j_transfers (EnrichJourney dflt net j) = j_transfers j"
proof -
  have "list_all2 (priced_ok net) ls (map (priced_leg dflt net) ls)" for ls
    by (simp add: list_all2_map2 list_all2_same priced_leg_ok [OF assms])
  moreover have "a' = with_legs (\<lambda>_. j_legs a') a" if "a' = with_legs f a" for f a a'
    using that by (cases a) simp
  moreover have "j_legs (with_legs f a) = f (j_legs a)" for f a by (cases a) simp
  ultimately show ?thesis
    by (cases j) (auto simp: list_all2_map2 list_all2_same)
qed

lemma enrich_prices_legs_witness:
  "j_arr (EnrichJourney ''RUB'' NewNetwork (Journey \<lparr>co_lat = 0, co_lon = 0\<rparr> \<lparr>co_lat = 0, co_lon = 0\<rparr> 0 7 [] 0 [])) = 7"
  using enrich_prices_legs [of "''RUB''" NewNetwork "Journey \<lparr>co_lat = 0, co_lon = 0\<rparr> \<lparr>co_lat = 0, co_lon = 0\<rparr> 0 7 [] 0 []"]
  by (simp add: supported_def)

definition in_currency :: "string \<Rightarrow> string \<Rightarrow> leg \<Rightarrow> bool" where
  "in_currency dflt cur l \<longleftrightarrow> cost_has (l_cost l) \<and> CurrencyOrDefault dflt (cost_currency (l_cost l)) = cur"

definition leg_sum :: "string \<Rightarrow> string \<Rightarrow> leg list \<Rightarrow> real" where
  "leg_sum dflt cur legs = sum_list (map (\<lambda>l. cost_amount (l_cost l)) (filter (in_currency dflt cur) legs))"

abbreviation add_leg :: "string \<Rightarrow> leg \<Rightarrow> (string \<times> real) list \<Rightarrow> (string \<times> real) list" where
  "add_leg dflt \<equiv> (\<lambda>l totals. if cost_has (l_cost l)
         then (let cur = CurrencyOrDefault dflt (cost_currency (l_cost l))
               in AList.update cur ((case map_of totals cur of None \<Rightarrow> 0 | Some x \<Rightarrow> x) + cost_amount (l_cost l)) totals)
         else totals)"

lemma totals_fold:
  "map_of (fold (add_leg dflt) legs []) cur =
     (if \<exists>l \<in> set legs. in_currency dflt cur l then Some (leg_sum dflt cur legs) else None)"
proof (induction legs rule: rev_induct)
  case (snoc l legs)
  show ?case
  proof (cases "in_currency dflt cur l")
    case True
    then show ?thesis using snoc
      by (auto simp: in_currency_def leg_sum_def Let_def filter_empty_conv)
  next
    case False
    then have "map_of (fold (add_leg dflt) (legs @ [l]) []) cur = map_of (fold (add_leg dflt) legs []) cur"
      by (auto simp: in_currency_def Let_def)
    then show ?thesis using snoc False by (simp add: leg_sum_def)
  qed
qed simp

lemma totals_distinct: "distinct (map fst (fold (add_leg dflt) legs []))"
  by (rule fold_keeps) (auto simp: Let_def)

text \<open>The totals by currency are exactly the sums of the costed legs of each currency; the total of a
  journey is present when some leg is costed, and when they are all in one currency it is their sum in
  that currency.\<close>

theorem totals_add_up:
  "map_of (TotalPriceByCurrency dflt j) cur =
     (if \<exists>l \<in> set (j_legs j). in_currency dflt cur l then Some (leg_sum dflt cur (j_legs j)) else None) \<and>
   (snd (snd (TotalPrice dflt j)) \<longleftrightarrow> (\<exists>l \<in> set (j_legs j). cost_has (l_cost l))) \<and>
   ((\<exists>l \<in> set (j_legs j). cost_has (l_cost l)) \<and>
      (\<forall>l \<in> set (j_legs j). cost_has (l_cost l) \<longrightarrow> in_currency dflt cur l) \<longrightarrow>
    TotalPrice dflt j = (leg_sum dflt cur (j_legs j), cur, True))"
proof -
  define t where "t = TotalPriceByCurrency dflt j"
  have m: "map_of t c = (if \<exists>l \<in> set (j_legs j). in_currency dflt c l then Some (leg_sum dflt c (j_legs j)) else None)" for c
    unfolding t_def TotalPriceByCurrency_def by (rule totals_fold)
  have d: "distinct (map fst t)" unfolding t_def TotalPriceByCurrency_def by (rule totals_distinct)
  have e: "t \<noteq> [] \<longleftrightarrow> (\<exists>l \<in> set (j_legs j). cost_has (l_cost l))"
  proof
    assume "t \<noteq> []"
    then obtain c x where "(c, x) \<in> set t" by (cases t) auto
    with d have "map_of t c = Some x" by simp
    with m [of c] show "\<exists>l \<in> set (j_legs j). cost_has (l_cost l)"
      by (auto simp: in_currency_def split: if_splits)
  next
    assume "\<exists>l \<in> set (j_legs j). cost_has (l_cost l)"
    then obtain l where l: "l \<in> set (j_legs j)" "cost_has (l_cost l)" by blast
    have "map_of t (CurrencyOrDefault dflt (cost_currency (l_cost l))) \<noteq> None"
      using l m [of "CurrencyOrDefault dflt (cost_currency (l_cost l))"] by (auto simp: in_currency_def)
    then show "t \<noteq> []" by auto
  qed
  have one: "TotalPrice dflt j = (leg_sum dflt cur (j_legs j), cur, True)"
    if some: "\<exists>l \<in> set (j_legs j). cost_has (l_cost l)"
      and all: "\<forall>l \<in> set (j_legs j). cost_has (l_cost l) \<longrightarrow> in_currency dflt cur l"
  proof -
    have ne: "t \<noteq> []" using e some by blast
    obtain c x where l: "last t = (c, x)" by (cases "last t")
    then have "(c, x) \<in> set t" using ne by (metis last_in_set)
    with d have c: "map_of t c = Some x" by simp
    with m [of c] obtain l' where "l' \<in> set (j_legs j)" "in_currency dflt c l'" by (auto split: if_splits)
    with all have "c = cur" by (auto simp: in_currency_def)
    with c m [of cur] have "x = leg_sum dflt cur (j_legs j)" by (auto split: if_splits)
    with l ne \<open>c = cur\<close> show ?thesis by (simp add: TotalPrice_def t_def [symmetric] Let_def)
  qed
  have "snd (snd (TotalPrice dflt j)) \<longleftrightarrow> t \<noteq> []"
    by (simp add: TotalPrice_def t_def [symmetric] Let_def)
  with m [of cur] e one show ?thesis unfolding t_def by blast
qed


definition demo_priced :: journey where
  "demo_priced =
     (let o' = \<lparr>co_lat = 0, co_lon = 0\<rparr>; p = \<lparr>lp_stop = '''', lp_name = '''', lp_lat = 0, lp_lon = 0\<rparr>
      in Journey o' o' 0 0
        [\<lparr>l_mode = ModeBus, l_provider = '''', l_route = '''', l_trip = '''', l_from = p, l_to = p, l_dep = 0, l_arr = 0,
          l_self = False, l_cost = \<lparr>cost_has = True, cost_amount = 100, cost_currency = ''RUB'',
            cost_basis = CostBasisFare, cost_method = ''fare''\<rparr>\<rparr>] 0 [])"

lemma totals_add_up_witness: "TotalPrice ''USD'' demo_priced = (100, ''RUB'', True)"
proof -
  have c: "CurrencyOrDefault ''USD'' ''RUB'' = ''RUB''" by (rule CurrencyOrDefault_id) (simp add: supported_def)
  have "\<exists>l \<in> set (j_legs demo_priced). cost_has (l_cost l)"
    "\<forall>l \<in> set (j_legs demo_priced). cost_has (l_cost l) \<longrightarrow> in_currency ''USD'' ''RUB'' l"
    "leg_sum ''USD'' ''RUB'' (j_legs demo_priced) = 100"
    by (simp_all add: demo_priced_def Let_def in_currency_def leg_sum_def c)
  then show ?thesis using totals_add_up [of "''USD''" demo_priced "''RUB''"] by simp
qed

end
