(* ===== verification/Planner.thy ===== *)
theory Planner
  imports Raptor Pricing
begin

text \<open>
  Planning door to door (\<open>internal/planner/planner.go\<close>): the choice of the boarding and alighting
  stops, arrival-time searches (\<open>planArrival\<close>), alternatives (\<open>paretoAlternatives\<close>) and
  \<open>planWithStops\<close> as a whole. The engine is an argument: \<open>engine_of\<close> picks the one configured.
  The semaphore, the logging and the metrics of the planner are left out.
\<close>

section \<open>Choosing stops\<close>

definition isVillageStop :: "stop \<Rightarrow> bool" where
  "isVillageStop s = IsVillageName (stop_name s)"

definition chooseBestStop :: "stop list \<Rightarrow> (string \<Rightarrow> bool) \<Rightarrow> stop option" where
  "chooseBestStop cands origin =
     (if cands = [] then None
      else (case find (\<lambda>s. origin (stop_id s) \<and> \<not> isVillageStop s) cands of
          Some s \<Rightarrow> Some s
        | None \<Rightarrow> (case find (\<lambda>s. origin (stop_id s)) cands of
            Some s \<Rightarrow> Some s
          | None \<Rightarrow> (case find (\<lambda>s. \<not> isVillageStop s) cands of
              Some s \<Rightarrow> Some s
            | None \<Rightarrow> Some (hd cands)))))"

definition chooseBestToStop :: "stop list \<Rightarrow> stop option" where
  "chooseBestToStop cands =
     (if cands = [] then None
      else (case find (\<lambda>s. \<not> isVillageStop s) cands of Some s \<Rightarrow> Some s | None \<Rightarrow> Some (hd cands)))"

fun nearest_loop :: "(stop \<Rightarrow> bool) \<Rightarrow> coords \<Rightarrow> real \<Rightarrow> stop option \<Rightarrow> stop list \<Rightarrow> stop option" where
  "nearest_loop P p bestDist best [] = best"
| "nearest_loop P p bestDist best (s # ss) =
     (if \<not> P s then nearest_loop P p bestDist best ss
      else (let d = Haversine p (Coordinates s) in
            if d < bestDist then nearest_loop P p d (Some s) ss else nearest_loop P p bestDist best ss))"

definition nearestWhere :: "stop list \<Rightarrow> coords \<Rightarrow> (stop \<Rightarrow> bool) \<Rightarrow> stop option" where
  "nearestWhere cands p P = nearest_loop P p 1000000000 None cands"

definition nearestOf :: "stop list \<Rightarrow> coords \<Rightarrow> stop option" where
  "nearestOf cands p = nearestWhere cands p (\<lambda>_. True)"

text \<open>\<open>first_some\<close>: the chain \<open>if best := \<dots>; best != nil { return best }\<close>.\<close>

fun first_some :: "'a option list \<Rightarrow> 'a option" where
  "first_some [] = None"
| "first_some (None # xs) = first_some xs"
| "first_some (Some x # xs) = Some x"

definition pickBest :: "stop list \<Rightarrow> (string \<Rightarrow> bool) option \<Rightarrow> coords \<Rightarrow> int \<Rightarrow> (string \<times> stop) list \<Rightarrow> stop option" where
  "pickBest cands origin p maxWalk stops =
     (let nearestWith = (\<lambda>P. find P (NearestStops stops p maxWalk 0)) in
      case nearestOf cands p of
        None \<Rightarrow> None
      | Some nameMatch \<Rightarrow>
          first_some
            ([nearestWhere cands p (\<lambda>s. IsHub s \<and> \<not> isVillageStop s)]
             @ (case origin of None \<Rightarrow> [] | Some org \<Rightarrow>
                  [nearestWhere cands p (\<lambda>s. org (stop_id s) \<and> \<not> isVillageStop s),
                   nearestWhere cands p (\<lambda>s. org (stop_id s))])
             @ [nearestWhere cands p IsHub]
             @ (if isVillageStop nameMatch \<or> \<not> IsHub nameMatch
                then [nearestWith (\<lambda>s. IsHub s \<and> \<not> isVillageStop s), nearestWith IsHub]
                     @ (case origin of None \<Rightarrow> [] | Some org \<Rightarrow>
                          [nearestWith (\<lambda>s. org (stop_id s) \<and> \<not> isVillageStop s),
                           nearestWith (\<lambda>s. org (stop_id s))])
                     @ [nearestWith (\<lambda>s. \<not> isVillageStop s)]
                else [])
             @ [Some nameMatch]))"

definition tokenMatch :: "string list \<Rightarrow> string \<Rightarrow> bool" where
  "tokenMatch placeTokens stopName =
     (let ln = to_lower stopName in
      list_ex (\<lambda>tok. ln = tok \<or> has_suffix ln ('' '' @ tok) \<or> has_prefix ln (tok @ '' '')
        \<or> contains ln ('' '' @ tok @ '' '')) placeTokens)"

definition place_cands :: "(string \<times> stop) list \<Rightarrow> string \<Rightarrow> coords \<Rightarrow> int \<Rightarrow> stop list \<times> stop list" where
  "place_cands stops placeName p maxWalk =
     (let lowerPlace = to_lower placeName;
          tokens = Fields lowerPlace;
          near = filter (\<lambda>s. Haversine p (Coordinates s) \<le> WalkRadiusKm maxWalk) (map snd stops)
      in (filter (\<lambda>s. tokenMatch tokens (stop_name s)) near,
          filter (\<lambda>s. \<not> tokenMatch tokens (stop_name s) \<and> contains (to_lower (stop_name s)) lowerPlace) near))"

definition findStopByPlace ::
    "(string \<times> stop) list \<Rightarrow> string \<Rightarrow> coords \<Rightarrow> int \<Rightarrow> (string \<Rightarrow> bool) option \<Rightarrow> stop option" where
  "findStopByPlace stops placeName p maxWalk origin =
     (let (tokenCands, subCands) = place_cands stops placeName p maxWalk in
      first_some
        [if tokenCands \<noteq> [] then pickBest tokenCands origin p maxWalk stops else None,
         if subCands \<noteq> [] then pickBest subCands origin p maxWalk stops else None])"

section \<open>Searching by arrival time\<close>

type_synonym engine =
  "network \<Rightarrow> string \<Rightarrow> string \<Rightarrow> gotime \<Rightarrow> search_params \<Rightarrow> (plan_error + leg list) option"

definition arrival_window :: "gotime \<Rightarrow> gotime \<Rightarrow> gotime" where
  "arrival_window arrival latest = (let w = arrival - day_ns in if latest < w then latest else w)"

definition shifted_departure :: "duration \<Rightarrow> gotime \<Rightarrow> gotime \<Rightarrow> stop_time \<Rightarrow> gotime" where
  "shifted_departure off windowStart latest st =
     push_days windowStart (pull_days latest (midnight off latest + seconds (st_dep st)))"

definition trip_departures :: "network \<Rightarrow> string \<Rightarrow> duration \<Rightarrow> gotime \<Rightarrow> gotime \<Rightarrow> gotime list" where
  "trip_departures net fromStop off windowStart latest =
     concat (map (\<lambda>(i, t).
       (case find (\<lambda>st. st_stop st = fromStop) (trip_stops t) of
          None \<Rightarrow> []
        | Some st \<Rightarrow>
            (let dep = shifted_departure off windowStart latest st in
             if windowStart < dep \<and> dep \<le> latest then [dep] else []))) (n_trips net))"

function half_hours :: "gotime \<Rightarrow> gotime \<Rightarrow> gotime list" where
  "half_hours windowStart d = (if d < windowStart then [] else d # half_hours windowStart (d - minutes 30))"
  by pat_completeness auto
termination
  by (relation "measure (\<lambda>(w, d). nat (d - w + 1))") (auto simp: minutes_def minute_ns_def)

declare half_hours.simps [simp del]

definition arrival_candidates :: "network \<Rightarrow> string \<Rightarrow> duration \<Rightarrow> gotime \<Rightarrow> gotime \<Rightarrow> gotime list" where
  "arrival_candidates net fromStop off windowStart latest =
     (let cands = sort_by (\<lambda>a b. b < a) (trip_departures net fromStop off windowStart latest)
      in if cands = [] then half_hours windowStart latest else cands)"

fun try_departures :: "engine \<Rightarrow> network \<Rightarrow> string \<Rightarrow> string \<Rightarrow> gotime \<Rightarrow> gotime \<Rightarrow> search_params \<Rightarrow> gotime list \<Rightarrow>
    (plan_error + (leg list \<times> gotime)) option" where
  "try_departures eng net fromStop toStop arrival latest params [] =
     Some (Inl (NoTripBefore fromStop toStop arrival))"
| "try_departures eng net fromStop toStop arrival latest params (dep # deps) =
     (case eng net fromStop toStop dep params of
        None \<Rightarrow> None
      | Some (Inl e) \<Rightarrow>
          if e = NilDeref then Some (Inl NilDeref) else try_departures eng net fromStop toStop arrival latest params deps
      | Some (Inr legs) \<Rightarrow>
          if legs = [] then try_departures eng net fromStop toStop arrival latest params deps
          else if latest < l_arr (last legs) then try_departures eng net fromStop toStop arrival latest params deps
          else Some (Inr (legs, dep)))"

definition planArrival :: "engine \<Rightarrow> network \<Rightarrow> string \<Rightarrow> string \<Rightarrow> gotime \<Rightarrow> gotime \<Rightarrow> search_params \<Rightarrow>
    (plan_error + (leg list \<times> gotime)) option" where
  "planArrival eng net fromStop toStop arrival latest params =
     try_departures eng net fromStop toStop arrival latest params
       (arrival_candidates net fromStop (p_zone_offset params) (arrival_window arrival latest) latest)"


section \<open>Alternatives\<close>

definition plan_preference :: "search_params \<Rightarrow> string" where
  "plan_preference params = (if p_preference params = '''' then PreferenceTransfers else p_preference params)"

text \<open>One candidate \<open>off\<close> minutes later: \<open>None\<close> inside when the code skips it.\<close>

definition alternative_at :: "engine \<Rightarrow> network \<Rightarrow> coords \<Rightarrow> coords \<Rightarrow> search_params \<Rightarrow> stop \<Rightarrow> stop \<Rightarrow> int \<Rightarrow>
    (plan_error + journey option) option" where
  "alternative_at eng net from to params fromStop toStop off =
     (let accessMin = WalkTimeMinutes (Haversine from (Coordinates fromStop));
          egressMin = WalkTimeMinutes (Haversine to (Coordinates toStop));
          skip = Some (Inr None);
          wrap = (\<lambda>legs. Some (Inr (Some (Journey from to (l_dep (hd legs) - minutes accessMin)
                    (l_arr (last legs) + minutes egressMin) legs (int (length legs) - 1) []))))
      in (case p_arrival params of
            Some arrival \<Rightarrow>
              (let arrival' = arrival + minutes off in
               case planArrival eng net (stop_id fromStop) (stop_id toStop) arrival'
                      (arrival' - minutes egressMin) (params\<lparr>p_arrival := Some arrival'\<rparr>) of
                 None \<Rightarrow> None
               | Some (Inl e) \<Rightarrow> if e = NilDeref then Some (Inl e) else skip
               | Some (Inr (legs, dep)) \<Rightarrow> if legs = [] then skip else wrap legs)
          | None \<Rightarrow>
              (let departure = p_departure params + minutes off in
               case eng net (stop_id fromStop) (stop_id toStop) (departure + minutes accessMin)
                      (params\<lparr>p_departure := departure\<rparr>) of
                 None \<Rightarrow> None
               | Some (Inl e) \<Rightarrow> if e = NilDeref then Some (Inl e) else skip
               | Some (Inr legs) \<Rightarrow> if legs = [] then skip else wrap legs)))"

fun alternative_candidates :: "(int \<Rightarrow> (plan_error + journey option) option) \<Rightarrow> int list \<Rightarrow>
    (plan_error + journey list) option" where
  "alternative_candidates cand [] = Some (Inr [])"
| "alternative_candidates cand (off # offs) =
     (case cand off of
        None \<Rightarrow> None
      | Some (Inl e) \<Rightarrow> Some (Inl e)
      | Some (Inr oj) \<Rightarrow>
          (case alternative_candidates cand offs of
             None \<Rightarrow> None
           | Some (Inl e) \<Rightarrow> Some (Inl e)
           | Some (Inr js) \<Rightarrow> Some (Inr (case oj of None \<Rightarrow> js | Some j \<Rightarrow> j # js))))"

text \<open>The key of the map \<open>uniq\<close>: the arrival printed to the second, and the transfers. The zone that is printed
with it is left out: the times of a network are all made from the same day, so they print the same zone.\<close>

definition alt_key :: "journey \<Rightarrow> int \<times> int" where
  "alt_key j = (j_arr j div second_ns, j_transfers j)"

definition uniq_journeys :: "journey list \<Rightarrow> journey list" where
  "uniq_journeys js =
     map snd (fold (\<lambda>c m. if map_of m (alt_key c) \<noteq> None then m else m @ [(alt_key c, c)]) js [])"

definition alt_less :: "string \<Rightarrow> journey \<Rightarrow> journey \<Rightarrow> bool" where
  "alt_less pref a b =
     (if pref = PreferenceTransfers
      then (if j_transfers a \<noteq> j_transfers b then j_transfers a < j_transfers b else j_arr a < j_arr b)
      else (if j_arr a = j_arr b then j_transfers a < j_transfers b else j_arr a < j_arr b))"

definition choose_alternatives :: "string \<Rightarrow> journey \<Rightarrow> journey list \<Rightarrow> journey list" where
  "choose_alternatives pref best cands =
     take 2 (filter (\<lambda>f. \<not> (j_arr f = j_arr best \<and> j_transfers f = j_transfers best))
       (take 3 (sort_by (alt_less pref) (uniq_journeys cands))))"

definition alt_offsets :: "int list" where
  "alt_offsets = [60, 120, 180, 240, 300, 360]"

definition paretoAlternatives :: "engine \<Rightarrow> network \<Rightarrow> coords \<Rightarrow> coords \<Rightarrow> search_params \<Rightarrow> stop \<Rightarrow> stop \<Rightarrow> journey \<Rightarrow>
    (plan_error + journey list) option" where
  "paretoAlternatives eng net from to params fromStop toStop best =
     (case alternative_candidates (alternative_at eng net from to params fromStop toStop) alt_offsets of
        None \<Rightarrow> None
      | Some (Inl e) \<Rightarrow> Some (Inl e)
      | Some (Inr js) \<Rightarrow> Some (Inr (choose_alternatives (plan_preference params) best (best # js))))"

section \<open>Promotion of an alternative\<close>

fun promote_loop :: "gotime \<Rightarrow> nat \<Rightarrow> nat option \<times> int \<Rightarrow> journey list \<Rightarrow> nat option \<times> int" where
  "promote_loop ar i acc [] = acc"
| "promote_loop ar i (bestIdx, bestT) (alt # alts) =
     promote_loop ar (Suc i)
       (if j_transfers alt < bestT \<or> (j_transfers alt = bestT \<and> j_arr alt < ar)
        then (Some i, j_transfers alt) else (bestIdx, bestT)) alts"

fun with_alts :: "journey list \<Rightarrow> journey \<Rightarrow> journey" where
  "with_alts alts (Journey a b dep ar legs n _) = Journey a b dep ar legs n alts"

definition promote :: "string \<Rightarrow> journey \<Rightarrow> journey" where
  "promote pref j =
     (if pref = PreferenceTransfers \<and> j_alts j \<noteq> []
      then (case promote_loop (j_arr j) 0 (None, j_transfers j) (j_alts j) of
          (None, _) \<Rightarrow> j
        | (Some i, _) \<Rightarrow>
            with_alts (take 2 (j # take i (j_alts j) @ drop (Suc i) (j_alts j))) (j_alts j ! i))
      else j)"

section \<open>Door to door\<close>

record planner =
  pl_engine :: string
  pl_default_walk :: int
  pl_currency :: string \<comment> \<open>\<open>pricing.DefaultCurrencyVar\<close>\<close>

definition engine_of :: "planner \<Rightarrow> engine" where
  "engine_of pl = (if pl_engine pl = ''raptor'' then raptor else csa)"

definition max_walk :: "planner \<Rightarrow> search_params \<Rightarrow> int" where
  "max_walk pl params =
     (if p_max_walk params \<le> 0 then (if pl_default_walk pl \<le> 0 then 30 else pl_default_walk pl)
      else p_max_walk params)"

definition ru_origin :: string where
  "ru_origin = utf8 [1058, 1086, 1095, 1082, 1072, 32, 1086, 1090, 1087, 1088, 1072, 1074, 1083, 1077, 1085, 1080, 1103]"

definition ru_destination :: string where
  "ru_destination = utf8 [1058, 1086, 1095, 1082, 1072, 32, 1085, 1072, 1079, 1085, 1072, 1095, 1077, 1085, 1080, 1103]"

definition place_point :: "string \<Rightarrow> coords \<Rightarrow> leg_point" where
  "place_point n p = \<lparr>lp_stop = '''', lp_name = n, lp_lat = co_lat p, lp_lon = co_lon p\<rparr>"

definition plain_walk :: "string \<Rightarrow> leg_point \<Rightarrow> leg_point \<Rightarrow> gotime \<Rightarrow> gotime \<Rightarrow> bool \<Rightarrow> leg" where
  "plain_walk prov f t dep ar self =
     \<lparr>l_mode = ModeWalk, l_provider = prov, l_route = '''', l_trip = '''', l_from = f, l_to = t,
      l_dep = dep, l_arr = ar, l_self = self, l_cost = no_cost\<rparr>"

definition originStops :: "network \<Rightarrow> string \<Rightarrow> bool" where
  "originStops net i \<longleftrightarrow>
     list_ex (\<lambda>(k, t). (case trip_stops t of [] \<Rightarrow> False | st # _ \<Rightarrow> st_stop st = i)) (n_trips net)"

definition reachable_stops :: "network \<Rightarrow> coords \<Rightarrow> int \<Rightarrow> stop list" where
  "reachable_stops net p maxWalk =
     (let near = Nearest (NewSpatialIndex (n_stops net)) p maxWalk 0
      in if near = [] then NearestStops (n_stops net) p maxWalk 0 else near)"

definition match_from :: "network \<Rightarrow> coords \<Rightarrow> int \<Rightarrow> string option \<Rightarrow> stop option" where
  "match_from net from maxWalk hint =
     (case (case hint of None \<Rightarrow> None | Some n \<Rightarrow> findStopByPlace (n_stops net) n from maxWalk (Some (originStops net))) of
        Some s \<Rightarrow> Some s
      | None \<Rightarrow> chooseBestStop (reachable_stops net from maxWalk) (originStops net))"

definition match_to :: "network \<Rightarrow> coords \<Rightarrow> int \<Rightarrow> string option \<Rightarrow> stop option" where
  "match_to net to maxWalk hint =
     (case (case hint of None \<Rightarrow> None | Some n \<Rightarrow> findStopByPlace (n_stops net) n to maxWalk None) of
        Some s \<Rightarrow> Some s
      | None \<Rightarrow> chooseBestToStop (reachable_stops net to maxWalk))"

text \<open>Access leg, transit legs and egress leg.\<close>

definition door_to_door :: "coords \<Rightarrow> coords \<Rightarrow> stop \<Rightarrow> stop \<Rightarrow> gotime \<Rightarrow> gotime \<Rightarrow> int \<Rightarrow> leg list \<Rightarrow> journey" where
  "door_to_door from to fromStop toStop dep board egressMin transit =
     (let e = l_arr (last transit);
          legs = plain_walk '''' (place_point ru_origin from) (legPoint fromStop) dep board False # transit
            @ [plain_walk '''' (legPoint toStop) (place_point ru_destination to) e (e + minutes egressMin) False]
      in Journey from to dep (e + minutes egressMin) legs (int (length transit) - 1) [])"

text \<open>The walk that replaces a failed search when a gap is allowed.\<close>

definition gap_leg :: "stop \<Rightarrow> stop \<Rightarrow> gotime \<Rightarrow> gotime \<Rightarrow> leg" where
  "gap_leg fromStop toStop dep ar = plain_walk (stop_provider fromStop) (legPoint fromStop) (legPoint toStop) dep ar True"

definition departure_legs :: "engine \<Rightarrow> network \<Rightarrow> search_params \<Rightarrow> int \<Rightarrow> stop \<Rightarrow> stop \<Rightarrow> gotime \<Rightarrow>
    (plan_error + leg list) option" where
  "departure_legs eng net params maxWalk fromStop toStop departAtStop =
     (case eng net (stop_id fromStop) (stop_id toStop) departAtStop params of
        Some (Inl e) \<Rightarrow>
          if e = NilDeref \<or> \<not> p_allow_gap params then Some (Inl e)
          else (let mins = WalkTimeMinutes (Haversine (Coordinates fromStop) (Coordinates toStop)) in
            if mins > maxWalk then Some (Inl (GapTooLong (stop_id fromStop) (stop_id toStop) mins maxWalk))
            else Some (Inr [gap_leg fromStop toStop departAtStop (departAtStop + minutes mins)]))
      | r \<Rightarrow> r)"

definition arrival_legs :: "engine \<Rightarrow> network \<Rightarrow> search_params \<Rightarrow> int \<Rightarrow> stop \<Rightarrow> stop \<Rightarrow> gotime \<Rightarrow> gotime \<Rightarrow>
    (plan_error + (leg list \<times> gotime)) option" where
  "arrival_legs eng net params maxWalk fromStop toStop arrival latest =
     (case planArrival eng net (stop_id fromStop) (stop_id toStop) arrival latest params of
        Some (Inl e) \<Rightarrow>
          if e = NilDeref \<or> \<not> p_allow_gap params then Some (Inl e)
          else (let mins = WalkTimeMinutes (Haversine (Coordinates fromStop) (Coordinates toStop)) in
            if mins > maxWalk then Some (Inl (GapTooLong (stop_id fromStop) (stop_id toStop) mins maxWalk))
            else Some (Inr ([gap_leg fromStop toStop (latest - minutes mins) latest], latest - minutes mins)))
      | r \<Rightarrow> r)"

definition plan_transit :: "planner \<Rightarrow> engine \<Rightarrow> network \<Rightarrow> coords \<Rightarrow> coords \<Rightarrow> search_params \<Rightarrow> stop \<Rightarrow> stop \<Rightarrow>
    (plan_error + journey) option" where
  "plan_transit pl eng net from to params fromStop toStop =
     (let accessMin = WalkTimeMinutes (Haversine from (Coordinates fromStop));
          egressMin = WalkTimeMinutes (Haversine to (Coordinates toStop))
      in (case p_arrival params of
            Some arrival \<Rightarrow>
              (case arrival_legs eng net params (max_walk pl params) fromStop toStop arrival (arrival - minutes egressMin) of
                 None \<Rightarrow> None
               | Some (Inl e) \<Rightarrow> Some (Inl e)
               | Some (Inr (legs, departAtStop)) \<Rightarrow>
                   Some (Inr (door_to_door from to fromStop toStop (departAtStop - minutes accessMin) departAtStop egressMin legs)))
          | None \<Rightarrow>
              (let departAtStop = p_departure params + minutes accessMin in
               case departure_legs eng net params (max_walk pl params) fromStop toStop departAtStop of
                 None \<Rightarrow> None
               | Some (Inl e) \<Rightarrow> Some (Inl e)
               | Some (Inr legs) \<Rightarrow>
                   Some (Inr (door_to_door from to fromStop toStop (p_departure params) departAtStop egressMin legs)))))"

definition planWithStops :: "planner \<Rightarrow> engine \<Rightarrow> network \<Rightarrow> coords \<Rightarrow> coords \<Rightarrow> search_params \<Rightarrow>
    string option \<Rightarrow> string option \<Rightarrow> (plan_error + journey) option" where
  "planWithStops pl eng net from to params fromPlace toPlace =
     (case match_from net from (max_walk pl params) fromPlace of
        None \<Rightarrow> Some (Inl (NoStopNear ''from'' (max_walk pl params)))
      | Some fromStop \<Rightarrow>
          (case match_to net to (max_walk pl params) toPlace of
             None \<Rightarrow> Some (Inl (NoStopNear ''to'' (max_walk pl params)))
           | Some toStop \<Rightarrow>
               (case plan_transit pl eng net from to params fromStop toStop of
                  None \<Rightarrow> None
                | Some (Inl e) \<Rightarrow> Some (Inl e)
                | Some (Inr j) \<Rightarrow>
                    (case paretoAlternatives eng net from to params fromStop toStop j of
                       None \<Rightarrow> None
                     | Some (Inl e) \<Rightarrow> Some (Inl e)
                     | Some (Inr alts) \<Rightarrow>
                         Some (Inr (promote (plan_preference params)
                           (EnrichJourney (pl_currency pl) net (with_alts alts j))))))))"

definition Plan :: "planner \<Rightarrow> network \<Rightarrow> coords \<Rightarrow> coords \<Rightarrow> search_params \<Rightarrow> (plan_error + journey) option" where
  "Plan pl net from to params = planWithStops pl (engine_of pl) net from to params None None"

definition PlanWithPlaces :: "planner \<Rightarrow> network \<Rightarrow> coords \<Rightarrow> coords \<Rightarrow> search_params \<Rightarrow> string option \<Rightarrow> string option \<Rightarrow>
    (plan_error + journey) option" where
  "PlanWithPlaces pl net from to params fromPlace toPlace =
     planWithStops pl (engine_of pl) net from to params fromPlace toPlace"

end
