(* ===== verification/Planner_Correct.thy ===== *)
theory Planner_Correct
  imports Planner
begin

text \<open>
  Correctness of planning: the stops chosen are within walking range, an arrival search keeps its
  deadline and leaves as late as its candidates allow, the legs of a planned journey run door to
  door, alternatives are few and distinct, and what promotion does to them. The planner's lemmas rest
  on the contract of an engine, a locale whose instance is \<open>csa\<close>.
\<close>

section \<open>The stops chosen\<close>

definition in_reach :: "network \<Rightarrow> coords \<Rightarrow> int \<Rightarrow> stop \<Rightarrow> bool" where
  "in_reach net p maxWalk s \<longleftrightarrow>
     s \<in> snd ` set (n_stops net) \<and> Haversine p (Coordinates s) \<le> WalkRadiusKm maxWalk"

lemma find_in: "find P xs = Some x \<Longrightarrow> x \<in> set xs \<and> P x"
  by (auto simp: find_Some_iff)

lemma chooseBestStop_in: "chooseBestStop cands origin = Some s \<Longrightarrow> s \<in> set cands"
  by (auto simp: chooseBestStop_def dest!: find_in split: if_splits option.splits)

lemma chooseBestToStop_in: "chooseBestToStop cands = Some s \<Longrightarrow> s \<in> set cands"
  by (auto simp: chooseBestToStop_def dest!: find_in split: if_splits option.splits)

lemma nearest_loop_in: "nearest_loop P p d best ss = Some s \<Longrightarrow> best = Some s \<or> (s \<in> set ss \<and> P s)"
  by (induction ss arbitrary: d best) (auto simp: Let_def split: if_splits)

lemma nearestWhere_in: "nearestWhere cands p P = Some s \<Longrightarrow> s \<in> set cands \<and> P s"
  using nearest_loop_in unfolding nearestWhere_def by fastforce

lemma nearest_loop_minimal:
  "nearest_loop P p d best ss = Some s \<Longrightarrow> (\<forall>b. best = Some b \<longrightarrow> d = Haversine p (Coordinates b)) \<Longrightarrow>
   (best = None \<longrightarrow> Haversine p (Coordinates s) < d) \<and> Haversine p (Coordinates s) \<le> d \<and>
   (\<forall>x \<in> set ss. P x \<longrightarrow> Haversine p (Coordinates s) \<le> Haversine p (Coordinates x))"
proof (induction ss arbitrary: d best)
  case (Cons x ss)
  show ?case
  proof (cases "P x \<and> Haversine p (Coordinates x) < d")
    case True
    with Cons.prems(1) have "nearest_loop P p (Haversine p (Coordinates x)) (Some x) ss = Some s" by (simp add: Let_def)
    from Cons.IH [OF this] True show ?thesis by fastforce
  next
    case False
    with Cons.prems(1) have "nearest_loop P p d best ss = Some s" by (auto simp: Let_def split: if_splits)
    from Cons.IH [OF this Cons.prems(2)] False show ?thesis by fastforce
  qed
qed auto

lemma first_some_in: "first_some xs = Some x \<Longrightarrow> Some x \<in> set xs"
  by (induction xs rule: first_some.induct) auto

lemma pickBest_in:
  assumes "pickBest cands origin p maxWalk stops = Some s"
  shows "s \<in> set cands \<or> s \<in> set (NearestStops stops p maxWalk 0)"
proof -
  obtain nm where nm: "nearestOf cands p = Some nm"
    using assms by (auto simp: pickBest_def split: option.splits)
  then have "nm \<in> set cands" using nearestWhere_in by (auto simp: nearestOf_def)
  with assms nm show ?thesis
    by (auto simp: pickBest_def Let_def dest!: first_some_in dest: nearestWhere_in [OF sym] find_in [OF sym]
        split: option.splits if_splits)
qed

lemma findStopByPlace_in_reach:
  assumes "findStopByPlace (n_stops net) n p maxWalk origin = Some s"
  shows "in_reach net p maxWalk s"
proof -
  obtain tc sc where c: "place_cands (n_stops net) n p maxWalk = (tc, sc)" by fastforce
  then have "set tc \<union> set sc \<subseteq> {s. in_reach net p maxWalk s}"
    by (auto simp: place_cands_def Let_def in_reach_def)
  moreover have "set (NearestStops (n_stops net) p maxWalk 0) \<subseteq> {s. in_reach net p maxWalk s}"
    by (auto simp: set_NearestStops_0 in_reach_def)
  moreover have "(\<exists>cs \<in> {tc, sc}. pickBest cs origin p maxWalk (n_stops net) = Some s)"
    using assms c by (auto simp: findStopByPlace_def dest!: first_some_in split: if_splits)
  ultimately show ?thesis using pickBest_in by fastforce
qed

lemma reachable_stops_in_reach:
  "0 < maxWalk \<Longrightarrow> s \<in> set (reachable_stops net p maxWalk) \<Longrightarrow> in_reach net p maxWalk s"
  using Nearest_subset [of "n_stops net" p maxWalk 0]
  by (auto simp: reachable_stops_def Let_def in_reach_def set_NearestStops_0 query_radius_pos split: if_splits)

lemma max_walk_pos: "0 < max_walk pl params"
  by (auto simp: max_walk_def)

lemma match_from_in_reach: "0 < maxWalk \<Longrightarrow> match_from net p maxWalk hint = Some s \<Longrightarrow> in_reach net p maxWalk s"
  using findStopByPlace_in_reach reachable_stops_in_reach chooseBestStop_in
  by (auto simp: match_from_def split: option.splits)

lemma match_to_in_reach: "0 < maxWalk \<Longrightarrow> match_to net p maxWalk hint = Some s \<Longrightarrow> in_reach net p maxWalk s"
  using findStopByPlace_in_reach reachable_stops_in_reach chooseBestToStop_in
  by (auto simp: match_to_def split: option.splits)

text \<open>The stop the planner boards at, resolved by name or by position, is a stop of the network
  within the walking limit of the request, and the walk to it takes no more minutes than that limit;
  the same holds for the stop it alights at; and if any stop of the network is within the limit, a stop
  is found.\<close>

theorem matched_stops_walkable:
  assumes "m < max_int" "0 < m"
  shows "(match_from net p m hint = Some s \<or> match_to net p m hint = Some s \<longrightarrow>
      s \<in> snd ` set (n_stops net) \<and> WalkTimeMinutes (Haversine p (Coordinates s)) \<le> m) \<and>
    ((\<exists>x \<in> snd ` set (n_stops net). Haversine p (Coordinates x) \<le> WalkRadiusKm m) \<longrightarrow>
      match_from net p m hint \<noteq> None \<and> match_to net p m hint \<noteq> None)"
proof (intro conjI impI)
  assume "match_from net p m hint = Some s \<or> match_to net p m hint = Some s"
  then have "in_reach net p m s" using match_from_in_reach match_to_in_reach assms(2) by blast
  then show "s \<in> snd ` set (n_stops net)" "WalkTimeMinutes (Haversine p (Coordinates s)) \<le> m"
    using WalkTimeMinutes_le_iff [of m] assms by (auto simp: in_reach_def)
next
  assume "\<exists>x \<in> snd ` set (n_stops net). Haversine p (Coordinates x) \<le> WalkRadiusKm m"
  then have "NearestStops (n_stops net) p m 0 \<noteq> []" using set_NearestStops_0 [of "n_stops net" p m] by force
  then have "reachable_stops net p m \<noteq> []" by (simp add: reachable_stops_def Let_def)
  then show "match_from net p m hint \<noteq> None" "match_to net p m hint \<noteq> None"
    by (auto simp: match_from_def match_to_def chooseBestStop_def chooseBestToStop_def split: option.splits)
qed

lemma matched_stops_walkable_witness: "match_from demo_net \<lparr>co_lat = 0, co_lon = 0\<rparr> 30 None \<noteq> None"
  using matched_stops_walkable [of 30 demo_net "\<lparr>co_lat = 0, co_lon = 0\<rparr>" None]
  by (auto simp: max_int_def demo_defs Coordinates_def WalkRadiusKm_def)

text \<open>Without a place name the stop boarded at is a terminal where some trip starts whenever a
  reachable one exists, outside a village if such a terminal exists, and a village stop is taken only
  when no better stop is reachable.\<close>

theorem boarding_preference:
  assumes "match_from net p m None = Some s"
  defines "near \<equiv> set (reachable_stops net p m)"
  shows "s \<in> near \<and>
    (\<forall>x \<in> near. originStops net (stop_id x) \<longrightarrow> originStops net (stop_id s)) \<and>
    (\<forall>x \<in> near. \<not> isVillageStop x \<and> (originStops net (stop_id x) \<or> \<not> originStops net (stop_id s)) \<longrightarrow> \<not> isVillageStop s)"
proof -
  have c: "chooseBestStop (reachable_stops net p m) (originStops net) = Some s"
    using assms(1) by (simp add: match_from_def)
  have n: "find P xs = None \<longleftrightarrow> (\<forall>x \<in> set xs. \<not> P x)" for P :: "stop \<Rightarrow> bool" and xs
    by (auto simp: find_None_iff)
  show ?thesis
    using c unfolding chooseBestStop_def near_def
    by (auto simp: n dest!: find_in split: if_splits option.splits)
qed

lemma boarding_preference_witness:
  "\<exists>s. match_from demo_net \<lparr>co_lat = 0, co_lon = 0\<rparr> 30 None = Some s \<and>
     s \<in> set (reachable_stops demo_net \<lparr>co_lat = 0, co_lon = 0\<rparr> 30)"
proof -
  have "demo_stop ''A'' \<in> set (NearestStops (n_stops demo_net) \<lparr>co_lat = 0, co_lon = 0\<rparr> 30 0)"
    by (simp add: set_NearestStops_0 demo_defs Coordinates_def WalkRadiusKm_def)
  then have "NearestStops (n_stops demo_net) \<lparr>co_lat = 0, co_lon = 0\<rparr> 30 0 \<noteq> []" by auto
  then have "reachable_stops demo_net \<lparr>co_lat = 0, co_lon = 0\<rparr> 30 \<noteq> []" by (simp add: reachable_stops_def Let_def)
  then obtain s where "match_from demo_net \<lparr>co_lat = 0, co_lon = 0\<rparr> 30 None = Some s"
    unfolding match_from_def chooseBestStop_def
    by (cases "find (\<lambda>s. originStops demo_net (stop_id s) \<and> \<not> isVillageStop s) (reachable_stops demo_net \<lparr>co_lat = 0, co_lon = 0\<rparr> 30)";
        cases "find (\<lambda>s. originStops demo_net (stop_id s)) (reachable_stops demo_net \<lparr>co_lat = 0, co_lon = 0\<rparr> 30)";
        cases "find (\<lambda>s. \<not> isVillageStop s) (reachable_stops demo_net \<lparr>co_lat = 0, co_lon = 0\<rparr> 30)") auto
  with boarding_preference [OF this] show ?thesis by blast
qed


section \<open>Arrival searches\<close>

definition rejected :: "engine \<Rightarrow> network \<Rightarrow> string \<Rightarrow> string \<Rightarrow> gotime \<Rightarrow> search_params \<Rightarrow> gotime \<Rightarrow> bool" where
  "rejected eng net s v latest params dep =
     (case eng net s v dep params of
        None \<Rightarrow> False
      | Some (Inl e) \<Rightarrow> True
      | Some (Inr legs) \<Rightarrow> legs = [] \<or> latest < l_arr (last legs))"

lemma try_departures_Inr:
  "try_departures eng net s v arrival latest params deps = Some (Inr (legs, dep)) \<Longrightarrow>
   \<exists>pre post. deps = pre @ dep # post \<and> eng net s v dep params = Some (Inr legs) \<and> legs \<noteq> [] \<and>
     l_arr (last legs) \<le> latest \<and> (\<forall>d \<in> set pre. rejected eng net s v latest params d)"
proof (induction deps)
  case (Cons d deps)
  have step: ?case
    if r: "rejected eng net s v latest params d"
      and t: "try_departures eng net s v arrival latest params deps = Some (Inr (legs, dep))"
  proof -
    obtain pre post where "deps = pre @ dep # post" "eng net s v dep params = Some (Inr legs)" "legs \<noteq> []"
      "l_arr (last legs) \<le> latest" "\<forall>d \<in> set pre. rejected eng net s v latest params d"
      using Cons.IH t by blast
    then show ?thesis using r by (intro exI [of _ "d # pre"] exI [of _ post]) simp
  qed
  from Cons.prems consider
      (skip) "rejected eng net s v latest params d"
        "try_departures eng net s v arrival latest params deps = Some (Inr (legs, dep))"
    | (found) "eng net s v d params = Some (Inr legs)" "dep = d" "legs \<noteq> []" "l_arr (last legs) \<le> latest"
    by (auto simp: rejected_def split: option.splits sum.splits if_splits)
  then show ?case
  proof cases
    case found
    then show ?thesis by (intro exI [of _ "[]"] exI [of _ deps]) simp
  qed (rule step)
qed simp

lemma half_hours_bounds: "d' \<in> set (half_hours w d) \<Longrightarrow> w \<le> d' \<and> d' \<le> d"
proof (induction w d rule: half_hours.induct)
  case (1 w d)
  have aux: "x \<le> d - minutes 30 \<Longrightarrow> x \<le> d" for x
    using order_trans [of x "d - minutes 30" d] by simp
  from 1 show ?case by (subst (asm) (2) half_hours.simps) (auto dest: aux split: if_splits)
qed

lemma half_hours_sorted: "sorted_wrt (\<ge>) (half_hours w d)"
proof (induction w d rule: half_hours.induct)
  case (1 w d)
  have "d - minutes 30 \<le> d" by simp
  then have "\<forall>x \<in> set (half_hours w (d - minutes 30)). x \<le> d"
    using half_hours_bounds [of _ w "d - minutes 30"] order_trans by blast
  with 1 show ?case by (subst half_hours.simps) auto
qed

lemma arrival_window_le: "arrival_window arrival latest \<le> latest"
  by (simp add: arrival_window_def Let_def)

lemma arrival_candidates_bounds:
  "dep \<in> set (arrival_candidates net s off w latest) \<Longrightarrow> w \<le> dep \<and> dep \<le> latest"
  unfolding arrival_candidates_def Let_def
  by (auto simp: trip_departures_def Let_def dest: half_hours_bounds split: if_splits option.splits)

lemma arrival_candidates_sorted: "sorted_wrt (\<ge>) (arrival_candidates net s off w latest)"
proof -
  have "weak_order (\<lambda>a b. (b :: int) < a)" by (rule weak_orderI) auto
  from sorted_sort_by [OF this] have "sorted_wrt (\<ge>) (sort_by (\<lambda>a b. (b :: int) < a) xs)" for xs
    by (rule sorted_wrt_mono_rel [rotated]) auto
  then show ?thesis by (simp add: arrival_candidates_def Let_def half_hours_sorted)
qed

text \<open>An arrival search answers with a departure inside its window and legs that arrive no later than
  the deadline, and no later candidate departure would have met the deadline.\<close>

theorem planArrival_latest:
  assumes "planArrival eng net s v arrival latest params = Some (Inr (legs, dep))"
  defines "cands \<equiv> arrival_candidates net s (p_zone_offset params) (arrival_window arrival latest) latest"
  shows "eng net s v dep params = Some (Inr legs) \<and> legs \<noteq> [] \<and> l_arr (last legs) \<le> latest \<and>
    dep \<in> set cands \<and> arrival_window arrival latest \<le> dep \<and> dep \<le> latest \<and>
    (\<forall>d \<in> set cands. dep < d \<longrightarrow> rejected eng net s v latest params d)"
proof -
  obtain pre post where c: "cands = pre @ dep # post" "eng net s v dep params = Some (Inr legs)" "legs \<noteq> []"
    "l_arr (last legs) \<le> latest" "\<forall>d \<in> set pre. rejected eng net s v latest params d"
    using try_departures_Inr assms unfolding planArrival_def cands_def by blast
  have "sorted_wrt (\<ge>) cands" unfolding cands_def by (rule arrival_candidates_sorted)
  then have "\<forall>d \<in> set post. d \<le> dep" using c(1) by (simp add: sorted_wrt_append)
  then have "\<forall>d \<in> set cands. dep < d \<longrightarrow> d \<in> set pre" using c(1) by fastforce
  moreover have "dep \<in> set cands" using c(1) by simp
  ultimately show ?thesis
    using c arrival_candidates_bounds [of dep net s "p_zone_offset params" "arrival_window arrival latest" latest]
    unfolding cands_def by blast
qed

lemma planArrival_deadline:
  assumes "planArrival eng net s v arrival latest params = Some (Inr (legs, dep))"
  shows "eng net s v dep params = Some (Inr legs)" "legs \<noteq> []" "l_arr (last legs) \<le> latest"
  using try_departures_Inr assms unfolding planArrival_def by blast+

section \<open>The contract of an engine\<close>

text \<open>
  What planning relies on: for a request that is \<open>ready\<close> the engine returns, meets no missing stop,
  and an answer is a chain of legs between the stops asked for. Whether a request is ready depends on
  the allowed modes only.
\<close>

locale transit_engine =
  fixes eng :: engine and ready :: "network \<Rightarrow> search_params \<Rightarrow> string \<Rightarrow> bool"
  assumes eng_returns: "ready net params s \<Longrightarrow> \<exists>r. eng net s v d params = Some r \<and> r \<noteq> Inl NilDeref"
    and eng_journey: "ready net params s \<Longrightarrow> eng net s v d params = Some (Inr legs) \<Longrightarrow>
      \<exists>t. journey_ok net (p_modes params) s d v t legs"
    and ready_modes: "ready net params s \<Longrightarrow> p_modes params' = p_modes params \<Longrightarrow> ready net params' s"
begin

lemma eng_cases:
  assumes "ready net params s"
  obtains (error) e where "eng net s v d params = Some (Inl e)" "e \<noteq> NilDeref"
  | (legs) legs t where "eng net s v d params = Some (Inr legs)" "journey_ok net (p_modes params) s d v t legs"
proof -
  obtain r where r: "eng net s v d params = Some r" "r \<noteq> Inl NilDeref" using eng_returns [OF assms] by blast
  show thesis
  proof (cases r)
    case (Inl e)
    with r show thesis by (intro error [of e]) auto
  next
    case (Inr legs)
    with r eng_journey [OF assms] show thesis by (metis legs)
  qed
qed

lemma try_departures_returns:
  assumes "ready net params s"
  shows "\<exists>r. try_departures eng net s v arrival latest params deps = Some r \<and> r \<noteq> Inl NilDeref"
proof (induction deps)
  case (Cons d deps)
  show ?case
    by (rule eng_cases [OF assms, of v d]) (use Cons in auto)
qed simp

lemma alternatives_return:
  assumes "ready net params (stop_id fromStop)"
  shows "\<exists>js. alternative_candidates (alternative_at eng net from to params fromStop toStop) offs = Some (Inr js)"
proof (induction offs)
  case (Cons off offs)
  have "\<exists>oj. alternative_at eng net from to params fromStop toStop off = Some (Inr oj)"
  proof (cases "p_arrival params")
    case None
    let ?params = "params\<lparr>p_departure := p_departure params + minutes off\<rparr>"
    have "ready net ?params (stop_id fromStop)" by (rule ready_modes [OF assms]) simp
    from eng_returns [OF this, of "stop_id toStop"] None show ?thesis
      unfolding alternative_at_def Let_def by (fastforce split: option.splits sum.splits)
  next
    case (Some arrival)
    let ?params = "params\<lparr>p_arrival := Some (arrival + minutes off)\<rparr>"
    have "ready net ?params (stop_id fromStop)" by (rule ready_modes [OF assms]) simp
    from try_departures_returns [OF this, of "stop_id toStop"] Some show ?thesis
      unfolding alternative_at_def Let_def planArrival_def by (fastforce split: option.splits sum.splits)
  qed
  with Cons show ?case by (auto split: option.splits)
qed simp

end


section \<open>Legs that join at the same point\<close>

definition point_join :: "leg \<Rightarrow> leg \<Rightarrow> bool" where
  "point_join a b \<longleftrightarrow> l_to a = l_from b \<and> l_arr a \<le> l_dep b"

definition keyed_stops :: "network \<Rightarrow> bool" where
  "keyed_stops net \<longleftrightarrow> (\<forall>(i, s) \<in> set (n_stops net). stop_at net i = Some s \<and> stop_id s = i)"

definition transit_ok :: "stop \<Rightarrow> stop \<Rightarrow> gotime \<Rightarrow> leg list \<Rightarrow> bool" where
  "transit_ok fromStop toStop board legs \<longleftrightarrow>
     successively point_join legs \<and> (\<forall>l \<in> set legs. l_dep l \<le> l_arr l) \<and> legs \<noteq> [] \<and>
     l_from (hd legs) = legPoint fromStop \<and> l_to (last legs) = legPoint toStop \<and> board \<le> l_dep (hd legs)"

definition door_chain :: "coords \<Rightarrow> coords \<Rightarrow> gotime \<Rightarrow> gotime \<Rightarrow> leg list \<Rightarrow> bool" where
  "door_chain from to dep ar legs \<longleftrightarrow>
     successively point_join legs \<and> (\<forall>l \<in> set legs. l_dep l \<le> l_arr l) \<and> legs \<noteq> [] \<and>
     l_from (hd legs) = place_point ru_origin from \<and> l_to (last legs) = place_point ru_destination to \<and>
     l_dep (hd legs) = dep \<and> l_arr (last legs) = ar"

lemma keyed_stop_at: "keyed_stops net \<Longrightarrow> s \<in> snd ` set (n_stops net) \<Longrightarrow> stop_at net (stop_id s) = Some s"
  by (auto simp: keyed_stops_def)

lemma journey_transit:
  assumes j: "journey_ok net allowed (stop_id f) d (stop_id g) t legs"
    and fg: "stop_at net (stop_id f) = Some f" "stop_at net (stop_id g) = Some g"
  shows "transit_ok f g d legs"
proof -
  note J = j [unfolded journey_ok_def]
  have ok: "leg_ok net allowed l" if "l \<in> set legs" for l using J that by blast
  have "successively point_join legs"
  proof (rule successively_mono)
    show "successively leg_join legs" using J by blast
    fix a b assume "a \<in> set legs" "b \<in> set legs" "leg_join a b"
    then show "point_join a b"
      using ok [of a] ok [of b] by (auto simp: point_join_def leg_join_def leg_ok_def)
  qed
  moreover have "hd legs \<in> set legs" "last legs \<in> set legs" using J by auto
  then have "l_from (hd legs) = legPoint f" "l_to (last legs) = legPoint g"
    using ok [of "hd legs"] ok [of "last legs"] J fg by (auto simp: leg_ok_def)
  ultimately show ?thesis using J ok by (auto simp: transit_ok_def leg_ok_def)
qed

lemma gap_transit: "dep \<le> ar \<Longrightarrow> transit_ok f g dep [gap_leg f g dep ar]"
  by (simp add: transit_ok_def gap_leg_def plain_walk_def)

lemma successively_frame:
  assumes "successively P xs" "xs \<noteq> []" "P a (hd xs)" "P (last xs) b"
  shows "successively P (a # xs @ [b])"
  using assms by (simp add: successively_Cons successively_append_iff)

lemma door_chain_intro:
  fixes src dst :: coords
  assumes t: "transit_ok f g board transit" and "dep \<le> board" "0 \<le> m"
  defines "j \<equiv> door_to_door src dst f g dep board m transit"
  shows "door_chain src dst (j_dep j) (j_arr j) (j_legs j)" "j_dep j = dep" "j_alts j = []"
    "j_arr j = l_arr (last transit) + minutes m"
proof -
  note T = t [unfolded transit_ok_def]
  let ?a = "plain_walk '''' (place_point ru_origin src) (legPoint f) dep board False"
  let ?e = "l_arr (last transit)"
  let ?b = "plain_walk '''' (legPoint g) (place_point ru_destination dst) ?e (?e + minutes m) False"
  have "successively point_join (?a # transit @ [?b])"
    by (rule successively_frame) (use T in \<open>auto simp: point_join_def plain_walk_def\<close>)
  then show "door_chain src dst (j_dep j) (j_arr j) (j_legs j)"
    using T assms(2,3) unfolding j_def door_to_door_def Let_def door_chain_def
    by (auto simp: plain_walk_def)
  show "j_dep j = dep" "j_alts j = []" "j_arr j = l_arr (last transit) + minutes m"
    by (simp_all add: j_def door_to_door_def Let_def)
qed

lemma door_chain_priced: "door_chain from to dep ar legs \<Longrightarrow> door_chain from to dep ar (map (priced_leg dflt net) legs)"
proof -
  have p: "l_from (priced_leg dflt net l) = l_from l" "l_to (priced_leg dflt net l) = l_to l"
    "l_dep (priced_leg dflt net l) = l_dep l" "l_arr (priced_leg dflt net l) = l_arr l" for l
    by (simp_all add: priced_leg_def Let_def)
  show "door_chain from to dep ar legs \<Longrightarrow> door_chain from to dep ar (map (priced_leg dflt net) legs)"
    by (auto simp: door_chain_def successively_map point_join_def p hd_map last_map)
qed

text \<open>An alternative is a chain of rides between the two stops of the plan, with no walk at either end.\<close>

definition ride_chain :: "network \<Rightarrow> leg list \<Rightarrow> bool" where
  "ride_chain net legs \<longleftrightarrow>
     (\<exists>f g board. f \<in> snd ` set (n_stops net) \<and> g \<in> snd ` set (n_stops net) \<and> transit_ok f g board legs)"

lemma ride_chain_priced: "ride_chain net legs \<Longrightarrow> ride_chain net (map (priced_leg dflt net) legs)"
proof -
  have p: "l_from (priced_leg dflt net l) = l_from l" "l_to (priced_leg dflt net l) = l_to l"
    "l_dep (priced_leg dflt net l) = l_dep l" "l_arr (priced_leg dflt net l) = l_arr l" for l
    by (simp_all add: priced_leg_def Let_def)
  have "transit_ok f g b legs \<Longrightarrow> transit_ok f g b (map (priced_leg dflt net) legs)" for f g b
    by (auto simp: transit_ok_def successively_map point_join_def p hd_map last_map)
  then show "ride_chain net legs \<Longrightarrow> ride_chain net (map (priced_leg dflt net) legs)"
    unfolding ride_chain_def by blast
qed

lemma candidates_ride:
  assumes "\<And>off j. cand off = Some (Inr (Some j)) \<Longrightarrow> P j"
  shows "alternative_candidates cand offs = Some (Inr js) \<Longrightarrow> \<forall>j \<in> set js. P j"
proof (induction offs arbitrary: js)
  case (Cons off offs)
  then show ?case using assms by (fastforce split: option.splits sum.splits)
qed simp

context transit_engine
begin

lemma departure_legs_ok:
  assumes r: "ready net params (stop_id f)" and fg: "stop_at net (stop_id f) = Some f" "stop_at net (stop_id g) = Some g"
    and l: "departure_legs eng net params mw f g board = Some (Inr legs)"
  shows "transit_ok f g board legs"
proof (rule eng_cases [OF r, of "stop_id g" board])
  fix e assume "eng net (stop_id f) (stop_id g) board params = Some (Inl e)"
  then have "legs = [gap_leg f g board (board + minutes (WalkTimeMinutes (Haversine (Coordinates f) (Coordinates g))))]"
    using l by (auto simp: departure_legs_def Let_def split: if_splits)
  then show ?thesis by (simp add: gap_transit)
next
  fix legs' t assume "eng net (stop_id f) (stop_id g) board params = Some (Inr legs')"
    "journey_ok net (p_modes params) (stop_id f) board (stop_id g) t legs'"
  then show ?thesis using l journey_transit [OF _ fg] by (auto simp: departure_legs_def)
qed

lemma arrival_legs_ok:
  assumes r: "ready net params (stop_id f)" and fg: "stop_at net (stop_id f) = Some f" "stop_at net (stop_id g) = Some g"
    and l: "arrival_legs eng net params mw f g arrival latest = Some (Inr (legs, board))"
  shows "transit_ok f g board legs \<and> l_arr (last legs) \<le> latest"
proof (cases "planArrival eng net (stop_id f) (stop_id g) arrival latest params")
  case None
  with l show ?thesis by (simp add: arrival_legs_def)
next
  case (Some r')
  show ?thesis
  proof (cases r')
    case (Inl e)
    let ?m = "WalkTimeMinutes (Haversine (Coordinates f) (Coordinates g))"
    have "legs = [gap_leg f g board latest]" "board = latest - minutes ?m"
      using l Some Inl by (auto simp: arrival_legs_def Let_def split: if_splits)
    then show ?thesis using gap_transit [of board latest] by (simp add: gap_leg_def plain_walk_def)
  next
    case (Inr p)
    with Some l have "planArrival eng net (stop_id f) (stop_id g) arrival latest params = Some (Inr (legs, board))"
      by (simp add: arrival_legs_def)
    note pa = planArrival_deadline [OF this]
    then show ?thesis using eng_journey [OF r pa(1)] journey_transit [OF _ fg] by blast
  qed
qed

lemma plan_transit_ok:
  assumes r: "ready net params (stop_id f)" and fg: "stop_at net (stop_id f) = Some f" "stop_at net (stop_id g) = Some g"
    and j: "plan_transit pl eng net from to params f g = Some (Inr j)"
  shows "door_chain from to (j_dep j) (j_arr j) (j_legs j) \<and> j_alts j = [] \<and>
    (p_arrival params = None \<longrightarrow> j_dep j = p_departure params) \<and>
    (\<forall>a. p_arrival params = Some a \<longrightarrow> j_arr j \<le> a)"
proof (cases "p_arrival params")
  case None
  let ?board = "p_departure params + minutes (WalkTimeMinutes (Haversine from (Coordinates f)))"
  let ?m = "WalkTimeMinutes (Haversine to (Coordinates g))"
  obtain legs where l: "departure_legs eng net params (max_walk pl params) f g ?board = Some (Inr legs)"
    and jd: "j = door_to_door from to f g (p_departure params) ?board ?m legs"
    using j None by (auto simp: plan_transit_def Let_def split: option.splits sum.splits)
  show ?thesis
    using door_chain_intro [OF departure_legs_ok [OF r fg l], of "p_departure params" ?m "from" to] None
    unfolding jd by simp
next
  case (Some a)
  let ?acc = "minutes (WalkTimeMinutes (Haversine from (Coordinates f)))"
  let ?m = "WalkTimeMinutes (Haversine to (Coordinates g))"
  obtain legs board where
    l: "arrival_legs eng net params (max_walk pl params) f g a (a - minutes ?m) = Some (Inr (legs, board))"
    and jd: "j = door_to_door from to f g (board - ?acc) board ?m legs"
    using j Some by (auto simp: plan_transit_def Let_def split: option.splits sum.splits)
  note ok = arrival_legs_ok [OF r fg l]
  show ?thesis
    using door_chain_intro [OF conjunct1 [OF ok], of "board - ?acc" ?m "from" to] ok Some
    unfolding jd by simp
qed

lemma plan_transit_returns:
  assumes r: "ready net params (stop_id f)"
  shows "\<exists>x. plan_transit pl eng net from to params f g = Some x \<and> x \<noteq> Inl NilDeref"
proof (cases "p_arrival params")
  case None
  let ?board = "p_departure params + minutes (WalkTimeMinutes (Haversine from (Coordinates f)))"
  show ?thesis
    by (rule eng_cases [OF r, of "stop_id g" ?board])
      (use None in \<open>auto simp: plan_transit_def departure_legs_def Let_def\<close>)
next
  case (Some a)
  from try_departures_returns [OF r, of "stop_id g"] Some show ?thesis
    by (fastforce simp: plan_transit_def arrival_legs_def planArrival_def Let_def split: option.splits sum.splits)
qed

lemma plan_returns:
  assumes "\<And>s. s \<in> snd ` set (n_stops net) \<Longrightarrow> ready net params (stop_id s)"
  shows "\<exists>x. planWithStops pl eng net from to params hf ht = Some x \<and> x \<noteq> Inl NilDeref"
proof (cases "match_from net from (max_walk pl params) hf")
  case None
  then show ?thesis by (simp add: planWithStops_def)
next
  case (Some f)
  then have r: "ready net params (stop_id f)"
    using assms match_from_in_reach [OF max_walk_pos] by (auto simp: in_reach_def)
  show ?thesis
  proof (cases "match_to net to (max_walk pl params) ht")
    case None
    with Some show ?thesis by (simp add: planWithStops_def)
  next
    case t: (Some g)
    obtain x where x: "plan_transit pl eng net from to params f g = Some x" "x \<noteq> Inl NilDeref"
      using plan_transit_returns [OF r] by blast
    obtain js where "alternative_candidates (alternative_at eng net from to params f g) alt_offsets = Some (Inr js)"
      using alternatives_return [OF r] by blast
    with Some t x show ?thesis
      by (cases x) (auto simp: planWithStops_def paretoAlternatives_def)
  qed
qed

lemma alternative_rides:
  assumes r: "ready net params (stop_id f)" and s: "f \<in> snd ` set (n_stops net)" "g \<in> snd ` set (n_stops net)" "keyed_stops net"
    and a: "alternative_at eng net from to params f g off = Some (Inr (Some j))"
  shows "ride_chain net (j_legs j)"
proof -
  note fg = keyed_stop_at [OF s(3,1)] keyed_stop_at [OF s(3,2)]
  have "\<exists>d legs params'. p_modes params' = p_modes params \<and> eng net (stop_id f) (stop_id g) d params' = Some (Inr legs) \<and> j_legs j = legs"
  proof (cases "p_arrival params")
    case None
    show ?thesis using a None
      by (auto simp: alternative_at_def Let_def split: option.splits sum.splits if_splits)
        (rule exI, rule exI [of _ "params\<lparr>p_departure := p_departure params + minutes off\<rparr>"], auto)
  next
    case (Some t)
    show ?thesis using a Some
      by (auto simp: alternative_at_def Let_def dest!: planArrival_deadline(1) split: option.splits sum.splits if_splits)
        (rule exI, rule exI [of _ "params\<lparr>p_arrival := Some (t + minutes off)\<rparr>"], auto)
  qed
  then obtain d legs params' where e: "p_modes params' = p_modes params" "eng net (stop_id f) (stop_id g) d params' = Some (Inr legs)"
      "j_legs j = legs" by blast
  then obtain t where "journey_ok net (p_modes params') (stop_id f) d (stop_id g) t legs"
    using eng_journey [OF ready_modes [OF r e(1)] e(2)] by blast
  then show ?thesis using journey_transit [OF _ fg] s(1,2) e(3) unfolding ride_chain_def by blast
qed

lemma plan_parts:
  assumes ready: "\<And>s. s \<in> snd ` set (n_stops net) \<Longrightarrow> ready net params (stop_id s)" and k: "keyed_stops net"
    and p: "planWithStops pl eng net from to params hf ht = Some (Inr j')"
  obtains f g j alts where "match_from net from (max_walk pl params) hf = Some f"
    "match_to net to (max_walk pl params) ht = Some g"
    "plan_transit pl eng net from to params f g = Some (Inr j)"
    "door_chain from to (j_dep j) (j_arr j) (j_legs j)" "j_alts j = []"
    "p_arrival params = None \<longrightarrow> j_dep j = p_departure params" "\<forall>a. p_arrival params = Some a \<longrightarrow> j_arr j \<le> a"
    "paretoAlternatives eng net from to params f g j = Some (Inr alts)"
    "j' = promote (plan_preference params) (EnrichJourney (pl_currency pl) net (with_alts alts j))"
proof -
  obtain f g j alts where m: "match_from net from (max_walk pl params) hf = Some f"
    "match_to net to (max_walk pl params) ht = Some g"
    "plan_transit pl eng net from to params f g = Some (Inr j)"
    "paretoAlternatives eng net from to params f g j = Some (Inr alts)"
    "j' = promote (plan_preference params) (EnrichJourney (pl_currency pl) net (with_alts alts j))"
    using p by (auto simp: planWithStops_def split: option.splits sum.splits)
  have f: "f \<in> snd ` set (n_stops net)" and g: "g \<in> snd ` set (n_stops net)"
    using match_from_in_reach [OF max_walk_pos m(1)] match_to_in_reach [OF max_walk_pos m(2)]
    by (auto simp: in_reach_def)
  note ok = plan_transit_ok [OF ready [OF f] keyed_stop_at [OF k f] keyed_stop_at [OF k g] m(3)]
  show thesis by (rule that [OF m(1-3) _ _ _ _ m(4,5)]) (use ok in blast)+
qed

end


section \<open>Alternatives and promotion\<close>

abbreviation uniq_step :: "journey \<Rightarrow> ((int \<times> int) \<times> journey) list \<Rightarrow> ((int \<times> int) \<times> journey) list" where
  "uniq_step \<equiv> (\<lambda>c m. if map_of m (alt_key c) \<noteq> None then m else m @ [(alt_key c, c)])"

lemma uniq_fold:
  "distinct (map fst m) \<Longrightarrow> \<forall>(k, j) \<in> set m. k = alt_key j \<and> j \<in> S \<Longrightarrow> set js \<subseteq> S \<Longrightarrow>
   distinct (map fst (fold uniq_step js m)) \<and> (\<forall>(k, j) \<in> set (fold uniq_step js m). k = alt_key j \<and> j \<in> S)"
proof (induction js arbitrary: m)
  case (Cons c js)
  have "distinct (map fst (uniq_step c m))" using Cons.prems(1) by (auto simp: map_of_eq_None_iff)
  moreover have "\<forall>(k, j) \<in> set (uniq_step c m). k = alt_key j \<and> j \<in> S" using Cons.prems(2,3) by auto
  ultimately show ?case using Cons.IH [of "uniq_step c m"] Cons.prems(3) by simp
qed simp

lemma uniq_journeys_spec: "distinct (map alt_key (uniq_journeys js))" "set (uniq_journeys js) \<subseteq> set js"
proof -
  let ?m = "fold (\<lambda>c m. if map_of m (alt_key c) \<noteq> None then m else m @ [(alt_key c, c)]) js []"
  have m: "distinct (map fst ?m)" "\<forall>(k, j) \<in> set ?m. k = alt_key j \<and> j \<in> set js"
    using uniq_fold [of "[]" "set js" js] by auto
  have "map alt_key (map snd ?m) = map fst ?m"
    unfolding map_map by (rule map_cong [OF refl]) (use m(2) in auto)
  with m(1) show "distinct (map alt_key (uniq_journeys js))" unfolding uniq_journeys_def by metis
  show "set (uniq_journeys js) \<subseteq> set js" using m(2) by (auto simp: uniq_journeys_def)
qed

lemma weak_order_alt_less: "weak_order (alt_less pref)"
  by (rule weak_orderI) (auto simp: alt_less_def split: if_splits)

lemma choose_alternatives_spec:
  "length (choose_alternatives pref best cands) \<le> 2 \<and> set (choose_alternatives pref best cands) \<subseteq> set cands \<and>
   distinct (map alt_key (choose_alternatives pref best cands)) \<and>
   (\<forall>a \<in> set (choose_alternatives pref best cands). \<not> (j_arr a = j_arr best \<and> j_transfers a = j_transfers best)) \<and>
   sorted_wrt (\<lambda>a b. \<not> alt_less pref b a) (choose_alternatives pref best cands)"
proof -
  define xs where "xs = sort_by (alt_less pref) (uniq_journeys cands)"
  define ys where "ys = filter (\<lambda>f. \<not> (j_arr f = j_arr best \<and> j_transfers f = j_transfers best)) (take 3 xs)"
  have c: "choose_alternatives pref best cands = take 2 ys" by (simp add: choose_alternatives_def xs_def ys_def)
  have m: "mset (map alt_key xs) = mset (map alt_key (uniq_journeys cands))" by (simp add: xs_def)
  have "distinct (map alt_key xs)"
    using uniq_journeys_spec(1) [of cands] mset_eq_imp_distinct_iff [OF m] by blast
  then have "distinct (map alt_key (take 3 xs))" by (simp add: take_map [symmetric] distinct_take)
  then have "distinct (map alt_key ys)" unfolding ys_def by (rule distinct_map_filter)
  then have d: "distinct (map alt_key (take 2 ys))" by (simp add: take_map [symmetric] distinct_take)
  have "sorted_wrt (\<lambda>a b. \<not> alt_less pref b a) xs"
    unfolding xs_def by (rule sorted_sort_by [OF weak_order_alt_less])
  then have "sorted_wrt (\<lambda>a b. \<not> alt_less pref b a) ys"
    unfolding ys_def by (intro sorted_wrt_filter sorted_wrt_take)
  then have s: "sorted_wrt (\<lambda>a b. \<not> alt_less pref b a) (take 2 ys)" by (rule sorted_wrt_take)
  have y: "set (take 2 ys) \<subseteq> set ys" by (rule set_take_subset)
  have "set ys \<subseteq> set xs" unfolding ys_def using set_take_subset [of 3 xs] by auto
  moreover have "set xs = set (uniq_journeys cands)" by (simp add: xs_def)
  ultimately have "set (take 2 ys) \<subseteq> set cands" using uniq_journeys_spec(2) [of cands] y by blast
  moreover have "\<forall>a \<in> set ys. \<not> (j_arr a = j_arr best \<and> j_transfers a = j_transfers best)" by (simp add: ys_def)
  ultimately show ?thesis unfolding c using d s y by auto
qed

lemma promote_loop_spec:
  "promote_loop ar i (b, T) alts = (b', T') \<Longrightarrow>
   T' \<le> T \<and> (\<forall>a \<in> set alts. T' \<le> j_transfers a) \<and>
   ((b' = b \<and> T' = T) \<or>
    (\<exists>k < length alts. b' = Some (i + k) \<and> T' = j_transfers (alts ! k) \<and>
       (T' < T \<or> (T' = T \<and> j_arr (alts ! k) < ar))))"
proof (induction alts arbitrary: i b T)
  case (Cons a alts)
  let ?c = "j_transfers a < T \<or> (j_transfers a = T \<and> j_arr a < ar)"
  let ?b = "if ?c then Some i else b" and ?T = "if ?c then j_transfers a else T"
  have "(?b, ?T) = (if ?c then (Some i, j_transfers a) else (b, T))" by simp
  with Cons.prems have "promote_loop ar (Suc i) (?b, ?T) alts = (b', T')" by (simp only: promote_loop.simps)
  from Cons.IH [OF this]
  have le: "T' \<le> ?T" "\<forall>x \<in> set alts. T' \<le> j_transfers x"
    and d: "(b' = ?b \<and> T' = ?T) \<or> (\<exists>k < length alts. b' = Some (Suc i + k) \<and> T' = j_transfers (alts ! k) \<and>
       (T' < ?T \<or> (T' = ?T \<and> j_arr (alts ! k) < ar)))" by blast+
  have "?T \<le> T" "?T \<le> j_transfers a" by auto
  with le have l: "T' \<le> T" "\<forall>x \<in> set (a # alts). T' \<le> j_transfers x" by auto
  from d show ?case
  proof
    assume e: "b' = ?b \<and> T' = ?T"
    show ?thesis
    proof (cases ?c)
      case True
      with e have "\<exists>k < length (a # alts). b' = Some (i + k) \<and> T' = j_transfers ((a # alts) ! k) \<and>
          (T' < T \<or> (T' = T \<and> j_arr ((a # alts) ! k) < ar))" by (intro exI [of _ 0]) auto
      with l show ?thesis by blast
    qed (use e l in auto)
  next
    assume "\<exists>k < length alts. b' = Some (Suc i + k) \<and> T' = j_transfers (alts ! k) \<and>
       (T' < ?T \<or> (T' = ?T \<and> j_arr (alts ! k) < ar))"
    then obtain k where k: "k < length alts" "b' = Some (Suc i + k)" "T' = j_transfers (alts ! k)"
      "T' < ?T \<or> (T' = ?T \<and> j_arr (alts ! k) < ar)" by blast
    have "T' < T \<or> (T' = T \<and> j_arr (alts ! k) < ar)" using k(4) \<open>?T \<le> T\<close> by linarith
    with k have "\<exists>k' < length (a # alts). b' = Some (i + k') \<and> T' = j_transfers ((a # alts) ! k') \<and>
        (T' < T \<or> (T' = T \<and> j_arr ((a # alts) ! k') < ar))" by (intro exI [of _ "Suc k"]) auto
    with l show ?thesis by blast
  qed
qed simp

lemma with_alts_sel [simp]: "j_transfers (with_alts alts j) = j_transfers j" "j_arr (with_alts alts j) = j_arr j"
  "j_alts (with_alts alts j) = alts" "j_legs (with_alts alts j) = j_legs j" "j_dep (with_alts alts j) = j_dep j"
  by (cases j; simp)+

lemma promotion_spec:
  "(pref \<noteq> PreferenceTransfers \<longrightarrow> promote pref j = j) \<and>
   (pref = PreferenceTransfers \<longrightarrow>
      j_transfers (promote pref j) \<le> j_transfers j \<and>
      (\<forall>a \<in> set (j_alts j). j_transfers (promote pref j) \<le> j_transfers a) \<and>
      (promote pref j = j \<or>
       (\<exists>a \<in> set (j_alts j). \<exists>alts. promote pref j = with_alts (take 2 (j # alts)) a \<and> set alts \<subseteq> set (j_alts j) \<and>
          (j_transfers a < j_transfers j \<or> (j_transfers a = j_transfers j \<and> j_arr a < j_arr j)))))"
proof (cases "pref = PreferenceTransfers \<and> j_alts j \<noteq> []")
  case True
  obtain b T where pl: "promote_loop (j_arr j) 0 (None, j_transfers j) (j_alts j) = (b, T)" by fastforce
  note s = promote_loop_spec [OF pl]
  show ?thesis
  proof (cases b)
    case None
    then have "T = j_transfers j" using s by auto
    with s None True pl show ?thesis by (simp add: promote_def)
  next
    case (Some i)
    with s have i: "i < length (j_alts j)" "T = j_transfers (j_alts j ! i)"
      "T < j_transfers j \<or> (T = j_transfers j \<and> j_arr (j_alts j ! i) < j_arr j)" by auto
    let ?alts = "take i (j_alts j) @ drop (Suc i) (j_alts j)"
    have p: "promote pref j = with_alts (take 2 (j # ?alts)) (j_alts j ! i)"
      using True pl Some by (simp add: promote_def)
    have "set ?alts \<subseteq> set (j_alts j)" by (auto dest: in_set_takeD in_set_dropD)
    moreover have a: "j_alts j ! i \<in> set (j_alts j)" using i(1) by simp
    ultimately have "\<exists>a \<in> set (j_alts j). \<exists>alts. promote pref j = with_alts (take 2 (j # alts)) a \<and> set alts \<subseteq> set (j_alts j) \<and>
        (j_transfers a < j_transfers j \<or> (j_transfers a = j_transfers j \<and> j_arr a < j_arr j))"
      using p i(2,3) by blast
    moreover have "j_transfers (promote pref j) = T" using i(2) unfolding p by simp
    ultimately show ?thesis using s True by blast
  qed
qed (auto simp: promote_def)

text \<open>With the default preference the journey returned has the fewest transfers among the planned one and
  its alternatives; when it is an alternative, that one is better (fewer transfers, or as many and
  earlier), the planned journey is kept as the first of at most two alternatives, and with any other
  preference the planned journey is returned as it is.\<close>

theorem promote_fewest_transfers:
  "(pref \<noteq> PreferenceTransfers \<longrightarrow> promote pref j = j) \<and>
   (pref = PreferenceTransfers \<longrightarrow>
      j_transfers (promote pref j) \<le> j_transfers j \<and>
      (\<forall>a \<in> set (j_alts j). j_transfers (promote pref j) \<le> j_transfers a) \<and>
      (promote pref j = j \<or>
       (\<exists>a \<in> set (j_alts j). \<exists>alts. promote pref j = with_alts (take 2 (j # alts)) a \<and> set alts \<subseteq> set (j_alts j) \<and>
          (j_transfers a < j_transfers j \<or> (j_transfers a = j_transfers j \<and> j_arr a < j_arr j)))))"
  by (rule promotion_spec)

lemma promote_fewest_transfers_witness: "promote PreferenceArrival demo_priced = demo_priced"
  using promote_fewest_transfers [of PreferenceArrival demo_priced] by (simp add: go_simps)


section \<open>Journeys door to door\<close>

interpretation csa_engine: transit_engine csa "\<lambda>net params s. rides_forward net (p_modes params) \<and> csa_known net s"
proof
  fix net :: network and params :: search_params and s v :: string and d :: gotime and legs :: "leg list"
  assume r: "rides_forward net (p_modes params) \<and> csa_known net s"
  show "\<exists>r. csa net s v d params = Some r \<and> r \<noteq> Inl NilDeref" using csa_total r by blast
  show "csa net s v d params = Some (Inr legs) \<Longrightarrow> \<exists>t. journey_ok net (p_modes params) s d v t legs"
    using csa_journey r by blast
qed auto

text \<open>What a loaded network guarantees: stops under their own identifiers, every stop known to the
  engine, no ride that arrives before it departs.\<close>

definition plannable :: "network \<Rightarrow> mode list \<Rightarrow> bool" where
  "plannable net allowed \<longleftrightarrow> keyed_stops net \<and> rides_forward net allowed \<and>
     (\<forall>s \<in> snd ` set (n_stops net). csa_known net (stop_id s))"

lemma with_legs_sel: "j_legs (with_legs f j) = f (j_legs j)"
  by (cases j) simp

lemma EnrichJourney_sel:
  "j_legs (EnrichJourney dflt net j) = map (priced_leg dflt net) (j_legs j)"
  "j_dep (EnrichJourney dflt net j) = j_dep j" "j_arr (EnrichJourney dflt net j) = j_arr j"
  "j_transfers (EnrichJourney dflt net j) = j_transfers j"
  "j_alts (EnrichJourney dflt net j) = map (with_legs (map (priced_leg dflt net))) (j_alts j)"
  by (cases j; simp)+

text \<open>C25: With the default engine, planning always ends, with a journey or with an error that the code
  reports.\<close>

theorem plan_terminates:
  assumes "plannable net (p_modes params)" "pl_engine pl \<noteq> ''raptor''"
  shows "\<exists>r. PlanWithPlaces pl net from to params hf ht = Some r \<and> r \<noteq> Inl NilDeref"
proof -
  have "engine_of pl = csa" using assms(2) by (simp add: engine_of_def)
  then show ?thesis
    using csa_engine.plan_returns [of net params pl "from" to hf ht] assms(1)
    by (auto simp: PlanWithPlaces_def plannable_def)
qed

text \<open>C4: With the default engine, whatever the preference, planning finds a journey that runs door to door: it
  starts at the origin and ends at the destination, every leg starts where and not before the previous
  one ends, it leaves at the departure asked for or arrives by the arrival asked for. This journey is returned,
  with at most two alternatives, unless fewest transfers are preferred (the default) and one of the alternatives has fewer
  transfers, or as many and arrives earlier: then that alternative is returned, a chain of rides between stops without the walks
  at its ends, and the journey from door to door is the first of its alternatives.\<close>

theorem plan_door_to_door:
  assumes "plannable net (p_modes params)" "pl_engine pl \<noteq> ''raptor''"
    and "PlanWithPlaces pl net from to params hf ht = Some (Inr j)"
  shows "length (j_alts j) \<le> 2 \<and>
    (\<exists>j0. door_chain from to (j_dep j0) (j_arr j0) (j_legs j0) \<and>
       (p_arrival params = None \<longrightarrow> j_dep j0 = p_departure params) \<and>
       (\<forall>a. p_arrival params = Some a \<longrightarrow> j_arr j0 \<le> a) \<and>
       (j = j0 \<or>
        plan_preference params = PreferenceTransfers \<and> j_alts j \<noteq> [] \<and> hd (j_alts j) = j0 \<and> ride_chain net (j_legs j) \<and>
        (j_transfers j < j_transfers j0 \<or> j_transfers j = j_transfers j0 \<and> j_arr j < j_arr j0)))"
proof -
  have e: "engine_of pl = csa" using assms(2) by (simp add: engine_of_def)
  have p: "planWithStops pl csa net from to params hf ht = Some (Inr j)"
    using assms(3) e by (simp add: PlanWithPlaces_def)
  have k: "keyed_stops net" using assms(1) by (simp add: plannable_def)
  have r: "rides_forward net (p_modes params) \<and> csa_known net (stop_id s)" if "s \<in> snd ` set (n_stops net)" for s
    using assms(1) that by (auto simp: plannable_def)
  show ?thesis
  proof (rule csa_engine.plan_parts [OF r k p], assumption)
    fix f g j1 alts
    assume m: "match_from net from (max_walk pl params) hf = Some f" "match_to net to (max_walk pl params) ht = Some g"
      and d: "door_chain from to (j_dep j1) (j_arr j1) (j_legs j1)"
      and t: "p_arrival params = None \<longrightarrow> j_dep j1 = p_departure params" "\<forall>a. p_arrival params = Some a \<longrightarrow> j_arr j1 \<le> a"
      and al: "paretoAlternatives csa net from to params f g j1 = Some (Inr alts)"
      and j: "j = promote (plan_preference params) (EnrichJourney (pl_currency pl) net (with_alts alts j1))"
    define j0 where "j0 = EnrichJourney (pl_currency pl) net (with_alts alts j1)"
    have door: "door_chain from to (j_dep j0) (j_arr j0) (j_legs j0)" "j_dep j0 = j_dep j1" "j_arr j0 = j_arr j1"
      using door_chain_priced [OF d] by (simp_all add: j0_def EnrichJourney_sel)
    have fg: "f \<in> snd ` set (n_stops net)" "g \<in> snd ` set (n_stops net)"
      using match_from_in_reach [OF max_walk_pos m(1)] match_to_in_reach [OF max_walk_pos m(2)] by (auto simp: in_reach_def)
    obtain js where js: "alternative_candidates (alternative_at csa net from to params f g) alt_offsets = Some (Inr js)"
        "alts = choose_alternatives (plan_preference params) j1 (j1 # js)"
      using al by (auto simp: paretoAlternatives_def split: option.splits sum.splits)
    have ch: "length alts \<le> 2" "set alts \<subseteq> set (j1 # js)"
        "\<forall>a \<in> set alts. \<not> (j_arr a = j_arr j1 \<and> j_transfers a = j_transfers j1)"
      using choose_alternatives_spec [of "plan_preference params" j1 "j1 # js"] unfolding js(2) by blast+
    then have "set alts \<subseteq> set js" by auto
    then have rides: "\<forall>a \<in> set alts. ride_chain net (j_legs a)"
      using candidates_ride [OF _ js(1), where P = "\<lambda>a. ride_chain net (j_legs a)"]
        csa_engine.alternative_rides [OF r [OF fg(1)] fg k] by blast
    then have rides0: "\<forall>a \<in> set (j_alts j0). ride_chain net (j_legs a)" and len0: "length (j_alts j0) \<le> 2"
      using ride_chain_priced ch(1) by (auto simp: j0_def EnrichJourney_sel with_legs_sel)
    have "length (j_alts j) \<le> 2 \<and> (j = j0 \<or>
        plan_preference params = PreferenceTransfers \<and> j_alts j \<noteq> [] \<and> hd (j_alts j) = j0 \<and> ride_chain net (j_legs j) \<and>
        (j_transfers j < j_transfers j0 \<or> j_transfers j = j_transfers j0 \<and> j_arr j < j_arr j0))"
    proof (cases "j = j0")
      case False
      then obtain a xs where "plan_preference params = PreferenceTransfers" "a \<in> set (j_alts j0)" "j = with_alts (take 2 (j0 # xs)) a"
          "j_transfers a < j_transfers j0 \<or> (j_transfers a = j_transfers j0 \<and> j_arr a < j_arr j0)"
        using promotion_spec [of "plan_preference params" j0] j unfolding j0_def [symmetric] by blast
      then show ?thesis using rides0 by simp
    qed (use len0 in simp)
    then show ?thesis using door t by (intro conjI exI [of _ j0]) auto
  qed
qed

end
