(* ===== verification/Planner_Examples.thy ===== *)
theory Planner_Examples
  imports Planner_Correct
begin

text \<open>
  One network planned end to end by evaluation: three hubs, a fast connection with a change and a
  later direct ride. It is the concrete input of the planner's witnesses, and it shows what the
  promotion of an alternative does to a journey.
\<close>

section \<open>A concrete plan\<close>

definition hub_stop :: "string \<Rightarrow> stop" where
  "hub_stop i = (demo_stop i)\<lparr>stop_type := StopTypeHub\<rparr>"

definition hub_net :: network where
  "hub_net = NewNetwork\<lparr>
     n_stops := [(''A'', hub_stop ''A''), (''B'', hub_stop ''B''), (''C'', hub_stop ''C'')],
     n_connections := [demo_conn ''t1'' ''A'' ''B'' (minutes 10) (minutes 20),
       demo_conn ''t2'' ''B'' ''C'' (minutes 30) (minutes 40),
       demo_conn ''t3'' ''A'' ''C'' (minutes 70) (minutes 120)]\<rparr>"

definition hub_params :: "string \<Rightarrow> search_params" where
  "hub_params pref = demo_params\<lparr>p_preference := pref\<rparr>"

definition here :: coords where
  "here = \<lparr>co_lat = 0, co_lon = 0\<rparr>"

lemma hub_transfers: "csa_transfers hub_net = []"
  by (simp add: csa_transfers_def hub_net_def NewNetwork_def)

lemmas csa_eval = relax.simps csa_connections_def Let_def minutes_def minute_ns_def arr_get_def
      map_get_def improves_def boardable_def usable_def isImplausibleConnection_def stop_at_def
      reconstruct_def reconstruct_loop.simps buildLegs_def same_trip_def ride_leg_def walk_leg_def
      transfer_limit_def

lemma relax_no_transfers: "relax [] prov [x] lab = Some lab"
proof -
  have "relax_edges prov x t [] lab [] = (lab, [])" for t by (cases lab) simp
  then show ?thesis by (simp add: relax.simps [of _ _ "[x]"] relax.simps [of _ _ "[]"] map_get_def)
qed

lemma hub_usable: "usable hub_net [ModeBus] (demo_conn t f v dep ar)"
proof -
  have "isImplausibleConnection (demo_conn t f v dep ar) hub_net = False"
    by (auto simp: isImplausibleConnection_def stop_at_def hub_net_def hub_stop_def demo_defs split: option.splits)
  then show ?thesis by (simp add: usable_def demo_conn_def)
qed

lemma hub_boardable: "boardable hub_net [ModeBus] arr (demo_conn t f v dep ar) \<longleftrightarrow>
    (case arr f of None \<Rightarrow> False | Some a \<Rightarrow> a \<le> dep \<and> improves arr v ar)"
  unfolding boardable_def using hub_usable by (auto simp: demo_conn_def split: option.splits)

lemma hub_conns: "csa_connections hub_net = [demo_conn ''t1'' ''A'' ''B'' (minutes 10) (minutes 20),
       demo_conn ''t2'' ''B'' ''C'' (minutes 30) (minutes 40),
       demo_conn ''t3'' ''A'' ''C'' (minutes 70) (minutes 120)]"
  by (simp add: csa_connections_def hub_net_def NewNetwork_def Let_def demo_conn_def)

lemma hub_conn_sel: "c_from (demo_conn t f v dep ar) = f" "c_to (demo_conn t f v dep ar) = v"
  "c_dep (demo_conn t f v dep ar) = dep" "c_arr (demo_conn t f v dep ar) = ar" "c_trip (demo_conn t f v dep ar) = t"
  by (simp_all add: demo_conn_def)

lemmas hub_eval = csa_labels_def hub_transfers relax_no_transfers hub_conns hub_boardable hub_conn_sel improves_def
  fun_upd_same fun_upd_other

lemma hub_labels_early: "p_modes params = [ModeBus] \<Longrightarrow> m \<le> 10 \<Longrightarrow> csa_labels hub_net ''A'' (minutes m) params =
     Some ([''A'' \<mapsto> minutes m, ''B'' \<mapsto> minutes 20, ''C'' \<mapsto> minutes 40],
            [''B'' \<mapsto> PrevConn (demo_conn ''t1'' ''A'' ''B'' (minutes 10) (minutes 20)),
             ''C'' \<mapsto> PrevConn (demo_conn ''t2'' ''B'' ''C'' (minutes 30) (minutes 40))])"
  by (simp add: hub_eval del: fun_upd_apply)

lemma hub_labels_mid: "p_modes params = [ModeBus] \<Longrightarrow> 10 < m \<Longrightarrow> m \<le> 70 \<Longrightarrow> csa_labels hub_net ''A'' (minutes m) params =
     Some ([''A'' \<mapsto> minutes m, ''C'' \<mapsto> minutes 120],
            [''C'' \<mapsto> PrevConn (demo_conn ''t3'' ''A'' ''C'' (minutes 70) (minutes 120))])"
  by (simp add: hub_eval del: fun_upd_apply)

lemma hub_labels_late: "p_modes params = [ModeBus] \<Longrightarrow> 70 < m \<Longrightarrow> csa_labels hub_net ''A'' (minutes m) params =
     Some ([''A'' \<mapsto> minutes m], Map.empty)"
  by (simp add: hub_eval del: fun_upd_apply)

lemma hub_stop_at: "stop_at hub_net ''A'' = Some (hub_stop ''A'')" "stop_at hub_net ''B'' = Some (hub_stop ''B'')"
  "stop_at hub_net ''C'' = Some (hub_stop ''C'')"
  by (simp_all add: stop_at_def hub_net_def NewNetwork_def)

lemmas hub_walk_back = csa_def reconstruct_def reconstruct_loop.simps buildLegs_def same_trip_def transfer_limit_def
  hub_stop_at hub_conn_sel

lemma hub_csa_early: "p_modes params = [ModeBus] \<Longrightarrow> p_max_transfers params < 0 \<Longrightarrow> m \<le> 10 \<Longrightarrow>
  csa hub_net ''A'' ''C'' (minutes m) params = Some (Inr
    [ride_leg (demo_conn ''t1'' ''A'' ''B'' (minutes 10) (minutes 20)) (hub_stop ''A'') (hub_stop ''B''),
     ride_leg (demo_conn ''t2'' ''B'' ''C'' (minutes 30) (minutes 40)) (hub_stop ''B'') (hub_stop ''C'')])"
  by (simp add: hub_walk_back hub_labels_early) (simp add: ride_leg_def hub_conn_sel)

lemma hub_csa_mid: "p_modes params = [ModeBus] \<Longrightarrow> p_max_transfers params < 0 \<Longrightarrow> 10 < m \<Longrightarrow> m \<le> 70 \<Longrightarrow>
  csa hub_net ''A'' ''C'' (minutes m) params = Some (Inr
    [ride_leg (demo_conn ''t3'' ''A'' ''C'' (minutes 70) (minutes 120)) (hub_stop ''A'') (hub_stop ''C'')])"
  by (simp add: hub_walk_back hub_labels_mid)

lemma hub_csa_late: "p_modes params = [ModeBus] \<Longrightarrow> 70 < m \<Longrightarrow>
  csa hub_net ''A'' ''C'' (minutes m) params = Some (Inl (NoPath ''A'' ''C''))"
  by (simp add: hub_walk_back hub_labels_late)

lemma village_A: "\<not> IsVillageName ''A''"
  by (simp add: IsVillageName_def Let_def village_words_def ru_pov_dot_def ru_op_def string_eval has_prefix_def Fields_def village_token_def trim_def)
lemma village_C: "\<not> IsVillageName ''C''"
  by (simp add: IsVillageName_def Let_def village_words_def ru_pov_dot_def ru_op_def string_eval has_prefix_def Fields_def village_token_def trim_def)

lemma cands_A: "place_cands (n_stops hub_net) ''A'' here 15 = ([hub_stop ''A''], [])"
  by (simp add: place_cands_def hub_net_def NewNetwork_def hub_stop_def demo_stop_def Coordinates_def here_def WalkRadiusKm_def Let_def tokenMatch_def Fields_def string_eval has_prefix_def has_suffix_def)
lemma cands_C: "place_cands (n_stops hub_net) ''C'' here 15 = ([hub_stop ''C''], [])"
  by (simp add: place_cands_def hub_net_def NewNetwork_def hub_stop_def demo_stop_def Coordinates_def here_def WalkRadiusKm_def Let_def tokenMatch_def Fields_def string_eval has_prefix_def has_suffix_def)

lemma hub_dist: "Haversine here (Coordinates (hub_stop i)) = 0"
  by (simp add: here_def hub_stop_def demo_stop_def Coordinates_def)

lemma pick_hub: "\<not> IsVillageName i \<Longrightarrow> pickBest [hub_stop i] org here 15 stops = Some (hub_stop i)"
  by (simp add: pickBest_def nearestOf_def nearestWhere_def hub_dist isVillageStop_def IsHub_def Let_def)
    (simp add: hub_stop_def demo_stop_def)

lemma match_A: "match_from hub_net here 15 (Some ''A'') = Some (hub_stop ''A'')"
  by (simp add: match_from_def findStopByPlace_def cands_A pick_hub village_A)

lemma match_C: "match_to hub_net here 15 (Some ''C'') = Some (hub_stop ''C'')"
  by (simp add: match_to_def findStopByPlace_def cands_C pick_hub village_C)

definition hub_journey :: journey where
  "hub_journey = door_to_door here here (hub_stop ''A'') (hub_stop ''C'') 0 0 0
    [ride_leg (demo_conn ''t1'' ''A'' ''B'' (minutes 10) (minutes 20)) (hub_stop ''A'') (hub_stop ''B''),
     ride_leg (demo_conn ''t2'' ''B'' ''C'' (minutes 30) (minutes 40)) (hub_stop ''B'') (hub_stop ''C'')]"

definition hub_direct :: journey where
  "hub_direct = Journey here here (minutes 70) (minutes 120)
    [ride_leg (demo_conn ''t3'' ''A'' ''C'' (minutes 70) (minutes 120)) (hub_stop ''A'') (hub_stop ''C'')] 0 []"

lemma walk0 [simp]: "WalkTimeMinutes 0 = 0"
  by (simp add: WalkTimeMinutes_def)

lemma hub_ids: "stop_id (hub_stop i) = i"
  by (simp add: hub_stop_def demo_stop_def)

lemma hub_params_sel: "p_modes (hub_params pref) = [ModeBus]" "p_max_transfers (hub_params pref) < 0"
  "p_departure (hub_params pref) = 0" "p_arrival (hub_params pref) = None" "p_max_walk (hub_params pref) = 15"
  "p_preference (hub_params pref) = pref"
  by (simp_all add: hub_params_def demo_params_def)

lemma hub_transit: "plan_transit pl csa hub_net here here (hub_params pref) (hub_stop ''A'') (hub_stop ''C'') = Some (Inr hub_journey)"
  using hub_csa_early [of "hub_params pref" 0]
  by (simp add: plan_transit_def departure_legs_def hub_dist hub_params_sel hub_ids hub_journey_def)

lemma hub_alt_60: "alternative_at csa hub_net here here (hub_params pref) (hub_stop ''A'') (hub_stop ''C'') 60 =
    Some (Inr (Some hub_direct))"
  using hub_csa_mid [of "hub_params pref\<lparr>p_departure := minutes 60\<rparr>" 60]
  by (simp add: alternative_at_def hub_dist hub_params_sel hub_ids hub_direct_def ride_leg_def hub_conn_sel)

lemma hub_alt_late: "70 < off \<Longrightarrow> alternative_at csa hub_net here here (hub_params pref) (hub_stop ''A'') (hub_stop ''C'') off =
    Some (Inr None)"
  using hub_csa_late [of "hub_params pref\<lparr>p_departure := minutes off\<rparr>" off]
  by (simp add: alternative_at_def hub_dist hub_params_sel hub_ids)

lemma hub_journey_sel: "j_transfers hub_journey = 1" "j_arr hub_journey = minutes 40" "j_transfers hub_direct = 0"
  "j_arr hub_direct = minutes 120" "j_alts hub_direct = []"
  by (simp_all add: hub_journey_def door_to_door_def Let_def hub_direct_def ride_leg_def hub_conn_sel)

lemma hub_alternatives: "paretoAlternatives csa hub_net here here (hub_params pref) (hub_stop ''A'') (hub_stop ''C'') hub_journey =
    Some (Inr [hub_direct])"
proof -
  have u: "uniq_journeys [hub_journey, hub_direct] = [hub_journey, hub_direct]"
    by (simp add: uniq_journeys_def alt_key_def hub_journey_sel)
  have "choose_alternatives x hub_journey [hub_journey, hub_direct] = [hub_direct]" for x
    by (simp add: choose_alternatives_def u alt_less_def hub_journey_sel numeral_2_eq_2 numeral_3_eq_3)
  then show ?thesis
    by (simp add: paretoAlternatives_def alt_offsets_def hub_alt_60 hub_alt_late)
qed

definition csa_planner :: planner where
  "csa_planner = \<lparr>pl_engine = ''csa'', pl_default_walk = 0, pl_currency = ''RUB''\<rparr>"

lemma hub_plan: "PlanWithPlaces csa_planner hub_net here here (hub_params pref) (Some ''A'') (Some ''C'') =
    Some (Inr (promote (plan_preference (hub_params pref)) (EnrichJourney ''RUB'' hub_net (with_alts [hub_direct] hub_journey))))"
  by (simp add: PlanWithPlaces_def planWithStops_def engine_of_def csa_planner_def max_walk_def hub_params_sel
      match_A match_C hub_transit hub_alternatives)

text \<open>With the default preference the journey returned need not run door to door: an alternative that
  is promoted for its fewer transfers consists of its rides only. In the example the answer to a
  request from the origin to the destination is a single ride from stop A to stop C, with no walk to
  the first stop and none from the last.\<close>

theorem promoted_journey_lacks_walks:
  "\<exists>j. PlanWithPlaces csa_planner hub_net here here (hub_params '''') (Some ''A'') (Some ''C'') = Some (Inr j) \<and>
     map l_from (j_legs j) = [legPoint (hub_stop ''A'')] \<and> map l_to (j_legs j) = [legPoint (hub_stop ''C'')] \<and>
     (\<forall>dep ar. \<not> door_chain here here dep ar (j_legs j))"
proof -
  let ?e = "EnrichJourney ''RUB'' hub_net (with_alts [hub_direct] hub_journey)"
  let ?d = "with_legs (map (priced_leg ''RUB'' hub_net)) hub_direct"
  have s: "j_transfers ?d = 0" "j_arr ?d = minutes 120"
    by (simp_all add: hub_direct_def)
  have p: "promote PreferenceTransfers ?e = with_alts [?e] ?d"
    by (simp add: promote_def EnrichJourney_sel hub_journey_sel s)
  have pr: "plan_preference (hub_params '''') = PreferenceTransfers" by (simp add: plan_preference_def hub_params_sel)
  have l: "map l_from (j_legs (with_alts [?e] ?d)) = [legPoint (hub_stop ''A'')]"
    "map l_to (j_legs (with_alts [?e] ?d)) = [legPoint (hub_stop ''C'')]"
    by (simp_all add: hub_direct_def priced_leg_def Let_def ride_leg_def)
  have "legPoint (hub_stop ''A'') \<noteq> place_point ru_origin here"
    by (simp add: legPoint_def place_point_def hub_ids)
  then have "\<not> door_chain here here dep ar (j_legs (with_alts [?e] ?d))" for dep ar
    using l by (auto simp: door_chain_def)
  then show ?thesis using hub_plan [of "''''"] p pr l by (intro exI [of _ "with_alts [?e] ?d"]) simp
qed

lemma hub_known: "plannable hub_net [ModeBus]"
  unfolding plannable_def keyed_stops_def rides_forward_def csa_known_def hub_transfers
  by (auto simp: hub_net_def NewNetwork_def stop_at_def hub_ids hub_conn_sel stops_known_def targets_def nonneg_transfers_def)

lemma plan_terminates_witness:
  "\<exists>r. PlanWithPlaces csa_planner hub_net here here (hub_params '''') (Some ''A'') None = Some r \<and> r \<noteq> Inl NilDeref"
  by (rule plan_terminates) (simp_all add: hub_params_sel hub_known csa_planner_def)

lemma plan_door_to_door_witness:
  "\<exists>j. PlanWithPlaces csa_planner hub_net here here (hub_params PreferenceArrival) (Some ''A'') (Some ''C'') = Some (Inr j) \<and>
     door_chain here here 0 (minutes 40) (j_legs j)"
proof -
  let ?e = "EnrichJourney ''RUB'' hub_net (with_alts [hub_direct] hub_journey)"
  have pr: "plan_preference (hub_params PreferenceArrival) \<noteq> PreferenceTransfers"
    by (simp add: plan_preference_def hub_params_sel go_simps)
  then have e: "PlanWithPlaces csa_planner hub_net here here (hub_params PreferenceArrival) (Some ''A'') (Some ''C'') = Some (Inr ?e)"
    using hub_plan [of PreferenceArrival] by (simp add: promote_def)
  have "plannable hub_net (p_modes (hub_params PreferenceArrival))" "pl_engine csa_planner \<noteq> ''raptor''"
    using hub_known by (auto simp: hub_params_sel csa_planner_def)
  from plan_door_to_door [OF this e] pr
  have "door_chain here here (j_dep ?e) (j_arr ?e) (j_legs ?e) \<and>
      (p_arrival (hub_params PreferenceArrival) = None \<longrightarrow> j_dep ?e = p_departure (hub_params PreferenceArrival))" by blast
  moreover have "j_arr ?e = minutes 40" by (simp add: EnrichJourney_sel hub_journey_sel)
  ultimately have "door_chain here here 0 (minutes 40) (j_legs ?e)" unfolding hub_params_sel by metis
  with e show ?thesis by blast
qed

lemma hub_arrival: "planArrival (\<lambda>_ _ _ d _. Some (Inr [plain_walk '''' (place_point '''' here) (place_point '''' here) d d False]))
    NewNetwork ''A'' ''C'' 0 0 (hub_params '''') =
    Some (Inr ([plain_walk '''' (place_point '''' here) (place_point '''' here) 0 0 False], 0))"
  by (simp add: planArrival_def arrival_candidates_def trip_departures_def NewNetwork_def Let_def
      half_hours.simps [of _ 0] arrival_window_def day_ns_def plain_walk_def)

lemma planArrival_latest_witness:
  "l_arr (last [plain_walk '''' (place_point '''' here) (place_point '''' here) 0 0 False]) \<le> 0 \<and>
   arrival_window 0 0 \<le> 0"
  using planArrival_latest [OF hub_arrival] by simp

end
