(* ===== verification/RateLimit.thy ===== *)
theory RateLimit
  imports GoText
begin

text \<open>
  The token-bucket rate limiter of the HTTP server (\<open>middleware/ratelimit.go\<close>): one bucket
  per client address and path, created on the first request. Every critical section of the
  code (\<open>getLimiter\<close> under the limiter's mutex, \<open>Allow\<close> under the bucket's) is one function
  here, so a run of the server is a sequence of requests in the order in which they took the
  bucket's mutex; \<open>time.Now\<close> is read inside it, hence the times of a run do not decrease.
  The state is the map of buckets; the invariant bounds the tokens of every bucket.
\<close>

section \<open>Buckets\<close>

record bucket =
  tokens :: real
  last_seen :: gotime
  rps :: real
  burst :: real

definition newBucket :: "gotime \<Rightarrow> int \<Rightarrow> int \<Rightarrow> bucket" where
  "newBucket now r b = \<lparr>tokens = real_of_int b, last_seen = now, rps = real_of_int r, burst = real_of_int b\<rparr>"

definition to_seconds :: "duration \<Rightarrow> real" where
  "to_seconds d = real_of_int d / 1000000000"

definition Allow :: "gotime \<Rightarrow> bucket \<Rightarrow> bucket \<times> bool" where
  "Allow now b =
     (let elapsed = to_seconds (now - last_seen b);
          t = tokens b + elapsed * rps b;
          t = (if t > burst b then burst b else t);
          b = b\<lparr>last_seen := now\<rparr>
      in if t < 1 then (b\<lparr>tokens := t\<rparr>, False) else (b\<lparr>tokens := t - 1\<rparr>, True))"

section \<open>The limiter\<close>

record RateLimitConfig =
  RPS :: int
  Burst :: int

record RateLimiter =
  limiters :: "string \<Rightarrow> bucket option"
  defRPS :: int
  defBurst :: int
  overrides :: "string \<Rightarrow> RateLimitConfig option"

text \<open>The rate limit of \<open>config.Defaults()\<close>.\<close>

definition config_default_limit :: RateLimitConfig where
  "config_default_limit = \<lparr>RPS = 100, Burst = 200\<rparr>"

definition NewRateLimiter :: "RateLimitConfig \<Rightarrow> (string \<Rightarrow> RateLimitConfig option) \<Rightarrow> RateLimiter" where
  "NewRateLimiter cfg ovs =
     \<lparr>limiters = (\<lambda>_. None),
      defRPS = (if RPS cfg \<le> 0 then RPS config_default_limit else RPS cfg),
      defBurst = (if Burst cfg \<le> 0 then Burst config_default_limit else Burst cfg),
      overrides = ovs\<rparr>"

definition bucket_key :: "string \<Rightarrow> string \<Rightarrow> string" where
  "bucket_key key path = key @ ''|'' @ path"

definition limits_for :: "RateLimiter \<Rightarrow> string \<Rightarrow> int \<times> int" where
  "limits_for rl path =
     (case overrides rl path of
        None \<Rightarrow> (defRPS rl, defBurst rl)
      | Some ov \<Rightarrow>
          if RPS ov > 0 \<or> Burst ov > 0
          then (if RPS ov > 0 then RPS ov else defRPS rl, if Burst ov > 0 then Burst ov else defBurst rl)
          else (defRPS rl, defBurst rl))"

definition getLimiter :: "gotime \<Rightarrow> string \<Rightarrow> string \<Rightarrow> RateLimiter \<Rightarrow> RateLimiter \<times> bucket" where
  "getLimiter now key path rl =
     (let k = bucket_key key path in
      case limiters rl k of
        Some lmt \<Rightarrow> (rl, lmt)
      | None \<Rightarrow>
          let lmt = newBucket now (fst (limits_for rl path)) (snd (limits_for rl path))
          in (rl\<lparr>limiters := (limiters rl)(k \<mapsto> lmt)\<rparr>, lmt))"

text \<open>
  \<open>clientIP\<close>: the host of \<open>net.SplitHostPort\<close>, or the whole remote address when that fails.
\<close>

definition last_index :: "char \<Rightarrow> string \<Rightarrow> nat option" where
  "last_index c s =
     (if c \<in> set s then Some (length s - 1 - length (takeWhile (\<lambda>x. x \<noteq> c) (rev s))) else None)"

definition host_of :: "string \<Rightarrow> string option" where
  "host_of hp =
     (case last_index CHR '':'' hp of
        None \<Rightarrow> None
      | Some i \<Rightarrow>
          if hd hp = CHR ''[''
          then (let e = length (takeWhile (\<lambda>x. x \<noteq> CHR '']'') hp) in
                if CHR '']'' \<notin> set hp \<or> e + 1 \<noteq> i
                   \<or> CHR ''['' \<in> set (drop 1 hp) \<or> CHR '']'' \<in> set (drop (e + 1) hp)
                then None else Some (drop 1 (take e hp)))
          else (if CHR '':'' \<in> set (take i hp) \<or> CHR ''['' \<in> set hp \<or> CHR '']'' \<in> set hp
                then None else Some (take i hp)))"

definition clientIP :: "string \<Rightarrow> string" where
  "clientIP remote = (case host_of remote of None \<Rightarrow> remote | Some host \<Rightarrow> host)"

section \<open>The middleware\<close>

record request =
  req_at :: gotime
  RemoteAddr :: string
  url_path :: string

datatype outcome = Served | TooManyRequests

definition exempt :: "string \<Rightarrow> bool" where
  "exempt path \<longleftrightarrow> path = ''/healthz'' \<or> path = ''/readyz''"

definition request_key :: "request \<Rightarrow> string" where
  "request_key r = bucket_key (clientIP (RemoteAddr r)) (url_path r)"

definition Middleware :: "request \<Rightarrow> RateLimiter \<Rightarrow> RateLimiter \<times> outcome" where
  "Middleware r rl =
     (if exempt (url_path r) then (rl, Served)
      else (let ip = clientIP (RemoteAddr r);
                (rl, lmt) = getLimiter (req_at r) ip (url_path r) rl;
                (lmt, ok) = Allow (req_at r) lmt;
                rl = rl\<lparr>limiters := (limiters rl)(bucket_key ip (url_path r) \<mapsto> lmt)\<rparr>
            in (rl, if ok then Served else TooManyRequests)))"

fun serve_all :: "request list \<Rightarrow> RateLimiter \<Rightarrow> RateLimiter \<times> outcome list" where
  "serve_all [] rl = (rl, [])"
| "serve_all (r # rs) rl =
     (let (rl, o1) = Middleware r rl; (rl, os) = serve_all rs rl in (rl, o1 # os))"

section \<open>Keys\<close>

lemma bucket_key_inject:
  assumes "CHR ''|'' \<notin> set ip" "CHR ''|'' \<notin> set ip'"
  shows "bucket_key ip path = bucket_key ip' path' \<longleftrightarrow> ip = ip' \<and> path = path'"
proof
  assume eq: "bucket_key ip path = bucket_key ip' path'"
  have cut: "takeWhile (\<lambda>c. c \<noteq> CHR ''|'') (bucket_key i p) = i" if "CHR ''|'' \<notin> set i" for i p
  proof -
    have "\<forall>c \<in> set i. c \<noteq> CHR ''|''" using that by blast
    then show ?thesis by (simp add: bucket_key_def)
  qed
  have "ip = ip'" using arg_cong [OF eq, of "takeWhile (\<lambda>c. c \<noteq> CHR ''|'')"] cut [OF assms(1)] cut [OF assms(2)]
    by simp
  with eq show "ip = ip' \<and> path = path'" by (simp add: bucket_key_def)
qed simp

lemma set_host_of: "host_of hp = Some h \<Longrightarrow> set h \<subseteq> set hp"
  by (auto simp: host_of_def Let_def split: option.splits if_splits
      dest: in_set_takeD in_set_dropD)

lemma set_clientIP: "set (clientIP remote) \<subseteq> set remote"
  using set_host_of by (auto simp: clientIP_def split: option.splits)

section \<open>Well-formed buckets\<close>

definition wf_bucket :: "bucket \<Rightarrow> bool" where
  "wf_bucket b \<longleftrightarrow> 0 \<le> tokens b \<and> tokens b \<le> burst b \<and> 1 \<le> rps b \<and> 1 \<le> burst b"

text \<open>The tokens a bucket has at \<open>now\<close>, refilled and capped.\<close>

definition refilled :: "gotime \<Rightarrow> bucket \<Rightarrow> real" where
  "refilled now b = min (burst b) (tokens b + to_seconds (now - last_seen b) * rps b)"

lemma to_seconds_nonneg [simp]: "0 \<le> to_seconds d \<longleftrightarrow> 0 \<le> d"
  by (simp add: to_seconds_def zero_le_divide_iff)

lemma to_seconds_diff: "to_seconds (a - b) = to_seconds a - to_seconds b"
  by (simp add: to_seconds_def diff_divide_distrib)

lemma to_seconds_mono: "a \<le> b \<Longrightarrow> to_seconds a \<le> to_seconds b"
  by (simp add: to_seconds_def divide_right_mono)

lemma Allow_fields [simp]:
  "last_seen (fst (Allow now b)) = now" "rps (fst (Allow now b)) = rps b"
  "burst (fst (Allow now b)) = burst b"
  by (simp_all add: Allow_def Let_def)

lemma Allow_ok: "snd (Allow now b) \<longleftrightarrow> 1 \<le> refilled now b"
  by (auto simp: Allow_def Let_def refilled_def min_def)

lemma Allow_tokens:
  "tokens (fst (Allow now b)) = refilled now b - (if snd (Allow now b) then 1 else 0)"
  by (auto simp: Allow_def Let_def refilled_def min_def)

lemma wf_Allow:
  assumes "wf_bucket b" "last_seen b \<le> now"
  shows "wf_bucket (fst (Allow now b))"
proof -
  have "0 \<le> to_seconds (now - last_seen b) * rps b"
    using assms by (simp add: wf_bucket_def)
  then have "0 \<le> refilled now b" using assms(1) by (simp add: refilled_def wf_bucket_def)
  moreover have "refilled now b \<le> burst b" by (simp add: refilled_def)
  ultimately show ?thesis using assms(1) Allow_ok [of now b]
    by (simp add: wf_bucket_def Allow_tokens)
qed

lemma refilled_Allow:
  "refilled now (fst (Allow now b)) \<ge> 0 \<Longrightarrow>
   refilled now (fst (Allow now b)) \<le> refilled now b - (if snd (Allow now b) then 1 else 0)"
  by (simp add: refilled_def [of now "fst (Allow now b)"] Allow_tokens to_seconds_def)

lemma refilled_nonneg:
  assumes "wf_bucket b" "last_seen b \<le> now"
  shows "0 \<le> refilled now b"
proof -
  have "0 \<le> to_seconds (now - last_seen b) * rps b" using assms by (simp add: wf_bucket_def)
  then show ?thesis using assms(1) by (simp add: refilled_def wf_bucket_def)
qed

lemma refilled_later:
  assumes "wf_bucket b" "now \<le> later"
  shows "refilled later b \<le> refilled now b + to_seconds (later - now) * rps b"
proof -
  have "0 \<le> to_seconds (later - now) * rps b" using assms by (simp add: wf_bucket_def)
  moreover have "to_seconds (later - last_seen b) * rps b
      = to_seconds (now - last_seen b) * rps b + to_seconds (later - now) * rps b"
    by (simp add: to_seconds_diff algebra_simps)
  ultimately show ?thesis by (simp add: refilled_def)
qed

section \<open>The invariant of the limiter\<close>

definition good_limits :: "RateLimiter \<Rightarrow> bool" where
  "good_limits rl \<longleftrightarrow> (1 \<le> defRPS rl \<and> 1 \<le> defBurst rl)"

lemma good_NewRateLimiter: "good_limits (NewRateLimiter cfg ovs)"
  by (simp add: good_limits_def NewRateLimiter_def config_default_limit_def)

lemma limits_for_pos: "good_limits rl \<Longrightarrow> 1 \<le> fst (limits_for rl path) \<and> 1 \<le> snd (limits_for rl path)"
  by (auto simp: limits_for_def good_limits_def split: option.splits)

definition limiter_inv :: "gotime \<Rightarrow> RateLimiter \<Rightarrow> bool" where
  "limiter_inv now rl \<longleftrightarrow> good_limits rl \<and>
     (\<forall>k b. limiters rl k = Some b \<longrightarrow> wf_bucket b \<and> last_seen b \<le> now)"

lemma inv_NewRateLimiter: "limiter_inv now (NewRateLimiter cfg ovs)"
  by (simp add: limiter_inv_def good_NewRateLimiter) (simp add: NewRateLimiter_def)

lemma inv_later: "limiter_inv now rl \<Longrightarrow> now \<le> later \<Longrightarrow> limiter_inv later rl"
  by (fastforce simp: limiter_inv_def)

text \<open>The bucket that a request finds or creates.\<close>

definition bucket_for :: "request \<Rightarrow> RateLimiter \<Rightarrow> bucket" where
  "bucket_for r rl = snd (getLimiter (req_at r) (clientIP (RemoteAddr r)) (url_path r) rl)"

lemma wf_bucket_for:
  assumes "limiter_inv (req_at r) rl"
  shows "wf_bucket (bucket_for r rl)" "last_seen (bucket_for r rl) \<le> req_at r"
  using assms limits_for_pos [of rl "url_path r"]
  by (auto simp: bucket_for_def getLimiter_def limiter_inv_def Let_def newBucket_def wf_bucket_def
      split: option.splits)

lemma Middleware_exempt: "exempt (url_path r) \<Longrightarrow> Middleware r rl = (rl, Served)"
  by (simp add: Middleware_def)

lemma Middleware_state:
  "\<not> exempt (url_path r) \<Longrightarrow> limiters (fst (Middleware r rl)) =
     (limiters rl)(request_key r \<mapsto> fst (Allow (req_at r) (bucket_for r rl)))"
  by (auto simp: Middleware_def Let_def bucket_for_def getLimiter_def request_key_def fun_eq_iff
      split: prod.splits option.splits)

lemma Middleware_outcome:
  "\<not> exempt (url_path r) \<Longrightarrow>
     snd (Middleware r rl) = (if 1 \<le> refilled (req_at r) (bucket_for r rl) then Served else TooManyRequests)"
  by (auto simp: Middleware_def Let_def bucket_for_def simp flip: Allow_ok split: prod.splits)

lemma Middleware_config [simp]:
  "defRPS (fst (Middleware r rl)) = defRPS rl" "defBurst (fst (Middleware r rl)) = defBurst rl"
  "overrides (fst (Middleware r rl)) = overrides rl"
  by (auto simp: Middleware_def Let_def getLimiter_def split: prod.splits option.splits)

lemma limits_for_Middleware [simp]: "limits_for (fst (Middleware r rl)) = limits_for rl"
  by (rule ext) (simp add: limits_for_def split: option.split)

lemma inv_Middleware:
  assumes "limiter_inv now rl" "now \<le> req_at r"
  shows "limiter_inv (req_at r) (fst (Middleware r rl))"
proof (cases "exempt (url_path r)")
  case True
  then show ?thesis using inv_later [OF assms] by (simp add: Middleware_exempt)
next
  case False
  have inv: "limiter_inv (req_at r) rl" by (rule inv_later [OF assms])
  show ?thesis using inv wf_Allow [OF wf_bucket_for [OF inv]]
    unfolding limiter_inv_def Middleware_state [OF False] by (auto simp: good_limits_def)
qed

section \<open>Runs\<close>

text \<open>The times of a run: they do not decrease, and start no earlier than \<open>now\<close>.\<close>

definition in_order :: "gotime \<Rightarrow> request list \<Rightarrow> bool" where
  "in_order now rs \<longleftrightarrow> sorted (now # map req_at rs)"

lemma in_order_simps [simp]:
  "in_order now []" "in_order now (r # rs) \<longleftrightarrow> now \<le> req_at r \<and> in_order (req_at r) rs"
  by (auto simp: in_order_def)

lemma in_order_append:
  "in_order now (rs @ ss) \<longleftrightarrow> in_order now rs \<and> in_order (last (now # map req_at rs)) ss"
  by (induction rs arbitrary: now) auto

lemma serve_all_Cons:
  "snd (serve_all (r # rs) rl) = snd (Middleware r rl) # snd (serve_all rs (fst (Middleware r rl)))"
  "fst (serve_all (r # rs) rl) = fst (serve_all rs (fst (Middleware r rl)))"
  by (simp_all add: Let_def split: prod.splits)

declare serve_all.simps(2) [simp del]

lemma in_order_ge: "in_order now rs \<Longrightarrow> r \<in> set rs \<Longrightarrow> now \<le> req_at r"
  by (auto simp: in_order_def)

lemma in_order_le_last: "in_order now rs \<Longrightarrow> r \<in> set rs \<Longrightarrow> req_at r \<le> req_at (last rs)"
proof (induction rs arbitrary: now)
  case (Cons q rs)
  have "req_at q \<le> req_at (last rs)" if "rs \<noteq> []"
    using that Cons.prems(1) in_order_ge [of "req_at q" rs "last rs"] by simp
  with Cons show ?case by auto
qed simp

lemma serve_all_length [simp]: "length (snd (serve_all rs rl)) = length rs"
  by (induction rs arbitrary: rl) (simp_all add: serve_all_Cons)

lemma inv_serve_all:
  "limiter_inv now rl \<Longrightarrow> in_order now rs \<Longrightarrow>
     limiter_inv (last (now # map req_at rs)) (fst (serve_all rs rl))"
proof (induction rs arbitrary: now rl)
  case (Cons r rs)
  then have "limiter_inv (req_at r) (fst (Middleware r rl))" by (auto intro: inv_Middleware)
  from Cons.IH [OF this] Cons.prems(2) show ?case by (simp add: serve_all_Cons)
qed simp

lemma limits_for_serve_all [simp]: "limits_for (fst (serve_all rs rl)) = limits_for rl"
proof (induction rs arbitrary: rl)
  case (Cons r rs)
  from Cons [of "fst (Middleware r rl)"] show ?case by (simp add: serve_all_Cons)
qed simp

section \<open>How much one key is served\<close>

text \<open>The requests of one key that a run served.\<close>

definition served_of :: "string \<Rightarrow> request list \<Rightarrow> outcome list \<Rightarrow> nat" where
  "served_of k rs os =
     length (filter (\<lambda>(r, out). request_key r = k \<and> out = Served) (zip rs os))"

text \<open>Every bucket of the key runs at \<open>rate\<close> up to \<open>cap\<close>, the present one and the one created next.\<close>

definition runs_at :: "string \<Rightarrow> real \<Rightarrow> real \<Rightarrow> RateLimiter \<Rightarrow> request list \<Rightarrow> bool" where
  "runs_at k rate cap rl rs \<longleftrightarrow>
     (\<forall>b. limiters rl k = Some b \<longrightarrow> rps b = rate \<and> burst b = cap) \<and>
     (\<forall>r \<in> set rs. request_key r = k \<longrightarrow> \<not> exempt (url_path r) \<and>
        real_of_int (fst (limits_for rl (url_path r))) = rate \<and>
        real_of_int (snd (limits_for rl (url_path r))) = cap)"

definition tokens_left :: "gotime \<Rightarrow> string \<Rightarrow> real \<Rightarrow> RateLimiter \<Rightarrow> real" where
  "tokens_left now k cap rl = (case limiters rl k of None \<Rightarrow> cap | Some b \<Rightarrow> refilled now b)"

lemma tokens_left_le: "runs_at k rate cap rl rs \<Longrightarrow> tokens_left now k cap rl \<le> cap"
  by (auto simp: tokens_left_def runs_at_def refilled_def split: option.splits)

lemma bucket_for_runs:
  assumes "runs_at k rate cap rl (r # rs)" "request_key r = k"
  shows "rps (bucket_for r rl) = rate" "burst (bucket_for r rl) = cap"
    "refilled (req_at r) (bucket_for r rl) = tokens_left (req_at r) k cap rl"
  using assms
  by (auto simp: runs_at_def bucket_for_def getLimiter_def request_key_def newBucket_def Let_def
      tokens_left_def refilled_def to_seconds_def split: option.splits)

lemma runs_at_Middleware:
  assumes "runs_at k rate cap rl (r # rs)"
  shows "runs_at k rate cap (fst (Middleware r rl)) rs"
proof (cases "exempt (url_path r)")
  case True
  then show ?thesis using assms by (simp add: Middleware_exempt runs_at_def)
next
  case False
  then show ?thesis using assms bucket_for_runs(1,2) [OF assms]
    by (auto simp: runs_at_def Middleware_state split: if_splits)
qed

lemma tokens_left_later:
  assumes inv: "limiter_inv now rl" and run: "runs_at k rate cap rl rs"
    and rate: "0 \<le> rate" and later: "now \<le> later"
  shows "tokens_left later k cap rl \<le> tokens_left now k cap rl + to_seconds (later - now) * rate"
proof (cases "limiters rl k")
  case None
  then show ?thesis using rate later by (simp add: tokens_left_def)
next
  case (Some b)
  then show ?thesis using refilled_later [OF _ later, of b] inv run
    by (auto simp: tokens_left_def limiter_inv_def runs_at_def)
qed

lemma tokens_left_Middleware:
  assumes inv: "limiter_inv (req_at r) rl" and run: "runs_at k rate cap rl (r # rs)"
  shows "tokens_left (req_at r) k cap (fst (Middleware r rl))
      + (if request_key r = k \<and> snd (Middleware r rl) = Served then 1 else 0)
    \<le> tokens_left (req_at r) k cap rl"
proof (cases "request_key r = k")
  case False
  then show ?thesis
    by (cases "exempt (url_path r)") (auto simp: Middleware_exempt tokens_left_def Middleware_state)
next
  case True
  with run have ne: "\<not> exempt (url_path r)" by (auto simp: runs_at_def)
  note b = bucket_for_runs [OF run True]
  let ?b = "bucket_for r rl"
  have wf: "wf_bucket (fst (Allow (req_at r) ?b))" by (rule wf_Allow [OF wf_bucket_for [OF inv]])
  then have "0 \<le> refilled (req_at r) (fst (Allow (req_at r) ?b))"
    by (simp add: refilled_def wf_bucket_def to_seconds_def)
  from refilled_Allow [OF this] show ?thesis
    using True by (simp add: tokens_left_def Middleware_state [OF ne] Middleware_outcome [OF ne]
        Allow_ok b(3) split: if_splits)
qed

lemma served_of_Cons:
  "served_of k (r # rs) (out # os) =
     (if request_key r = k \<and> out = Served then 1 else 0) + served_of k rs os"
  by (simp add: served_of_def)

lemma served_le_tokens:
  assumes "limiter_inv now rl" "runs_at k rate cap rl rs" "in_order now rs" "0 \<le> rate"
    and "now \<le> fin" "\<forall>r \<in> set rs. req_at r \<le> fin" "0 \<le> cap"
  shows "real (served_of k rs (snd (serve_all rs rl)))
           \<le> tokens_left now k cap rl + to_seconds (fin - now) * rate"
  using assms
proof (induction rs arbitrary: now rl)
  case Nil
  have "0 \<le> tokens_left now k cap rl"
    using Nil.prems(1,7)
    by (auto simp: tokens_left_def limiter_inv_def intro: refilled_nonneg split: option.splits)
  moreover have "0 \<le> to_seconds (fin - now) * rate" using Nil.prems(4,5) by simp
  ultimately show ?case by (simp add: served_of_def)
next
  case (Cons r rs)
  let ?rl = "fst (Middleware r rl)"
  have t: "now \<le> req_at r" "in_order (req_at r) rs" using Cons.prems(3) by simp_all
  have "real (served_of k rs (snd (serve_all rs ?rl)))
      \<le> tokens_left (req_at r) k cap ?rl + to_seconds (fin - req_at r) * rate"
    using Cons.prems by (intro Cons.IH inv_Middleware runs_at_Middleware) auto
  moreover have "tokens_left (req_at r) k cap ?rl
      + (if request_key r = k \<and> snd (Middleware r rl) = Served then 1 else 0)
      \<le> tokens_left (req_at r) k cap rl"
    by (rule tokens_left_Middleware [OF inv_later [OF Cons.prems(1) t(1)] Cons.prems(2)])
  moreover have "tokens_left (req_at r) k cap rl
      \<le> tokens_left now k cap rl + to_seconds (req_at r - now) * rate"
    by (rule tokens_left_later [OF Cons.prems(1,2,4) t(1)])
  moreover have "to_seconds (fin - now) * rate
      = to_seconds (fin - req_at r) * rate + to_seconds (req_at r - now) * rate"
    by (simp add: to_seconds_diff algebra_simps)
  ultimately show ?case
    by (cases "request_key r = k \<and> snd (Middleware r rl) = Served") (auto simp: serve_all_Cons served_of_Cons)
qed


lemma last_seen_bound:
  assumes "\<forall>q \<in> set rs. request_key q = k \<longrightarrow> req_at q + d \<le> t"
    and "\<forall>b. limiters rl k = Some b \<longrightarrow> last_seen b + d \<le> t"
  shows "\<forall>b. limiters (fst (serve_all rs rl)) k = Some b \<longrightarrow> last_seen b + d \<le> t"
  using assms
proof (induction rs arbitrary: rl)
  case (Cons r rs)
  have "\<forall>b. limiters (fst (Middleware r rl)) k = Some b \<longrightarrow> last_seen b + d \<le> t"
    using Cons.prems by (cases "exempt (url_path r)") (auto simp: Middleware_exempt Middleware_state)
  with Cons show ?case by (simp add: serve_all_Cons)
qed simp

lemma isolation:
  assumes "limiters rl k = limiters rl' k" "limits_for rl = limits_for rl'"
  shows "map snd (filter (\<lambda>(r, out). request_key r = k) (zip rs (snd (serve_all rs rl))))
     = snd (serve_all (filter (\<lambda>r. request_key r = k) rs) rl')"
  using assms
proof (induction rs arbitrary: rl rl')
  case (Cons r rs)
  show ?case
  proof (cases "request_key r = k")
    case False
    then have "limiters (fst (Middleware r rl)) k = limiters rl k"
      by (cases "exempt (url_path r)") (simp_all add: Middleware_exempt Middleware_state)
    with Cons.IH [of "fst (Middleware r rl)" rl'] Cons.prems False show ?thesis
      by (simp add: serve_all_Cons)
  next
    case True
    have same: "bucket_for r rl = bucket_for r rl'"
      using True Cons.prems
      by (auto simp: bucket_for_def getLimiter_def request_key_def Let_def split: option.splits)
    then have "snd (Middleware r rl) = snd (Middleware r rl')"
      by (cases "exempt (url_path r)") (simp_all add: Middleware_exempt Middleware_outcome)
    moreover have "limiters (fst (Middleware r rl)) k = limiters (fst (Middleware r rl')) k"
      using True same Cons.prems(1)
      by (cases "exempt (url_path r)") (simp_all add: Middleware_exempt Middleware_state)
    ultimately show ?thesis
      using Cons.IH [of "fst (Middleware r rl)" "fst (Middleware r rl')"] Cons.prems(2) True
      by (simp add: serve_all_Cons)
  qed
qed simp

section \<open>The guarantees of the limiter\<close>

text \<open>The requests of one client for one path that a run served.\<close>

definition admitted :: "string \<Rightarrow> string \<Rightarrow> request list \<Rightarrow> outcome list \<Rightarrow> nat" where
  "admitted ip path rs os =
     length (filter (\<lambda>(r, out). clientIP (RemoteAddr r) = ip \<and> url_path r = path \<and> out = Served) (zip rs os))"

lemma admitted_served_of:
  assumes "\<forall>r \<in> set rs. CHR ''|'' \<notin> set (RemoteAddr r)" "CHR ''|'' \<notin> set ip"
  shows "admitted ip path rs os = served_of (bucket_key ip path) rs os"
proof -
  have "clientIP (RemoteAddr r) = ip \<and> url_path r = path \<longleftrightarrow> request_key r = bucket_key ip path"
    if "r \<in> set rs" for r
    using bucket_key_inject [of "clientIP (RemoteAddr r)" ip] assms that set_clientIP [of "RemoteAddr r"]
    by (auto simp: request_key_def)
  then show ?thesis unfolding admitted_def served_of_def
    by (intro arg_cong [where f = length] filter_cong refl) (auto dest: set_zip_leftD)
qed

text \<open>The buckets of a run keep the limits of their own path.\<close>

definition own_limits :: "RateLimiter \<Rightarrow> bool" where
  "own_limits rl \<longleftrightarrow>
     (\<forall>ip path b. CHR ''|'' \<notin> set ip \<longrightarrow> limiters rl (bucket_key ip path) = Some b \<longrightarrow>
        rps b = real_of_int (fst (limits_for rl path)) \<and> burst b = real_of_int (snd (limits_for rl path)))"

lemma own_limits_Middleware:
  assumes own: "own_limits rl" and bar: "CHR ''|'' \<notin> set (RemoteAddr r)"
  shows "own_limits (fst (Middleware r rl))"
proof (cases "exempt (url_path r)")
  case True
  then show ?thesis using own by (simp add: Middleware_exempt)
next
  case False
  have ip: "CHR ''|'' \<notin> set (clientIP (RemoteAddr r))" using bar set_clientIP by fastforce
  have b: "rps (bucket_for r rl) = real_of_int (fst (limits_for rl (url_path r)))
      \<and> burst (bucket_for r rl) = real_of_int (snd (limits_for rl (url_path r)))"
    using own ip by (auto simp: bucket_for_def getLimiter_def Let_def newBucket_def own_limits_def
        split: option.splits)
  show ?thesis using own b ip
    by (auto simp: own_limits_def Middleware_state [OF False] request_key_def bucket_key_inject
        split: if_splits)
qed

lemma own_limits_runs_at:
  assumes "own_limits rl" "\<forall>r \<in> set rs. CHR ''|'' \<notin> set (RemoteAddr r)"
    and "CHR ''|'' \<notin> set ip" "\<not> exempt path"
  shows "runs_at (bucket_key ip path) (real_of_int (fst (limits_for rl path)))
           (real_of_int (snd (limits_for rl path))) rl rs"
proof -
  have "url_path r = path" if "r \<in> set rs" "request_key r = bucket_key ip path" for r
  proof -
    have "CHR ''|'' \<notin> set (clientIP (RemoteAddr r))" using assms(2) that(1) set_clientIP by blast
    then show ?thesis using that(2) assms(3) by (simp add: request_key_def bucket_key_inject)
  qed
  then show ?thesis using assms(1,3,4) by (auto simp: runs_at_def own_limits_def)
qed

lemma own_limits_serve_all:
  "own_limits rl \<Longrightarrow> \<forall>r \<in> set rs. CHR ''|'' \<notin> set (RemoteAddr r) \<Longrightarrow> own_limits (fst (serve_all rs rl))"
  by (induction rs arbitrary: rl)
    (simp_all add: serve_all_Cons own_limits_Middleware)

lemma own_limits_New: "own_limits (NewRateLimiter cfg ovs)"
  by (simp add: own_limits_def NewRateLimiter_def)

text \<open>C12: The rate limit holds: in every window of a run of the server, the requests of one client
for one path that are served number at most the burst of the path plus its rate times the length of
the window (in seconds), whatever was asked before and whatever the other clients ask meanwhile.\<close>

theorem rate_limit_holds:
  assumes "in_order start (past @ win)"
    and "\<forall>r \<in> set (past @ win). CHR ''|'' \<notin> set (RemoteAddr r)"
    and "CHR ''|'' \<notin> set ip" "\<not> exempt path" "win \<noteq> []"
  shows "real (admitted ip path win
           (snd (serve_all win (fst (serve_all past (NewRateLimiter cfg ovs))))))
         \<le> real_of_int (snd (limits_for (NewRateLimiter cfg ovs) path))
           + real_of_int (fst (limits_for (NewRateLimiter cfg ovs) path))
             * to_seconds (req_at (last win) - req_at (hd win))"
proof -
  let ?new = "NewRateLimiter cfg ovs"
  let ?rl = "fst (serve_all past ?new)" and ?k = "bucket_key ip path"
  let ?R = "real_of_int (fst (limits_for ?new path))" and ?B = "real_of_int (snd (limits_for ?new path))"
  obtain r rs where win: "win = r # rs" using assms(5) by (cases win) auto
  have order: "in_order start past" "in_order (last (start # map req_at past)) win"
    using assms(1) by (simp_all only: in_order_append)
  then have later: "last (start # map req_at past) \<le> req_at r" and inner: "in_order (req_at r) win"
    using win by auto
  have inv: "limiter_inv (req_at r) ?rl"
    by (rule inv_later [OF inv_serve_all [OF inv_NewRateLimiter order(1)] later])
  have "own_limits ?rl" by (rule own_limits_serve_all [OF own_limits_New]) (use assms(2) in auto)
  then have "runs_at ?k (real_of_int (fst (limits_for ?rl path))) (real_of_int (snd (limits_for ?rl path))) ?rl win"
    by (rule own_limits_runs_at) (use assms(2-4) in auto)
  then have run: "runs_at ?k ?R ?B ?rl win" by simp
  have fin: "\<forall>q \<in> set win. req_at q \<le> req_at (last win)"
    using in_order_le_last [OF inner] by simp
  have pos: "0 \<le> ?R" "0 \<le> ?B" using limits_for_pos [OF good_NewRateLimiter, of cfg ovs path] by auto
  have "real (served_of ?k win (snd (serve_all win ?rl)))
      \<le> tokens_left (req_at r) ?k ?B ?rl + to_seconds (req_at (last win) - req_at r) * ?R"
    using fin win pos by (intro served_le_tokens inv run inner) auto
  moreover have "tokens_left (req_at r) ?k ?B ?rl \<le> ?B" by (rule tokens_left_le [OF run])
  ultimately show ?thesis
    using admitted_served_of [of win ip path] assms(2,3) win by (simp add: mult.commute)
qed

text \<open>A client that is told to retry after one second is served when it does: when a request
comes at least one second after every earlier request with the same client and path, it is never
rejected, so the fixed \<open>Retry-After: 1\<close> of the 429 answer tells the truth.\<close>

theorem retry_after_one_second:
  assumes "in_order start (past @ [r])"
    and "\<forall>q \<in> set past. request_key q = request_key r \<longrightarrow> req_at q + second_ns \<le> req_at r"
  shows "snd (Middleware r (fst (serve_all past (NewRateLimiter cfg ovs)))) = Served"
proof -
  let ?new = "NewRateLimiter cfg ovs"
  let ?rl = "fst (serve_all past ?new)"
  show ?thesis
  proof (cases "exempt (url_path r)")
    case False
    have order: "in_order start past" "last (start # map req_at past) \<le> req_at r"
      using assms(1) by (simp_all add: in_order_append)
    have inv: "limiter_inv (req_at r) ?rl"
      by (rule inv_later [OF inv_serve_all [OF inv_NewRateLimiter order(1)] order(2)])
    have seen: "\<forall>b. limiters ?rl (request_key r) = Some b \<longrightarrow> last_seen b + second_ns \<le> req_at r"
      by (rule last_seen_bound) (use assms(2) in \<open>auto simp: NewRateLimiter_def\<close>)
    have "1 \<le> refilled (req_at r) (bucket_for r ?rl)"
    proof (cases "limiters ?rl (request_key r)")
      case None
      then show ?thesis using limits_for_pos [of ?rl "url_path r"] inv
        by (simp add: bucket_for_def getLimiter_def request_key_def refilled_def newBucket_def
            to_seconds_def limiter_inv_def Let_def)
    next
      case (Some b)
      then have b: "bucket_for r ?rl = b" by (simp add: bucket_for_def getLimiter_def request_key_def)
      have wf: "wf_bucket b" using inv Some by (simp add: limiter_inv_def)
      have "1 \<le> to_seconds (req_at r - last_seen b)"
        using seen Some by (simp add: to_seconds_def second_ns_def)
      then have "1 * 1 \<le> to_seconds (req_at r - last_seen b) * rps b"
        using wf inv Some by (intro mult_mono) (auto simp: wf_bucket_def limiter_inv_def)
      then show ?thesis using wf by (simp add: b refilled_def wf_bucket_def)
    qed
    then show ?thesis by (simp add: Middleware_outcome [OF False])
  qed (simp add: Middleware_exempt)
qed

text \<open>Clients do not affect each other: the answers that the requests of one key (client address
and path) get in a run mixed with any other requests are the answers they get alone.\<close>

theorem keys_are_isolated:
  "map snd (filter (\<lambda>(r, out). request_key r = k) (zip rs (snd (serve_all rs rl))))
     = snd (serve_all (filter (\<lambda>r. request_key r = k) rs) rl)"
  by (rule isolation) (simp_all)


section \<open>Witnesses\<close>

definition demo_req :: "gotime \<Rightarrow> string \<Rightarrow> request" where
  "demo_req t ip = \<lparr>req_at = t, RemoteAddr = ip, url_path = ''/mcp''\<rparr>"

lemma demo_req_fields [simp]:
  "req_at (demo_req t ip) = t" "RemoteAddr (demo_req t ip) = ip" "url_path (demo_req t ip) = ''/mcp''"
  by (simp_all add: demo_req_def)

definition demo_cfg :: RateLimitConfig where
  "demo_cfg = \<lparr>RPS = 1, Burst = 1\<rparr>"

lemma clientIP_demo: "clientIP ''1.1.1.1:80'' = ''1.1.1.1''" "clientIP ''[::1]:80'' = ''::1''" "clientIP ''pipe'' = ''pipe''"
  by (simp_all add: clientIP_def host_of_def last_index_def Let_def)

lemma demo_run:
  "snd (serve_all [demo_req 0 ''1.1.1.1:80'', demo_req 5 ''1.1.1.1:81'']
      (fst (serve_all [] (NewRateLimiter demo_cfg (\<lambda>_. None))))) = [Served, TooManyRequests]"
  by (simp add: serve_all_Cons Middleware_def demo_req_def exempt_def getLimiter_def NewRateLimiter_def
      demo_cfg_def limits_for_def newBucket_def Allow_def to_seconds_def bucket_key_def clientIP_demo
      clientIP_def host_of_def last_index_def Let_def)

lemma demo_limits: "limits_for (NewRateLimiter demo_cfg (\<lambda>_. None)) path = (1, 1)"
  by (simp add: limits_for_def NewRateLimiter_def demo_cfg_def)

lemma rate_limit_holds_witness:
  "real (admitted ''1.1.1.1'' ''/mcp'' [demo_req 0 ''1.1.1.1:80'', demo_req 5 ''1.1.1.1:81'']
      [Served, TooManyRequests]) \<le> 1 + 1 * to_seconds 5"
  using rate_limit_holds [of 0 "[]" "[demo_req 0 ''1.1.1.1:80'', demo_req 5 ''1.1.1.1:81'']"
      "''1.1.1.1''" "''/mcp''" demo_cfg "\<lambda>_. None", unfolded demo_run demo_limits]
  by (simp add: exempt_def)

lemma retry_after_one_second_witness:
  "snd (Middleware (demo_req 2000000000 ''1.1.1.1:80'')
     (fst (serve_all [demo_req 0 ''1.1.1.1:80'', demo_req 5 ''1.1.1.1:81'']
        (NewRateLimiter demo_cfg (\<lambda>_. None))))) = Served"
  by (rule retry_after_one_second [of 0]) (simp_all add: demo_req_def second_ns_def)

end
