(* ===== verification/SyncRows.thy ===== *)
theory SyncRows
  imports Prelude
begin

text \<open>
  The rows of terminals, synchronisation runs, reviews, staged trips and the outbox
  (\<open>store/models.go\<close>, \<open>store/store.go\<close>), with the records of the synchronisation that they are made of
  (\<open>model/adapted.go\<close>, \<open>model/places.go\<close>, \<open>sync/trips_attach.go\<close>). A column that holds printed
  coordinates or encoded JSON holds here the value that is printed or encoded.
\<close>

section \<open>Records of the synchronisation\<close>

record AdaptedIdentifier =
  ai_system :: string
  ai_code_type :: string
  ai_code :: string

record MatchedStopTime =
  mt_seq :: int
  mt_terminal :: int
  mt_stop :: string
  mt_arr :: int
  mt_dep :: int
  mt_codes :: "AdaptedIdentifier list"
  mt_provisional :: bool
  mt_score :: real
  mt_method :: string

datatype stage_reason = StageText string | SoftSpeed nat real

record ReviewQueueEntry =
  rq_entity_type :: string
  rq_entity_id :: int
  rq_reason :: string
  rq_score :: real
  rq_fingerprint :: string

record Provenance =
  pv_entity_type :: string
  pv_entity_id :: int
  pv_source :: string
  pv_confidence :: real
  pv_observed :: gotime

section \<open>Rows\<close>

record TerminalRow =
  te_id :: int
  te_place :: "int option"
  te_lat :: real
  te_lon :: real
  te_tz :: string
  te_validity_from :: "string option"
  te_validity_to :: "string option"
  te_valid_from :: string
  te_valid_to :: "string option"
  te_verified_at :: "int option"
  te_locked :: bool
  te_address :: string
  te_transport :: "string list"
  te_object_type :: string
  te_enrichment :: string

record TerminalAliasRow =
  al_terminal :: int
  al_alias :: string
  al_lang :: string
  al_source :: string
  al_observed :: int

text \<open>The value of an attribute: a text, or coordinates printed with a comma between them.\<close>

datatype attr_value = AttrText string | AttrGeom real real

record AttributeStateRow =
  as_entity_type :: string
  as_entity_id :: int
  as_field :: string
  as_value :: attr_value
  as_source :: string
  as_confidence :: real
  as_origin :: string
  as_actor :: "int option"
  as_run :: "int option"

record SyncRunRow =
  sy_id :: int
  sy_plan :: string
  sy_kind :: string
  sy_sha :: string
  sy_tag :: string
  sy_state :: string
  sy_summary :: string

record SyncChunkRow =
  ch_id :: int
  ch_run :: int
  ch_entity :: string
  ch_key :: string
  ch_state :: string
  ch_plan_done :: string
  ch_attempts :: int
  ch_last_error :: string

record ProvenanceVote =
  vo_source :: string
  vo_confidence :: real
  vo_observed :: int

record LegacyTerminalRow =
  lg_id :: int
  lg_name :: string
  lg_name_en :: string
  lg_lat :: real
  lg_lon :: real
  lg_tz :: string
  lg_ids :: "AdaptedIdentifier list"
  lg_votes :: "ProvenanceVote list"

record SkeletonTerminalRow =
  sk_id :: int
  sk_name :: string
  sk_lat :: real
  sk_lon :: real
  sk_settlement :: string
  sk_transport :: string
  sk_ids :: "AdaptedIdentifier list"
  sk_enrichment :: string

record ReviewQueueRow =
  rw_entity_type :: string
  rw_entity_id :: int
  rw_reason :: string
  rw_score :: real
  rw_created :: int
  rw_fingerprint :: string
  rw_state :: string
  rw_count :: int

text \<open>What the raw column of a staged trip encodes.\<close>

record route_raw =
  rr_route_reg :: string
  rr_direction :: string
  rr_service :: int
  rr_run :: int
  rr_carrier :: string
  rr_carrier_inn :: string
  rr_weekdays :: "int list"
  rr_reason :: stage_reason

record StagingTripRow =
  sw_id :: int
  sw_source :: string
  sw_route :: string \<comment> \<open>\<open>ExternalRouteCode\<close>\<close>
  sw_trip :: string \<comment> \<open>\<open>ExternalTripCode\<close>\<close>
  sw_synthetic :: bool
  sw_raw :: "route_raw option"
  sw_region :: string
  sw_transport :: string
  sw_state :: string
  sw_matched :: "MatchedStopTime list"
  sw_unmatched :: "string list"
  sw_retry :: int
  sw_last_attempt :: gotime

record TripSourceRow =
  ts_trip :: int
  ts_source :: string
  ts_price :: "real option"
  ts_currency :: "string option"
  ts_url :: "string option"
  ts_duration :: "int option"
  ts_distance :: "int option"
  ts_method :: "string option"

record OutboxEvent =
  ob_id :: int
  ob_aggregate :: string
  ob_aggregate_id :: string
  ob_event :: string
  ob_payload :: string

record AuditLogRow =
  au_id :: int
  au_user :: "int option"
  au_action :: string
  au_entity_type :: string
  au_entity_id :: "int option"
  au_at :: int
  au_details :: string

end
