(* ===== verification/MemStore.thy ===== *)
theory MemStore
  imports GoText SyncRows
begin

text \<open>
  The state of the in-memory store (\<open>store/memory/store.go\<close>, \<open>store/memory/pricing.go\<close>) with the
  row types of \<open>store/models.go\<close>: the tables of the timetable, of the accounts and of the job
  queue, and those of \<open>SyncRows\<close>. A table is a Go map from identifiers to rows; the code ranges over most
  of them, so they are association lists, whose order stands for the iteration order of that run. An outer map
  of maps that is only looked up is a function, with an empty inner map where there is none. Every
  method takes the store's mutex for its whole body, so a method is one function from store
  to store. The wall clock is a field of the state that the methods only read: the environment,
  and a job handler, may advance it. The random key generator is an argument.
\<close>

section \<open>Rows\<close>

record CityRow =
  ci_id :: int
  ci_name :: string
  ci_region :: string
  ci_lat :: real
  ci_lon :: real
  ci_timezone :: string
  ci_population :: int
  ci_kind :: string
  ci_source :: string

record StationRow =
  sn_id :: int
  sn_name :: string
  sn_lat :: real
  sn_lon :: real
  sn_cell :: int
  sn_region :: string
  sn_timezone :: string
  sn_quality :: int
  sn_provider :: string \<comment> \<open>\<open>PrimaryProvider\<close>\<close>
  sn_city :: "int option"

record StationCodeRow =
  sc_station :: int
  sc_provider :: string
  sc_type :: string
  sc_code :: string
  sc_form :: string
  sc_address :: string

record StopRow =
  so_id :: int
  so_terminal :: int
  so_station :: int
  so_provider :: string
  so_code :: string \<comment> \<open>\<open>ExternalCode\<close>\<close>
  so_type :: string
  so_transport :: string
  so_name :: string
  so_raw :: string
  so_lat :: real
  so_lon :: real

record CarrierRow =
  ca_id :: int
  ca_provider :: string
  ca_name :: string
  ca_code :: string
  ca_inn :: string
  ca_address :: string
  ca_iata :: string
  ca_icao :: string
  ca_sirena :: string

record RouteRow =
  ro_id :: int
  ro_provider :: string
  ro_carrier :: int
  ro_code :: string \<comment> \<open>\<open>ExternalRouteCode\<close>\<close>
  ro_short :: string
  ro_long :: string
  ro_mode :: string
  ro_uid :: string
  ro_ord :: int
  ro_valid_to :: "string option"

record TripRow =
  tp_id :: int
  tp_route :: int
  tp_provider :: string
  tp_code :: string \<comment> \<open>\<open>ExternalTripCode\<close>\<close>
  tp_direction :: string
  tp_direction_id :: "int option"
  tp_days :: string \<comment> \<open>\<open>ServiceDays\<close>\<close>
  tp_frequency :: int
  tp_period :: string
  tp_service :: int
  tp_duration :: "int option"
  tp_distance :: "int option"
  tp_method :: "string option"
  tp_valid_to :: "string option"

record FrequencyRow =
  fq_trip :: int
  fq_start :: int
  fq_end :: int
  fq_headway :: int
  fq_count :: int
  fq_exact :: int

record StopTimeRow =
  sr_trip :: int
  sr_stop :: int
  sr_seq :: int
  sr_arr :: int
  sr_dep :: int
  sr_pickup :: int
  sr_dropoff :: int
  sr_dwell :: int
  sr_provisional :: bool
  sr_score :: "real option"
  sr_method :: string

record TransferRow =
  tf_from :: int
  tf_to :: int
  tf_minutes :: int
  tf_min_time :: int
  tf_distance :: int
  tf_within :: int

record QualityRow =
  ql_provider :: string
  ql_entity :: string
  ql_entity_id :: string
  ql_level :: string
  ql_code :: string
  ql_msg :: string
  ql_at :: int

record FareAttributeRow =
  fw_id :: string
  fw_price :: real
  fw_currency :: string
  fw_payment :: int
  fw_transfers :: "int option"
  fw_duration :: "int option"
  fw_basis :: string

record FareRuleRow =
  fl_fare :: string
  fl_route :: int
  fl_origin :: "string option"
  fl_dest :: "string option"
  fl_contains :: "string option"

record ZoneRow =
  zr_id :: string
  zr_ru :: string
  zr_en :: string

record StopZoneRow =
  sz_stop :: int
  sz_zone :: string

record ImportRow =
  im_provider :: string
  im_at :: int
  im_records :: int
  im_status :: string
  im_snapshot :: string
  im_checksum :: string
  im_issues :: int

record UserRow =
  u_id :: int
  u_email :: string
  u_pass :: string
  u_status :: string
  u_role :: string
  u_created :: int
  u_config :: string

record ApiKeyRow =
  k_id :: int
  k_user :: int
  k_key :: string
  k_scopes :: string
  k_created :: int
  k_last_used :: int

record QuotaRow =
  q_provider :: string
  q_day :: string
  q_used :: int
  q_limit :: int
  q_reset :: "string option"

record ApiCallRow =
  ac_id :: int
  ac_provider :: string
  ac_endpoint :: string
  ac_at :: int
  ac_cost :: int

record JobRow =
  jb_id :: int
  jb_type :: string
  jb_payload :: string
  jb_region :: string
  jb_state :: string
  jb_attempts :: int
  jb_next_run :: string
  jb_last_error :: string
  jb_created :: int

section \<open>The store\<close>

record MemoryStore =
  m_cities :: "(int \<times> CityRow) list"
  m_stations :: "(int \<times> StationRow) list"
  m_stops :: "(int \<times> StopRow) list"
  m_station_codes :: "StationCodeRow list"
  m_carriers :: "(int \<times> CarrierRow) list"
  m_routes :: "(int \<times> RouteRow) list"
  m_trips :: "(int \<times> TripRow) list"
  m_frequencies :: "FrequencyRow list"
  m_stop_times :: "StopTimeRow list"
  m_transfers :: "TransferRow list"
  m_quality :: "QualityRow list"
  m_imports :: "(string \<times> gotime) list"
  m_users :: "(int \<times> UserRow) list"
  m_users_by_email :: "(string \<times> int) list"
  m_api_keys :: "(int \<times> ApiKeyRow) list"
  m_api_keys_by_key :: "(string \<times> int) list"
  m_quotas :: "(string \<times> QuotaRow) list"
  m_api_calls :: "ApiCallRow list"
  m_jobs :: "(int \<times> JobRow) list"
  m_audit :: "AuditLogRow list"
  m_terminals :: "(int \<times> TerminalRow) list"
  m_terminal_names :: "int \<Rightarrow> (string \<times> string) list"
  m_terminal_tags :: "int \<Rightarrow> string \<rightharpoonup> string"
  m_aliases :: "int \<Rightarrow> (string \<times> TerminalAliasRow) list"
  m_attr_states :: "(string \<times> AttributeStateRow) list"
  m_sync_runs :: "(int \<times> SyncRunRow) list"
  m_sync_chunks :: "(int \<times> SyncChunkRow) list"
  m_terminal_idents :: "(int \<times> AdaptedIdentifier list) list"
  m_provenance :: "(string \<times> ProvenanceVote) list"
  m_review :: "ReviewQueueRow list"
  m_staging :: "(string \<times> StagingTripRow) list"
  m_trip_sources :: "int \<Rightarrow> string \<rightharpoonup> TripSourceRow"
  m_outbox :: "OutboxEvent list"
  m_next_id :: int
  m_clock :: gotime \<comment> \<open>what \<open>time.Now()\<close> reads\<close>
  m_zone :: duration \<comment> \<open>the offset of the server's zone\<close>

definition NewMemoryStore :: "gotime \<Rightarrow> duration \<Rightarrow> MemoryStore" where
  "NewMemoryStore now off =
     \<lparr>m_cities = [], m_stations = [], m_stops = [], m_station_codes = [], m_carriers = [], m_routes = [],
      m_trips = [], m_frequencies = [], m_stop_times = [], m_transfers = [], m_quality = [], m_imports = [],
      m_users = [], m_users_by_email = [], m_api_keys = [], m_api_keys_by_key = [],
      m_quotas = [], m_api_calls = [], m_jobs = [], m_audit = [], m_terminals = [], m_terminal_names = (\<lambda>_. []),
      m_terminal_tags = (\<lambda>_. Map.empty), m_aliases = (\<lambda>_. []), m_attr_states = [], m_sync_runs = [], m_sync_chunks = [],
      m_terminal_idents = [], m_provenance = [], m_review = [], m_staging = [], m_trip_sources = (\<lambda>_. Map.empty),
      m_outbox = [], m_next_id = 1,
      m_clock = now, m_zone = off\<rparr>"

definition allocID :: "MemoryStore \<Rightarrow> MemoryStore \<times> int" where
  "allocID m = (m\<lparr>m_next_id := m_next_id m + 1\<rparr>, m_next_id m)"

text \<open>A row of the store that is addressed by its identifier and does not exist.\<close>

datatype store_error = NotFound | UserExists | NoJobs

section \<open>Clock labels\<close>

text \<open>
  \<open>time.Unix()\<close>, and the calendar date that \<open>Format\<close> shows: \<open>off\<close> is the offset of the
  server's zone from UTC.
\<close>

definition unix :: "gotime \<Rightarrow> int" where
  "unix t = t div second_ns"

definition civil :: "int \<Rightarrow> int \<times> int \<times> int" where
  "civil days =
     (let z = days + 719468;
          era = z div 146097;
          doe = z mod 146097;
          yoe = (doe - doe div 1460 + doe div 36524 - doe div 146096) div 365;
          doy = doe - (365 * yoe + yoe div 4 - yoe div 100);
          mp = (5 * doy + 2) div 153;
          d = doy - (153 * mp + 2) div 5 + 1;
          mo = (if mp < 10 then mp + 3 else mp - 9);
          y = yoe + era * 400 + (if mo \<le> 2 then 1 else 0)
      in (y, mo, d))"

definition two_digits :: "int \<Rightarrow> string" where
  "two_digits n = (if n < 10 then ''0'' @ itoa n else itoa n)"

definition four_digits :: "int \<Rightarrow> string" where
  "four_digits n = (if n < 10 then ''000'' else if n < 100 then ''00'' else if n < 1000 then ''0'' else []) @ itoa n"

text \<open>\<open>t.Format("2006-01-02")\<close>\<close>

definition date_label :: "duration \<Rightarrow> gotime \<Rightarrow> string" where
  "date_label off t =
     (case civil ((t + off) div day_ns) of
        (y, mo, d) \<Rightarrow> four_digits y @ ''-'' @ two_digits mo @ ''-'' @ two_digits d)"

text \<open>\<open>t.Format(time.RFC3339)\<close>\<close>

definition zone_label :: "duration \<Rightarrow> string" where
  "zone_label off =
     (let mins = \<bar>off\<bar> div minute_ns in
      if off div minute_ns = 0 then ''Z''
      else (if off < 0 then ''-'' else ''+'') @ two_digits (mins div 60) @ '':'' @ two_digits (mins mod 60))"

definition rfc3339 :: "duration \<Rightarrow> gotime \<Rightarrow> string" where
  "rfc3339 off t =
     (let s = (t + off) mod day_ns div second_ns in
      date_label off t @ ''T'' @ two_digits (s div 3600) @ '':'' @ two_digits (s div 60 mod 60) @ '':''
        @ two_digits (s mod 60) @ zone_label off)"

lemma civil_examples: "civil 0 = (1970, 1, 1)" "civil 19782 = (2024, 2, 29)" "civil 20453 = (2025, 12, 31)"
  by code_simp+

lemma rfc3339_example: "rfc3339 10800000000000 0 = ''1970-01-01T03:00:00+03:00''"
  by code_simp

end
