(* ===== verification/Json.thy ===== *)
theory Json
  imports GoText
begin

text \<open>
  The decoder of \<open>encoding/json\<close> as the code uses it: a byte string is parsed into a \<open>json\<close>
  value, or refused. Numbers are kept as their text; object members are kept in order and a
  lookup finds the last one of a name, as decoding into a Go map does; strings are decoded
  with their escapes, invalid UTF-8 becoming U+FFFD. The parser recurses on fuel that is more
  than twice the length of the input, and every call that does not consume a byte descends
  from one that does.
\<close>

datatype json =
    JNull
  | JBool bool
  | JNum string
  | JStr string
  | JArr "json list"
  | JObj "(string \<times> json) list"

definition json_space :: "char \<Rightarrow> bool" where
  "json_space c \<longleftrightarrow> byte c = 32 \<or> byte c = 9 \<or> byte c = 10 \<or> byte c = 13"

definition skip_space :: "string \<Rightarrow> string" where
  "skip_space s = dropWhile json_space s"

definition hex_value :: "char \<Rightarrow> nat option" where
  "hex_value c =
     (let b = byte c in
      if 48 \<le> b \<and> b \<le> 57 then Some (b - 48)
      else if 97 \<le> b \<and> b \<le> 102 then Some (b - 87)
      else if 65 \<le> b \<and> b \<le> 70 then Some (b - 55)
      else None)"

fun hex4 :: "string \<Rightarrow> (nat \<times> string) option" where
  "hex4 (a # b # c # d # s) =
     (case (hex_value a, hex_value b, hex_value c, hex_value d) of
        (Some w, Some x, Some y, Some z) \<Rightarrow> Some (((w * 16 + x) * 16 + y) * 16 + z, s)
      | _ \<Rightarrow> None)"
| "hex4 _ = None"

definition high_surrogate :: "nat \<Rightarrow> bool" where
  "high_surrogate r \<longleftrightarrow> 55296 \<le> r \<and> r < 56320"

definition low_surrogate :: "nat \<Rightarrow> bool" where
  "low_surrogate r \<longleftrightarrow> 56320 \<le> r \<and> r < 57344"

text \<open>A code unit of a \<open>\\u\<close> escape, joined with the escaped low surrogate that follows it.\<close>

definition unicode_escape :: "nat \<Rightarrow> string \<Rightarrow> rune \<times> string" where
  "unicode_escape r s =
     (if high_surrogate r then
        (case s of
           b # u # t \<Rightarrow>
             if byte b = 92 \<and> u = CHR ''u'' then
               (case hex4 t of
                  Some (r2, t2) \<Rightarrow>
                    if low_surrogate r2 then ((r - 55296) * 1024 + (r2 - 56320) + 65536, t2) else (rune_error, s)
                | None \<Rightarrow> (rune_error, s))
             else (rune_error, s)
         | _ \<Rightarrow> (rune_error, s))
      else if low_surrogate r then (rune_error, s)
      else (r, s))"

definition simple_escape :: "char \<Rightarrow> string option" where
  "simple_escape e =
     (if byte e = 34 \<or> byte e = 92 \<or> byte e = 47 then Some [e]
      else if e = CHR ''b'' then Some [char_of (8::nat)]
      else if e = CHR ''f'' then Some [char_of (12::nat)]
      else if e = CHR ''n'' then Some [char_of (10::nat)]
      else if e = CHR ''r'' then Some [char_of (13::nat)]
      else if e = CHR ''t'' then Some [char_of (9::nat)]
      else None)"

text \<open>The bytes of a string literal up to its closing quote, escapes decoded, and the rest.\<close>

fun string_bytes :: "nat \<Rightarrow> string \<Rightarrow> string \<Rightarrow> (string \<times> string) option" where
  "string_bytes 0 acc s = None"
| "string_bytes (Suc n) acc [] = None"
| "string_bytes (Suc n) acc (c # s) =
     (if byte c = 34 then Some (rev acc, s)
      else if byte c < 32 then None
      else if byte c = 92 then
        (case s of
           [] \<Rightarrow> None
         | e # t \<Rightarrow>
             if e = CHR ''u'' then
               (case hex4 t of
                  None \<Rightarrow> None
                | Some (r, t2) \<Rightarrow>
                    string_bytes n (rev (utf8_rune (fst (unicode_escape r t2))) @ acc) (snd (unicode_escape r t2)))
             else
               (case simple_escape e of
                  None \<Rightarrow> None
                | Some d \<Rightarrow> string_bytes n (rev d @ acc) t))
      else string_bytes n (c # acc) s)"

definition parse_string :: "string \<Rightarrow> (string \<times> string) option" where
  "parse_string s = map_option (\<lambda>(b, t). (utf8 (runes b), t)) (string_bytes (Suc (length s)) [] s)"

section \<open>Numbers\<close>

definition starts :: "char \<Rightarrow> string \<Rightarrow> bool" where
  "starts c s \<longleftrightarrow> s \<noteq> [] \<and> hd s = c"

definition digit_char :: "char \<Rightarrow> bool" where
  "digit_char c \<longleftrightarrow> 48 \<le> byte c \<and> byte c \<le> 57"

definition digits_of :: "string \<Rightarrow> (string \<times> string) option" where
  "digits_of s =
     (let d = takeWhile digit_char s in if d = [] then None else Some (d, dropWhile digit_char s))"

definition int_part :: "string \<Rightarrow> (string \<times> string) option" where
  "int_part s =
     (if starts CHR ''0'' s then Some (''0'', tl s) else digits_of s)"

definition frac_part :: "string \<Rightarrow> (string \<times> string) option" where
  "frac_part s =
     (if starts CHR ''.'' s then map_option (\<lambda>(d, u). (CHR ''.'' # d, u)) (digits_of (tl s))
      else Some ([], s))"

definition exp_part :: "string \<Rightarrow> (string \<times> string) option" where
  "exp_part s =
     (case s of
        [] \<Rightarrow> Some ([], [])
      | e # t \<Rightarrow>
          if e = CHR ''e'' \<or> e = CHR ''E'' then
            (case t of
               g # u \<Rightarrow>
                 if g = CHR ''+'' \<or> g = CHR ''-''
                 then map_option (\<lambda>(d, v). (e # g # d, v)) (digits_of u)
                 else map_option (\<lambda>(d, v). (e # d, v)) (digits_of t)
             | [] \<Rightarrow> None)
          else Some ([], s))"

definition parse_number :: "string \<Rightarrow> (string \<times> string) option" where
  "parse_number s =
     (let (sign, s1) = (if starts CHR ''-'' s then (''-'', tl s) else ([], s)) in
      case int_part s1 of
        None \<Rightarrow> None
      | Some (i, s2) \<Rightarrow>
          (case frac_part s2 of
             None \<Rightarrow> None
           | Some (f, s3) \<Rightarrow>
               (case exp_part s3 of
                  None \<Rightarrow> None
                | Some (e, s4) \<Rightarrow> Some (sign @ i @ f @ e, s4))))"

section \<open>Values\<close>

definition literal :: "string \<Rightarrow> json \<Rightarrow> string \<Rightarrow> (json \<times> string) option" where
  "literal w v s = (if has_prefix s w then Some (v, drop (length w) s) else None)"

fun parse_value :: "nat \<Rightarrow> string \<Rightarrow> (json \<times> string) option"
  and parse_elements :: "nat \<Rightarrow> json list \<Rightarrow> string \<Rightarrow> (json \<times> string) option"
  and parse_members :: "nat \<Rightarrow> (string \<times> json) list \<Rightarrow> string \<Rightarrow> (json \<times> string) option" where
  "parse_value 0 s = None"
| "parse_value (Suc n) s =
     (case skip_space s of
        [] \<Rightarrow> None
      | c # t \<Rightarrow>
          if c = CHR ''{'' then
            (let u = skip_space t in
             if starts CHR ''}'' u then Some (JObj [], tl u) else parse_members n [] t)
          else if c = CHR ''['' then
            (let u = skip_space t in
             if starts CHR '']'' u then Some (JArr [], tl u) else parse_elements n [] t)
          else if byte c = 34 then map_option (\<lambda>(x, u). (JStr x, u)) (parse_string t)
          else if c = CHR ''t'' then literal ''true'' (JBool True) (c # t)
          else if c = CHR ''f'' then literal ''false'' (JBool False) (c # t)
          else if c = CHR ''n'' then literal ''null'' JNull (c # t)
          else map_option (\<lambda>(x, u). (JNum x, u)) (parse_number (c # t)))"
| "parse_elements 0 acc s = None"
| "parse_elements (Suc n) acc s =
     (case parse_value n s of
        None \<Rightarrow> None
      | Some (v, t) \<Rightarrow>
          (let u = skip_space t in
           if starts CHR '','' u then parse_elements n (acc @ [v]) (tl u)
           else if starts CHR '']'' u then Some (JArr (acc @ [v]), tl u)
           else None))"
| "parse_members 0 acc s = None"
| "parse_members (Suc n) acc s =
     (case skip_space s of
        [] \<Rightarrow> None
      | q # t \<Rightarrow>
          if byte q = 34 then
            (case parse_string t of
               None \<Rightarrow> None
             | Some (k, u) \<Rightarrow>
                 (let v = skip_space u in
                  if \<not> starts CHR '':'' v then None
                  else (case parse_value n (tl v) of
                      None \<Rightarrow> None
                    | Some (x, w) \<Rightarrow>
                        (let y = skip_space w in
                         if starts CHR '','' y then parse_members n (acc @ [(k, x)]) (tl y)
                         else if starts CHR ''}'' y then Some (JObj (acc @ [(k, x)]), tl y)
                         else None))))
          else None)"

text \<open>\<open>json.Unmarshal\<close> into an \<open>any\<close>: one value, then nothing but white space.\<close>

definition unmarshal :: "string \<Rightarrow> json option" where
  "unmarshal s =
     (case parse_value (2 * length s + 2) s of
        Some (v, t) \<Rightarrow> if skip_space t = [] then Some v else None
      | None \<Rightarrow> None)"

text \<open>\<open>json.Unmarshal\<close> into a \<open>map[string]any\<close>: an object, or \<open>null\<close>, which leaves the map nil.\<close>

definition unmarshal_map :: "string \<Rightarrow> (string \<times> json) list option" where
  "unmarshal_map s =
     (case unmarshal s of
        Some (JObj ms) \<Rightarrow> Some ms
      | Some JNull \<Rightarrow> Some []
      | _ \<Rightarrow> None)"

definition json_member :: "string \<Rightarrow> (string \<times> json) list \<Rightarrow> json option" where
  "json_member k ms = map_of (rev ms) k"

text \<open>A document quoted the way the tests and payloads write it, with \<open>q\<close> for the quote byte.\<close>

definition quoted :: "string \<Rightarrow> string" where
  "quoted s = char_of (34::nat) # s @ [char_of (34::nat)]"

lemma unmarshal_example:
  "unmarshal (''{'' @ quoted ''provider'' @ '': '' @ quoted ''yandex'' @ '',  '' @ quoted ''n'' @ '':[-1.5e3, null]}'')
     = Some (JObj [(''provider'', JStr ''yandex''), (''n'', JArr [JNum ''-1.5e3'', JNull])])"
  by code_simp

lemma unmarshal_refuses: "unmarshal ''{,}'' = None" "unmarshal ''01'' = None" "unmarshal ''[1] 2'' = None"
  by code_simp+

end
