(* ===== verification/Jobs.thy ===== *)
theory Jobs
  imports MemStore Json
begin

text \<open>
  The job queue and the quotas of the memory store (\<open>store/memory/store.go\<close>) and the worker
  that drains the queue (\<open>jobs/worker.go\<close>, \<open>jobs/jobs.go\<close>). The worker talks to an interface,
  so it is a function over a record of store operations; the locale \<open>job_store\<close> states what
  the worker relies on, and the memory store is an instance. Job handlers are registered by
  the caller: a handler is any function from the job and the store to the store it leaves and
  its error text, if any.
\<close>

section \<open>The queue of the memory store\<close>

definition StatePending :: string where [go_simps]: "StatePending = ''pending''"
definition StateRunning :: string where [go_simps]: "StateRunning = ''running''"
definition StateRetry :: string where [go_simps]: "StateRetry = ''retry''"
definition StateDone :: string where [go_simps]: "StateDone = ''done''"
definition StateDead :: string where [go_simps]: "StateDead = ''dead''"

lemmas job_states = StatePending_def StateRunning_def StateRetry_def StateDone_def StateDead_def

definition put_job :: "JobRow \<Rightarrow> MemoryStore \<Rightarrow> MemoryStore" where
  "put_job j m = m\<lparr>m_jobs := AList.update (jb_id j) j (m_jobs m)\<rparr>"

lemma put_job_frame [simp]: "m_zone (put_job j m) = m_zone m" "m_clock (put_job j m) = m_clock m"
  by (simp_all add: put_job_def)

definition EnqueueJob :: "JobRow \<Rightarrow> MemoryStore \<Rightarrow> MemoryStore \<times> int" where
  "EnqueueJob j m =
     (let (m, i) = allocID m;
          j = j\<lparr>jb_id := i\<rparr>;
          j = (if jb_state j = '''' then j\<lparr>jb_state := ''pending''\<rparr> else j);
          j = j\<lparr>jb_created := unix (m_clock m), jb_next_run := rfc3339 (m_zone m) (m_clock m)\<rparr>
      in (m\<lparr>m_jobs := AList.update i j (m_jobs m)\<rparr>, i))"

definition claimable :: "JobRow \<Rightarrow> bool" where
  "claimable j \<longleftrightarrow> jb_state j = StatePending \<or> jb_state j = StateRetry"

definition ClaimNextJob :: "MemoryStore \<Rightarrow> MemoryStore \<times> (store_error + JobRow)" where
  "ClaimNextJob m =
     (case scan_min jb_created None (filter claimable (map snd (m_jobs m))) of
        None \<Rightarrow> (m, Inl NoJobs)
      | Some best \<Rightarrow>
          let j = best\<lparr>jb_state := StateRunning, jb_attempts := jb_attempts best + 1\<rparr>
          in (put_job j m, Inr j))"

definition MarkJobDone :: "int \<Rightarrow> MemoryStore \<Rightarrow> MemoryStore \<times> store_error option" where
  "MarkJobDone i m =
     (case map_of (m_jobs m) i of
        None \<Rightarrow> (m, Some NotFound)
      | Some j \<Rightarrow> (m\<lparr>m_jobs := AList.update i (j\<lparr>jb_state := StateDone\<rparr>) (m_jobs m)\<rparr>, None))"

definition retry_backoff :: "int \<Rightarrow> duration" where
  "retry_backoff attempts =
     (if minutes (attempts * 2) > minutes 30 then minutes 30 else minutes (attempts * 2))"

definition MarkJobRetry :: "int \<Rightarrow> string \<Rightarrow> MemoryStore \<Rightarrow> MemoryStore \<times> store_error option" where
  "MarkJobRetry i msg m =
     (case map_of (m_jobs m) i of
        None \<Rightarrow> (m, Some NotFound)
      | Some j \<Rightarrow>
          let n = jb_attempts j + 1;
              j = j\<lparr>jb_state := StateRetry, jb_last_error := msg, jb_attempts := n,
                    jb_next_run := rfc3339 (m_zone m) (m_clock m + retry_backoff n)\<rparr>
          in (m\<lparr>m_jobs := AList.update i j (m_jobs m)\<rparr>, None))"

definition MarkJobDead :: "int \<Rightarrow> string \<Rightarrow> MemoryStore \<Rightarrow> MemoryStore \<times> store_error option" where
  "MarkJobDead i msg m =
     (case map_of (m_jobs m) i of
        None \<Rightarrow> (m, Some NotFound)
      | Some j \<Rightarrow>
          (m\<lparr>m_jobs := AList.update i (j\<lparr>jb_state := StateDead, jb_last_error := msg\<rparr>) (m_jobs m)\<rparr>, None))"

definition ListJobs :: "int \<Rightarrow> MemoryStore \<Rightarrow> JobRow list" where
  "ListJobs limit m =
     (let limit = (if limit \<le> 0 then 20 else limit)
      in take (nat limit) (sort_by (\<lambda>a b. jb_created a > jb_created b) (map snd (m_jobs m))))"

section \<open>Quotas\<close>

definition quota_key :: "string \<Rightarrow> MemoryStore \<Rightarrow> string" where
  "quota_key provider m = provider @ '':'' @ date_label (m_zone m) (m_clock m)"

definition TryConsumeQuota :: "string \<Rightarrow> int \<Rightarrow> MemoryStore \<Rightarrow> MemoryStore \<times> bool \<times> int" where
  "TryConsumeQuota provider limit m =
     (let day = date_label (m_zone m) (m_clock m);
          key = quota_key provider m;
          q = (case map_of (m_quotas m) key of
                 Some q \<Rightarrow> q
               | None \<Rightarrow> \<lparr>q_provider = provider, q_day = day, q_used = 0, q_limit = limit, q_reset = None\<rparr>);
          limit = (if q_limit q \<noteq> limit \<and> q_limit q \<noteq> 0 then q_limit q else limit)
      in if q_used q \<ge> limit then (m, False, q_used q)
         else (let q = q\<lparr>q_used := q_used q + 1, q_limit := limit\<rparr> in
               (m\<lparr>m_quotas := AList.update key q (m_quotas m),
                  m_api_calls := m_api_calls m @
                    [\<lparr>ac_id = 0, ac_provider = provider, ac_endpoint = ''quota_consume'',
                      ac_at = unix (m_clock m), ac_cost = 1\<rparr>]\<rparr>, True, q_used q)))"

definition GetQuota :: "string \<Rightarrow> gotime \<Rightarrow> MemoryStore \<Rightarrow> QuotaRow option" where
  "GetQuota provider day m =
     map_of (m_quotas m)
       (provider @ '':'' @ date_label (m_zone m) (if day = zero_time then m_clock m else day))"

definition SetQuotaLimit :: "string \<Rightarrow> int \<Rightarrow> MemoryStore \<Rightarrow> MemoryStore" where
  "SetQuotaLimit provider limit m =
     (let key = quota_key provider m;
          q = (case map_of (m_quotas m) key of
                 Some q \<Rightarrow> q
               | None \<Rightarrow> \<lparr>q_provider = '''', q_day = '''', q_used = 0, q_limit = 0, q_reset = None\<rparr>)
      in m\<lparr>m_quotas := AList.update key
             (q\<lparr>q_provider := provider, q_day := date_label (m_zone m) (m_clock m), q_limit := limit\<rparr>)
             (m_quotas m)\<rparr>)"

definition RecordApiCall :: "string \<Rightarrow> string \<Rightarrow> int \<Rightarrow> MemoryStore \<Rightarrow> MemoryStore" where
  "RecordApiCall provider endpoint n m =
     m\<lparr>m_api_calls := m_api_calls m @
         [\<lparr>ac_id = 0, ac_provider = provider, ac_endpoint = endpoint, ac_at = unix (m_clock m), ac_cost = n\<rparr>]\<rparr>"

definition ListQuotas :: "MemoryStore \<Rightarrow> QuotaRow list" where
  "ListQuotas m = sort_by (\<lambda>a b. q_provider a < q_provider b) (map snd (m_quotas m))"

section \<open>The worker\<close>

text \<open>The methods of \<open>store.Store\<close> that the worker calls.\<close>

record 's job_ops =
  claim_next :: "'s \<Rightarrow> 's \<times> (store_error + JobRow)"
  mark_done :: "int \<Rightarrow> 's \<Rightarrow> 's \<times> store_error option"
  mark_retry :: "int \<Rightarrow> string \<Rightarrow> 's \<Rightarrow> 's \<times> store_error option"
  mark_dead :: "int \<Rightarrow> string \<Rightarrow> 's \<Rightarrow> 's \<times> store_error option"
  try_quota :: "string \<Rightarrow> int \<Rightarrow> 's \<Rightarrow> 's \<times> bool \<times> int"
  record_call :: "string \<Rightarrow> string \<Rightarrow> int \<Rightarrow> 's \<Rightarrow> 's"

type_synonym 's job_handler = "JobRow \<Rightarrow> 's \<Rightarrow> 's \<times> string option"

text \<open>\<open>contains\<close> of \<open>worker.go\<close>: a window of \<open>s\<close> equals \<open>sub\<close>.\<close>

definition has_window :: "string \<Rightarrow> string \<Rightarrow> bool" where
  "has_window s sub \<longleftrightarrow>
     length s \<ge> length sub \<and>
     list_ex (\<lambda>i. take (length sub) (drop i s) = sub) [0 ..< Suc (length s - length sub)]"

definition isRateLimited :: "string \<Rightarrow> bool" where
  "isRateLimited s \<longleftrightarrow> has_window s ''429'' \<or> has_window s ''rate'' \<or> has_window s ''quota''"

definition providersForJob :: "JobRow \<Rightarrow> string list" where
  "providersForJob j =
     (if jb_type j = ''sync_mintrans'' then [''mintrans'', ''yandex'', ''nominatim'']
      else if jb_type j = ''sync_rail'' then [''yandex'', ''nominatim'', ''motis'']
      else if jb_type j = ''import_gtfs'' then [''gtfs'']
      else (case unmarshal_map (jb_payload j) of
              None \<Rightarrow> []
            | Some payload \<Rightarrow>
                (case json_member ''provider'' payload of
                   Some (JStr p) \<Rightarrow> if p \<noteq> '''' then [p] else []
                 | _ \<Rightarrow> [])))"

fun try_providers :: "'s job_ops \<Rightarrow> JobRow \<Rightarrow> 's job_handler \<Rightarrow> string list \<Rightarrow> string option \<Rightarrow> 's \<Rightarrow>
    's \<times> string option" where
  "try_providers ops j h [] lastErr s =
     (s, case lastErr of Some e \<Rightarrow> Some e | None \<Rightarrow> Some ''429 all quotas exhausted'')"
| "try_providers ops j h (p # ps) lastErr s =
     (let (s, ok, used) = try_quota ops p 1000 s in
      if \<not> ok then try_providers ops j h ps (Some (''429 quota exhausted for '' @ p)) s
      else
        (let s = record_call ops p (jb_type j) 1 s; (s, err) = h j s in
         case err of
           None \<Rightarrow> (s, None)
         | Some e \<Rightarrow> if isRateLimited e then try_providers ops j h ps (Some e) s else (s, Some e)))"

definition withQuota :: "'s job_ops \<Rightarrow> JobRow \<Rightarrow> 's job_handler \<Rightarrow> 's \<Rightarrow> 's \<times> string option" where
  "withQuota ops j h s =
     (let providers = providersForJob j in
      if providers = [] then h j s else try_providers ops j h providers None s)"

text \<open>What \<open>RunOnce\<close> returns: \<open>nil\<close>, the error of the claim, or the text of the job's error.\<close>

datatype run_result = RunOk | NothingClaimed store_error | JobFailed string

definition RunOnce :: "'s job_ops \<Rightarrow> (string \<Rightarrow> 's job_handler option) \<Rightarrow> 's \<Rightarrow> 's \<times> run_result" where
  "RunOnce ops handlers s =
     (case claim_next ops s of
        (s, Inl e) \<Rightarrow> (s, NothingClaimed e)
      | (s, Inr job) \<Rightarrow>
          (case handlers (jb_type job) of
             None \<Rightarrow> (fst (mark_dead ops (jb_id job) ''no handler'' s), JobFailed (''no handler for '' @ jb_type job))
           | Some h \<Rightarrow>
               (case withQuota ops job h s of
                  (s, None) \<Rightarrow> (fst (mark_done ops (jb_id job) s), RunOk)
                | (s, Some e) \<Rightarrow>
                    if isRateLimited e then (fst (mark_retry ops (jb_id job) e s), JobFailed e)
                    else if jb_attempts job \<ge> 5 then (fst (mark_dead ops (jb_id job) e s), JobFailed e)
                    else (fst (mark_retry ops (jb_id job) e s), JobFailed e))))"

definition memory_job_ops :: "MemoryStore job_ops" where
  "memory_job_ops =
     \<lparr>claim_next = ClaimNextJob, mark_done = MarkJobDone, mark_retry = MarkJobRetry,
      mark_dead = MarkJobDead, try_quota = TryConsumeQuota, record_call = RecordApiCall\<rparr>"

lemma memory_job_ops_sel [simp]:
  "claim_next memory_job_ops = ClaimNextJob" "mark_done memory_job_ops = MarkJobDone"
  "mark_retry memory_job_ops = MarkJobRetry" "mark_dead memory_job_ops = MarkJobDead"
  "try_quota memory_job_ops = TryConsumeQuota" "record_call memory_job_ops = RecordApiCall"
  by (simp_all add: memory_job_ops_def)

text \<open>\<open>jobs.Backoff\<close>, the schedule the queue package states.\<close>

definition Backoff :: "int \<Rightarrow> duration" where
  "Backoff attempt = (let base = minutes (attempt * 2) in if base > minutes 30 then minutes 30 else base)"


lemma has_window_iff: "has_window s sub \<longleftrightarrow> contains s sub"
proof
  assume "has_window s sub"
  then obtain i where "take (length sub) (drop i s) = sub"
    unfolding has_window_def list_ex_iff by blast
  then have "s = take i s @ sub @ drop (length sub) (drop i s)"
    by (metis append_take_drop_id)
  then show "contains s sub" unfolding contains_iff by blast
next
  assume "contains s sub"
  then obtain u v where s: "s = u @ sub @ v" unfolding contains_iff by blast
  then have "length u \<in> set [0 ..< Suc (length s - length sub)]" "length sub \<le> length s" by simp_all
  moreover have "take (length sub) (drop (length u) s) = sub" using s by simp
  ultimately show "has_window s sub" unfolding has_window_def list_ex_iff by blast
qed

section \<open>What the worker relies on\<close>

text \<open>A handler that leaves its own job's row alone, from any state of the store.\<close>

definition keeps_own_row :: "('s \<Rightarrow> bool) \<Rightarrow> ('s \<Rightarrow> int \<Rightarrow> JobRow option) \<Rightarrow> 's job_handler \<Rightarrow> bool" where
  "keeps_own_row ok view h \<longleftrightarrow>
     (\<forall>j s. ok s \<longrightarrow> ok (fst (h j s)) \<and> view (fst (h j s)) (jb_id j) = view s (jb_id j))"

text \<open>The state that a run leaves its job in.\<close>

definition settled_state :: "int \<Rightarrow> string option \<Rightarrow> string" where
  "settled_state attempts err =
     (case err of
        None \<Rightarrow> StateDone
      | Some e \<Rightarrow> if isRateLimited e \<or> attempts < 5 then StateRetry else StateDead)"

locale job_store =
  fixes ops :: "'s job_ops"
    and view :: "'s \<Rightarrow> int \<Rightarrow> JobRow option"
    and ok :: "'s \<Rightarrow> bool"
  assumes claim_some: "ok s \<Longrightarrow> claim_next ops s = (s', Inr j) \<Longrightarrow>
      ok s' \<and> (\<exists>j0. view s (jb_id j) = Some j0 \<and> claimable j0
        \<and> j = j0\<lparr>jb_state := StateRunning, jb_attempts := jb_attempts j0 + 1\<rparr>
        \<and> view s' = (view s)(jb_id j \<mapsto> j))"
    and claim_none: "ok s \<Longrightarrow> claim_next ops s = (s', Inl e) \<Longrightarrow>
      s' = s \<and> (\<forall>i j. view s i = Some j \<longrightarrow> \<not> claimable j)"
    and done_view: "ok s \<Longrightarrow> view s i = Some j \<Longrightarrow>
      view (fst (mark_done ops i s)) = (view s)(i \<mapsto> j\<lparr>jb_state := StateDone\<rparr>)"
    and dead_view: "ok s \<Longrightarrow> view s i = Some j \<Longrightarrow>
      view (fst (mark_dead ops i msg s)) = (view s)(i \<mapsto> j\<lparr>jb_state := StateDead, jb_last_error := msg\<rparr>)"
    and retry_view: "ok s \<Longrightarrow> view s i = Some j \<Longrightarrow>
      \<exists>n t. view (fst (mark_retry ops i msg s)) =
        (view s)(i \<mapsto> j\<lparr>jb_state := StateRetry, jb_last_error := msg, jb_attempts := n, jb_next_run := t\<rparr>)"
    and quota_view: "ok s \<Longrightarrow> view (fst (try_quota ops p l s)) = view s \<and> ok (fst (try_quota ops p l s))"
    and call_view: "ok s \<Longrightarrow> view (record_call ops p ep n s) = view s \<and> ok (record_call ops p ep n s)"
begin

lemma try_providers_row:
  assumes "keeps_own_row ok view h" "ok s"
  shows "ok (fst (try_providers ops j h ps le s)) \<and>
    view (fst (try_providers ops j h ps le s)) (jb_id j) = view s (jb_id j)"
  using assms(2)
proof (induction ps arbitrary: le s)
  case (Cons p ps)
  obtain s1 got used where q: "try_quota ops p 1000 s = (s1, got, used)" by (metis prod_cases3)
  have s1: "ok s1" "view s1 = view s" using quota_view [OF Cons.prems, of p 1000] q by simp_all
  let ?s2 = "record_call ops p (jb_type j) 1 s1"
  obtain s3 err where h: "h j ?s2 = (s3, err)" by (metis surj_pair)
  have s2: "ok ?s2" "view ?s2 = view s" using call_view [OF s1(1)] s1(2) by simp_all
  have s3: "ok s3" "view s3 (jb_id j) = view s (jb_id j)"
    using assms(1) s2 h unfolding keeps_own_row_def by (metis fst_conv)+
  show ?case using q h s1 s3 Cons.IH [OF s1(1)] Cons.IH [OF s3(1)]
    by (auto simp: Let_def split: option.splits)
qed simp

lemma withQuota_row:
  "keeps_own_row ok view h \<Longrightarrow> ok s \<Longrightarrow>
     ok (fst (withQuota ops j h s)) \<and> view (fst (withQuota ops j h s)) (jb_id j) = view s (jb_id j)"
  using try_providers_row by (auto simp: withQuota_def Let_def keeps_own_row_def)

lemma run_settles:
  assumes s: "ok s" and c: "claim_next ops s = (s1, Inr job)"
    and h: "\<And>h. handlers (jb_type job) = Some h \<Longrightarrow> keeps_own_row ok view h"
  shows "\<exists>j. view (fst (RunOnce ops handlers s)) (jb_id job) = Some j \<and>
    jb_state j = (case handlers (jb_type job) of
        None \<Rightarrow> StateDead
      | Some h \<Rightarrow> settled_state (jb_attempts job) (snd (withQuota ops job h s1)))"
proof -
  from claim_some [OF s c] have s1: "ok s1" and v1: "view s1 (jb_id job) = Some job" by auto
  show ?thesis
  proof (cases "handlers (jb_type job)")
    case None
    then show ?thesis using dead_view [OF s1 v1] by (simp add: RunOnce_def c)
  next
    case (Some h)
    obtain s2 err where w: "withQuota ops job h s1 = (s2, err)" by (metis surj_pair)
    have s2: "ok s2" and v2: "view s2 (jb_id job) = Some job"
      using withQuota_row [OF assms(3) [OF Some] s1, of job] w v1 by simp_all
    show ?thesis using Some w done_view [OF s2 v2] dead_view [OF s2 v2]
        retry_view [OF s2 v2, of "the err"]
      by (auto simp: RunOnce_def c settled_state_def split: option.splits)
  qed
qed

end

section \<open>The memory store is a job store\<close>

text \<open>Every row sits under its own identifier.\<close>

definition jobs_ok :: "MemoryStore \<Rightarrow> bool" where
  "jobs_ok m \<longleftrightarrow> distinct (map fst (m_jobs m)) \<and> (\<forall>(i, j) \<in> set (m_jobs m). jb_id j = i)"

definition job_view :: "MemoryStore \<Rightarrow> int \<Rightarrow> JobRow option" where
  "job_view m = map_of (m_jobs m)"

lemma jobs_ok_view: "jobs_ok m \<Longrightarrow> job_view m i = Some j \<Longrightarrow> jb_id j = i"
  by (auto simp: jobs_ok_def job_view_def dest: map_of_SomeD)

lemma jobs_ok_row: "jobs_ok m \<Longrightarrow> j \<in> snd ` set (m_jobs m) \<Longrightarrow> job_view m (jb_id j) = Some j"
  by (auto simp: jobs_ok_def job_view_def)

lemma jobs_ok_update:
  assumes "jobs_ok m" "jb_id j = i"
  shows "jobs_ok (m\<lparr>m_jobs := AList.update i j (m_jobs m)\<rparr>)"
proof -
  have "\<forall>(k, x) \<in> set (AList.update i j (m_jobs m)). jb_id x = k"
    by (rule update_rows) (use assms in \<open>auto simp: jobs_ok_def\<close>)
  then show ?thesis using assms(1) by (simp add: jobs_ok_def)
qed

lemma claim_spec:
  assumes "jobs_ok m" "ClaimNextJob m = (m', Inr j)"
  obtains j0 where "job_view m (jb_id j0) = Some j0" "claimable j0"
    "j = j0\<lparr>jb_state := StateRunning, jb_attempts := jb_attempts j0 + 1\<rparr>" "m' = put_job j m"
    "\<And>i k. job_view m i = Some k \<Longrightarrow> claimable k \<Longrightarrow> jb_created j0 \<le> jb_created k"
proof -
  let ?js = "filter claimable (map snd (m_jobs m))"
  from assms(2) obtain j0 where sc: "scan_min jb_created None ?js = Some j0"
    and j: "j = j0\<lparr>jb_state := StateRunning, jb_attempts := jb_attempts j0 + 1\<rparr>" and m': "m' = put_job j m"
    by (auto simp: ClaimNextJob_def Let_def split: option.splits)
  have m: "j0 \<in> set ?js" "\<forall>k \<in> set ?js. jb_created j0 \<le> jb_created k"
    using scan_min_minimal [OF sc] by auto
  have "job_view m (jb_id j0) = Some j0" using m(1) jobs_ok_row [OF assms(1)] by auto
  moreover have "jb_created j0 \<le> jb_created k" if "job_view m i = Some k" "claimable k" for i k
  proof -
    have "k \<in> set ?js" using that by (auto simp: job_view_def dest!: map_of_SomeD intro: rev_image_eqI)
    then show ?thesis using m(2) by blast
  qed
  ultimately show ?thesis using that [of j0] m(1) j m' by auto
qed

lemma claim_none_spec:
  "ClaimNextJob m = (m', Inl e) \<Longrightarrow> m' = m \<and> e = NoJobs \<and> (\<forall>i j. job_view m i = Some j \<longrightarrow> \<not> claimable j)"
  by (auto simp: ClaimNextJob_def job_view_def Let_def filter_empty_conv split: option.splits
      dest!: map_of_SomeD)

interpretation memory_jobs: job_store memory_job_ops job_view jobs_ok
proof (unfold_locales, goal_cases)
  case (1 s s' j)
  from 1(2) have c: "ClaimNextJob s = (s', Inr j)" by simp
  obtain j0 where j0: "job_view s (jb_id j0) = Some j0" "claimable j0"
    "j = j0\<lparr>jb_state := StateRunning, jb_attempts := jb_attempts j0 + 1\<rparr>" "s' = put_job j s"
    by (rule claim_spec [OF 1(1) c]) blast
  then show ?case using jobs_ok_update [OF 1(1), of j]
    by (auto simp: put_job_def job_view_def)
next
  case (2 s s' e)
  then show ?case using claim_none_spec [of s s' e] by simp
next
  case (3 s i j)
  then show ?case by (auto simp: MarkJobDone_def job_view_def)
next
  case (4 s i j e)
  then show ?case by (auto simp: MarkJobDead_def job_view_def)
next
  case (5 s i j e)
  then show ?case by (auto simp: MarkJobRetry_def job_view_def Let_def)
next
  case (6 s p l)
  then show ?case by (auto simp: TryConsumeQuota_def job_view_def jobs_ok_def Let_def)
next
  case (7 s p e n)
  then show ?case by (auto simp: RecordApiCall_def job_view_def jobs_ok_def)
qed


section \<open>Properties of the queue\<close>

text \<open>C13: A job that is claimed is never left running: when \<open>RunOnce\<close> claims a job and the handler does
not touch the job's own row, the job ends done exactly when the handler (behind the quotas) succeeds,
dead when it has no handler or fails at its fifth attempt or later, and in retry otherwise; a failure
that reads as a rate limit is always a retry.\<close>

theorem run_once_settles:
  assumes "jobs_ok m" "ClaimNextJob m = (m1, Inr job)"
    and "\<And>h. handlers (jb_type job) = Some h \<Longrightarrow> keeps_own_row jobs_ok job_view h"
  shows "\<exists>j. job_view (fst (RunOnce memory_job_ops handlers m)) (jb_id job) = Some j \<and>
    jb_state j = (case handlers (jb_type job) of
        None \<Rightarrow> StateDead
      | Some h \<Rightarrow> settled_state (jb_attempts job) (snd (withQuota memory_job_ops job h m1)))"
  using assms by (intro memory_jobs.run_settles) simp_all

text \<open>\<open>ClaimNextJob\<close> hands out the oldest job that is pending or in retry, marks it running and counts
the attempt, and reports that there is no job exactly when none is pending or in retry. The time at
which a retry is due plays no part: a job in retry is claimed before its backoff has passed.\<close>

theorem claim_takes_oldest:
  assumes "jobs_ok m"
  shows "case ClaimNextJob m of
      (m', Inl e) \<Rightarrow> m' = m \<and> e = NoJobs \<and> (\<forall>i j. job_view m i = Some j \<longrightarrow> \<not> claimable j)
    | (m', Inr j) \<Rightarrow> \<exists>j0. job_view m (jb_id j) = Some j0 \<and> claimable j0 \<and>
        (\<forall>i k. job_view m i = Some k \<longrightarrow> claimable k \<longrightarrow> jb_created j0 \<le> jb_created k) \<and>
        j = j0\<lparr>jb_state := StateRunning, jb_attempts := jb_attempts j0 + 1\<rparr> \<and>
        job_view m' = (job_view m)(jb_id j \<mapsto> j)"
proof (cases "ClaimNextJob m")
  case (Pair m' r)
  show ?thesis
  proof (cases r)
    case (Inl e)
    then show ?thesis using claim_none_spec [of m m' e] Pair by simp
  next
    case (Inr j)
    have c: "ClaimNextJob m = (m', Inr j)" using Pair Inr by simp
    show ?thesis
    proof (rule claim_spec [OF assms c])
      fix j0
      assume j0: "job_view m (jb_id j0) = Some j0" "claimable j0"
        "j = j0\<lparr>jb_state := StateRunning, jb_attempts := jb_attempts j0 + 1\<rparr>" "m' = put_job j m"
        "\<And>i k. job_view m i = Some k \<Longrightarrow> claimable k \<Longrightarrow> jb_created j0 \<le> jb_created k"
      then have "job_view m' = (job_view m)(jb_id j \<mapsto> j)" by (auto simp: put_job_def job_view_def)
      moreover have i: "jb_id j = jb_id j0" using j0(3) by simp
      ultimately show ?thesis unfolding c prod.case sum.case
        using j0(1-3,5) by (intro exI [of _ j0] conjI) (assumption | simp only: i | blast)+
    qed
  qed
qed

lemma providersForJob_cong:
  "jb_type j' = jb_type j \<Longrightarrow> jb_payload j' = jb_payload j \<Longrightarrow> providersForJob j' = providersForJob j"
  by (simp only: providersForJob_def)

text \<open>One failing run of a job that is alone in the queue.\<close>

lemma claim_single:
  assumes "m_jobs m = [(i, j)]" "jb_id j = i" "claimable j"
  shows "ClaimNextJob m = (put_job (j\<lparr>jb_state := StateRunning, jb_attempts := jb_attempts j + 1\<rparr>) m,
    Inr (j\<lparr>jb_state := StateRunning, jb_attempts := jb_attempts j + 1\<rparr>))"
  using assms by (simp add: ClaimNextJob_def Let_def)

lemma failing_run:
  assumes m: "m_jobs m = [(i, j)]" "jb_id j = i" "claimable j"
    and h: "handlers (jb_type j) = Some (\<lambda>_ s. (s, Some e))" "\<not> isRateLimited e"
    and p: "providersForJob j = []"
  shows "\<exists>t. m_jobs (fst (RunOnce memory_job_ops handlers m)) =
    (if jb_attempts j \<ge> 4
     then [(i, j\<lparr>jb_state := StateDead, jb_attempts := jb_attempts j + 1, jb_last_error := e\<rparr>)]
     else [(i, j\<lparr>jb_state := StateRetry, jb_attempts := jb_attempts j + 2, jb_last_error := e, jb_next_run := t\<rparr>)])"
proof -
  let ?j = "j\<lparr>jb_state := StateRunning, jb_attempts := jb_attempts j + 1\<rparr>"
  have c: "ClaimNextJob m = (put_job ?j m, Inr ?j)"
    by (rule claim_single [OF m])
  have "providersForJob ?j = []" using p providersForJob_cong [of ?j j] by simp
  then have w: "withQuota memory_job_ops ?j (\<lambda>_ s. (s, Some e)) (put_job ?j m) = (put_job ?j m, Some e)"
    by (simp add: withQuota_def)
  have m1: "m_jobs (put_job ?j m) = [(i, ?j)]" using m by (simp add: put_job_def)
  show ?thesis
    using h m(2) m1
    by (intro exI [of _ "rfc3339 (m_zone m) (m_clock m + retry_backoff (jb_attempts j + 2))"])
      (simp add: RunOnce_def c w MarkJobDead_def MarkJobRetry_def Let_def add.commute [of 2])
qed

text \<open>A job whose handler keeps failing is given up after three runs, not five: the claim and the retry
both count an attempt, so a fresh job that is alone in the queue is in retry with two and four attempts
after its first and second failure, and dead after the third.\<close>

theorem failing_job_dies_at_third_run:
  assumes "m_jobs m = [(i, j)]" "jb_id j = i" "jb_state j = StatePending" "jb_attempts j = 0"
    and "handlers (jb_type j) = Some (\<lambda>_ s. (s, Some e))" "\<not> isRateLimited e" "providersForJob j = []"
  shows "map (\<lambda>n. map (\<lambda>(i, j). (jb_state j, jb_attempts j))
             (m_jobs (((\<lambda>m. fst (RunOnce memory_job_ops handlers m)) ^^ n) m))) [1, 2, 3]
    = [[(StateRetry, 2)], [(StateRetry, 4)], [(StateDead, 5)]]"
proof -
  let ?run = "\<lambda>m. fst (RunOnce memory_job_ops handlers m)"
  obtain t1 where r1: "m_jobs (?run m) =
      [(i, j\<lparr>jb_state := StateRetry, jb_attempts := 2, jb_last_error := e, jb_next_run := t1\<rparr>)]"
    using failing_run [of m i j handlers e] assms by (auto simp: claimable_def)
  let ?j1 = "j\<lparr>jb_state := StateRetry, jb_attempts := 2, jb_last_error := e, jb_next_run := t1\<rparr>"
  have p: "providersForJob ?j1 = []" using assms(7) providersForJob_cong [of ?j1 j] by simp
  obtain t2 where r2: "m_jobs (?run (?run m)) =
      [(i, ?j1\<lparr>jb_state := StateRetry, jb_attempts := 4, jb_last_error := e, jb_next_run := t2\<rparr>)]"
    using failing_run [of "?run m" i ?j1 handlers e] assms p r1 by (auto simp: claimable_def)
  let ?j2 = "?j1\<lparr>jb_state := StateRetry, jb_attempts := 4, jb_last_error := e, jb_next_run := t2\<rparr>"
  have p2: "providersForJob ?j2 = []" using assms(7) providersForJob_cong [of ?j2 j] by simp
  have r3: "m_jobs (?run (?run (?run m))) =
      [(i, ?j2\<lparr>jb_state := StateDead, jb_attempts := 5, jb_last_error := e\<rparr>)]"
    using failing_run [of "?run (?run m)" i ?j2 handlers e] assms p2 r2 by (auto simp: claimable_def)
  show ?thesis using r1 r2 r3 by (simp add: numeral_2_eq_2 numeral_3_eq_3)
qed

section \<open>Quotas are kept\<close>

record quota_call =
  qc_at :: gotime
  qc_provider :: string
  qc_limit :: int

definition at_time :: "gotime \<Rightarrow> MemoryStore \<Rightarrow> MemoryStore" where
  "at_time t m = m\<lparr>m_clock := t\<rparr>"

definition call_key :: "duration \<Rightarrow> quota_call \<Rightarrow> string" where
  "call_key off c = qc_provider c @ '':'' @ date_label off (qc_at c)"

fun consume_all :: "quota_call list \<Rightarrow> MemoryStore \<Rightarrow> MemoryStore \<times> bool list" where
  "consume_all [] m = (m, [])"
| "consume_all (c # cs) m =
     (let (m, got, used) = TryConsumeQuota (qc_provider c) (qc_limit c) (at_time (qc_at c) m);
          (m, gots) = consume_all cs m
      in (m, got # gots))"

definition quota_limit :: "QuotaRow option \<Rightarrow> int \<Rightarrow> int" where
  "quota_limit row l = (case row of Some q \<Rightarrow> if q_limit q \<noteq> 0 then q_limit q else l | None \<Rightarrow> l)"

definition quota_used :: "QuotaRow option \<Rightarrow> int" where
  "quota_used row = (case row of Some q \<Rightarrow> q_used q | None \<Rightarrow> 0)"

definition consumed_row :: "QuotaRow option \<Rightarrow> string \<Rightarrow> string \<Rightarrow> int \<Rightarrow> QuotaRow" where
  "consumed_row row p day l =
     (case row of
        Some q \<Rightarrow> q\<lparr>q_used := q_used q + 1, q_limit := quota_limit row l\<rparr>
      | None \<Rightarrow> \<lparr>q_provider = p, q_day = day, q_used = 1, q_limit = l, q_reset = None\<rparr>)"

lemma TryConsumeQuota_eq:
  fixes m p l
  defines "row \<equiv> map_of (m_quotas m) (quota_key p m)"
  shows "TryConsumeQuota p l m =
    (if quota_used row \<ge> quota_limit row l then (m, False, quota_used row)
     else (m\<lparr>m_quotas := AList.update (quota_key p m)
               (consumed_row row p (date_label (m_zone m) (m_clock m)) l) (m_quotas m),
             m_api_calls := m_api_calls m @ [\<lparr>ac_id = 0, ac_provider = p, ac_endpoint = ''quota_consume'',
               ac_at = unix (m_clock m), ac_cost = 1\<rparr>]\<rparr>, True, quota_used row + 1))"
proof (cases row)
  case None
  then show ?thesis unfolding TryConsumeQuota_def Let_def row_def [symmetric]
    by (simp only: option.case quota_used_def quota_limit_def consumed_row_def QuotaRow.simps) simp
next
  case (Some q)
  then show ?thesis unfolding TryConsumeQuota_def Let_def row_def [symmetric]
    by (cases "q_limit q = l"; cases "q_limit q = 0")
      (simp_all only: option.case quota_used_def quota_limit_def consumed_row_def QuotaRow.simps, simp_all)
qed

lemma consume_spec:
  fixes m p l
  defines "row \<equiv> map_of (m_quotas m) (quota_key p m)"
  defines "r \<equiv> TryConsumeQuota p l m"
  shows "fst (snd r) \<longleftrightarrow> quota_used row < quota_limit row l"
    and "\<not> fst (snd r) \<Longrightarrow> fst r = m"
    and "fst (snd r) \<Longrightarrow> \<exists>q. map_of (m_quotas (fst r)) = (map_of (m_quotas m))(quota_key p m \<mapsto> q)
       \<and> q_used q = quota_used row + 1 \<and> q_limit q = quota_limit row l"
    and "m_zone (fst r) = m_zone m"
proof -
  note eq = TryConsumeQuota_eq [of p l m, folded row_def r_def]
  have "q_used (consumed_row row p d l) = quota_used row + 1 \<and> q_limit (consumed_row row p d l) = quota_limit row l" for d
    by (cases row) (simp_all add: consumed_row_def quota_used_def quota_limit_def)
  then show "\<exists>q. map_of (m_quotas (fst r)) = (map_of (m_quotas m))(quota_key p m \<mapsto> q)
       \<and> q_used q = quota_used row + 1 \<and> q_limit q = quota_limit row l" if "fst (snd r)"
    using that unfolding eq by (cases "quota_used row \<ge> quota_limit row l") auto
  show "fst (snd r) \<longleftrightarrow> quota_used row < quota_limit row l" "\<not> fst (snd r) \<Longrightarrow> fst r = m" "m_zone (fst r) = m_zone m"
    unfolding eq by (cases "quota_used row \<ge> quota_limit row l"; simp)+
qed

definition granted :: "duration \<Rightarrow> string \<Rightarrow> quota_call list \<Rightarrow> bool list \<Rightarrow> nat" where
  "granted off k cs gots = length (filter (\<lambda>(c, got). call_key off c = k \<and> got) (zip cs gots))"

lemma granted_exact:
  assumes "m_zone m = off" "0 < l" "\<forall>c \<in> set cs. call_key off c = k \<longrightarrow> qc_limit c = l"
    and "map_of (m_quotas m) k = None \<or> (\<exists>q. map_of (m_quotas m) k = Some q \<and> q_limit q = l)"
    and "u = quota_used (map_of (m_quotas m) k)" "0 \<le> u" "u \<le> l"
  shows "int (granted off k cs (snd (consume_all cs m)))
    = min (l - u) (int (length (filter (\<lambda>c. call_key off c = k) cs)))"
  using assms
proof (induction cs arbitrary: m u)
  case Nil
  then show ?case by (simp add: granted_def)
next
  case (Cons c cs)
  let ?m = "at_time (qc_at c) m"
  let ?r = "TryConsumeQuota (qc_provider c) (qc_limit c) ?m"
  have at: "m_quotas ?m = m_quotas m" "m_zone ?m = off" using Cons.prems(1) by (simp_all add: at_time_def)
  have key: "quota_key (qc_provider c) ?m = call_key off c"
    using Cons.prems(1) by (simp add: quota_key_def call_key_def at_time_def)
  note spec = consume_spec [where m = ?m and p = "qc_provider c" and l = "qc_limit c", unfolded key at]
  have out: "snd (consume_all (c # cs) m) = fst (snd ?r) # snd (consume_all cs (fst ?r))"
    by (auto simp: Let_def split: prod.splits)
  show ?case
  proof (cases "call_key off c = k")
    case False
    have "map_of (m_quotas (fst ?r)) k = map_of (m_quotas m) k"
      using spec(2,3) False at by (cases "fst (snd ?r)") auto
    with Cons.IH [of "fst ?r" u] Cons.prems spec(4) False show ?thesis
      unfolding out by (simp add: granted_def)
  next
    case True
    have lim: "quota_limit (map_of (m_quotas m) k) (qc_limit c) = l"
      using Cons.prems(3,4) True by (auto simp: quota_limit_def)
    show ?thesis
    proof (cases "u < l")
      case True
      then have got: "fst (snd ?r)" using spec(1) lim Cons.prems(5) \<open>call_key off c = k\<close> by simp
      obtain q where "map_of (m_quotas (fst ?r)) k = Some q" "q_used q = u + 1" "q_limit q = l"
        using spec(3) [OF got] lim Cons.prems(5) \<open>call_key off c = k\<close> by auto
      then have "int (granted off k cs (snd (consume_all cs (fst ?r))))
          = min (l - (u + 1)) (int (length (filter (\<lambda>c. call_key off c = k) cs)))"
        using Cons.prems spec(4) True by (intro Cons.IH) (auto simp: quota_used_def)
      then show ?thesis using got \<open>call_key off c = k\<close> True unfolding out by (simp add: granted_def)
    next
      case False
      then have no: "\<not> fst (snd ?r)" using spec(1) lim Cons.prems(5) \<open>call_key off c = k\<close> by simp
      have "int (granted off k cs (snd (consume_all cs (fst ?r))))
          = min (l - u) (int (length (filter (\<lambda>c. call_key off c = k) cs)))"
        using Cons.prems spec(4) spec(2) [OF no] at by (intro Cons.IH) auto
      then show ?thesis using no False Cons.prems(7) unfolding out by (simp add: granted_def)
    qed
  qed
qed

text \<open>C14: The daily quota of a provider is exact: when every call of the day passes the limit \<open>l\<close>, and the
day starts with no row, exactly the first \<open>l\<close> calls are granted and every later one is refused, whatever
calls for other providers or days come in between.\<close>

theorem daily_quota_exact:
  assumes "map_of (m_quotas m) k = None" "0 < l"
    and "\<forall>c \<in> set cs. call_key (m_zone m) c = k \<longrightarrow> qc_limit c = l"
  shows "int (granted (m_zone m) k cs (snd (consume_all cs m)))
    = min l (int (length (filter (\<lambda>c. call_key (m_zone m) c = k) cs)))"
  using granted_exact [of m "m_zone m" l cs k 0] assms by (simp add: quota_used_def)


section \<open>Witnesses\<close>

definition demo_job :: JobRow where
  "demo_job = \<lparr>jb_id = 1, jb_type = ''cleanup'', jb_payload = '''', jb_region = '''', jb_state = StatePending,
     jb_attempts = 0, jb_next_run = '''', jb_last_error = '''', jb_created = 7\<rparr>"

definition demo_queue :: MemoryStore where
  "demo_queue = (NewMemoryStore 0 0)\<lparr>m_jobs := [(1, demo_job)]\<rparr>"

lemma demo_queue_ok: "jobs_ok demo_queue" "m_jobs demo_queue = [(1, demo_job)]" "claimable demo_job"
    "jb_id demo_job = 1" "jb_state demo_job = StatePending" "jb_attempts demo_job = 0" "jb_type demo_job = ''cleanup''"
  by (simp_all add: demo_queue_def demo_job_def jobs_ok_def claimable_def)

lemma demo_providers: "providersForJob demo_job = []"
proof -
  have "unmarshal_map '''' = None" by code_simp
  then show ?thesis by (simp add: providersForJob_def demo_job_def)
qed

lemmas demo_claim = claim_single [OF demo_queue_ok(2,4,3)]

lemma run_once_settles_witness:
  "\<exists>j. job_view (fst (RunOnce memory_job_ops (\<lambda>_. None) demo_queue)) 1 = Some j \<and> jb_state j = ''dead''"
  using run_once_settles [OF demo_queue_ok(1) demo_claim, of "\<lambda>_. None"]
  by (simp add: demo_queue_ok(4) StateDead_def)

lemma claim_takes_oldest_witness:
  "\<exists>j. snd (ClaimNextJob demo_queue) = Inr j \<and> jb_attempts j = 1"
  using claim_takes_oldest [OF demo_queue_ok(1)] by (auto simp: demo_claim demo_queue_ok(4,6) job_view_def demo_queue_ok(2))

lemma not_rate_limited_demo: "\<not> isRateLimited ''boom''"
  by code_simp

lemma failing_job_dies_at_third_run_witness:
  "map (\<lambda>n. map (\<lambda>(i, j). (jb_state j, jb_attempts j))
      (m_jobs (((\<lambda>m. fst (RunOnce memory_job_ops (\<lambda>_. Some (\<lambda>_ s. (s, Some ''boom''))) m)) ^^ n) demo_queue))) [1, 2, 3]
   = [[(''retry'', 2)], [(''retry'', 4)], [(''dead'', 5)]]"
  using failing_job_dies_at_third_run [OF demo_queue_ok(2,4-6), where e = "''boom''"
      and handlers = "\<lambda>_. Some (\<lambda>_ s. (s, Some ''boom''))"]
    not_rate_limited_demo demo_providers
  by (simp add: StateRetry_def StateDead_def)

definition demo_call :: "int \<Rightarrow> quota_call" where
  "demo_call t = \<lparr>qc_at = t, qc_provider = ''yandex'', qc_limit = 2\<rparr>"

lemma demo_call_key: "call_key 0 (demo_call t) = ''yandex:'' @ date_label 0 t"
  by (simp add: call_key_def demo_call_def)

lemma daily_quota_exact_witness:
  "int (granted 0 (''yandex:'' @ date_label 0 0) [demo_call 0, demo_call 0, demo_call 0]
      (snd (consume_all [demo_call 0, demo_call 0, demo_call 0] (NewMemoryStore 0 0)))) = 2"
  using daily_quota_exact [of "NewMemoryStore 0 0" "''yandex:'' @ date_label 0 0" 2 "[demo_call 0, demo_call 0, demo_call 0]"]
  by (simp add: NewMemoryStore_def [of 0 0] demo_call_key [simplified]) (simp add: demo_call_def)

end
