(* ===== verification/Accounts.thy ===== *)
theory Accounts
  imports MemStore
begin

text \<open>
  Users and API keys of the memory store (\<open>store/memory/store.go\<close>): rows by identifier and an
  index from the e-mail or the key to the identifier. The invariant ties the two together;
  every operation keeps it, so a lookup through the index finds the row it names. The 32
  random bytes of a new key are an argument.
\<close>

section \<open>Operations\<close>

definition CreateUser :: "string \<Rightarrow> string \<Rightarrow> string \<Rightarrow> MemoryStore \<Rightarrow> MemoryStore \<times> (store_error + int)" where
  "CreateUser email passHash role m =
     (case map_of (m_users_by_email m) email of
        Some _ \<Rightarrow> (m, Inl UserExists)
      | None \<Rightarrow>
          let (m, i) = allocID m;
              status = (if role = ''admin'' then ''active'' else ''pending'');
              u = \<lparr>u_id = i, u_email = email, u_pass = passHash, u_status = status, u_role = role,
                   u_created = unix (m_clock m), u_config = ''''\<rparr>
          in (m\<lparr>m_users := AList.update i u (m_users m),
                m_users_by_email := AList.update email i (m_users_by_email m)\<rparr>, Inr i))"

definition GetUserByEmail :: "string \<Rightarrow> MemoryStore \<Rightarrow> UserRow option" where
  "GetUserByEmail email m =
     (case map_of (m_users_by_email m) email of None \<Rightarrow> None | Some i \<Rightarrow> map_of (m_users m) i)"

definition GetUserByID :: "int \<Rightarrow> MemoryStore \<Rightarrow> UserRow option" where
  "GetUserByID i m = map_of (m_users m) i"

definition ListUsers :: "MemoryStore \<Rightarrow> UserRow list" where
  "ListUsers m = map snd (m_users m)"

definition UpdateUserStatus :: "int \<Rightarrow> string \<Rightarrow> MemoryStore \<Rightarrow> MemoryStore \<times> store_error option" where
  "UpdateUserStatus i status m =
     (case map_of (m_users m) i of
        None \<Rightarrow> (m, Some NotFound)
      | Some u \<Rightarrow> (m\<lparr>m_users := AList.update i (u\<lparr>u_status := status\<rparr>) (m_users m)\<rparr>, None))"

definition UpdateUserRole :: "int \<Rightarrow> string \<Rightarrow> MemoryStore \<Rightarrow> MemoryStore \<times> store_error option" where
  "UpdateUserRole i role m =
     (case map_of (m_users m) i of
        None \<Rightarrow> (m, Some NotFound)
      | Some u \<Rightarrow> (m\<lparr>m_users := AList.update i (u\<lparr>u_role := role\<rparr>) (m_users m)\<rparr>, None))"

definition UpdateUserConfig :: "int \<Rightarrow> string \<Rightarrow> MemoryStore \<Rightarrow> MemoryStore \<times> store_error option" where
  "UpdateUserConfig i config m =
     (case map_of (m_users m) i of
        None \<Rightarrow> (m, Some NotFound)
      | Some u \<Rightarrow> (m\<lparr>m_users := AList.update i (u\<lparr>u_config := config\<rparr>) (m_users m)\<rparr>, None))"

text \<open>\<open>DeleteUser\<close> ranges over the keys and deletes those of the user, and their index entries.\<close>

definition DeleteUser :: "int \<Rightarrow> MemoryStore \<Rightarrow> MemoryStore \<times> store_error option" where
  "DeleteUser i m =
     (case map_of (m_users m) i of
        None \<Rightarrow> (m, Some NotFound)
      | Some u \<Rightarrow>
          let m = m\<lparr>m_users := AList.delete i (m_users m),
                    m_users_by_email := AList.delete (u_email u) (m_users_by_email m)\<rparr>;
              (rows, index) = fold (\<lambda>(k, v) (rows, index).
                  if k_user v = i then (AList.delete k rows, AList.delete (k_key v) index) else (rows, index))
                (m_api_keys m) (m_api_keys m, m_api_keys_by_key m)
          in (m\<lparr>m_api_keys := rows, m_api_keys_by_key := index\<rparr>, None))"

text \<open>\<open>"tm_" + hex.EncodeToString(b)\<close>\<close>

definition hex_digit :: "nat \<Rightarrow> char" where
  "hex_digit n = (if n < 10 then char_of (48 + n) else char_of (87 + n))"

definition memKey :: "string \<Rightarrow> string" where
  "memKey random = ''tm_'' @ concat (map (\<lambda>c. [hex_digit (byte c div 16), hex_digit (byte c mod 16)]) random)"

definition CreateApiKey :: "string \<Rightarrow> int \<Rightarrow> string \<Rightarrow> MemoryStore \<Rightarrow> MemoryStore \<times> ApiKeyRow" where
  "CreateApiKey random userID scopes m =
     (let scopes = (if scopes = '''' then ''mcp:read'' else scopes);
          (m, i) = allocID m;
          key = memKey random;
          row = \<lparr>k_id = i, k_user = userID, k_key = key, k_scopes = scopes,
                 k_created = unix (m_clock m), k_last_used = 0\<rparr>
      in (m\<lparr>m_api_keys := AList.update i row (m_api_keys m),
            m_api_keys_by_key := AList.update key i (m_api_keys_by_key m)\<rparr>, row))"

definition GetApiKey :: "string \<Rightarrow> MemoryStore \<Rightarrow> ApiKeyRow option" where
  "GetApiKey key m =
     (case map_of (m_api_keys_by_key m) key of None \<Rightarrow> None | Some i \<Rightarrow> map_of (m_api_keys m) i)"

definition ListApiKeys :: "int \<Rightarrow> MemoryStore \<Rightarrow> ApiKeyRow list" where
  "ListApiKeys userID m = filter (\<lambda>k. k_user k = userID) (map snd (m_api_keys m))"

definition DeleteApiKey :: "int \<Rightarrow> int \<Rightarrow> MemoryStore \<Rightarrow> MemoryStore \<times> store_error option" where
  "DeleteApiKey i userID m =
     (case map_of (m_api_keys m) i of
        None \<Rightarrow> (m, Some NotFound)
      | Some k \<Rightarrow>
          if k_user k \<noteq> userID then (m, Some NotFound)
          else (m\<lparr>m_api_keys := AList.delete i (m_api_keys m),
                  m_api_keys_by_key := AList.delete (k_key k) (m_api_keys_by_key m)\<rparr>, None))"

text \<open>A Go map lookup of an absent key gives the zero row.\<close>

definition zero_key_row :: ApiKeyRow where
  "zero_key_row = \<lparr>k_id = 0, k_user = 0, k_key = '''', k_scopes = '''', k_created = 0, k_last_used = 0\<rparr>"

definition TouchApiKey :: "string \<Rightarrow> MemoryStore \<Rightarrow> MemoryStore" where
  "TouchApiKey key m =
     (case map_of (m_api_keys_by_key m) key of
        None \<Rightarrow> m
      | Some i \<Rightarrow>
          let k = (case map_of (m_api_keys m) i of Some k \<Rightarrow> k | None \<Rightarrow> zero_key_row)
          in m\<lparr>m_api_keys := AList.update i (k\<lparr>k_last_used := unix (m_clock m)\<rparr>) (m_api_keys m)\<rparr>)"

section \<open>Tables with an index\<close>

text \<open>
  A table of rows by identifier and an index that holds the identifier of the row with a
  given label. The users and the keys are two of them.
\<close>

locale indexed_table =
  fixes row_id :: "'r \<Rightarrow> int" and label :: "'r \<Rightarrow> string"
begin

definition consistent :: "int \<Rightarrow> (int \<times> 'r) list \<Rightarrow> (string \<times> int) list \<Rightarrow> bool" where
  "consistent next rows index \<longleftrightarrow>
     distinct (map fst rows) \<and> distinct (map fst index) \<and>
     (\<forall>i r. map_of rows i = Some r \<longrightarrow> row_id r = i \<and> i < next \<and> map_of index (label r) = Some i) \<and>
     (\<forall>l i. map_of index l = Some i \<longrightarrow> (\<exists>r. map_of rows i = Some r \<and> label r = l))"

lemma consistent_empty: "consistent next [] []"
  by (simp add: consistent_def)

lemma consistent_next: "consistent next rows index \<Longrightarrow> next \<le> next' \<Longrightarrow> consistent next' rows index"
  by (fastforce simp: consistent_def)

lemma consistent_insert:
  assumes "consistent next rows index" "map_of index (label r) = None" "row_id r = next"
  shows "consistent (next + 1) (AList.update next r rows) (AList.update (label r) next index)"
proof -
  have "map_of rows next = None" using assms(1) unfolding consistent_def by (metis less_irrefl not_Some_eq)
  with assms show ?thesis by (fastforce simp: consistent_def)
qed

lemma consistent_change:
  assumes "consistent next rows index" "map_of rows i = Some r" "row_id r' = i" "label r' = label r"
  shows "consistent next (AList.update i r' rows) index"
  using assms by (fastforce simp: consistent_def)

lemma consistent_delete:
  assumes "consistent next rows index" "map_of rows i = Some r"
  shows "consistent next (AList.delete i rows) (AList.delete (label r) index)"
proof -
  have inj: "label r' \<noteq> label r" if "map_of rows j = Some r'" "j \<noteq> i" for j r'
    using assms that unfolding consistent_def by (metis option.inject)
  show ?thesis using assms inj by (fastforce simp: consistent_def)
qed

lemma consistent_row:
  "consistent next rows index \<Longrightarrow> map_of rows i = Some r \<Longrightarrow> row_id r = i \<and> map_of index (label r) = Some i"
  unfolding consistent_def by blast

lemma consistent_index:
  "consistent next rows index \<Longrightarrow> map_of index l = Some i \<Longrightarrow> \<exists>r. map_of rows i = Some r \<and> label r = l"
  unfolding consistent_def by blast

lemma consistent_lookup:
  assumes "consistent next rows index"
  shows "(case map_of index l of None \<Rightarrow> None | Some i \<Rightarrow> map_of rows i) = Some r \<longleftrightarrow>
     map_of rows (row_id r) = Some r \<and> label r = l"
proof (cases "map_of index l")
  case None
  have "\<not> (map_of rows (row_id r) = Some r \<and> label r = l)"
    using consistent_row [OF assms, of "row_id r" r] None by auto
  then show ?thesis by (simp add: None)
next
  case (Some i)
  obtain r' where "map_of rows i = Some r'" "label r' = l" using consistent_index [OF assms Some] by blast
  then have "map_of rows i = Some r \<longleftrightarrow> map_of rows (row_id r) = Some r \<and> label r = l"
    using Some consistent_row [OF assms] by (metis option.inject)
  then show ?thesis by (simp add: Some)
qed

text \<open>Deleting, while ranging over the table, the rows that satisfy \<open>P\<close>.\<close>

definition sweep :: "('r \<Rightarrow> bool) \<Rightarrow> (int \<times> 'r) list \<Rightarrow> (int \<times> 'r) list \<times> (string \<times> int) list \<Rightarrow>
    (int \<times> 'r) list \<times> (string \<times> int) list" where
  "sweep P todo = fold (\<lambda>(k, v) (rows, index).
     if P v then (AList.delete k rows, AList.delete (label v) index) else (rows, index)) todo"

lemma sweep_spec:
  assumes "consistent next rows index" "distinct (map fst todo)"
    and "\<forall>(k, v) \<in> set todo. map_of rows k = Some v"
  shows "consistent next (fst (sweep P todo (rows, index))) (snd (sweep P todo (rows, index))) \<and>
    map_of (fst (sweep P todo (rows, index))) = (\<lambda>i. case map_of rows i of
        Some r \<Rightarrow> if P r \<and> i \<in> fst ` set todo then None else Some r | None \<Rightarrow> None)"
  using assms
proof (induction todo arbitrary: rows index)
  case Nil
  then show ?case by (simp add: sweep_def fun_eq_iff split: option.split)
next
  case (Cons kv todo)
  obtain k v where kv: "kv = (k, v)" by force
  let ?rows = "if P v then AList.delete k rows else rows"
  let ?index = "if P v then AList.delete (label v) index else index"
  have row: "map_of rows k = Some v" and nk: "k \<notin> fst ` set todo" using Cons.prems kv by auto
  have c: "consistent next ?rows ?index"
    using consistent_delete [OF Cons.prems(1) row] Cons.prems(1) by simp
  have rest: "\<forall>(k', v') \<in> set todo. map_of ?rows k' = Some v'"
    using Cons.prems(3) nk by (auto simp: rev_image_eqI)
  have step: "sweep P (kv # todo) (rows, index) = sweep P todo (?rows, ?index)"
    by (simp add: sweep_def kv)
  have "distinct (map fst todo)" using Cons.prems(2) by simp
  from Cons.IH [OF c this rest] show ?case
    unfolding step using row nk kv by (auto simp: fun_eq_iff split: option.splits)
qed

lemma sweep_all:
  assumes "consistent next rows index"
  shows "consistent next (fst (sweep P rows (rows, index))) (snd (sweep P rows (rows, index))) \<and>
    map_of (fst (sweep P rows (rows, index))) = (\<lambda>i. case map_of rows i of
        Some r \<Rightarrow> if P r then None else Some r | None \<Rightarrow> None)"
proof -
  have "\<forall>(k, v) \<in> set rows. map_of rows k = Some v" "distinct (map fst rows)"
    using assms by (auto simp: consistent_def)
  from sweep_spec [OF assms this(2,1), of P] show ?thesis
    by (auto simp: fun_eq_iff split: option.splits dest: map_of_SomeD intro: rev_image_eqI)
qed

end

interpretation users: indexed_table u_id u_email .

interpretation api_keys: indexed_table k_id k_key .


section \<open>The invariant\<close>

definition accounts_ok :: "MemoryStore \<Rightarrow> bool" where
  "accounts_ok m \<longleftrightarrow> users.consistent (m_next_id m) (m_users m) (m_users_by_email m) \<and>
     api_keys.consistent (m_next_id m) (m_api_keys m) (m_api_keys_by_key m)"

lemma DeleteUser_sweep:
  "map_of (m_users m) i = Some u \<Longrightarrow> DeleteUser i m =
     (m\<lparr>m_users := AList.delete i (m_users m),
        m_users_by_email := AList.delete (u_email u) (m_users_by_email m),
        m_api_keys := fst (api_keys.sweep (\<lambda>k. k_user k = i) (m_api_keys m) (m_api_keys m, m_api_keys_by_key m)),
        m_api_keys_by_key := snd (api_keys.sweep (\<lambda>k. k_user k = i) (m_api_keys m) (m_api_keys m, m_api_keys_by_key m))\<rparr>, None)"
  by (simp add: DeleteUser_def Let_def api_keys.sweep_def split: prod.splits)

lemma ok_CreateUser: "accounts_ok m \<Longrightarrow> accounts_ok (fst (CreateUser email pass role m))"
proof (cases "map_of (m_users_by_email m) email")
  case None
  assume ok: "accounts_ok m"
  let ?u = "\<lparr>u_id = m_next_id m, u_email = email, u_pass = pass,
    u_status = if role = ''admin'' then ''active'' else ''pending'', u_role = role,
    u_created = unix (m_clock m), u_config = ''''\<rparr>"
  have "users.consistent (m_next_id m + 1) (AList.update (m_next_id m) ?u (m_users m))
      (AList.update email (m_next_id m) (m_users_by_email m))"
    using ok None users.consistent_insert [of "m_next_id m" "m_users m" "m_users_by_email m" ?u]
    by (simp add: accounts_ok_def)
  moreover have "api_keys.consistent (m_next_id m + 1) (m_api_keys m) (m_api_keys_by_key m)"
    using ok by (auto simp: accounts_ok_def intro: api_keys.consistent_next)
  ultimately show ?thesis using None by (simp add: CreateUser_def allocID_def accounts_ok_def Let_def)
qed (simp add: CreateUser_def)

lemma ok_update_user:
  assumes "accounts_ok m" "map_of (m_users m) i = Some u" "u_id u' = u_id u" "u_email u' = u_email u"
  shows "accounts_ok (m\<lparr>m_users := AList.update i u' (m_users m)\<rparr>)"
proof -
  have "u_id u = i" using assms(1,2) by (simp add: accounts_ok_def users.consistent_def)
  then show ?thesis using assms users.consistent_change [of "m_next_id m" "m_users m" _ i u u']
    by (simp add: accounts_ok_def)
qed

lemma ok_UpdateUser:
  assumes "accounts_ok m"
  shows "accounts_ok (fst (UpdateUserStatus i s m))" "accounts_ok (fst (UpdateUserRole i s m))"
    "accounts_ok (fst (UpdateUserConfig i s m))"
  using assms
  by (auto simp: UpdateUserStatus_def UpdateUserRole_def UpdateUserConfig_def split: option.splits
      intro: ok_update_user)

lemma DeleteUser_spec:
  assumes "accounts_ok m" "map_of (m_users m) i = Some u"
  shows "accounts_ok (fst (DeleteUser i m)) \<and>
    map_of (m_users (fst (DeleteUser i m))) = (map_of (m_users m))(i := None) \<and>
    map_of (m_api_keys (fst (DeleteUser i m))) = (\<lambda>j. case map_of (m_api_keys m) j of
        Some k \<Rightarrow> if k_user k = i then None else Some k | None \<Rightarrow> None)"
proof -
  have c: "users.consistent (m_next_id m) (m_users m) (m_users_by_email m)"
    "api_keys.consistent (m_next_id m) (m_api_keys m) (m_api_keys_by_key m)"
    using assms(1) by (simp_all add: accounts_ok_def)
  show ?thesis
    using users.consistent_delete [OF c(1) assms(2)] api_keys.sweep_all [OF c(2), of "\<lambda>k. k_user k = i"]
    by (simp add: DeleteUser_sweep [OF assms(2)] accounts_ok_def)
qed

lemma ok_DeleteUser: "accounts_ok m \<Longrightarrow> accounts_ok (fst (DeleteUser i m))"
  using DeleteUser_spec [of m i] by (cases "map_of (m_users m) i") (auto simp: DeleteUser_def)

lemma ok_CreateApiKey:
  assumes ok: "accounts_ok m" and fresh: "map_of (m_api_keys_by_key m) (memKey random) = None"
  shows "accounts_ok (fst (CreateApiKey random i scopes m))"
proof -
  let ?k = "\<lparr>k_id = m_next_id m, k_user = i, k_key = memKey random,
    k_scopes = if scopes = '''' then ''mcp:read'' else scopes, k_created = unix (m_clock m), k_last_used = 0\<rparr>"
  have "api_keys.consistent (m_next_id m + 1) (AList.update (m_next_id m) ?k (m_api_keys m))
      (AList.update (memKey random) (m_next_id m) (m_api_keys_by_key m))"
    using ok fresh api_keys.consistent_insert [of "m_next_id m" "m_api_keys m" "m_api_keys_by_key m" ?k]
    by (simp add: accounts_ok_def)
  moreover have "users.consistent (m_next_id m + 1) (m_users m) (m_users_by_email m)"
    using ok by (auto simp: accounts_ok_def intro: users.consistent_next)
  ultimately show ?thesis by (simp add: CreateApiKey_def allocID_def accounts_ok_def Let_def)
qed

lemma ok_DeleteApiKey:
  assumes "accounts_ok m"
  shows "accounts_ok (fst (DeleteApiKey i userID m))"
proof (cases "map_of (m_api_keys m) i")
  case (Some k)
  then show ?thesis using assms api_keys.consistent_delete [of "m_next_id m" "m_api_keys m" _ i k]
    by (simp add: DeleteApiKey_def accounts_ok_def)
qed (use assms in \<open>simp add: DeleteApiKey_def\<close>)

lemma ok_TouchApiKey:
  assumes "accounts_ok m"
  shows "accounts_ok (TouchApiKey key m)"
proof (cases "map_of (m_api_keys_by_key m) key")
  case (Some i)
  obtain k where k: "map_of (m_api_keys m) i = Some k" "k_id k = i"
    using assms Some unfolding accounts_ok_def api_keys.consistent_def by metis
  then show ?thesis
    using assms Some api_keys.consistent_change [of "m_next_id m" "m_api_keys m" _ i k "k\<lparr>k_last_used := unix (m_clock m)\<rparr>"]
    by (simp add: TouchApiKey_def accounts_ok_def)
qed (use assms in \<open>simp add: TouchApiKey_def\<close>)

section \<open>Runs\<close>

datatype account_op =
    OpCreateUser string string string
  | OpStatus int string
  | OpRole int string
  | OpConfig int string
  | OpDeleteUser int
  | OpCreateKey string int string
  | OpDeleteKey int int
  | OpTouch string
  | OpClock gotime

fun account_step :: "account_op \<Rightarrow> MemoryStore \<Rightarrow> MemoryStore" where
  "account_step (OpCreateUser email pass role) m = fst (CreateUser email pass role m)"
| "account_step (OpStatus i s) m = fst (UpdateUserStatus i s m)"
| "account_step (OpRole i s) m = fst (UpdateUserRole i s m)"
| "account_step (OpConfig i s) m = fst (UpdateUserConfig i s m)"
| "account_step (OpDeleteUser i) m = fst (DeleteUser i m)"
| "account_step (OpCreateKey random i scopes) m = fst (CreateApiKey random i scopes m)"
| "account_step (OpDeleteKey i userID) m = fst (DeleteApiKey i userID m)"
| "account_step (OpTouch key) m = TouchApiKey key m"
| "account_step (OpClock t) m = m\<lparr>m_clock := t\<rparr>"

text \<open>The random bytes of a key that is created are those of no key in use.\<close>

inductive account_run :: "MemoryStore \<Rightarrow> MemoryStore \<Rightarrow> bool" where
  start: "account_run m m"
| step: "account_run m m' \<Longrightarrow>
     (\<And>random i scopes. op = OpCreateKey random i scopes \<Longrightarrow> map_of (m_api_keys_by_key m') (memKey random) = None) \<Longrightarrow>
     account_run m (account_step op m')"

lemma ok_step:
  assumes "accounts_ok m"
    "\<And>random i scopes. op = OpCreateKey random i scopes \<Longrightarrow> map_of (m_api_keys_by_key m) (memKey random) = None"
  shows "accounts_ok (account_step op m)"
  using assms
  by (cases op) (auto intro: ok_CreateUser ok_UpdateUser ok_DeleteUser ok_CreateApiKey ok_DeleteApiKey
      ok_TouchApiKey simp: accounts_ok_def [of "m\<lparr>m_clock := t\<rparr>" for t] simp flip: accounts_ok_def)

lemma ok_run: "account_run m m' \<Longrightarrow> accounts_ok m \<Longrightarrow> accounts_ok m'"
  by (induction rule: account_run.induct) (auto intro: ok_step)

lemma ok_new: "accounts_ok (NewMemoryStore now off)"
  by (simp add: accounts_ok_def NewMemoryStore_def users.consistent_empty api_keys.consistent_empty)

lemma get_user: "accounts_ok m \<Longrightarrow> GetUserByEmail email m = Some u \<longleftrightarrow> GetUserByID (u_id u) m = Some u \<and> u_email u = email"
  unfolding GetUserByEmail_def GetUserByID_def accounts_ok_def using users.consistent_lookup by blast

lemma get_key:
  "accounts_ok m \<Longrightarrow> GetApiKey key m = Some k \<longleftrightarrow> map_of (m_api_keys m) (k_id k) = Some k \<and> k_key k = key"
  unfolding GetApiKey_def accounts_ok_def using api_keys.consistent_lookup by blast

lemma option_eqI: "(\<And>x. a = Some x \<longleftrightarrow> b = Some x) \<Longrightarrow> a = b"
  by (metis not_Some_eq)

lemma listed_key:
  assumes "accounts_ok m"
  shows "k \<in> set (ListApiKeys (k_user k) m) \<longleftrightarrow> map_of (m_api_keys m) (k_id k) = Some k"
proof
  assume "k \<in> set (ListApiKeys (k_user k) m)"
  then obtain i where "(i, k) \<in> set (m_api_keys m)" by (auto simp: ListApiKeys_def)
  then have "map_of (m_api_keys m) i = Some k"
    using assms by (simp add: accounts_ok_def api_keys.consistent_def)
  then show "map_of (m_api_keys m) (k_id k) = Some k"
    using assms api_keys.consistent_row unfolding accounts_ok_def by blast
qed (auto simp: ListApiKeys_def dest!: map_of_SomeD intro: rev_image_eqI)

text \<open>The e-mail index and the user table agree in every state that a run of account operations can
reach from a new store: a user is found under an e-mail address exactly when it is the row of its own
identifier and has that address, so no two users share an address; the same holds of API keys.\<close>

theorem account_indexes_agree:
  assumes "account_run (NewMemoryStore now off) m"
  shows "(GetUserByEmail email m = Some u \<longleftrightarrow> GetUserByID (u_id u) m = Some u \<and> u_email u = email) \<and>
    (GetApiKey key m = Some k \<longleftrightarrow> k \<in> set (ListApiKeys (k_user k) m) \<and> k_key k = key)"
proof (rule conjI)
  have ok: "accounts_ok m" by (rule ok_run [OF assms ok_new])
  show "GetUserByEmail email m = Some u \<longleftrightarrow> GetUserByID (u_id u) m = Some u \<and> u_email u = email"
    by (rule get_user [OF ok])
  have "k \<in> set (ListApiKeys (k_user k) m) \<longleftrightarrow> map_of (m_api_keys m) (k_id k) = Some k"
    by (rule listed_key [OF ok])
  then show "GetApiKey key m = Some k \<longleftrightarrow> k \<in> set (ListApiKeys (k_user k) m) \<and> k_key k = key"
    using get_key [OF ok] by simp
qed

text \<open>C15: Deleting a user revokes every API key of the user and touches nothing else: afterwards no key
leads to a row of that user, every key of another user leads to the row it led to, and the user is gone
under its identifier and its e-mail address.\<close>

theorem delete_user_revokes_keys:
  assumes "account_run (NewMemoryStore now off) m" "GetUserByID i m = Some u"
  shows "GetApiKey key (fst (DeleteUser i m)) =
      (case GetApiKey key m of Some k \<Rightarrow> if k_user k = i then None else Some k | None \<Rightarrow> None) \<and>
    GetUserByID j (fst (DeleteUser i m)) = (if j = i then None else GetUserByID j m) \<and>
    GetUserByEmail (u_email u) (fst (DeleteUser i m)) = None"
proof (intro conjI)
  have ok: "accounts_ok m" by (rule ok_run [OF assms(1) ok_new])
  have u: "map_of (m_users m) i = Some u" using assms(2) by (simp add: GetUserByID_def)
  note spec = DeleteUser_spec [OF ok u]
  then have ok': "accounts_ok (fst (DeleteUser i m))" by blast
  have eq: "GetApiKey key (fst (DeleteUser i m)) = Some k \<longleftrightarrow> GetApiKey key m = Some k \<and> k_user k \<noteq> i" for k
    unfolding get_key [OF ok'] get_key [OF ok] using spec by (auto split: option.splits if_splits)
  show "GetApiKey key (fst (DeleteUser i m)) =
      (case GetApiKey key m of Some k \<Rightarrow> if k_user k = i then None else Some k | None \<Rightarrow> None)"
    by (rule option_eqI) (use eq in \<open>auto split: option.splits if_splits\<close>)
  show "GetUserByID j (fst (DeleteUser i m)) = (if j = i then None else GetUserByID j m)"
    using spec by (simp add: GetUserByID_def)
  have "GetUserByEmail (u_email u) (fst (DeleteUser i m)) \<noteq> Some u'" for u'
  proof
    assume "GetUserByEmail (u_email u) (fst (DeleteUser i m)) = Some u'"
    then have "GetUserByID (u_id u') m = Some u'" "u_id u' \<noteq> i" "u_email u' = u_email u"
      unfolding get_user [OF ok'] using spec by (auto simp: GetUserByID_def split: if_splits)
    moreover have "GetUserByEmail (u_email u) m = Some u" "u_id u = i"
      using assms(2) ok get_user [OF ok] by (auto simp: accounts_ok_def users.consistent_def GetUserByID_def)
    ultimately show False using get_user [OF ok] by (metis option.inject)
  qed
  then show "GetUserByEmail (u_email u) (fst (DeleteUser i m)) = None" by (meson not_Some_eq)
qed

section \<open>Witnesses\<close>

definition demo_accounts :: MemoryStore where
  "demo_accounts = account_step (OpCreateKey ''A'' 1 '''') (account_step (OpCreateUser ''a@x'' ''h'' ''admin'') (NewMemoryStore 0 0))"

lemma demo_accounts_run: "account_run (NewMemoryStore 0 0) demo_accounts"
  unfolding demo_accounts_def
  by (intro account_run.intros) (auto simp: NewMemoryStore_def CreateUser_def allocID_def Let_def)

lemma demo_key: "memKey ''A'' = ''tm_41''"
  by code_simp

lemma demo_user: "GetUserByID 1 demo_accounts = Some \<lparr>u_id = 1, u_email = ''a@x'', u_pass = ''h'',
    u_status = ''active'', u_role = ''admin'', u_created = 0, u_config = ''''\<rparr>"
  by (simp add: demo_accounts_def NewMemoryStore_def CreateUser_def CreateApiKey_def allocID_def Let_def
      GetUserByID_def unix_def)

lemma account_indexes_agree_witness:
  "GetUserByEmail ''a@x'' demo_accounts = Some \<lparr>u_id = 1, u_email = ''a@x'', u_pass = ''h'',
    u_status = ''active'', u_role = ''admin'', u_created = 0, u_config = ''''\<rparr>"
  using account_indexes_agree [OF demo_accounts_run] demo_user by simp

lemma delete_user_revokes_keys_witness:
  "GetApiKey ''tm_41'' (fst (DeleteUser 1 demo_accounts)) = None \<and> GetApiKey ''tm_41'' demo_accounts \<noteq> None"
proof -
  have k: "GetApiKey ''tm_41'' demo_accounts = Some \<lparr>k_id = 2, k_user = 1, k_key = ''tm_41'',
      k_scopes = ''mcp:read'', k_created = 0, k_last_used = 0\<rparr>"
    by (simp add: demo_accounts_def NewMemoryStore_def CreateUser_def CreateApiKey_def allocID_def Let_def
        GetApiKey_def unix_def demo_key)
  show ?thesis using delete_user_revokes_keys [OF demo_accounts_run demo_user, of "''tm_41''"] k by simp
qed

end
