(* ===== verification/Timetable.thy ===== *)
theory Timetable
  imports MemStore StopNames Pricing NetBuild
begin

text \<open>
  The timetable of the memory store (\<open>store/memory/store.go\<close>, \<open>store/memory/pricing.go\<close>,
  \<open>support/classifier\<close>): the upserts that importers call, \<open>ClearProviderData\<close>, and
  \<open>LoadNetwork\<close>, which turns the tables into the network that the planner searches. The fare
  tables are a global of the package, \<open>fareMemory\<close>, shared by all stores.
\<close>

section \<open>Stop classification\<close>

definition DefaultClassify :: "string \<Rightarrow> (string \<times> string) list \<Rightarrow> string" where
  "DefaultClassify name tags =
     (if (case map_of tags ''aeroway'' of Some v \<Rightarrow> contains v ''aerodrome'' | None \<Rightarrow> False) then StopTypeAirport
      else if map_of tags ''amenity'' = Some ''bus_station'' then StopTypeHub
      else if map_of tags ''public_transport'' = Some ''station'' then StopTypeStation
      else StopTypeStation)"

definition RuClassify :: "string \<Rightarrow> (string \<times> string) list \<Rightarrow> string" where
  "RuClassify name tags =
     (let inferred = InferStopType name
      in if inferred \<noteq> StopTypeStation then inferred else DefaultClassify name tags)"

section \<open>Upserts\<close>

text \<open>The identifier of a row that is written: its own, or a new one when it has none.\<close>

definition row_id :: "int \<Rightarrow> MemoryStore \<Rightarrow> MemoryStore \<times> int" where
  "row_id i m = (if i = 0 then allocID m else (m, i))"

definition UpsertCity :: "CityRow \<Rightarrow> MemoryStore \<Rightarrow> MemoryStore \<times> int" where
  "UpsertCity c m =
     (case (if ci_id c = 0
            then find (\<lambda>(_, ex). ci_name ex = ci_name c \<and> ci_region ex = ci_region c) (m_cities m) else None) of
        Some (_, ex) \<Rightarrow> (m\<lparr>m_cities := AList.update (ci_id ex) (c\<lparr>ci_id := ci_id ex\<rparr>) (m_cities m)\<rparr>, ci_id ex)
      | None \<Rightarrow>
          let (m, i) = row_id (ci_id c) m
          in (m\<lparr>m_cities := AList.update i (c\<lparr>ci_id := i\<rparr>) (m_cities m)\<rparr>, i))"

definition UpsertStation :: "StationRow \<Rightarrow> MemoryStore \<Rightarrow> MemoryStore \<times> int" where
  "UpsertStation s m =
     (let (m, i) = row_id (sn_id s) m
      in (m\<lparr>m_stations := AList.update i (s\<lparr>sn_id := i\<rparr>) (m_stations m)\<rparr>, i))"

definition UpsertStop :: "StopRow \<Rightarrow> MemoryStore \<Rightarrow> MemoryStore \<times> int" where
  "UpsertStop s m =
     (let (m, i) = row_id (so_id s) m
      in (m\<lparr>m_stops := AList.update i (s\<lparr>so_id := i\<rparr>) (m_stops m)\<rparr>, i))"

definition UpsertStationCode :: "StationCodeRow \<Rightarrow> MemoryStore \<Rightarrow> MemoryStore" where
  "UpsertStationCode c m = m\<lparr>m_station_codes := m_station_codes m @ [c]\<rparr>"

definition UpsertCarrier :: "CarrierRow \<Rightarrow> MemoryStore \<Rightarrow> MemoryStore \<times> int" where
  "UpsertCarrier c m =
     (let (m, i) = row_id (ca_id c) m
      in (m\<lparr>m_carriers := AList.update i (c\<lparr>ca_id := i\<rparr>) (m_carriers m)\<rparr>, i))"

definition UpsertRoute :: "RouteRow \<Rightarrow> MemoryStore \<Rightarrow> MemoryStore \<times> int" where
  "UpsertRoute r m =
     (case find (\<lambda>(_, e). ro_provider e = ro_provider r \<and> ro_code e = ro_code r) (m_routes m) of
        Some (i, _) \<Rightarrow> (m\<lparr>m_routes := AList.update i (r\<lparr>ro_id := i\<rparr>) (m_routes m)\<rparr>, i)
      | None \<Rightarrow>
          let (m, i) = row_id (ro_id r) m
          in (m\<lparr>m_routes := AList.update i (r\<lparr>ro_id := i\<rparr>) (m_routes m)\<rparr>, i))"

definition UpsertTrip :: "TripRow \<Rightarrow> MemoryStore \<Rightarrow> MemoryStore \<times> int" where
  "UpsertTrip t m =
     (case find (\<lambda>(_, e). tp_route e = tp_route t \<and> tp_code e = tp_code t) (m_trips m) of
        Some (i, _) \<Rightarrow> (m\<lparr>m_trips := AList.update i (t\<lparr>tp_id := i\<rparr>) (m_trips m)\<rparr>, i)
      | None \<Rightarrow>
          let (m, i) = row_id (tp_id t) m
          in (m\<lparr>m_trips := AList.update i (t\<lparr>tp_id := i\<rparr>) (m_trips m)\<rparr>, i))"

definition UpsertFrequency :: "FrequencyRow \<Rightarrow> MemoryStore \<Rightarrow> MemoryStore" where
  "UpsertFrequency f m = m\<lparr>m_frequencies := m_frequencies m @ [f]\<rparr>"

definition UpsertStopTime :: "StopTimeRow \<Rightarrow> MemoryStore \<Rightarrow> MemoryStore" where
  "UpsertStopTime st m = m\<lparr>m_stop_times := m_stop_times m @ [st]\<rparr>"

definition UpsertTransfer :: "TransferRow \<Rightarrow> MemoryStore \<Rightarrow> MemoryStore" where
  "UpsertTransfer tr m = m\<lparr>m_transfers := m_transfers m @ [tr]\<rparr>"

definition FindStation :: "string \<Rightarrow> string \<Rightarrow> MemoryStore \<Rightarrow> StationRow option" where
  "FindStation name region m =
     find (\<lambda>s. sn_name s = name \<and> sn_region s = region \<and> sn_lat s \<noteq> 0) (map snd (m_stations m))"

definition FindStationAny :: "string \<Rightarrow> string \<Rightarrow> MemoryStore \<Rightarrow> StationRow option" where
  "FindStationAny name region m =
     find (\<lambda>s. sn_name s = name \<and> sn_region s = region) (map snd (m_stations m))"

section \<open>Imports and quality issues\<close>

definition MarkImported :: "string \<Rightarrow> gotime \<Rightarrow> MemoryStore \<Rightarrow> MemoryStore" where
  "MarkImported p t m = m\<lparr>m_imports := AList.update p t (m_imports m)\<rparr>"

definition MarkImportedVersion :: "string \<Rightarrow> gotime \<Rightarrow> MemoryStore \<Rightarrow> MemoryStore" where
  "MarkImportedVersion p t m = m\<lparr>m_imports := AList.update p t (m_imports m)\<rparr>"

definition import_row :: "string \<Rightarrow> gotime \<Rightarrow> string \<Rightarrow> ImportRow" where
  "import_row p t status = \<lparr>im_provider = p, im_at = unix t, im_records = 0, im_status = status,
     im_snapshot = '''', im_checksum = '''', im_issues = 0\<rparr>"

definition GetImport :: "string \<Rightarrow> MemoryStore \<Rightarrow> ImportRow option" where
  "GetImport p m = map_option (\<lambda>t. import_row p t '''') (map_of (m_imports m) p)"

definition ListImports :: "int \<Rightarrow> MemoryStore \<Rightarrow> ImportRow list" where
  "ListImports limit m =
     (let limit = (if limit \<le> 0 then 20 else limit)
      in take (nat limit) (sort_by (\<lambda>a b. im_at a > im_at b) (map (\<lambda>(p, t). import_row p t ''ok'') (m_imports m))))"

definition SaveQualityIssue :: "QualityRow \<Rightarrow> MemoryStore \<Rightarrow> MemoryStore" where
  "SaveQualityIssue q m = m\<lparr>m_quality := m_quality m @ [q]\<rparr>"

definition ClearQualityIssues :: "string \<Rightarrow> MemoryStore \<Rightarrow> MemoryStore" where
  "ClearQualityIssues p m = m\<lparr>m_quality := filter (\<lambda>q. ql_provider q \<noteq> p) (m_quality m)\<rparr>"

section \<open>Clearing a provider\<close>

definition ClearProviderData :: "string \<Rightarrow> MemoryStore \<Rightarrow> MemoryStore" where
  "ClearProviderData p m =
     (let m = m\<lparr>m_stops := filter (\<lambda>(k, v). so_provider v \<noteq> p) (m_stops m)\<rparr>;
          m = m\<lparr>m_routes := filter (\<lambda>(k, v). ro_provider v \<noteq> p) (m_routes m)\<rparr>;
          m = m\<lparr>m_carriers := filter (\<lambda>(k, v). ca_provider v \<noteq> p) (m_carriers m)\<rparr>;
          m = m\<lparr>m_trips := filter (\<lambda>(k, v). tp_provider v \<noteq> p) (m_trips m)\<rparr>;
          m = m\<lparr>m_stop_times := filter (\<lambda>st. \<not> (case map_of (m_trips m) (sr_trip st) of
                  Some t \<Rightarrow> tp_provider t = p | None \<Rightarrow> False)) (m_stop_times m)\<rparr>;
          m = m\<lparr>m_transfers := filter (\<lambda>tr. \<not> (
                  (case map_of (m_stops m) (tf_from tr) of Some s \<Rightarrow> so_provider s = p | None \<Rightarrow> False) \<or>
                  (case map_of (m_stops m) (tf_to tr) of Some s \<Rightarrow> so_provider s = p | None \<Rightarrow> False)))
                (m_transfers m)\<rparr>
      in m\<lparr>m_stations := filter (\<lambda>(k, v). sn_provider v \<noteq> p) (m_stations m)\<rparr>)"

section \<open>Fares\<close>

record fareMemory =
  fm_zones :: "(string \<times> ZoneRow) list"
  fm_fares :: "(string \<times> FareAttributeRow) list"
  fm_rules :: "FareRuleRow list"
  fm_stop_zones :: "(int \<times> string) list"

definition globalFareMem :: fareMemory where
  "globalFareMem = \<lparr>fm_zones = [], fm_fares = [], fm_rules = [], fm_stop_zones = []\<rparr>"

definition UpsertZone :: "ZoneRow \<Rightarrow> fareMemory \<Rightarrow> fareMemory" where
  "UpsertZone z g = g\<lparr>fm_zones := AList.update (zr_id z) z (fm_zones g)\<rparr>"

text \<open>\<open>dflt\<close> is the configured default currency (\<open>pricing.DefaultCurrency\<close>).\<close>

definition UpsertFareAttribute :: "string \<Rightarrow> FareAttributeRow \<Rightarrow> fareMemory \<Rightarrow> fareMemory" where
  "UpsertFareAttribute dflt f g =
     (let f = f\<lparr>fw_currency := CurrencyOrDefault dflt (fw_currency f)\<rparr>;
          f = (if ValidateCurrency (fw_currency f) \<noteq> None then f\<lparr>fw_currency := DefaultCurrency dflt\<rparr> else f);
          f = (if fw_basis f = '''' then f\<lparr>fw_basis := ''fare''\<rparr> else f)
      in g\<lparr>fm_fares := AList.update (fw_id f) f (fm_fares g)\<rparr>)"

definition UpsertFareRule :: "FareRuleRow \<Rightarrow> fareMemory \<Rightarrow> fareMemory" where
  "UpsertFareRule r g = g\<lparr>fm_rules := fm_rules g @ [r]\<rparr>"

definition UpsertStopZone :: "StopZoneRow \<Rightarrow> fareMemory \<Rightarrow> fareMemory" where
  "UpsertStopZone s g = g\<lparr>fm_stop_zones := AList.update (sz_stop s) (sz_zone s) (fm_stop_zones g)\<rparr>"

definition ListZones :: "fareMemory \<Rightarrow> ZoneRow list" where
  "ListZones g = map snd (fm_zones g)"

definition ListFareAttributes :: "fareMemory \<Rightarrow> FareAttributeRow list" where
  "ListFareAttributes g = map snd (fm_fares g)"

definition ListFareRules :: "fareMemory \<Rightarrow> FareRuleRow list" where
  "ListFareRules g = fm_rules g"


text \<open>Clearing a provider leaves its timetable behind: the stops, routes, carriers, trips and stations of
the provider are removed and no others, but the trips and stops are deleted before the stop times and
transfers are compared with them, so not one stop time and not one transfer is ever removed.\<close>

theorem clear_leaves_stop_times:
  "m_stop_times (ClearProviderData p m) = m_stop_times m \<and>
   m_transfers (ClearProviderData p m) = m_transfers m \<and>
   m_stops (ClearProviderData p m) = filter (\<lambda>(k, v). so_provider v \<noteq> p) (m_stops m) \<and>
   m_trips (ClearProviderData p m) = filter (\<lambda>(k, v). tp_provider v \<noteq> p) (m_trips m) \<and>
   m_routes (ClearProviderData p m) = filter (\<lambda>(k, v). ro_provider v \<noteq> p) (m_routes m) \<and>
   m_carriers (ClearProviderData p m) = filter (\<lambda>(k, v). ca_provider v \<noteq> p) (m_carriers m) \<and>
   m_stations (ClearProviderData p m) = filter (\<lambda>(k, v). sn_provider v \<noteq> p) (m_stations m)"
proof -
  have trips: "\<not> (case map_of (filter (\<lambda>(k, v). tp_provider v \<noteq> p) ts) i of Some t \<Rightarrow> tp_provider t = p | None \<Rightarrow> False)"
    for ts :: "(int \<times> TripRow) list" and i
    by (auto split: option.splits dest!: map_of_SomeD)
  have stops: "\<not> (case map_of (filter (\<lambda>(k, v). so_provider v \<noteq> p) ss) i of Some s \<Rightarrow> so_provider s = p | None \<Rightarrow> False)"
    for ss :: "(int \<times> StopRow) list" and i
    by (auto split: option.splits dest!: map_of_SomeD)
  show ?thesis by (simp add: ClearProviderData_def Let_def trips stops)
qed

end
