(* ===== verification/LoadNetwork.thy ===== *)
theory LoadNetwork
  imports Timetable Csa_Journeys
begin

text \<open>
  \<open>LoadNetwork\<close> of the memory store: the tables become the network that the planner searches.
  The first part follows the method statement by statement; the second shows what the network
  holds: stops under their identifiers, rides between consecutive stop times of the trips that
  run on the day, and everything the connection scan relies on.
\<close>

section \<open>Service days\<close>

text \<open>\<open>time.Weekday\<close>: Sunday is 0; day 0 of the epoch was a Thursday.\<close>

definition weekday :: "gotime \<Rightarrow> int" where
  "weekday t = (t div day_ns + 4) mod 7"

definition day_base :: "gotime \<Rightarrow> duration \<Rightarrow> MemoryStore \<Rightarrow> gotime" where
  "day_base day off m = (if day = zero_time then m_clock m div day_ns * day_ns else midnight off day)"

definition serviceDaysMatch :: "gotime \<Rightarrow> string \<Rightarrow> bool" where
  "serviceDaysMatch dayBase serviceDays \<longleftrightarrow>
     serviceDays = '''' \<or>
     list_ex (\<lambda>part. let part = trim_space part in part \<noteq> '''' \<and> atoi part = Some (weekday dayBase))
       (split_char CHR '','' serviceDays)"

definition allowed :: "string list \<Rightarrow> string \<Rightarrow> bool" where
  "allowed providers p \<longleftrightarrow> providers = [] \<or> p \<in> set providers"

section \<open>Stops, routes and trips\<close>

definition stop_key :: "StopRow \<Rightarrow> string" where
  "stop_key st = (if so_code st = '''' then so_name st else so_code st)"

definition load_stop :: "MemoryStore \<Rightarrow> StopRow \<Rightarrow> stop" where
  "load_stop m st =
     (let (lat, lon) = (case map_of (m_stations m) (so_station st) of
                          Some sn \<Rightarrow> (sn_lat sn, sn_lon sn) | None \<Rightarrow> (0, 0))
      in \<lparr>stop_id = stop_key st, stop_provider = so_provider st, stop_name = so_name st,
          stop_lat = lat, stop_lon = lon,
          stop_type = (if so_type st = '''' then RuClassify (so_name st) [] else so_type st),
          stop_zone = '''', stop_cell = 0\<rparr>)"

text \<open>\<open>net.Stops\<close> and \<open>stopIDMap\<close>.\<close>

definition load_stops :: "string list \<Rightarrow> MemoryStore \<Rightarrow> (string \<times> stop) list \<times> (int \<times> string) list" where
  "load_stops providers m = fold (\<lambda>(i, st) (stops, ids).
     if allowed providers (so_provider st)
     then (AList.update (stop_key st) (load_stop m st) stops, AList.update i (stop_key st) ids)
     else (stops, ids)) (m_stops m) ([], [])"

definition load_routes :: "string list \<Rightarrow> MemoryStore \<Rightarrow> (string \<times> route) list" where
  "load_routes providers m = fold (\<lambda>(_, r) routes.
     if \<not> allowed providers (ro_provider r) \<or> ro_valid_to r \<noteq> None then routes
     else AList.update (ro_code r)
       \<lparr>route_id = ro_code r, route_provider = ro_provider r, route_short = ro_short r,
        route_long = ro_long r, route_mode = ro_mode r\<rparr> routes) (m_routes m) []"

definition load_times :: "(int \<times> string) list \<Rightarrow> TripRow \<Rightarrow> StopTimeRow list \<Rightarrow> stop_time list" where
  "load_times ids t rows =
     sort_by (\<lambda>a b. st_seq a < st_seq b)
       (List.map_filter (\<lambda>st. if sr_trip st \<noteq> tp_id t then None
          else (case map_of ids (sr_stop st) of
                  None \<Rightarrow> None
                | Some sid \<Rightarrow> Some \<lparr>st_stop = sid, st_seq = sr_seq st, st_arr = sr_arr st, st_dep = sr_dep st,
                    st_pickup = 0, st_dropoff = 0, st_provisional = sr_provisional st\<rparr>)) rows)"

definition load_trip :: "MemoryStore \<Rightarrow> TripRow \<Rightarrow> stop_time list \<Rightarrow> trip" where
  "load_trip m t sts =
     (let route = map_of (m_routes m) (tp_route t);
          routeID = (case route of Some r \<Rightarrow> ro_code r | None \<Rightarrow> '''')
      in \<lparr>trip_id = routeID @ ''|'' @ tp_code t, trip_route = routeID, trip_provider = tp_provider t,
          trip_mode = (case route of Some r \<Rightarrow> ro_mode r | None \<Rightarrow> ''''),
          trip_service = tp_service t, trip_stops = sts\<rparr>)"

definition trip_runs :: "string list \<Rightarrow> gotime \<Rightarrow> TripRow \<Rightarrow> bool" where
  "trip_runs providers dayBase t \<longleftrightarrow>
     allowed providers (tp_provider t) \<and> tp_valid_to t = None \<and> serviceDaysMatch dayBase (tp_days t)"

definition load_trips :: "string list \<Rightarrow> gotime \<Rightarrow> (int \<times> string) list \<Rightarrow> MemoryStore \<Rightarrow> (string \<times> trip) list" where
  "load_trips providers dayBase ids m = fold (\<lambda>(_, t) trips.
     let sts = load_times ids t (m_stop_times m) in
     if sts = [] \<or> \<not> trip_runs providers dayBase t then trips
     else (let mt = load_trip m t sts in AList.update (trip_id mt) mt trips)) (m_trips m) []"

definition load_transfers :: "(int \<times> string) list \<Rightarrow> MemoryStore \<Rightarrow> transfer list" where
  "load_transfers ids m = List.map_filter (\<lambda>tr.
     case (map_of ids (tf_from tr), map_of ids (tf_to tr)) of
       (Some a, Some b) \<Rightarrow> Some \<lparr>tr_from = a, tr_to = b, tr_minutes = tf_minutes tr, tr_min_time = 0, tr_dist = 0\<rparr>
     | _ \<Rightarrow> None) (m_transfers m)"

section \<open>Fares\<close>

text \<open>\<open>string(rune(id))\<close>: the low 32 bits as a code point, U+FFFD when they are none.\<close>

definition rune_string :: "int \<Rightarrow> string" where
  "rune_string i =
     (let r = signed_take_bit 31 i
      in if 0 \<le> r \<and> valid_rune (nat r) then utf8_rune (nat r) else utf8_rune rune_error)"

definition load_fares :: "fareMemory \<Rightarrow> (string \<times> fare_attribute) list" where
  "load_fares g = map (\<lambda>(k, v). (k,
     \<lparr>fa_id = fw_id v, fa_price = fw_price v,
      fa_currency = (if fw_id v \<noteq> '''' \<and> fw_currency v = '''' then ''RUB'' else fw_currency v),
      fa_basis = (if fw_basis v = '''' then ''fare'' else fw_basis v)\<rparr>)) (fm_fares g)"

definition load_fare_rules :: "fareMemory \<Rightarrow> MemoryStore \<Rightarrow> fare_rule list" where
  "load_fare_rules g m =
     (let routeCodeByID = fold (\<lambda>(_, r). AList.update (ro_id r) (ro_code r)) (m_routes m) [];
          rcode = (\<lambda>i. case map_of routeCodeByID i of
                         Some c \<Rightarrow> if c = '''' then rune_string i else c | None \<Rightarrow> rune_string i)
      in map (\<lambda>r. \<lparr>fr_fare = fl_fare r, fr_route = rcode (fl_route r), fr_origin = fl_origin r,
                    fr_dest = fl_dest r\<rparr>) (fm_rules g))"

definition load_stop_zones :: "fareMemory \<Rightarrow> (int \<times> string) list \<Rightarrow> (string \<times> string) list" where
  "load_stop_zones g ids = fold (\<lambda>(sid, zid) zones.
     case map_of ids sid of Some code \<Rightarrow> AList.update code zid zones | None \<Rightarrow> zones) (fm_stop_zones g) []"

section \<open>Connections\<close>

definition leg_connection :: "gotime \<Rightarrow> trip \<Rightarrow> stop_time \<Rightarrow> stop_time \<Rightarrow> connection" where
  "leg_connection base t src dst =
     (let dep = base + seconds (st_dep src);
          arr = base + seconds (st_arr dst);
          arr = (if arr < dep then arr + day_ns else arr)
      in \<lparr>c_trip = trip_id t, c_provider = trip_provider t, c_route = trip_route t, c_mode = trip_mode t,
          c_from = st_stop src, c_to = st_stop dst, c_dep = dep, c_arr = arr\<rparr>)"

fun trip_connections :: "gotime \<Rightarrow> trip \<Rightarrow> stop_time list \<Rightarrow> connection list" where
  "trip_connections base t (a # b # ts) = leg_connection base t a b # trip_connections base t (b # ts)"
| "trip_connections base t _ = []"

definition LoadNetwork :: "fareMemory \<Rightarrow> string list \<Rightarrow> gotime \<Rightarrow> duration \<Rightarrow> MemoryStore \<Rightarrow> network" where
  "LoadNetwork g providers day off m =
     (let dayBase = day_base day off m;
          (stops, ids) = load_stops providers m;
          trips = load_trips providers dayBase ids m;
          net = NewNetwork\<lparr>
            n_stops := stops, n_routes := load_routes providers m, n_trips := trips,
            n_transfers := load_transfers ids m, n_fares := load_fares g,
            n_zones := map (\<lambda>(k, v). (k, \<lparr>zn_id = zr_id v, zn_ru = zr_ru v, zn_en = zr_en v, zn_lat = 0, zn_lon = 0\<rparr>)) (fm_zones g),
            n_fare_rules := load_fare_rules g m, n_stop_zones := load_stop_zones g ids,
            n_connections := sort_by (\<lambda>a b. c_dep a < c_dep b)
              (concat (map (\<lambda>(_, t). trip_connections dayBase t (trip_stops t)) trips))\<rparr>
      in finish_network net)"


section \<open>What the tables must satisfy\<close>

text \<open>
  The only conditions on the tables: a station has a latitude, and no transfer takes negative
  time. Everything else that the engines rely on is established by \<open>LoadNetwork\<close>.
\<close>

definition sane_tables :: "MemoryStore \<Rightarrow> bool" where
  "sane_tables m \<longleftrightarrow>
     (\<forall>(i, sn) \<in> set (m_stations m). valid_lat (sn_lat sn)) \<and>
     (\<forall>tr \<in> set (m_transfers m). 0 \<le> tf_minutes tr)"

lemma load_stop_id [simp]: "stop_id (load_stop m st) = stop_key st"
  by (simp add: load_stop_def split: prod.splits)

lemma load_stop_lat: "sane_tables m \<Longrightarrow> valid_lat (stop_lat (load_stop m st))"
  by (auto simp: load_stop_def sane_tables_def valid_lat_def split: prod.splits option.splits
      dest!: map_of_SomeD)

definition stops_inv :: "MemoryStore \<Rightarrow> string list \<Rightarrow> (string \<times> stop) list \<times> (int \<times> string) list \<Rightarrow> bool" where
  "stops_inv m providers = (\<lambda>(stops, ids).
     distinct (map fst stops) \<and> distinct (map fst ids) \<and>
     (\<forall>(k, s) \<in> set stops. \<exists>i st. (i, st) \<in> set (m_stops m) \<and> allowed providers (so_provider st) \<and>
        k = stop_key st \<and> s = load_stop m st) \<and>
     (\<forall>(i, k) \<in> set ids. map_of stops k \<noteq> None \<and>
        (\<exists>st. (i, st) \<in> set (m_stops m) \<and> allowed providers (so_provider st) \<and> k = stop_key st)))"

lemma load_stops_inv: "stops_inv m providers (load_stops providers m)"
  unfolding load_stops_def
proof (rule fold_keeps [where P = "stops_inv m providers"])
  show "stops_inv m providers ([], [])" by (simp add: stops_inv_def)
next
  fix x s assume x: "x \<in> set (m_stops m)" and inv: "stops_inv m providers s"
  obtain i st stops ids where eq: "x = (i, st)" "s = (stops, ids)" by (cases x, cases s) auto
  let ?k = "stop_key st" and ?v = "load_stop m st"
  note all = inv [unfolded stops_inv_def eq prod.case]
  note d = all [THEN conjunct1] all [THEN conjunct2, THEN conjunct1]
    and sr = all [THEN conjunct2, THEN conjunct2, THEN conjunct1]
    and ir = all [THEN conjunct2, THEN conjunct2, THEN conjunct2]
  show "stops_inv m providers ((\<lambda>(i, st) (stops, ids).
     if allowed providers (so_provider st)
     then (AList.update (stop_key st) (load_stop m st) stops, AList.update i (stop_key st) ids)
     else (stops, ids)) x s)"
  proof (cases "allowed providers (so_provider st)")
    case True
    have "\<forall>(k, s) \<in> set (AList.update ?k ?v stops). \<exists>i st. (i, st) \<in> set (m_stops m) \<and>
        allowed providers (so_provider st) \<and> k = stop_key st \<and> s = load_stop m st"
      by (rule update_rows [OF d(1) sr]) (use x eq True in blast)
    moreover have "\<forall>(i, k) \<in> set (AList.update i ?k ids). map_of (AList.update ?k ?v stops) k \<noteq> None \<and>
        (\<exists>st. (i, st) \<in> set (m_stops m) \<and> allowed providers (so_provider st) \<and> k = stop_key st)"
      by (rule update_rows [OF d(2)]) (use ir x eq True in auto)
    ultimately show ?thesis using d True by (simp add: stops_inv_def eq)
  qed (use inv eq in simp)
qed

lemma load_times_stops:
  "st \<in> set (load_times ids t rows) \<Longrightarrow> \<exists>i. map_of ids i = Some (st_stop st)"
  by (auto simp: load_times_def List.map_filter_def split: if_splits option.splits)

lemma trip_connections_ends:
  "c \<in> set (trip_connections base t sts) \<Longrightarrow>
     c_from c \<in> st_stop ` set sts \<and> c_to c \<in> st_stop ` set sts"
  by (induction base t sts rule: trip_connections.induct) (auto simp: leg_connection_def Let_def)

lemma load_trips_rows:
  assumes "(k, t) \<in> set (load_trips providers dayBase ids m)"
  shows "\<exists>i row. (i, row) \<in> set (m_trips m) \<and> trip_runs providers dayBase row \<and>
    t = load_trip m row (load_times ids row (m_stop_times m)) \<and> k = trip_id t \<and> trip_stops t \<noteq> []"
proof -
  let ?P = "\<lambda>k t. \<exists>i row. (i, row) \<in> set (m_trips m) \<and> trip_runs providers dayBase row \<and>
    t = load_trip m row (load_times ids row (m_stop_times m)) \<and> k = trip_id t \<and> trip_stops t \<noteq> []"
  have "distinct (map fst (load_trips providers dayBase ids m)) \<and>
      (\<forall>(k, t) \<in> set (load_trips providers dayBase ids m). ?P k t)"
    unfolding load_trips_def
  proof (rule fold_keeps [where P = "\<lambda>ts. distinct (map fst ts) \<and> (\<forall>(k, t) \<in> set ts. ?P k t)"])
    fix x ts assume x: "x \<in> set (m_trips m)" and ts: "distinct (map fst ts) \<and> (\<forall>(k, t) \<in> set ts. ?P k t)"
    obtain i row where eq: "x = (i, row)" by (cases x) auto
    let ?sts = "load_times ids row (m_stop_times m)"
    let ?t = "load_trip m row ?sts"
    show "distinct (map fst ((\<lambda>(_, t) trips. let sts = load_times ids t (m_stop_times m)
          in if sts = [] \<or> \<not> trip_runs providers dayBase t then trips
             else let mt = load_trip m t sts in AList.update (trip_id mt) mt trips) x ts)) \<and>
       (\<forall>(k, t) \<in> set ((\<lambda>(_, t) trips. let sts = load_times ids t (m_stop_times m)
          in if sts = [] \<or> \<not> trip_runs providers dayBase t then trips
             else let mt = load_trip m t sts in AList.update (trip_id mt) mt trips) x ts). ?P k t)"
    proof (cases "?sts = [] \<or> \<not> trip_runs providers dayBase row")
      case False
      have "trip_stops ?t = ?sts" by (simp add: load_trip_def Let_def)
      then have "?P (trip_id ?t) ?t" using False x eq
        by (intro exI [of _ i] exI [of _ row]) auto
      then have "\<forall>(k, t) \<in> set (AList.update (trip_id ?t) ?t ts). ?P k t"
        by (intro update_rows [where P = ?P]) (use ts in auto)
      then show ?thesis using False ts by (simp add: eq Let_def)
    next
      case True
      then show ?thesis using ts by (simp only: eq prod.case Let_def if_True simp_thms) (elim conjE, assumption)
    qed
  qed simp
  then have "\<forall>(k, t) \<in> set (load_trips providers dayBase ids m). ?P k t" by (rule conjunct2)
  from bspec [OF this assms] show ?thesis by (simp only: prod.case)
qed

lemma load_transfers_rows:
  "tr \<in> set (load_transfers ids m) \<Longrightarrow>
     \<exists>row \<in> set (m_transfers m). map_of ids (tf_from row) = Some (tr_from tr) \<and>
       map_of ids (tf_to row) = Some (tr_to tr) \<and> tr_minutes tr = tf_minutes row"
  by (force simp: load_transfers_def List.map_filter_def split: option.splits prod.splits)

section \<open>The loaded network\<close>

text \<open>The network before its indexes and walking transfers are built.\<close>

definition bare_network :: "fareMemory \<Rightarrow> string list \<Rightarrow> gotime \<Rightarrow> duration \<Rightarrow> MemoryStore \<Rightarrow> network" where
  "bare_network g providers day off m =
     NewNetwork\<lparr>
       n_stops := fst (load_stops providers m), n_routes := load_routes providers m,
       n_trips := load_trips providers (day_base day off m) (snd (load_stops providers m)) m,
       n_transfers := load_transfers (snd (load_stops providers m)) m, n_fares := load_fares g,
       n_zones := map (\<lambda>(k, v). (k, \<lparr>zn_id = zr_id v, zn_ru = zr_ru v, zn_en = zr_en v, zn_lat = 0, zn_lon = 0\<rparr>)) (fm_zones g),
       n_fare_rules := load_fare_rules g m, n_stop_zones := load_stop_zones g (snd (load_stops providers m)),
       n_connections := sort_by (\<lambda>a b. c_dep a < c_dep b)
         (concat (map (\<lambda>(_, t). trip_connections (day_base day off m) t (trip_stops t))
            (load_trips providers (day_base day off m) (snd (load_stops providers m)) m)))\<rparr>"

lemma LoadNetwork_bare: "LoadNetwork g providers day off m = finish_network (bare_network g providers day off m)"
  by (simp add: LoadNetwork_def bare_network_def Let_def split_beta)

lemma bare_closed:
  assumes "sane_tables m"
  shows "closed_network (bare_network g providers day off m)"
proof -
  let ?net = "bare_network g providers day off m"
  obtain stops ids where eq: "load_stops providers m = (stops, ids)" by (cases "load_stops providers m")
  have inv: "stops_inv m providers (stops, ids)" using load_stops_inv [of m providers] by (simp add: eq)
  have known: "stop_at ?net k \<noteq> None" if "map_of ids i = Some k" for i k
    using inv that by (auto simp: stops_inv_def bare_network_def eq stop_at_def dest!: map_of_SomeD)
  have "stop_id s = k \<and> valid_lat (stop_lat s)" if "(k, s) \<in> set (n_stops ?net)" for k s
    using inv that load_stop_lat [OF assms] by (auto simp: stops_inv_def bare_network_def eq)
  moreover have "stop_at ?net (c_to c) \<noteq> None" if c: "c \<in> set (n_connections ?net)" for c
  proof -
    obtain k t where t: "(k, t) \<in> set (load_trips providers (day_base day off m) ids m)"
      "c \<in> set (trip_connections (day_base day off m) t (trip_stops t))"
      using c by (auto simp: bare_network_def eq)
    obtain st where "st \<in> set (trip_stops t)" "c_to c = st_stop st"
      using trip_connections_ends [OF t(2)] by blast
    moreover obtain row where "trip_stops t = load_times ids row (m_stop_times m)"
      using load_trips_rows [OF t(1)] by (auto simp: load_trip_def Let_def)
    ultimately show ?thesis using load_times_stops known by metis
  qed
  moreover have "stop_at ?net (tr_to tr) \<noteq> None \<and> 0 \<le> tr_minutes tr" if "tr \<in> set (n_transfers ?net)" for tr
    using load_transfers_rows [of tr ids m] that known assms
    by (auto simp: bare_network_def eq sane_tables_def)
  ultimately show ?thesis unfolding closed_network_def by blast
qed


lemma loaded_ready:
  assumes "sane_tables m" "stop_at (LoadNetwork g providers day off m) s \<noteq> None"
  shows "csa_known (LoadNetwork g providers day off m) s \<and>
    sorted_wrt (\<lambda>a b. c_dep a \<le> c_dep b) (csa_connections (LoadNetwork g providers day off m))"
  using assms(2) unfolding LoadNetwork_bare
  by (intro network_ready bare_closed [OF assms(1)]) (simp add: stop_at_finish)

text \<open>C2: The timetable tables and the earliest-arrival search fit together: whatever the tables hold,
once stations have latitudes and no transfer is negative, the loaded network is fit for the connection
scan, so when its rides take time, the answer of \<open>csa\<close> between any two of its stops arrives no later than
any journey the network allows.\<close>

theorem stored_timetable_earliest:
  assumes "sane_tables m" "net = LoadNetwork g providers day off m"
    and "stop_at net s \<noteq> None" "rides_take_time net (p_modes params)"
    and "csa_reach net params s d v t" "v \<noteq> s" "csa net s v d params = Some r"
  shows "case r of Inr legs \<Rightarrow> l_arr (last legs) \<le> t
     | Inl e \<Rightarrow> (\<exists>n. e = TransferLimit n (p_max_transfers params)) \<or> e = DirectOnly"
  using loaded_ready [OF assms(1), of g providers day off s] assms
  by (intro csa_no_earlier [of net params s d v t r]) auto

lemma set_trip_connections:
  "c \<in> set (trip_connections base t sts) \<longleftrightarrow>
     (\<exists>i. Suc i < length sts \<and> c = leg_connection base t (sts ! i) (sts ! Suc i))"
proof (induction base t sts rule: trip_connections.induct)
  case (1 base t a b ts)
  show ?case
  proof
    assume "c \<in> set (trip_connections base t (a # b # ts))"
    then consider "c = leg_connection base t a b" | "c \<in> set (trip_connections base t (b # ts))" by auto
    then show "\<exists>i. Suc i < length (a # b # ts) \<and> c = leg_connection base t ((a # b # ts) ! i) ((a # b # ts) ! Suc i)"
    proof cases
      case 1
      then show ?thesis by (intro exI [of _ 0]) simp
    next
      case 2
      then obtain i where "Suc i < length (b # ts)" "c = leg_connection base t ((b # ts) ! i) ((b # ts) ! Suc i)"
        using "1.IH" by blast
      then show ?thesis by (intro exI [of _ "Suc i"]) simp
    qed
  next
    assume "\<exists>i. Suc i < length (a # b # ts) \<and> c = leg_connection base t ((a # b # ts) ! i) ((a # b # ts) ! Suc i)"
    then obtain i where i: "Suc i < length (a # b # ts)"
      "c = leg_connection base t ((a # b # ts) ! i) ((a # b # ts) ! Suc i)" by blast
    then show "c \<in> set (trip_connections base t (a # b # ts))"
      using "1.IH" by (cases i) auto
  qed
qed auto

lemma seq_sorted: "sorted (map st_seq (load_times ids t rows))"
proof -
  have "sorted_wrt (\<lambda>a b. st_seq a \<le> st_seq b) (load_times ids t rows)"
    unfolding load_times_def
    by (rule sorted_wrt_mono_rel [OF _ sorted_sort_by [OF weak_order_key]]) simp
  then show ?thesis by (simp add: sorted_wrt_map)
qed

text \<open>A stop is loaded when a row of an allowed provider has its identifier; trips are kept under the code of their
route and their own.\<close>

definition stop_loaded :: "string list \<Rightarrow> MemoryStore \<Rightarrow> int \<Rightarrow> bool" where
  "stop_loaded providers m i \<longleftrightarrow> (\<exists>st. (i, st) \<in> set (m_stops m) \<and> allowed providers (so_provider st))"

definition trip_key_of :: "MemoryStore \<Rightarrow> TripRow \<Rightarrow> string" where
  "trip_key_of m row = (case map_of (m_routes m) (tp_route row) of Some r \<Rightarrow> ro_code r | None \<Rightarrow> '''') @ ''|'' @ tp_code row"

definition row_times :: "string list \<Rightarrow> MemoryStore \<Rightarrow> TripRow \<Rightarrow> StopTimeRow multiset" where
  "row_times providers m row = {# st \<in># mset (m_stop_times m). sr_trip st = tp_id row \<and> stop_loaded providers m (sr_stop st) #}"

lemma loaded_ids: "map_of (snd (load_stops providers m)) i \<noteq> None \<longleftrightarrow> stop_loaded providers m i"
proof -
  have "map_of (snd (fold (\<lambda>(i, st) (stops, ids).
     if allowed providers (so_provider st)
     then (AList.update (stop_key st) (load_stop m st) stops, AList.update i (stop_key st) ids)
     else (stops, ids)) xs acc)) i \<noteq> None \<longleftrightarrow>
     map_of (snd acc) i \<noteq> None \<or> (\<exists>st. (i, st) \<in> set xs \<and> allowed providers (so_provider st))" for xs acc
  proof (induction xs arbitrary: acc)
    case (Cons x xs)
    obtain k st where x: "x = (k, st)" by force
    obtain stops ids where a: "acc = (stops, ids)" by force
    show ?case unfolding x a fold_simps Cons.IH by (auto simp: update_conv')
  qed simp
  from this [of "m_stops m" "([], [])"] show ?thesis by (simp add: load_stops_def stop_loaded_def)
qed

lemma load_times_rows:
  "image_mset (\<lambda>st. (st_seq st, st_arr st, st_dep st)) (mset (load_times (snd (load_stops providers m)) row (m_stop_times m))) =
     image_mset (\<lambda>st. (sr_seq st, sr_arr st, sr_dep st)) (row_times providers m row)"
proof -
  let ?ids = "snd (load_stops providers m)"
  have "image_mset (\<lambda>st. (st_seq st, st_arr st, st_dep st)) (mset (List.map_filter (\<lambda>st. if sr_trip st \<noteq> tp_id row then None
          else (case map_of ?ids (sr_stop st) of None \<Rightarrow> None
                | Some sid \<Rightarrow> Some \<lparr>st_stop = sid, st_seq = sr_seq st, st_arr = sr_arr st, st_dep = sr_dep st,
                    st_pickup = 0, st_dropoff = 0, st_provisional = sr_provisional st\<rparr>)) xs)) =
      image_mset (\<lambda>st. (sr_seq st, sr_arr st, sr_dep st))
        {# st \<in># mset xs. sr_trip st = tp_id row \<and> stop_loaded providers m (sr_stop st) #}" for xs
    by (induction xs) (auto simp: map_filter_simps loaded_ids [symmetric] split: option.splits)
  then show ?thesis by (simp add: load_times_def row_times_def)
qed

lemma load_trips_map:
  "map_of (load_trips providers b ids m) k =
     map_of (rev (map (\<lambda>(_, r). let t = load_trip m r (load_times ids r (m_stop_times m)) in (trip_id t, t))
       (filter (\<lambda>(_, r). load_times ids r (m_stop_times m) \<noteq> [] \<and> trip_runs providers b r) (m_trips m)))) k"
proof -
  let ?step = "\<lambda>(_::int, t) trips. let sts = load_times ids t (m_stop_times m)
          in if sts = [] \<or> \<not> trip_runs providers b t then trips
             else let mt = load_trip m t sts in AList.update (trip_id mt) mt trips"
  let ?entry = "\<lambda>(_::int, r). let t = load_trip m r (load_times ids r (m_stop_times m)) in (trip_id t, t)"
  let ?keep = "\<lambda>(_::int, r). load_times ids r (m_stop_times m) \<noteq> [] \<and> trip_runs providers b r"
  have "map_of (fold ?step xs acc) k = (map_of acc ++ map_of (rev (map ?entry (filter ?keep xs)))) k" for xs acc
  proof (induction xs arbitrary: acc)
    case (Cons x xs)
    obtain i r where x: "x = (i, r)" by force
    let ?t = "load_trip m r (load_times ids r (m_stop_times m))"
    have "?step x acc = (if ?keep x then AList.update (trip_id ?t) ?t acc else acc)" by (simp add: x Let_def)
    then have "map_of (?step x acc) = (if ?keep x then (map_of acc)(trip_id ?t \<mapsto> ?t) else map_of acc)"
      by (simp add: update_conv')
    then show ?case unfolding fold_simps Cons.IH by (simp add: x Let_def map_add_def split: option.split)
  qed simp
  then show ?thesis by (simp add: load_trips_def)
qed

text \<open>Every running trip with a stop time at a loaded stop is loaded, unless a later row took its key.\<close>

lemma running_trip_loaded:
  assumes row: "(i, row) \<in> set (m_trips m)" "trip_runs providers b row" "row_times providers m row \<noteq> {#}"
    and trips: "trips = load_trips providers b (snd (load_stops providers m)) m"
  shows "\<exists>i' row' t. (i', row') \<in> set (m_trips m) \<and> trip_runs providers b row' \<and> trip_key_of m row' = trip_key_of m row \<and>
    (trip_key_of m row, t) \<in> set trips \<and>
    image_mset (\<lambda>st. (st_seq st, st_arr st, st_dep st)) (mset (trip_stops t)) =
      image_mset (\<lambda>st. (sr_seq st, sr_arr st, sr_dep st)) (row_times providers m row')"
proof -
  let ?ids = "snd (load_stops providers m)"
  let ?load = "\<lambda>r. load_trip m r (load_times ?ids r (m_stop_times m))"
  have key: "trip_id (?load r) = trip_key_of m r" for r by (simp add: load_trip_def trip_key_of_def Let_def)
  have "load_times ?ids row (m_stop_times m) \<noteq> []"
    using load_times_rows [of providers m row] row(3) by (metis image_mset_is_empty_iff mset_zero_iff)
  then have "(i, row) \<in> set (filter (\<lambda>(_, r). load_times ?ids r (m_stop_times m) \<noteq> [] \<and> trip_runs providers b r) (m_trips m))"
    using row(1,2) by simp
  then have "(trip_key_of m row, ?load row) \<in> (\<lambda>(_, r). let t = ?load r in (trip_id t, t)) `
      set (filter (\<lambda>(_, r). load_times ?ids r (m_stop_times m) \<noteq> [] \<and> trip_runs providers b r) (m_trips m))"
    by (rule rev_image_eqI) (simp add: key Let_def)
  then have "(trip_key_of m row, ?load row) \<in> set (rev (map (\<lambda>(_, r). let t = ?load r in (trip_id t, t))
       (filter (\<lambda>(_, r). load_times ?ids r (m_stop_times m) \<noteq> [] \<and> trip_runs providers b r) (m_trips m))))"
    by simp
  from weak_map_of_SomeI [OF this] obtain t where t: "map_of trips (trip_key_of m row) = Some t"
    unfolding trips load_trips_map by (rule exE)
  from map_of_SomeD [OF this [unfolded trips load_trips_map]] obtain i' row' where
    r': "(i', row') \<in> set (m_trips m)" "trip_runs providers b row'" "t = ?load row'" "trip_key_of m row = trip_id t"
    by (auto simp: Let_def)
  have "trip_stops t = load_times ?ids row' (m_stop_times m)" by (simp add: r'(3) load_trip_def Let_def)
  moreover have "(trip_key_of m row, t) \<in> set trips" using t by (rule map_of_SomeD)
  ultimately show ?thesis using r' load_times_rows [of providers m row'] key [of row']
    by (intro exI [of _ i'] exI [of _ row'] exI [of _ t]) simp
qed

text \<open>C5: The rides of the loaded network are exactly the hops of the day's trips: a connection is in it if
and only if it is the hop between two consecutive stop times of one of its trips; each of its trips
is a current trip of an allowed provider that runs on the day, its stop times in sequence order; and every such trip of the
tables with a time at a loaded stop is among its trips with all of these times, unless another running trip has
the same codes of route and trip, which then stands under the common key.\<close>

theorem loaded_connections_exact:
  assumes "net = LoadNetwork g providers day off m"
  shows "(c \<in> set (n_connections net) \<longleftrightarrow>
      (\<exists>k t i. (k, t) \<in> set (n_trips net) \<and> Suc i < length (trip_stops t) \<and>
         c = leg_connection (day_base day off m) t (trip_stops t ! i) (trip_stops t ! Suc i))) \<and>
    list_all (\<lambda>(k, t). \<exists>i row. (i, row) \<in> set (m_trips m) \<and> trip_runs providers (day_base day off m) row \<and>
       trip_provider t = tp_provider row \<and> k = trip_id t \<and> sorted (map st_seq (trip_stops t))) (n_trips net) \<and>
    list_all (\<lambda>(_, row). \<not> trip_runs providers (day_base day off m) row \<or> row_times providers m row = {#} \<or>
       (\<exists>i' row' t. (i', row') \<in> set (m_trips m) \<and> trip_runs providers (day_base day off m) row' \<and>
          trip_key_of m row' = trip_key_of m row \<and> (trip_key_of m row, t) \<in> set (n_trips net) \<and>
          image_mset (\<lambda>st. (st_seq st, st_arr st, st_dep st)) (mset (trip_stops t)) =
            image_mset (\<lambda>st. (sr_seq st, sr_arr st, sr_dep st)) (row_times providers m row'))) (m_trips m)"
proof (intro conjI)
  have n: "n_trips net = n_trips (bare_network g providers day off m)"
    "set (n_connections net) = set (n_connections (bare_network g providers day off m))"
    unfolding assms LoadNetwork_bare
    by (simp_all only: finish_sel(3)) (simp add: finish_network_def Let_def BuildIndexes_sel BuildWalkTransfers_sel)
  show "c \<in> set (n_connections net) \<longleftrightarrow> (\<exists>k t i. (k, t) \<in> set (n_trips net) \<and> Suc i < length (trip_stops t) \<and>
         c = leg_connection (day_base day off m) t (trip_stops t ! i) (trip_stops t ! Suc i))"
    unfolding n bare_network_def by (force simp: set_trip_connections)
  show "list_all (\<lambda>(k, t). \<exists>i row. (i, row) \<in> set (m_trips m) \<and> trip_runs providers (day_base day off m) row \<and>
       trip_provider t = tp_provider row \<and> k = trip_id t \<and> sorted (map st_seq (trip_stops t))) (n_trips net)"
    unfolding list_all_iff n
    using load_trips_rows [of _ _ providers "day_base day off m" "snd (load_stops providers m)" m] seq_sorted
    by (fastforce simp: bare_network_def load_trip_def Let_def)
  have "n_trips net = load_trips providers (day_base day off m) (snd (load_stops providers m)) m"
    by (simp add: n(1) bare_network_def)
  then show "list_all (\<lambda>(_, row). \<not> trip_runs providers (day_base day off m) row \<or> row_times providers m row = {#} \<or>
       (\<exists>i' row' t. (i', row') \<in> set (m_trips m) \<and> trip_runs providers (day_base day off m) row' \<and>
          trip_key_of m row' = trip_key_of m row \<and> (trip_key_of m row, t) \<in> set (n_trips net) \<and>
          image_mset (\<lambda>st. (st_seq st, st_arr st, st_dep st)) (mset (trip_stops t)) =
            image_mset (\<lambda>st. (sr_seq st, sr_arr st, sr_dep st)) (row_times providers m row'))) (m_trips m)"
    unfolding list_all_iff using running_trip_loaded by fastforce
qed



section \<open>Witnesses\<close>

definition demo_station :: "int \<Rightarrow> StationRow" where
  "demo_station i = \<lparr>sn_id = i, sn_name = '''', sn_lat = 0, sn_lon = 0, sn_cell = 0, sn_region = '''',
     sn_timezone = '''', sn_quality = 0, sn_provider = ''p'', sn_city = None\<rparr>"

definition demo_stop_row :: "int \<Rightarrow> string \<Rightarrow> StopRow" where
  "demo_stop_row i code = \<lparr>so_id = i, so_terminal = 0, so_station = 1, so_provider = ''p'', so_code = code,
     so_type = ''station'', so_transport = '''', so_name = code, so_raw = '''', so_lat = 0, so_lon = 0\<rparr>"

definition demo_time_row :: "int \<Rightarrow> int \<Rightarrow> int \<Rightarrow> StopTimeRow" where
  "demo_time_row stop seq t = \<lparr>sr_trip = 1, sr_stop = stop, sr_seq = seq, sr_arr = t, sr_dep = t, sr_pickup = 0,
     sr_dropoff = 0, sr_dwell = 0, sr_provisional = False, sr_score = None, sr_method = ''''\<rparr>"

definition demo_trip_row :: TripRow where
  "demo_trip_row = \<lparr>tp_id = 1, tp_route = 1, tp_provider = ''p'', tp_code = ''t'', tp_direction = '''',
     tp_direction_id = None, tp_days = '''', tp_frequency = 0, tp_period = '''', tp_service = 0,
     tp_duration = None, tp_distance = None, tp_method = None, tp_valid_to = None\<rparr>"

text \<open>A night trip: 23:00 at A, 01:00 at B, 02:00 at C.\<close>

definition demo_tables :: MemoryStore where
  "demo_tables = (NewMemoryStore 0 0)\<lparr>
     m_stations := [(1, demo_station 1)],
     m_stops := [(1, demo_stop_row 1 ''A''), (2, demo_stop_row 2 ''B''), (3, demo_stop_row 3 ''C'')],
     m_trips := [(1, demo_trip_row)],
     m_stop_times := [demo_time_row 1 1 82800, demo_time_row 2 2 3600, demo_time_row 3 3 7200]\<rparr>"

lemmas demo_table_defs = demo_tables_def demo_station_def demo_stop_row_def demo_time_row_def demo_trip_row_def
  NewMemoryStore_def

lemma demo_sane: "sane_tables demo_tables"
  by (simp add: sane_tables_def demo_table_defs valid_lat_def)

lemma demo_load_stops: "load_stops [] demo_tables =
    ([(''A'', load_stop demo_tables (demo_stop_row 1 ''A'')), (''B'', load_stop demo_tables (demo_stop_row 2 ''B'')),
      (''C'', load_stop demo_tables (demo_stop_row 3 ''C''))], [(1, ''A''), (2, ''B''), (3, ''C'')])"
  by (simp add: load_stops_def demo_tables_def allowed_def) (simp add: demo_stop_row_def stop_key_def)

definition demo_st :: "string \<Rightarrow> int \<Rightarrow> int \<Rightarrow> stop_time" where
  "demo_st s seq t = \<lparr>st_stop = s, st_seq = seq, st_arr = t, st_dep = t, st_pickup = 0, st_dropoff = 0, st_provisional = False\<rparr>"

definition demo_loaded_trip :: trip where
  "demo_loaded_trip = load_trip demo_tables demo_trip_row [demo_st ''A'' 1 82800, demo_st ''B'' 2 3600, demo_st ''C'' 3 7200]"

lemma demo_trips: "n_trips (LoadNetwork globalFareMem [] zero_time 0 demo_tables) = [(''|t'', demo_loaded_trip)]"
proof -
  have t: "load_times [(1, ''A''), (2, ''B''), (3, ''C'')] demo_trip_row (m_stop_times demo_tables) =
      [demo_st ''A'' 1 82800, demo_st ''B'' 2 3600, demo_st ''C'' 3 7200]"
    by (simp add: load_times_def demo_table_defs demo_st_def List.map_filter_def)
  have r: "trip_runs [] b demo_trip_row" for b
    by (simp add: trip_runs_def allowed_def demo_trip_row_def serviceDaysMatch_def)
  have i: "trip_id demo_loaded_trip = ''|t''"
    by (simp add: demo_loaded_trip_def load_trip_def demo_table_defs)
  have m: "m_trips demo_tables = [(1, demo_trip_row)]" by (simp add: demo_tables_def)
  have "load_trips [] b [(1, ''A''), (2, ''B''), (3, ''C'')] demo_tables = [(''|t'', demo_loaded_trip)]" for b
    by (simp add: load_trips_def m t r Let_def i flip: demo_loaded_trip_def)
  then show ?thesis
    by (simp add: LoadNetwork_bare finish_network_def Let_def BuildIndexes_sel BuildWalkTransfers_sel
        bare_network_def demo_load_stops)
qed


lemma loaded_connections_exact_witness:
  "list_all (\<lambda>(k, t). \<exists>i row. (i, row) \<in> set (m_trips demo_tables) \<and> trip_runs [] (day_base zero_time 0 demo_tables) row \<and>
       trip_provider t = tp_provider row \<and> k = trip_id t \<and> sorted (map st_seq (trip_stops t)))
     (n_trips (LoadNetwork globalFareMem [] zero_time 0 demo_tables))"
  using loaded_connections_exact [OF refl] by blast


abbreviation demo_loaded :: network where
  "demo_loaded \<equiv> LoadNetwork globalFareMem [] zero_time 0 demo_tables"

definition any_mode :: search_params where
  "any_mode = demo_params\<lparr>p_modes := []\<rparr>"

lemma demo_loaded_conns: "set (n_connections demo_loaded) =
    {leg_connection 0 demo_loaded_trip (demo_st ''A'' 1 82800) (demo_st ''B'' 2 3600),
     leg_connection 0 demo_loaded_trip (demo_st ''B'' 2 3600) (demo_st ''C'' 3 7200)}"
proof -
  have b: "day_base zero_time 0 demo_tables = 0" by (simp add: day_base_def demo_tables_def NewMemoryStore_def)
  have "trip_stops demo_loaded_trip = [demo_st ''A'' 1 82800, demo_st ''B'' 2 3600, demo_st ''C'' 3 7200]"
    by (simp add: demo_loaded_trip_def load_trip_def Let_def)
  moreover have "n_trips (bare_network globalFareMem [] zero_time 0 demo_tables) = [(''|t'', demo_loaded_trip)]"
    using demo_trips by (simp add: LoadNetwork_bare finish_network_def Let_def BuildIndexes_sel BuildWalkTransfers_sel)
  ultimately show ?thesis unfolding LoadNetwork_bare finish_sel(3)
    by (simp add: bare_network_def b insert_commute)
qed

lemma demo_loaded_stop: "stop_at demo_loaded ''A'' \<noteq> None"
  unfolding LoadNetwork_bare stop_at_finish
  by (simp add: bare_network_def demo_load_stops stop_at_def)

lemma demo_loaded_place:
  assumes "stop_at demo_loaded k = Some s"
  shows "stop_lat s = 0"  "stop_lon s = 0"
proof -
  have z: "stop_lat (load_stop demo_tables (demo_stop_row i c)) = 0" "stop_lon (load_stop demo_tables (demo_stop_row i c)) = 0"
    for i c by (simp_all add: load_stop_def demo_table_defs)
  obtain s' where "map_of (fst (load_stops [] demo_tables)) k = Some s'" "stop_lat s = stop_lat s'" "stop_lon s = stop_lon s'"
    using assms unfolding LoadNetwork_bare stop_at_finish by (auto simp: stop_at_def bare_network_def)
  then show "stop_lat s = 0" "stop_lon s = 0"
    unfolding demo_load_stops by (auto simp: z split: if_splits)
qed

lemma demo_loaded_usable: "c \<in> set (n_connections demo_loaded) \<Longrightarrow> usable demo_loaded [] c"
  unfolding usable_def isImplausibleConnection_def
  using demo_loaded_place by (auto split: option.splits)

lemma stored_timetable_earliest_witness:
  "\<exists>r. csa demo_loaded ''A'' ''B'' 0 any_mode = Some r \<and>
    (case r of Inr legs \<Rightarrow> l_arr (last legs) \<le> seconds 90000
     | Inl e \<Rightarrow> (\<exists>n. e = TransferLimit n (p_max_transfers any_mode)) \<or> e = DirectOnly)"
proof -
  let ?c = "leg_connection 0 demo_loaded_trip (demo_st ''A'' 1 82800) (demo_st ''B'' 2 3600)"
  have rides: "rides_take_time demo_loaded (p_modes any_mode)"
    unfolding rides_take_time_def demo_loaded_conns
    by (simp add: leg_connection_def demo_st_def seconds_def second_ns_def day_ns_def)
  have c: "?c \<in> set (n_connections demo_loaded)" by (simp add: demo_loaded_conns)
  have "reach demo_loaded [] (csa_transfers demo_loaded) ''A'' 0 (set (n_connections demo_loaded)) (c_to ?c) (c_arr ?c)"
    by (rule reach.ride [where t = 0, OF _ c demo_loaded_usable [OF c]])
      (use reach.start in \<open>simp_all add: leg_connection_def demo_st_def seconds_def second_ns_def\<close>)
  then have reach: "csa_reach demo_loaded any_mode ''A'' 0 ''B'' (seconds 90000)"
    by (simp add: csa_reach_def any_mode_def leg_connection_def demo_st_def seconds_def second_ns_def day_ns_def)
  obtain r where r: "csa demo_loaded ''A'' ''B'' 0 any_mode = Some r"
    using csa_total [OF rides_take_time_forward [OF rides]] loaded_ready [OF demo_sane demo_loaded_stop] by blast
  show ?thesis
    using stored_timetable_earliest [OF demo_sane refl demo_loaded_stop rides reach _ r] r by simp
qed

end
