(* ===== verification/Caches.thy ===== *)
theory Caches
  imports GoText
begin

text \<open>
  The three caches of the program: the byte cache with a lifetime per entry
  (\<open>cache/cache.go\<close>), the geocoder's cache of answers (\<open>geocoder/cached.go\<close>,
  \<open>MapCacheStore\<close>) and the cache of station queries (\<open>geocoder/geo.go\<close>,
  \<open>MapGeoCacheStore\<close>). Their common contract is the locale \<open>cache\<close>: a lookup finds what was
  stored last under the same key while it is still valid. \<open>MemoryCache.Get\<close> releases its lock
  between the lookup and the eviction of an expired entry, so it is two atomic steps.
\<close>

section \<open>The contract\<close>

locale cache =
  fixes get :: "'c \<Rightarrow> 'k \<Rightarrow> 'v option"
    and put :: "'k \<Rightarrow> 'v \<Rightarrow> 'c \<Rightarrow> 'c"
    and key_ok :: "'k \<Rightarrow> bool"
  assumes get_put_same: "key_ok k \<Longrightarrow> get (put k v c) k = Some v"
    and get_put_other: "key_ok k \<Longrightarrow> key_ok k' \<Longrightarrow> k' \<noteq> k \<Longrightarrow> get (put k v c) k' = get c k'"
begin

lemma get_put: "key_ok k \<Longrightarrow> key_ok k' \<Longrightarrow> get (put k v c) k' = (if k' = k then Some v else get c k')"
  by (simp add: get_put_same get_put_other)

lemma put_all:
  assumes "list_all (\<lambda>(k, v). key_ok k) kvs" "key_ok k"
  shows "get (fold (\<lambda>(k, v). put k v) kvs c) k =
    (case map_of (rev kvs) k of None \<Rightarrow> get c k | Some v \<Rightarrow> Some v)"
  using assms
proof (induction kvs arbitrary: c)
  case (Cons kv kvs)
  obtain k0 v0 where kv: "kv = (k0, v0)" by force
  have "key_ok k0" "list_all (\<lambda>(k, v). key_ok k) kvs" using Cons.prems kv by auto
  with Cons.IH [of "put k0 v0 c"] Cons.prems(2) show ?case
    by (simp add: kv get_put map_add_def split: option.split)
qed simp

end

section \<open>The byte cache\<close>

record entry =
  e_val :: string
  e_exp :: gotime

record MemoryCache =
  mc_data :: "string \<Rightarrow> entry option"

definition NewMemory :: MemoryCache where
  "NewMemory = \<lparr>mc_data = (\<lambda>_. None)\<rparr>"

definition expired :: "gotime \<Rightarrow> entry \<Rightarrow> bool" where
  "expired now e \<longleftrightarrow> e_exp e \<noteq> zero_time \<and> now > e_exp e"

text \<open>The first step of \<open>Get\<close>, under the read lock, and what it decides.\<close>

datatype read_result = Missing | Stale | Fresh string

definition Get_read :: "gotime \<Rightarrow> string \<Rightarrow> MemoryCache \<Rightarrow> read_result" where
  "Get_read now key m =
     (case mc_data m key of
        None \<Rightarrow> Missing
      | Some e \<Rightarrow> if expired now e then Stale else Fresh (e_val e))"

text \<open>The second step, taken under the write lock after a stale read.\<close>

definition Get_evict :: "string \<Rightarrow> MemoryCache \<Rightarrow> MemoryCache" where
  "Get_evict key m = m\<lparr>mc_data := (mc_data m)(key := None)\<rparr>"

definition Get :: "gotime \<Rightarrow> string \<Rightarrow> MemoryCache \<Rightarrow> MemoryCache \<times> string option" where
  "Get now key m =
     (case Get_read now key m of
        Missing \<Rightarrow> (m, None)
      | Stale \<Rightarrow> (Get_evict key m, None)
      | Fresh v \<Rightarrow> (m, Some v))"

definition Set :: "gotime \<Rightarrow> string \<Rightarrow> string \<Rightarrow> duration \<Rightarrow> MemoryCache \<Rightarrow> MemoryCache" where
  "Set now key val ttl m =
     m\<lparr>mc_data := (mc_data m)(key \<mapsto> \<lparr>e_val = val, e_exp = (if ttl > 0 then now + ttl else zero_time)\<rparr>)\<rparr>"

definition Delete :: "string \<Rightarrow> MemoryCache \<Rightarrow> MemoryCache" where
  "Delete key m = m\<lparr>mc_data := (mc_data m)(key := None)\<rparr>"

text \<open>What a lookup at \<open>now\<close> answers.\<close>

definition cached :: "gotime \<Rightarrow> MemoryCache \<Rightarrow> string \<Rightarrow> string option" where
  "cached now m key = snd (Get now key m)"

lemma Get_cases:
  "Get now key m = (case mc_data m key of None \<Rightarrow> (m, None)
     | Some e \<Rightarrow> if expired now e then (Get_evict key m, None) else (m, Some (e_val e)))"
  by (simp add: Get_def Get_read_def split: option.split)

lemma cached_eq:
  "cached now m key = (case mc_data m key of None \<Rightarrow> None | Some e \<Rightarrow> if expired now e then None else Some (e_val e))"
  by (simp add: cached_def Get_cases split: option.split)

text \<open>An entry of the byte cache lives exactly as long as it should: after \<open>Set\<close>, the key answers the
stored bytes up to and including the end of its lifetime and nothing after it, for ever when the lifetime
is not positive, whatever lookups come in between; other keys are not affected.\<close>

theorem cache_entry_lifetime:
  assumes "0 \<le> now"
  shows "cached t (Set now key val ttl m) k =
    (if k = key then (if 0 < ttl \<and> now + ttl < t then None else Some val) else cached t m k)"
proof -
  have "now + ttl \<noteq> zero_time" if "0 < ttl" using assms(1) that by (simp add: zero_time_def)
  then show ?thesis by (auto simp: cached_eq Set_def expired_def)
qed

text \<open>The eviction of an expired entry can destroy a fresh one: when a \<open>Set\<close> of the same key comes between
the lookup that finds the old entry expired and the eviction that follows it, the new value is gone,
however long its lifetime.\<close>

theorem eviction_loses_fresh_entry:
  assumes "Get_read now key m = Stale"
  shows "cached t (Get_evict key (Set now key val ttl m)) key = None"
  by (simp add: cached_eq Get_evict_def)

interpretation byte_cache: cache "cached t" "\<lambda>key val. Set now key val 0" "\<lambda>_. True"
  by unfold_locales (auto simp: cached_eq Set_def expired_def)

section \<open>The geocoder's caches\<close>

record CacheEntry =
  ce_lat :: real
  ce_lon :: real
  ce_name :: string
  ce_observed :: gotime
  ce_origin :: string
  ce_verified :: bool

type_synonym MapCacheStore = "string \<Rightarrow> CacheEntry option"

definition NewMapCacheStore :: MapCacheStore where
  "NewMapCacheStore = (\<lambda>_. None)"

definition MapCache_Get :: "MapCacheStore \<Rightarrow> string \<times> string \<Rightarrow> CacheEntry option" where
  "MapCache_Get s = (\<lambda>(queryNorm, provider). s (queryNorm @ ''|'' @ provider))"

definition MapCache_Set :: "string \<times> string \<Rightarrow> CacheEntry \<Rightarrow> MapCacheStore \<Rightarrow> MapCacheStore" where
  "MapCache_Set = (\<lambda>(queryNorm, provider) e s. s(queryNorm @ ''|'' @ provider \<mapsto> e))"

text \<open>The key separates query and provider when the provider's name has no bar in it.\<close>

lemma cache_key_inject:
  assumes "CHR ''|'' \<notin> set p" "CHR ''|'' \<notin> set p'"
  shows "q @ ''|'' @ p = q' @ ''|'' @ p' \<longleftrightarrow> q = q' \<and> p = p'"
proof
  assume eq: "q @ ''|'' @ p = q' @ ''|'' @ p'"
  have tail: "takeWhile (\<lambda>c. c \<noteq> CHR ''|'') (rev (q @ ''|'' @ p)) = rev p" if "CHR ''|'' \<notin> set p" for q p
  proof -
    have "takeWhile (\<lambda>c. c \<noteq> CHR ''|'') (rev p @ CHR ''|'' # rev q) = rev p @ takeWhile (\<lambda>c. c \<noteq> CHR ''|'') (CHR ''|'' # rev q)"
      by (rule takeWhile_append2) (use that in auto)
    then show ?thesis by simp
  qed
  have "rev p = rev p'"
    using arg_cong [OF eq, of "\<lambda>x. takeWhile (\<lambda>c. c \<noteq> CHR ''|'') (rev x)"]
    unfolding tail [OF assms(1)] tail [OF assms(2)] .
  with eq show "q = q' \<and> p = p'" by simp
qed simp

interpretation answer_cache: cache MapCache_Get MapCache_Set "\<lambda>(q, p). CHR ''|'' \<notin> set p"
proof (unfold_locales, goal_cases)
  case (1 k v c)
  then show ?case by (cases k) (simp add: MapCache_Get_def MapCache_Set_def)
next
  case (2 k k' v c)
  then show ?case
    by (cases k; cases k') (auto simp: MapCache_Get_def MapCache_Set_def cache_key_inject [simplified])
qed

section \<open>The cache of station queries\<close>

record 'r GeoCacheEntry =
  ge_records :: "'r list"
  ge_observed :: gotime
  ge_origin :: string

record 'r MapGeoCacheStore =
  gs_m :: "string \<Rightarrow> 'r GeoCacheEntry option"
  gs_ttl :: duration

definition NewMapGeoCacheStore :: "duration \<Rightarrow> 'r MapGeoCacheStore" where
  "NewMapGeoCacheStore ttl = \<lparr>gs_m = (\<lambda>_. None), gs_ttl = ttl\<rparr>"

definition GeoCache_Get :: "gotime \<Rightarrow> 'r MapGeoCacheStore \<Rightarrow> string \<Rightarrow> 'r GeoCacheEntry option" where
  "GeoCache_Get now s key =
     (case gs_m s key of
        None \<Rightarrow> None
      | Some e \<Rightarrow> if gs_ttl s > 0 \<and> now - ge_observed e > gs_ttl s then None else Some e)"

definition GeoCache_Set :: "string \<Rightarrow> 'r GeoCacheEntry \<Rightarrow> 'r MapGeoCacheStore \<Rightarrow> 'r MapGeoCacheStore" where
  "GeoCache_Set key e s = s\<lparr>gs_m := (gs_m s)(key \<mapsto> e)\<rparr>"

lemma cache_entry_lifetime_witness:
  "cached 15 (Set 5 ''k'' ''v'' 10 NewMemory) ''k'' = Some ''v'' \<and> cached 16 (Set 5 ''k'' ''v'' 10 NewMemory) ''k'' = None"
  using cache_entry_lifetime [where now = 5 and ttl = 10 and t = 15 and key = "''k''" and k = "''k''" and val = "''v''" and m = NewMemory]
    cache_entry_lifetime [where now = 5 and ttl = 10 and t = 16 and key = "''k''" and k = "''k''" and val = "''v''" and m = NewMemory]
  by simp

lemma eviction_loses_fresh_entry_witness:
  "cached 11 (Get_evict ''k'' (Set 11 ''k'' ''new'' 100 (Set 0 ''k'' ''old'' 10 NewMemory))) ''k'' = None"
  by (rule eviction_loses_fresh_entry) (simp add: Get_read_def Set_def expired_def zero_time_def)

end
