(* ===== verification/Geocoding.thy ===== *)
theory Geocoding
  imports Caches Network
begin

text \<open>
  Geocoding: the cached geocoder (\<open>geocoder/cached.go\<close>) and the fallback over several
  providers (\<open>geocoder/fallback.go\<close>). A provider is an interface: a record of functions from
  a query and the state \<open>'w\<close> of the world (the network, the clock, the cancellation of the
  request) to the world afterwards and a result or an error text. The cached geocoder works
  over any cache that satisfies the contract of \<open>Caches\<close>; its per-key mutex makes
  \<open>revalidate\<close> one atomic step for a query.
\<close>

section \<open>Interfaces\<close>

record geo_result =
  g_lat :: real
  g_lon :: real
  g_name :: string

record candidate =
  cd_lat :: real
  cd_lon :: real
  cd_name :: string
  cd_provider :: string

type_synonym 'w geo_call = "string \<Rightarrow> 'w \<Rightarrow> 'w \<times> (string + geo_result)"

text \<open>\<open>gc_candidates\<close> is \<open>None\<close> for a provider that is not a \<open>MultiGeocoder\<close>.\<close>

record 'w Geocoder =
  gc_geocode :: "'w geo_call"
  gc_reverse :: "real \<Rightarrow> real \<Rightarrow> 'w \<Rightarrow> 'w \<times> (string + string)"
  gc_candidates :: "(string \<Rightarrow> int \<Rightarrow> 'w \<Rightarrow> 'w \<times> (string + candidate list)) option"

text \<open>What the code reads of the request's context and of the clock.\<close>

record 'w environment =
  env_now :: "'w \<Rightarrow> gotime"
  env_err :: "'w \<Rightarrow> string option"

record 'c CacheStore =
  cs_get :: "'c \<Rightarrow> string \<times> string \<Rightarrow> CacheEntry option"
  cs_set :: "string \<times> string \<Rightarrow> CacheEntry \<Rightarrow> 'c \<Rightarrow> 'c"

definition map_cache_store :: "MapCacheStore CacheStore" where
  "map_cache_store = \<lparr>cs_get = MapCache_Get, cs_set = MapCache_Set\<rparr>"

section \<open>The cached geocoder\<close>

record ('w, 'c) CachedGeocoder =
  cg_inner :: "'w Geocoder"
  cg_provider :: string
  cg_cache :: "'c CacheStore"
  cg_quota :: "(string \<Rightarrow> int \<Rightarrow> 'w \<Rightarrow> 'w \<times> (string + bool)) option"
  cg_quota_limit :: int
  cg_ttl_verified :: duration
  cg_ttl_disputed :: duration

record CachedResult =
  cr_result :: geo_result
  cr_stale :: bool
  cr_origin :: string

definition NormalizeQuery :: "string \<Rightarrow> string" where
  "NormalizeQuery q = join '' '' (Fields (to_lower (trim_space q)))"

definition ttlFor :: "('w, 'c) CachedGeocoder \<Rightarrow> CacheEntry \<Rightarrow> duration" where
  "ttlFor g e =
     (if ce_origin e = ''seed'' \<or> \<not> ce_verified e then cg_ttl_disputed g else cg_ttl_verified g)"

definition is_fresh :: "('w, 'c) CachedGeocoder \<Rightarrow> 'w environment \<Rightarrow> 'w \<Rightarrow> CacheEntry \<Rightarrow> bool" where
  "is_fresh g env w e \<longleftrightarrow> env_now env w - ce_observed e < ttlFor g e"

definition entry_result :: "CacheEntry \<Rightarrow> bool \<Rightarrow> CachedResult" where
  "entry_result e stale =
     \<lparr>cr_result = \<lparr>g_lat = ce_lat e, g_lon = ce_lon e, g_name = ce_name e\<rparr>, cr_stale = stale, cr_origin = ce_origin e\<rparr>"

definition deadline_exceeded :: string where
  "deadline_exceeded = ''context deadline exceeded''"

text \<open>The quota check: an error of the quota counts as a refusal.\<close>

definition quota_allows :: "('w, 'c) CachedGeocoder \<Rightarrow> 'w \<Rightarrow> 'w \<times> bool" where
  "quota_allows g w =
     (case cg_quota g of
        None \<Rightarrow> (w, True)
      | Some quota \<Rightarrow>
          (case quota (cg_provider g) (cg_quota_limit g) w of
             (w, Inl _) \<Rightarrow> (w, False)
           | (w, Inr ok) \<Rightarrow> (w, ok)))"

definition stale_or :: "('w, 'c) CachedGeocoder \<Rightarrow> string \<Rightarrow> string \<Rightarrow> 'c \<Rightarrow> string + CachedResult" where
  "stale_or g nq err c =
     (case cs_get (cg_cache g) c (nq, cg_provider g) of
        Some e \<Rightarrow> Inr (entry_result e True)
      | None \<Rightarrow> Inl err)"

definition live_entry :: "geo_result \<Rightarrow> gotime \<Rightarrow> CacheEntry" where
  "live_entry r t = \<lparr>ce_lat = g_lat r, ce_lon = g_lon r, ce_name = g_name r, ce_observed = t,
     ce_origin = ''live'', ce_verified = False\<rparr>"

definition fetch :: "('w, 'c) CachedGeocoder \<Rightarrow> 'w environment \<Rightarrow> string \<Rightarrow> string \<Rightarrow> 'w \<Rightarrow> 'c \<Rightarrow>
    'w \<times> 'c \<times> (string + CachedResult)" where
  "fetch g env nq query w c =
     (case quota_allows g w of
        (w, ok) \<Rightarrow>
          if \<not> ok then (w, c, stale_or g nq deadline_exceeded c)
          else (case env_err env w of
             Some err \<Rightarrow> (w, c, Inl err)
           | None \<Rightarrow>
               (case gc_geocode (cg_inner g) query w of
                  (w, Inl err) \<Rightarrow> (w, c, stale_or g nq err c)
                | (w, Inr res) \<Rightarrow>
                    (w, cs_set (cg_cache g) (nq, cg_provider g) (live_entry res (env_now env w)) c,
                     Inr \<lparr>cr_result = res, cr_stale = False, cr_origin = ''live''\<rparr>))))"

definition revalidate :: "('w, 'c) CachedGeocoder \<Rightarrow> 'w environment \<Rightarrow> string \<Rightarrow> string \<Rightarrow> 'w \<Rightarrow> 'c \<Rightarrow>
    'w \<times> 'c \<times> (string + CachedResult)" where
  "revalidate g env nq query w c =
     (case cs_get (cg_cache g) c (nq, cg_provider g) of
        Some e \<Rightarrow>
          if is_fresh g env w e then (w, c, Inr (entry_result e False)) else fetch g env nq query w c
      | None \<Rightarrow> fetch g env nq query w c)"

definition GeocodeCached :: "('w, 'c) CachedGeocoder \<Rightarrow> 'w environment \<Rightarrow> string \<Rightarrow> 'w \<Rightarrow> 'c \<Rightarrow>
    'w \<times> 'c \<times> (string + CachedResult)" where
  "GeocodeCached g env query w c =
     (let nq = NormalizeQuery query in
      case cs_get (cg_cache g) c (nq, cg_provider g) of
        Some e \<Rightarrow>
          if is_fresh g env w e then (w, c, Inr (entry_result e False))
          else (case revalidate g env nq query w c of
              (w, c, Inr r) \<Rightarrow> (w, c, Inr r)
            | (w, c, Inl _) \<Rightarrow>
                (case env_err env w of
                   Some err \<Rightarrow> (w, c, Inl err)
                 | None \<Rightarrow> (w, c, Inr (entry_result e True))))
      | None \<Rightarrow> revalidate g env nq query w c)"

definition cached_geocode :: "('w, 'c) CachedGeocoder \<Rightarrow> 'w environment \<Rightarrow> string \<Rightarrow> 'w \<Rightarrow> 'c \<Rightarrow>
    'w \<times> 'c \<times> (string + geo_result)" where
  "cached_geocode g env query w c =
     (case GeocodeCached g env query w c of
        (w, c, Inl err) \<Rightarrow> (w, c, Inl err)
      | (w, c, Inr r) \<Rightarrow> (w, c, Inr (cr_result r)))"

section \<open>Fallback\<close>

type_synonym 'w named = "string \<times> 'w Geocoder"

record 'w fallback =
  fb_providers :: "'w named list"
  fb_attempts :: nat

definition defaultPriority :: "string list" where
  "defaultPriority = [''nominatim'', ''yandex'']"

definition NewFallback :: "(string \<times> 'w Geocoder) list \<Rightarrow> int \<Rightarrow> string \<Rightarrow> 'w fallback" where
  "NewFallback providers attempts preferred =
     (let attempts = (if attempts \<le> 0 then 3 else attempts);
          first = (if preferred \<noteq> '''' then
                     (case map_of providers preferred of Some g \<Rightarrow> [(preferred, g)] | None \<Rightarrow> []) else []);
          priorityRest = filter (\<lambda>k. k \<noteq> preferred \<and> map_of providers k \<noteq> None) defaultPriority;
          extra = filter (\<lambda>k. k \<noteq> preferred \<and> k \<notin> set priorityRest) (map fst providers);
          rest = priorityRest @ sort_by (\<lambda>a b. a < b) extra;
          ordered = first @ map (\<lambda>k. (k, the (map_of providers k))) rest
      in \<lparr>fb_providers = ordered, fb_attempts = nat attempts\<rparr>)"

text \<open>The two Russian error texts.\<close>

definition ru_no_providers :: string where
  "ru_no_providers = utf8 [1075, 1077, 1086, 1082, 1086, 1076, 1077, 1088, 58, 32, 1085, 1077, 1090, 32, 1076, 1086,
     1089, 1090, 1091, 1087, 1085, 1099, 1093, 32, 1087, 1088, 1086, 1074, 1072, 1081, 1076, 1077, 1088, 1086, 1074]"

definition ru_all_failed :: "nat \<Rightarrow> string \<Rightarrow> string" where
  "ru_all_failed n err =
     utf8 [1075, 1077, 1086, 1082, 1086, 1076, 1077, 1088, 58, 32, 1074, 1089, 1077, 32, 1087, 1088, 1086, 1074, 1072,
       1081, 1076, 1077, 1088, 1099, 32, 1085, 1077, 1076, 1086, 1089, 1090, 1091, 1087, 1085, 1099, 32, 1087, 1086,
       1089, 1083, 1077, 32] @ itoa (int n) @
     utf8 [32, 1087, 1086, 1087, 1099, 1090, 1086, 1082, 58, 32] @ err"

fun attempt_loop :: "'w environment \<Rightarrow> ('w Geocoder \<Rightarrow> 'w \<Rightarrow> 'w \<times> (string + 'r)) \<Rightarrow> 'w fallback \<Rightarrow>
    nat list \<Rightarrow> string \<Rightarrow> 'w \<Rightarrow> 'w \<times> (string + 'r)" where
  "attempt_loop env call f [] lastErr w = (w, Inl (ru_all_failed (fb_attempts f) lastErr))"
| "attempt_loop env call f (i # rest) lastErr w =
     (let p = fb_providers f ! (i mod length (fb_providers f)) in
      case call (snd p) w of
        (w, Inr res) \<Rightarrow> (w, Inr res)
      | (w, Inl err) \<Rightarrow>
          (case env_err env w of
             Some ctxErr \<Rightarrow> (w, Inl ctxErr)
           | None \<Rightarrow> attempt_loop env call f rest (fst p @ '': '' @ err) w))"

definition with_attempts :: "'w environment \<Rightarrow> ('w Geocoder \<Rightarrow> 'w \<Rightarrow> 'w \<times> (string + 'r)) \<Rightarrow> 'w fallback \<Rightarrow>
    'w \<Rightarrow> 'w \<times> (string + 'r)" where
  "with_attempts env call f w =
     (if fb_providers f = [] then (w, Inl ru_no_providers)
      else attempt_loop env call f [0 ..< fb_attempts f] '''' w)"

definition fallback_Geocode :: "'w environment \<Rightarrow> 'w fallback \<Rightarrow> string \<Rightarrow> 'w \<Rightarrow> 'w \<times> (string + geo_result)" where
  "fallback_Geocode env f query = with_attempts env (\<lambda>g. gc_geocode g query) f"

definition fallback_Reverse :: "'w environment \<Rightarrow> 'w fallback \<Rightarrow> real \<Rightarrow> real \<Rightarrow> 'w \<Rightarrow> 'w \<times> (string + string)" where
  "fallback_Reverse env f lat lon = with_attempts env (\<lambda>g. gc_reverse g lat lon) f"

text \<open>\<open>fmt.Sprintf("%.5f,%.5f", lat, lon)\<close>: five decimals, ties to even.\<close>

definition round_even :: "real \<Rightarrow> int" where
  "round_even x =
     (let n = \<lfloor>x\<rfloor>; d = x - of_int n
      in if d < 1 / 2 then n else if d > 1 / 2 then n + 1 else if even n then n else n + 1)"

definition pad_left :: "nat \<Rightarrow> string \<Rightarrow> string" where
  "pad_left n s = replicate (n - length s) CHR ''0'' @ s"

definition fixed5 :: "real \<Rightarrow> string" where
  "fixed5 x =
     (let n = round_even (\<bar>x\<bar> * 100000)
      in (if x < 0 then ''-'' else '''') @ itoa (n div 100000) @ ''.'' @ pad_left 5 (itoa (n mod 100000)))"

definition place_key :: "candidate \<Rightarrow> string" where
  "place_key c = fixed5 (cd_lat c) @ '','' @ fixed5 (cd_lon c)"

definition provider_candidates :: "string \<Rightarrow> int \<Rightarrow> 'w named \<Rightarrow> 'w \<Rightarrow> 'w \<times> candidate list" where
  "provider_candidates query limit p w =
     (case gc_candidates (snd p) of
        Some m \<Rightarrow> (case m query limit w of (w, Inl _) \<Rightarrow> (w, []) | (w, Inr cs) \<Rightarrow> (w, cs))
      | None \<Rightarrow>
          (case gc_geocode (snd p) query w of
             (w, Inl _) \<Rightarrow> (w, [])
           | (w, Inr r) \<Rightarrow>
               (w, [\<lparr>cd_lat = g_lat r, cd_lon = g_lon r, cd_name = g_name r, cd_provider = fst p\<rparr>])))"

fun add_candidates :: "string \<Rightarrow> candidate list \<Rightarrow> candidate list \<Rightarrow> candidate list" where
  "add_candidates kind [] all = all"
| "add_candidates kind (c # cs) all =
     (let c = (if cd_provider c = '''' then c\<lparr>cd_provider := kind\<rparr> else c)
      in if place_key c \<in> place_key ` set all then add_candidates kind cs all
         else add_candidates kind cs (all @ [c]))"

fun collect_candidates :: "string \<Rightarrow> int \<Rightarrow> 'w named list \<Rightarrow> candidate list \<Rightarrow> 'w \<Rightarrow> 'w \<times> candidate list" where
  "collect_candidates query limit [] all w = (w, all)"
| "collect_candidates query limit (p # ps) all w =
     (case provider_candidates query limit p w of
        (w, cs) \<Rightarrow> collect_candidates query limit ps (add_candidates (fst p) cs all) w)"

datatype candidates_error = NoProviders | CandidatesNotFound string

definition GeocodeCandidates :: "'w fallback \<Rightarrow> string \<Rightarrow> int \<Rightarrow> 'w \<Rightarrow> 'w \<times> (candidates_error + candidate list)" where
  "GeocodeCandidates f query limit w =
     (if fb_providers f = [] then (w, Inl NoProviders)
      else (case collect_candidates query limit (fb_providers f) [] w of
          (w, all) \<Rightarrow>
            if all = [] then (w, Inl (CandidatesNotFound query))
            else if limit > 0 \<and> int (length all) > limit * int (length (fb_providers f))
            then (w, Inr (take (nat limit * length (fb_providers f)) all))
            else (w, Inr all)))"


section \<open>The cached geocoder keeps answering\<close>

lemma fetch_cases:
  assumes "fetch g env nq query w c = (w', c', Inl err)"
    and "cs_get (cg_cache g) c (nq, cg_provider g) = Some e"
  shows "c' = c \<and> env_err env w' \<noteq> None"
  using assms by (auto simp: fetch_def stale_or_def split: prod.splits if_splits option.splits sum.splits)

lemma fetch_Inr:
  assumes "fetch g env nq query w c = (w', c', Inr r)"
    and "cs_get (cg_cache g) c (nq, cg_provider g) = Some e"
  shows "r = entry_result e True \<or> (cr_origin r = ''live'' \<and> \<not> cr_stale r \<and>
    (\<exists>w0. gc_geocode (cg_inner g) query w0 = (w', Inr (cr_result r))))"
  using assms by (auto simp: fetch_def stale_or_def split: prod.splits if_splits option.splits sum.splits)

text \<open>C17: An answer once known is never lost to a failure: when the cache holds an entry for the query,
whatever the quota and the provider do, the request is answered unless it was cancelled, either with that
entry, marked stale exactly when it is past its lifetime, or with a live answer of the provider.\<close>

theorem known_answer_survives_failures:
  assumes "cs_get (cg_cache g) c (NormalizeQuery query, cg_provider g) = Some e"
    and "GeocodeCached g env query w c = (w', c', r)" "env_err env w' = None"
  shows "r = Inr (entry_result e (\<not> is_fresh g env w e)) \<or>
    (\<exists>a w0. r = Inr \<lparr>cr_result = a, cr_stale = False, cr_origin = ''live''\<rparr> \<and>
       gc_geocode (cg_inner g) query w0 = (w', Inr a))"
proof (cases "is_fresh g env w e")
  case True
  then show ?thesis using assms(1,2) by (simp add: GeocodeCached_def Let_def)
next
  case False
  obtain w1 c1 r1 where f: "fetch g env (NormalizeQuery query) query w c = (w1, c1, r1)" by (metis prod_cases3)
  have v: "revalidate g env (NormalizeQuery query) query w c = (w1, c1, r1)"
    using assms(1) False f by (simp add: revalidate_def)
  show ?thesis
  proof (cases r1)
    case (Inl err)
    have "env_err env w1 \<noteq> None" using fetch_cases [OF _ assms(1)] f Inl by blast
    moreover have "w' = w1" using assms(1,2) False v Inl
      by (auto simp: GeocodeCached_def Let_def split: option.splits)
    ultimately show ?thesis using assms(3) by simp
  next
    case (Inr a)
    then have "r = Inr a" "w' = w1" using assms(1,2) False v by (auto simp: GeocodeCached_def Let_def)
    moreover have "a = entry_result e True \<or> (cr_origin a = ''live'' \<and> \<not> cr_stale a \<and>
        (\<exists>w0. gc_geocode (cg_inner g) query w0 = (w1, Inr (cr_result a))))"
      using fetch_Inr [OF _ assms(1), of env query w w1 c1 a] f Inr by blast
    ultimately show ?thesis
    proof (elim disjE conjE exE)
      fix w0 assume "r = Inr a" "w' = w1" "cr_origin a = ''live''" "\<not> cr_stale a"
        "gc_geocode (cg_inner g) query w0 = (w1, Inr (cr_result a))"
      then show ?thesis
        by (intro disjI2 exI [of _ "cr_result a"] exI [of _ w0]) (cases a, simp)
    qed (use False in simp)
  qed
qed

text \<open>A query is fetched once per lifetime: after a revalidation that had to fetch and succeeded, every
later revalidation of the query, by any request, gives the same answer and touches neither the quota nor
the provider, as long as less than the disputed lifetime has passed; after that it fetches again, since no
live entry is ever marked verified.\<close>

theorem one_fetch_per_lifetime:
  assumes "cg_cache g = map_cache_store" "CHR ''|'' \<notin> set (cg_provider g)"
    and "\<not> (\<exists>e. cs_get (cg_cache g) c (nq, cg_provider g) = Some e \<and> is_fresh g env w e)"
    and "revalidate g env nq query w c = (w1, c1, Inr r)" "\<not> cr_stale r"
    and "cs_get (cg_cache g) c2 (nq, cg_provider g) = cs_get (cg_cache g) c1 (nq, cg_provider g)"
  shows "revalidate g env nq query' w2 c2 =
    (if env_now env w2 - env_now env w1 < cg_ttl_disputed g
     then (w2, c2, Inr r) else fetch g env nq query' w2 c2)"
proof -
  have f: "fetch g env nq query w c = (w1, c1, Inr r)"
    using assms(3,4) by (auto simp: revalidate_def split: option.splits)
  then obtain a where r: "r = \<lparr>cr_result = a, cr_stale = False, cr_origin = ''live''\<rparr>"
    and c1: "c1 = cs_set (cg_cache g) (nq, cg_provider g) (live_entry a (env_now env w1)) c"
    using assms(5) by (auto simp: fetch_def stale_or_def entry_result_def split: prod.splits if_splits option.splits sum.splits)
  have "cs_get (cg_cache g) c2 (nq, cg_provider g) = Some (live_entry a (env_now env w1))"
    unfolding assms(6) using assms(1,2) by (simp add: c1 map_cache_store_def answer_cache.get_put_same)
  then show ?thesis
    by (simp add: revalidate_def r is_fresh_def ttlFor_def live_entry_def entry_result_def)
qed

section \<open>The fallback reaches every provider\<close>

lemma attempt_loop_answers:
  assumes "\<And>w. env_err env w = None" "k \<in> set js"
    and "\<And>w. \<exists>w' r. call (snd (fb_providers f ! (k mod length (fb_providers f)))) w = (w', Inr r)"
  shows "\<exists>w' r. attempt_loop env call f js err w = (w', Inr r)"
  using assms(2)
proof (induction js arbitrary: err w)
  case (Cons i js)
  obtain w1 r1 where c: "call (snd (fb_providers f ! (i mod length (fb_providers f)))) w = (w1, r1)"
    by (metis surj_pair)
  show ?case
  proof (cases r1)
    case (Inl e)
    have "i \<noteq> k" using assms(3) [of w] c Inl by auto
    then have "k \<in> set js" using Cons.prems by simp
    from Cons.IH [OF this] show ?thesis using c Inl assms(1) by (simp add: Let_def)
  next
    case (Inr a)
    then show ?thesis using c by (simp add: Let_def)
  qed
qed simp

lemma NewFallback_providers:
  assumes d: "distinct (map fst providers)" and e: "'''' \<notin> fst ` set providers"
  shows "mset (fb_providers (NewFallback providers attempts preferred)) = mset providers"
proof -
  let ?P = "filter (\<lambda>k. k \<noteq> preferred \<and> map_of providers k \<noteq> None) defaultPriority"
  let ?E = "filter (\<lambda>k. k \<noteq> preferred \<and> k \<notin> set ?P) (map fst providers)"
  let ?R = "?P @ sort_by (\<lambda>a b. a < b) ?E"
  define F where "F = (if preferred \<noteq> '''' then
    (case map_of providers preferred of Some g \<Rightarrow> [(preferred, g)] | None \<Rightarrow> []) else [])"
  have fb: "fb_providers (NewFallback providers attempts preferred) = F @ map (\<lambda>k. (k, the (map_of providers k))) ?R"
    by (simp add: NewFallback_def Let_def F_def)
  have F: "F = map (\<lambda>k. (k, the (map_of providers k))) (if preferred \<in> fst ` set providers then [preferred] else [])"
    using e by (auto simp: F_def map_of_eq_None_iff split: option.splits)
  let ?K = "(if preferred \<in> fst ` set providers then [preferred] else []) @ ?R"
  have "distinct ?P" by (simp add: defaultPriority_def)
  moreover have "distinct (sort_by (\<lambda>a b. a < b) ?E)"
    using d by simp
  ultimately have dK: "distinct ?K" by auto
  have sP: "set ?P \<subseteq> fst ` set providers" by (auto simp: map_of_eq_None_iff)
  have sK: "set ?K = set (map fst providers)" using sP by auto
  have "mset ?K = mset (map fst providers)" using dK d sK by (simp only: set_eq_iff_mset_eq_distinct)
  then have "image_mset (\<lambda>k. (k, the (map_of providers k))) (mset ?K)
      = image_mset (\<lambda>k. (k, the (map_of providers k))) (mset (map fst providers))" by simp
  then have "mset (map (\<lambda>k. (k, the (map_of providers k))) ?K)
      = mset (map (\<lambda>k. (k, the (map_of providers k))) (map fst providers))" by (simp only: mset_map)
  also have "map (\<lambda>k. (k, the (map_of providers k))) (map fst providers) = providers"
    using d by (auto intro!: map_idI)
  finally show ?thesis unfolding fb F by simp
qed

text \<open>C16: One working provider is enough: when the attempts are at least as many as the providers, the
request is not cancelled and some provider answers every call, the fallback answers, whichever provider is
preferred and however the others fail.\<close>

theorem fallback_reaches_working_provider:
  assumes "distinct (map fst providers)" "'''' \<notin> fst ` set providers"
    and "(kind, g) \<in> set providers" "\<And>w. \<exists>w' r. gc_geocode g query w = (w', Inr r)"
    and "\<And>w. env_err env w = None" "int (length providers) \<le> (if attempts \<le> 0 then 3 else attempts)"
  shows "\<exists>w' r. fallback_Geocode env (NewFallback providers attempts preferred) query w = (w', Inr r)"
proof -
  let ?f = "NewFallback providers attempts preferred"
  have m: "mset (fb_providers ?f) = mset providers" by (rule NewFallback_providers [OF assms(1,2)])
  then have len: "length (fb_providers ?f) = length providers" by (rule mset_eq_length)
  have "(kind, g) \<in> set (fb_providers ?f)" using assms(3) mset_eq_setD [OF m] by simp
  then obtain k where k: "k < length providers" "fb_providers ?f ! k = (kind, g)"
    unfolding in_set_conv_nth len by blast
  have "k < fb_attempts ?f" using k(1) assms(6) by (auto simp: NewFallback_def Let_def split: if_splits)
  then have "\<exists>w' r. attempt_loop env (\<lambda>g. gc_geocode g query) ?f [0 ..< fb_attempts ?f] '''' w = (w', Inr r)"
    using k assms(4,5) by (intro attempt_loop_answers [where k = k]) (auto simp: len)
  moreover have "fb_providers ?f \<noteq> []" using k len by auto
  ultimately show ?thesis by (simp add: fallback_Geocode_def with_attempts_def)
qed

lemma add_candidates_distinct:
  "distinct (map place_key all) \<Longrightarrow> distinct (map place_key (add_candidates kind cs all))"
proof (induction kind cs all rule: add_candidates.induct)
  case (2 kind c cs all)
  show ?case using 2 by (auto simp: Let_def)
qed simp

lemma collect_candidates_distinct:
  "distinct (map place_key all) \<Longrightarrow> distinct (map place_key (snd (collect_candidates query limit ps all w)))"
proof (induction ps arbitrary: all w)
  case (Cons p ps)
  then show ?case using add_candidates_distinct by (simp split: prod.splits)
qed simp

text \<open>Merged candidates are distinct places: an answer of \<open>GeocodeCandidates\<close> is not empty, names no two
candidates at the same coordinates to five decimals, and a positive limit bounds it by the limit times the
number of providers.\<close>

theorem candidates_distinct_and_bounded:
  assumes "GeocodeCandidates f query limit w = (w', Inr cs)"
  shows "cs \<noteq> [] \<and> distinct (map place_key cs) \<and>
    (if 0 < limit then int (length cs) \<le> limit * int (length (fb_providers f)) else True)"
proof -
  obtain w1 all where c: "collect_candidates query limit (fb_providers f) [] w = (w1, all)" by (metis surj_pair)
  have d: "distinct (map place_key all)"
    using collect_candidates_distinct [of "[]" query limit "fb_providers f" w] c by simp
  have ne: "fb_providers f \<noteq> []" using assms by (auto simp: GeocodeCandidates_def)
  show ?thesis
  proof (cases "limit > 0 \<and> int (length all) > limit * int (length (fb_providers f))")
    case True
    then have cs: "cs = take (nat limit * length (fb_providers f)) all" and "all \<noteq> []"
      using assms c ne by (auto simp: GeocodeCandidates_def split: if_splits)
    have "distinct (map place_key cs)" using d unfolding cs take_map [symmetric] by (rule distinct_take)
    moreover have "cs \<noteq> []" using cs True ne \<open>all \<noteq> []\<close> by simp
    moreover have "int (length cs) \<le> limit * int (length (fb_providers f))"
    proof -
      have "length cs \<le> nat limit * length (fb_providers f)" unfolding cs by simp
      then have "int (length cs) \<le> int (nat limit * length (fb_providers f))" by (simp only: of_nat_le_iff)
      then show ?thesis using True by simp
    qed
    ultimately show ?thesis by simp
  next
    case False
    then have "cs = all" "all \<noteq> []" using assms c ne by (auto simp: GeocodeCandidates_def split: if_splits)
    then show ?thesis using d False by auto
  qed
qed


section \<open>Witnesses\<close>

text \<open>The state of the world is the clock; one provider is down, one answers.\<close>

definition demo_env :: "gotime environment" where
  "demo_env = \<lparr>env_now = (\<lambda>w. w), env_err = (\<lambda>_. None)\<rparr>"

definition demo_place :: geo_result where
  "demo_place = \<lparr>g_lat = 55, g_lon = 73, g_name = ''Omsk''\<rparr>"

definition down :: "gotime Geocoder" where
  "down = \<lparr>gc_geocode = (\<lambda>_ w. (w + 1, Inl ''down'')), gc_reverse = (\<lambda>_ _ w. (w, Inl ''down'')), gc_candidates = None\<rparr>"

definition up :: "gotime Geocoder" where
  "up = \<lparr>gc_geocode = (\<lambda>_ w. (w + 1, Inr demo_place)), gc_reverse = (\<lambda>_ _ w. (w, Inr ''Omsk'')), gc_candidates = None\<rparr>"

definition demo_cached :: "gotime Geocoder \<Rightarrow> (gotime, MapCacheStore) CachedGeocoder" where
  "demo_cached inner = \<lparr>cg_inner = inner, cg_provider = ''nominatim'', cg_cache = map_cache_store, cg_quota = None,
     cg_quota_limit = 10, cg_ttl_verified = 90, cg_ttl_disputed = 7\<rparr>"

lemma known_answer_survives_failures_witness:
  "\<exists>a. snd (snd (GeocodeCached (demo_cached down) demo_env ''omsk'' 100
      (MapCache_Set (NormalizeQuery ''omsk'', ''nominatim'') (live_entry demo_place 0) NewMapCacheStore))) = Inr a"
proof -
  let ?c = "MapCache_Set (NormalizeQuery ''omsk'', ''nominatim'') (live_entry demo_place 0) NewMapCacheStore"
  let ?r = "GeocodeCached (demo_cached down) demo_env ''omsk'' 100 ?c"
  have "cs_get (cg_cache (demo_cached down)) ?c (NormalizeQuery ''omsk'', cg_provider (demo_cached down)) = Some (live_entry demo_place 0)"
    by (simp add: demo_cached_def map_cache_store_def answer_cache.get_put_same)
  from known_answer_survives_failures [OF this, of demo_env 100 "fst ?r" "fst (snd ?r)" "snd (snd ?r)"]
  show ?thesis by (auto simp: demo_env_def)
qed


lemma one_fetch_per_lifetime_witness:
  "revalidate (demo_cached up) demo_env ''omsk'' ''Omsk'' 10
      (MapCache_Set (''omsk'', ''nominatim'') (live_entry demo_place 6) NewMapCacheStore)
   = (10, MapCache_Set (''omsk'', ''nominatim'') (live_entry demo_place 6) NewMapCacheStore,
      Inr \<lparr>cr_result = demo_place, cr_stale = False, cr_origin = ''live''\<rparr>)"
proof -
  let ?g = "demo_cached up" and ?c = "MapCache_Set (''omsk'', ''nominatim'') (live_entry demo_place 6) NewMapCacheStore"
  have none: "cs_get (cg_cache ?g) NewMapCacheStore (''omsk'', cg_provider ?g) = None"
    by (simp add: demo_cached_def map_cache_store_def MapCache_Get_def NewMapCacheStore_def)
  have "revalidate ?g demo_env ''omsk'' ''omsk'' 5 NewMapCacheStore
      = (6, ?c, Inr \<lparr>cr_result = demo_place, cr_stale = False, cr_origin = ''live''\<rparr>)"
    using none by (simp add: revalidate_def fetch_def quota_allows_def demo_cached_def demo_env_def up_def map_cache_store_def)
  from one_fetch_per_lifetime [OF _ _ _ this, of ?c "''Omsk''" 10] none show ?thesis
    by (simp add: demo_cached_def demo_env_def)
qed

lemma fallback_reaches_working_provider_witness:
  "\<exists>w' r. fallback_Geocode demo_env (NewFallback [(''nominatim'', down), (''yandex'', up)] 2 ''nominatim'') ''omsk'' 0 = (w', Inr r)"
  by (rule fallback_reaches_working_provider [where kind = "''yandex''" and g = up])
    (simp_all add: up_def demo_env_def)

lemma candidates_distinct_and_bounded_witness:
  "distinct (map place_key [\<lparr>cd_lat = 55, cd_lon = 73, cd_name = ''Omsk'', cd_provider = ''yandex''\<rparr>])"
proof -
  have "GeocodeCandidates (NewFallback [(''yandex'', up)] 2 '''') ''omsk'' 1 0
      = (1, Inr [\<lparr>cd_lat = 55, cd_lon = 73, cd_name = ''Omsk'', cd_provider = ''yandex''\<rparr>])"
    by (simp add: GeocodeCandidates_def NewFallback_def defaultPriority_def provider_candidates_def up_def
        demo_place_def Let_def)
  from candidates_distinct_and_bounded [OF this] show ?thesis by blast
qed

end
