(* ===== verification/NameSim.thy ===== *)
theory NameSim
  imports GoText
begin

text \<open>
  Comparison of place names (\<open>support/namesim/namesim.go\<close>): normal form, core without noise
  words, extraction of the settlement, edit distance and the similarity in the unit interval
  that every matcher of the registry uses. The tables of Russian words are lists of code points.
\<close>

section \<open>Word tables\<close>

definition noiseTokens :: "string list" where
  "noiseTokens =
     [utf8 [1086, 1087], utf8 [1072, 1074], utf8 [1072, 1089], utf8 [1076, 1082, 1087], utf8 [1082, 1076, 1087], utf8 [1082, 1087],
      utf8 [1087, 1086, 1074], utf8 [1086, 1089, 1090, 1072, 1085, 1086, 1074, 1086, 1095, 1085, 1099, 1081], utf8 [1087, 1091, 1085, 1082, 1090], utf8 [1082, 1072, 1089, 1089, 1086, 1074, 1099, 1081],
      utf8 [1072, 1074, 1090, 1086, 1089, 1090, 1072, 1085, 1094, 1080, 1103], utf8 [1072, 1074, 1090, 1086, 1074, 1086, 1082, 1079, 1072, 1083], utf8 [1072, 1074, 1090, 1086, 1073, 1091, 1089, 1085, 1072, 1103], utf8 [1089, 1090, 1072, 1085, 1094, 1080, 1103],
      utf8 [1074, 1086, 1082, 1079, 1072, 1083], utf8 [1078, 1076], utf8 [1072, 1101, 1088, 1086, 1087, 1086, 1088, 1090], utf8 [1072, 1101, 1088, 1086, 1076, 1088, 1086, 1084],
      utf8 [1086, 1089, 1090, 1072, 1085, 1086, 1074, 1082, 1072], utf8 [1072, 1074, 1090, 1086, 1087, 1072, 1074, 1080, 1083, 1100, 1086, 1085], utf8 [1076, 1080, 1089, 1087, 1077, 1090, 1095, 1077, 1088, 1089, 1082, 1086], utf8 [1076, 1080, 1089, 1087, 1077, 1090, 1095, 1077, 1088, 1089, 1082, 1080, 1081],
      utf8 [1075], utf8 [1075, 1086, 1088, 1086, 1076], utf8 [1087, 1086, 1089], utf8 [1087, 1086, 1089, 1105, 1083, 1086, 1082], utf8 [1087, 1086, 1089, 1077, 1083, 1086, 1082],
      utf8 [1087, 1075, 1090], utf8 [1087], utf8 [1089, 1077, 1083, 1086], utf8 [1089], utf8 [1089, 1090], utf8 [1076], utf8 [1076, 1077, 1088, 1077, 1074, 1085, 1103],
      utf8 [1082, 1088, 1072, 1081], utf8 [1086, 1073, 1083, 1072, 1089, 1090, 1100], utf8 [1088, 1077, 1089, 1087, 1091, 1073, 1083, 1080, 1082, 1072], utf8 [1086, 1082, 1088, 1091, 1075], utf8 [1072, 1086], utf8 [1088, 1086, 1089, 1089, 1080, 1103]]"

definition settlementPrefixes :: "string list" where
  "settlementPrefixes =
     [utf8 [1075], utf8 [1075, 1086, 1088, 1086, 1076], utf8 [1087, 1075, 1090], utf8 [1087, 1086, 1089], utf8 [1087, 1086, 1089, 1105, 1083, 1086, 1082], utf8 [1087, 1086, 1089, 1077, 1083, 1086, 1082],
      utf8 [1087], utf8 [1089, 1077, 1083, 1086], utf8 [1089], utf8 [1089, 1090], utf8 [1076], utf8 [1076, 1077, 1088, 1077, 1074, 1085, 1103]]"

definition facilityStopWords :: "string list" where
  "facilityStopWords =
     [utf8 [1072, 1101, 1088, 1086, 1087, 1086, 1088, 1090], utf8 [1072, 1101, 1088, 1086, 1076, 1088, 1086, 1084], utf8 [1074, 1086, 1082, 1079, 1072, 1083], utf8 [1072, 1074, 1090, 1086, 1089, 1090, 1072, 1085, 1094, 1080, 1103], utf8 [1086, 1089, 1090, 1072, 1085, 1086, 1074, 1082, 1072],
      utf8 [1086, 1089, 1090, 1072, 1085, 1086, 1074, 1086, 1095, 1085, 1099, 1081], utf8 [1087, 1091, 1085, 1082, 1090], utf8 [1082, 1072, 1089, 1089, 1086, 1074, 1099, 1081], utf8 [1076, 1080, 1089, 1087, 1077, 1090, 1095, 1077, 1088, 1089, 1082, 1086, 45, 1082, 1072, 1089, 1089, 1086, 1074, 1099, 1081],
      utf8 [1079, 1072, 1074, 1086, 1076], utf8 [1094, 1077, 1084, 1077, 1085, 1090, 1085, 1099, 1081], utf8 [1096, 1082, 1086, 1083, 1072], utf8 [1094, 1077, 1085, 1090, 1088, 1072, 1083, 1100, 1085, 1099, 1081], utf8 [1084, 1077, 1078, 1076, 1091, 1085, 1072, 1088, 1086, 1076, 1085, 1099, 1081]]"

definition abbreviationExpansions :: "(string \<times> string) list" where
  "abbreviationExpansions =
     [(utf8 [1086, 1087], utf8 [1086, 1089, 1090, 1072, 1085, 1086, 1074, 1086, 1095, 1085, 1099, 1081, 32, 1087, 1091, 1085, 1082, 1090]),
      (utf8 [1072, 1074], utf8 [1072, 1074, 1090, 1086, 1074, 1086, 1082, 1079, 1072, 1083]),
      (utf8 [1072, 1089], utf8 [1072, 1074, 1090, 1086, 1089, 1090, 1072, 1085, 1094, 1080, 1103]),
      (utf8 [1076, 1082, 1087], utf8 [1076, 1080, 1089, 1087, 1077, 1090, 1095, 1077, 1088, 1089, 1082, 1086, 45, 1082, 1072, 1089, 1089, 1086, 1074, 1099, 1081, 32, 1087, 1091, 1085, 1082, 1090]),
      (utf8 [1082, 1076, 1087], utf8 [1082, 1072, 1089, 1089, 1086, 1074, 1086, 45, 1076, 1080, 1089, 1087, 1077, 1090, 1095, 1077, 1088, 1089, 1082, 1080, 1081, 32, 1087, 1091, 1085, 1082, 1090]),
      (utf8 [1082, 1087], utf8 [1082, 1072, 1089, 1089, 1086, 1074, 1099, 1081, 32, 1087, 1091, 1085, 1082, 1090]),
      (utf8 [1076, 1087], utf8 [1076, 1080, 1089, 1087, 1077, 1090, 1095, 1077, 1088, 1089, 1082, 1080, 1081, 32, 1087, 1091, 1085, 1082, 1090]),
      (utf8 [1078, 1076, 1074], utf8 [1078, 1077, 1083, 1077, 1079, 1085, 1086, 1076, 1086, 1088, 1086, 1078, 1085, 1099, 1081, 32, 1074, 1086, 1082, 1079, 1072, 1083]),
      (utf8 [1078, 1076], utf8 [1078, 1077, 1083, 1077, 1079, 1085, 1086, 1076, 1086, 1088, 1086, 1078, 1085, 1099, 1081])]"

definition adjectiveSuffixes :: "string list" where
  "adjectiveSuffixes = [utf8 [1089, 1082, 1080, 1081], utf8 [1094, 1082, 1080, 1081], utf8 [1072, 1103], utf8 [1086, 1077], utf8 [1099, 1081]]"

text \<open>The cutset of \<open>ExpandAbbreviations\<close>: full stop, quotation marks, parentheses.\<close>

definition abbreviation_cutset :: "rune list" where
  "abbreviation_cutset = [46, 34, 171, 187, 40, 41]"

definition ExpandAbbreviations :: "string \<Rightarrow> string" where
  "ExpandAbbreviations name =
     join '' '' (map (\<lambda>t. case map_of abbreviationExpansions (to_lower (trim t abbreviation_cutset)) of
         Some e \<Rightarrow> e
       | None \<Rightarrow> t) (Fields name))"

section \<open>Normal form and core\<close>

fun normal_runes :: "bool \<Rightarrow> rune list \<Rightarrow> rune list" where
  "normal_runes prevSpace [] = []"
| "normal_runes prevSpace (r # rs) =
     (if is_letter r \<or> is_digit r then r # normal_runes False rs
      else if r \<in> {32, 45, 46, 44} then
        (if \<not> prevSpace then 32 # normal_runes True rs else normal_runes prevSpace rs)
      else normal_runes prevSpace rs)"

definition Normalize :: "string \<Rightarrow> string" where
  "Normalize s =
     (let s = to_lower (trim_space s);
          s = replace_all (utf8 [1105]) (utf8 [1077]) s;
          res = trim_space (utf8 (normal_runes True (runes s)))
      in join '' '' (Fields res))"

definition Core :: "string \<Rightarrow> string" where
  "Core s = join '' '' (filter (\<lambda>t. t \<notin> set noiseTokens) (Fields (Normalize s)))"

section \<open>Settlements\<close>

fun settlement_words :: "nat \<Rightarrow> string list \<Rightarrow> string list" where
  "settlement_words n [] = []"
| "settlement_words n (w # ws) =
     (if w \<in> set facilityStopWords then []
      else if Suc n \<ge> 3 then [w] else w # settlement_words (Suc n) ws)"

fun settlement_after_prefix :: "string list \<Rightarrow> string option" where
  "settlement_after_prefix [] = None"
| "settlement_after_prefix (t # ts) =
     (if t \<notin> set settlementPrefixes then settlement_after_prefix ts
      else (let out = settlement_words 0 ts
            in if out = [] then settlement_after_prefix ts else Some (join '' '' out)))"

definition ExtractSettlement :: "string \<Rightarrow> string" where
  "ExtractSettlement name =
     (let n = Normalize name in
      if n = '''' then ''''
      else (let toks = Fields n in
        case settlement_after_prefix toks of
          Some s \<Rightarrow> s
        | None \<Rightarrow>
            if length toks > 1 \<and> length (runes (hd toks)) \<ge> 6
               \<and> (\<exists>suf \<in> set adjectiveSuffixes. has_suffix (hd toks) suf) \<and> hd toks \<notin> set facilityStopWords
            then hd toks else ''''))"

definition hasSuffixRunes :: "rune list \<Rightarrow> rune list \<Rightarrow> bool" where
  "hasSuffixRunes s suf \<longleftrightarrow> \<not> length s < length suf \<and> utf8 (drop (length s - length suf) s) = utf8 suf"

definition stem_matches :: "rune list \<Rightarrow> rune list \<Rightarrow> rune list \<Rightarrow> bool" where
  "stem_matches ar cr sr =
     (if \<not> hasSuffixRunes ar sr then False
      else (let stem = take (length ar - length sr) ar
            in if length stem < 4 \<or> length stem > length cr then False
               else if utf8 stem \<noteq> utf8 (take (length stem) cr) then False
               else length cr - length stem \<le> 2))"

definition adjectiveStemMatches :: "string \<Rightarrow> string \<Rightarrow> bool" where
  "adjectiveStemMatches adj city \<longleftrightarrow> (\<exists>suf \<in> set adjectiveSuffixes. stem_matches (runes adj) (runes city) (runes suf))"

definition SameSettlement :: "string \<Rightarrow> string \<Rightarrow> bool" where
  "SameSettlement a b =
     (let ca = Core a; cb = Core b in
      if ca = '''' \<or> cb = '''' then False
      else if ca = cb then True
      else adjectiveStemMatches ca cb \<or> adjectiveStemMatches cb ca)"

section \<open>Edit distance\<close>

text \<open>
  The table of \<open>Levenshtein\<close>, row by row: \<open>lev_cells\<close> fills the cells after the first one
  of a row from the row above it and the cell to the left.
\<close>

fun lev_cells :: "rune \<Rightarrow> nat \<Rightarrow> nat list \<Rightarrow> rune list \<Rightarrow> nat list" where
  "lev_cells x left (p # q # ps) (y # ys) =
     (let c = min (min (q + 1) (left + 1)) (p + (if x \<noteq> y then 1 else 0))
      in c # lev_cells x c (q # ps) ys)"
| "lev_cells x left _ _ = []"

fun lev_rows :: "nat \<Rightarrow> nat list \<Rightarrow> rune list \<Rightarrow> rune list \<Rightarrow> nat list" where
  "lev_rows i row [] rb = row"
| "lev_rows i row (x # xs) rb = lev_rows (Suc i) (i # lev_cells x i row rb) xs rb"

definition Levenshtein :: "string \<Rightarrow> string \<Rightarrow> nat" where
  "Levenshtein a b =
     (let ra = runes a; rb = runes b
      in last (lev_rows 1 [0 ..< length rb + 1] ra rb))"

definition NormalizedLevenshtein :: "string \<Rightarrow> string \<Rightarrow> real" where
  "NormalizedLevenshtein a b =
     (let a = Normalize a; b = Normalize b in
      if a = b then 0
      else (let la = length (runes a); lb = length (runes b) in
        if la = 0 \<or> lb = 0 then 1
        else real (Levenshtein a b) / real (if lb > la then lb else la)))"

section \<open>Similarity\<close>

definition tokenSubset :: "string \<Rightarrow> string \<Rightarrow> bool" where
  "tokenSubset short long =
     (let ss = Fields short in
      if ss = [] then False else (\<forall>t \<in> set ss. t \<in> set (Fields long)))"

definition NormalizedSimilarity :: "string \<Rightarrow> string \<Rightarrow> real" where
  "NormalizedSimilarity a b =
     (let na = Normalize a; nb = Normalize b in
      if na = nb then 1
      else if length (runes na) \<ge> 3 \<and> length (runes nb) \<ge> 3 \<and> (contains na nb \<or> contains nb na) then 9 / 10
      else (let lev = NormalizedLevenshtein na nb; sim = 1 - lev in if sim < 0 then 0 else sim))"

definition Similarity :: "string \<Rightarrow> string \<Rightarrow> real" where
  "Similarity a b =
     (let ca = Core a; cb = Core b in
      if ca = '''' \<or> cb = '''' then NormalizedSimilarity a b
      else if ca = cb then 1
      else if tokenSubset ca cb \<or> tokenSubset cb ca then 95 / 100
      else if length (runes ca) \<ge> 3 \<and> length (runes cb) \<ge> 3 \<and> (contains ca cb \<or> contains cb ca) then 9 / 10
      else (let lev = NormalizedLevenshtein ca cb; sim = 1 - lev in if sim < 0 then 0 else sim))"

definition Match :: "string \<Rightarrow> string \<Rightarrow> real \<Rightarrow> bool" where
  "Match a b threshold \<longleftrightarrow> Similarity a b \<ge> threshold"


section \<open>The edit distance is minimal\<close>

text \<open>What one sequence of runes costs to turn into another by inserting, deleting and replacing single
  runes, and the least such cost by recursion on the last runes.\<close>

inductive edits :: "'a list \<Rightarrow> 'a list \<Rightarrow> nat \<Rightarrow> bool" where
  edits_Nil: "edits [] [] 0"
| edits_keep: "edits xs ys n \<Longrightarrow> edits (xs @ [x]) (ys @ [x]) n"
| edits_replace: "edits xs ys n \<Longrightarrow> edits (xs @ [x]) (ys @ [y]) (Suc n)"
| edits_insert: "edits xs ys n \<Longrightarrow> edits xs (ys @ [y]) (Suc n)"
| edits_delete: "edits xs ys n \<Longrightarrow> edits (xs @ [x]) ys (Suc n)"

fun edist :: "'a list \<Rightarrow> 'a list \<Rightarrow> nat" where
  "edist [] ys = length ys"
| "edist (x # xs) [] = Suc (length xs)"
| "edist (x # xs) (y # ys) =
     min (min (edist xs (y # ys) + 1) (edist (x # xs) ys + 1)) (edist xs ys + (if x \<noteq> y then 1 else 0))"

lemma edist_Nil [simp]: "edist xs [] = length xs"
  by (cases xs) auto

lemma edist_insert: "edist xs (y # ys) \<le> Suc (edist xs ys)"
  by (cases xs; cases ys) auto

lemma edist_commute: "edist xs ys = edist ys xs"
  by (induction xs ys rule: edist.induct) (simp_all add: min.commute eq_commute)

lemma edist_delete: "edist (x # xs) ys \<le> Suc (edist xs ys)"
  using edist_insert [of ys x xs] by (simp only: edist_commute)

lemma edist_same [simp]: "edist xs xs = 0"
  by (induction xs) auto

lemma edist_bound: "edist xs ys \<le> max (length xs) (length ys)"
proof (induction xs ys rule: edist.induct)
  case (3 x xs y ys)
  have "edist (x # xs) (y # ys) \<le> Suc (edist xs ys)" by (simp add: min_le_iff_disj)
  then show ?case using "3.IH"(3) by simp
qed auto

lemma edits_least: "edits xs ys n \<Longrightarrow> edist (rev xs) (rev ys) \<le> n"
proof (induction rule: edits.induct)
  case (edits_insert xs ys n y)
  then show ?case using edist_insert [of "rev xs" y "rev ys"] by simp
next
  case (edits_delete xs ys n x)
  then show ?case using edist_delete [of x "rev xs" "rev ys"] by simp
qed (simp_all add: min_le_iff_disj)

lemma edits_only_insert: "edits [] ys (length ys)"
  by (induction ys rule: rev_induct) (auto intro: edits.intros)

lemma edits_only_delete: "edits xs [] (length xs)"
  by (induction xs rule: rev_induct) (auto intro: edits.intros)

lemma edits_edist: "edits (rev xs) (rev ys) (edist xs ys)"
proof (induction xs ys rule: edist.induct)
  case (1 ys)
  then show ?case using edits_only_insert [of "rev ys"] by simp
next
  case (2 x xs)
  then show ?case using edits_only_delete [of "rev (x # xs)"] by simp
next
  case (3 x xs y ys)
  let ?d = "edist (x # xs) (y # ys)"
  have "?d = Suc (edist xs (y # ys)) \<or> ?d = Suc (edist (x # xs) ys)
      \<or> (x \<noteq> y \<and> ?d = Suc (edist xs ys)) \<or> (x = y \<and> ?d = edist xs ys)"
    by (auto simp: min_def)
  then show ?case
    using edits_delete [OF "3.IH"(1), of x] edits_insert [OF "3.IH"(2), of y]
      edits_replace [OF "3.IH"(3), of x y] edits_keep [OF "3.IH"(3), of x]
    by (elim disjE conjE) (simp_all del: edist.simps)
qed

lemma edist_LEAST: "edist (rev xs) (rev ys) = (LEAST n. edits xs ys n)"
proof (rule sym, rule Least_equality)
  show "edits xs ys (edist (rev xs) (rev ys))" using edits_edist [of "rev xs" "rev ys"] by simp
qed (rule edits_least)

text \<open>Row \<open>i\<close> of the table holds the distances of the first \<open>i\<close> runes to every prefix.\<close>

definition lev_row_spec :: "rune list \<Rightarrow> rune list \<Rightarrow> nat list" where
  "lev_row_spec xs rb = map (\<lambda>j. edist (rev xs) (rev (take j rb))) [0 ..< Suc (length rb)]"

lemma lev_cells_spec:
  assumes "length p = length ys + 1" "\<And>j. j \<le> length ys \<Longrightarrow> p ! j = edist (rev xs) (rev (pre @ take j ys))"
    and "left = edist (x # rev xs) (rev pre)"
  shows "lev_cells x left p ys = map (\<lambda>j. edist (x # rev xs) (rev (pre @ take j ys))) [1 ..< Suc (length ys)]"
  using assms
proof (induction ys arbitrary: p pre left)
  case (Cons y ys)
  obtain a b ps where p: "p = a # b # ps" using Cons.prems(1) by (cases p; cases "tl p") auto
  have a: "a = edist (rev xs) (rev pre)" using Cons.prems(2) [of 0] p by simp
  have b: "b = edist (rev xs) (y # rev pre)" using Cons.prems(2) [of 1] p by simp
  define c where "c = min (min (b + 1) (left + 1)) (a + (if x \<noteq> y then 1 else 0))"
  have c: "c = edist (x # rev xs) (rev (pre @ [y]))"
    unfolding c_def a b Cons.prems(3) by simp
  have IH: "lev_cells x c (b # ps) ys
      = map (\<lambda>j. edist (x # rev xs) (rev ((pre @ [y]) @ take j ys))) [1 ..< Suc (length ys)]"
  proof (rule Cons.IH [OF _ _ c])
    show "length (b # ps) = length ys + 1" using Cons.prems(1) p by simp
    show "(b # ps) ! j = edist (rev xs) (rev ((pre @ [y]) @ take j ys))" if "j \<le> length ys" for j
      using Cons.prems(2) [of "Suc j"] that p by simp
  qed
  have "[1 ..< Suc (length (y # ys))] = 1 # map Suc [1 ..< Suc (length ys)]"
    by (simp add: map_Suc_upt upt_conv_Cons del: upt_Suc)
  moreover have "lev_cells x left p (y # ys) = c # lev_cells x c (b # ps) ys"
    unfolding p lev_cells.simps Let_def c_def ..
  ultimately show ?case
    using IH c by (simp add: comp_def del: upt_Suc edist.simps lev_cells.simps)
qed (auto simp: lev_cells.simps)

lemma lev_row_spec_nth: "j \<le> length rb \<Longrightarrow> lev_row_spec xs rb ! j = edist (rev xs) (rev (take j rb))"
  unfolding lev_row_spec_def by (simp del: upt_Suc)

lemma lev_row_step:
  "Suc (length xs) # lev_cells x (Suc (length xs)) (lev_row_spec xs rb) rb = lev_row_spec (xs @ [x]) rb"
proof -
  have "lev_cells x (Suc (length xs)) (lev_row_spec xs rb) rb
      = map (\<lambda>j. edist (x # rev xs) (rev ([] @ take j rb))) [1 ..< Suc (length rb)]"
    by (rule lev_cells_spec) (auto simp: lev_row_spec_def lev_row_spec_nth simp del: upt_Suc)
  moreover have "[0 ..< Suc (length rb)] = 0 # [1 ..< Suc (length rb)]"
    by (simp add: upt_conv_Cons del: upt_Suc)
  ultimately show ?thesis by (simp add: lev_row_spec_def del: upt_Suc)
qed

lemma lev_rows_spec:
  "i = Suc (length done) \<Longrightarrow> lev_rows i (lev_row_spec done rb) xs rb = lev_row_spec (done @ xs) rb"
proof (induction xs arbitrary: i "done")
  case (Cons x xs)
  have "lev_rows i (lev_row_spec done rb) (x # xs) rb = lev_rows (Suc i) (lev_row_spec (done @ [x]) rb) xs rb"
    unfolding lev_rows.simps Cons.prems lev_row_step ..
  also have "\<dots> = lev_row_spec ((done @ [x]) @ xs) rb" by (rule Cons.IH) (simp add: Cons.prems)
  finally show ?case by simp
qed simp

lemma Levenshtein_edist: "Levenshtein a b = edist (rev (runes a)) (rev (runes b))"
proof -
  have "[0 ..< length (runes b) + 1] = lev_row_spec [] (runes b)"
    unfolding lev_row_spec_def by (rule nth_equalityI) (simp_all del: upt_Suc)
  then have "Levenshtein a b = last (lev_row_spec (runes a) (runes b))"
    using lev_rows_spec [of 1 "[]" "runes b" "runes a"] by (simp add: Levenshtein_def Let_def)
  also have "\<dots> = lev_row_spec (runes a) (runes b) ! length (runes b)"
    unfolding lev_row_spec_def by (simp add: last_conv_nth del: upt_Suc)
  finally show ?thesis by (simp add: lev_row_spec_nth)
qed

text \<open>C33: The table of \<open>Levenshtein\<close> computes the edit distance: the least number of runes to insert,
delete or replace that turns one name into the other.\<close>

theorem levenshtein_least_edits:
  "Levenshtein a b = (LEAST n. edits (runes a) (runes b) n)"
  by (simp add: Levenshtein_edist edist_LEAST)

section \<open>The similarity is a symmetric measure in the unit interval\<close>

lemma Levenshtein_commute: "Levenshtein a b = Levenshtein b a"
  unfolding Levenshtein_edist by (rule edist_commute)

lemma Levenshtein_bound: "Levenshtein a b \<le> max (length (runes a)) (length (runes b))"
  using edist_bound [of "rev (runes a)" "rev (runes b)"] by (simp add: Levenshtein_edist)

lemma NormalizedLevenshtein_commute: "NormalizedLevenshtein a b = NormalizedLevenshtein b a"
  using Levenshtein_commute by (auto simp: NormalizedLevenshtein_def Let_def)

lemma NormalizedLevenshtein_unit: "0 \<le> NormalizedLevenshtein a b \<and> NormalizedLevenshtein a b \<le> 1"
proof -
  have "real (Levenshtein a b) \<le> real (if length (runes b) > length (runes a) then length (runes b) else length (runes a))"
    for a b using Levenshtein_bound [of a b] by (simp only: of_nat_le_iff) (simp add: max_def split: if_splits)
  then show ?thesis
    unfolding NormalizedLevenshtein_def Let_def by (auto simp: divide_le_eq_1)
qed

lemma NormalizedSimilarity_spec:
  "0 \<le> NormalizedSimilarity a b \<and> NormalizedSimilarity a b \<le> 1 \<and> NormalizedSimilarity a b = NormalizedSimilarity b a"
  using NormalizedLevenshtein_unit [of "Normalize a" "Normalize b"]
    NormalizedLevenshtein_commute [of "Normalize a" "Normalize b"]
  by (auto simp: NormalizedSimilarity_def Let_def)

lemma similarity_unit:
  "0 \<le> Similarity a b \<and> Similarity a b \<le> 1 \<and> Similarity a b = Similarity b a \<and> Similarity a a = 1"
  using NormalizedSimilarity_spec [of a b] NormalizedLevenshtein_unit [of "Core a" "Core b"]
    NormalizedLevenshtein_commute [of "Core a" "Core b"]
  by (auto simp: Similarity_def NormalizedSimilarity_def Let_def)

text \<open>Name similarity is a symmetric measure between 0 and 1, and it is 1 between a name and itself.\<close>

theorem similarity_symmetric_measure:
  "0 \<le> Similarity a b \<and> Similarity a b \<le> 1 \<and> Similarity a b = Similarity b a \<and> Similarity a a = 1"
  by (rule similarity_unit)

end
