(* ===== verification/ScorePair.thy ===== *)
theory ScorePair
  imports NameSim Geo SyncRows
begin

text \<open>
  How a stop of the registry is matched to a terminal (\<open>verification/scorepair.go\<close>): every pair
  gets a score, the weighted mean of the features that are present times the trust in the two
  sources, and the decision looks at the best score, its guard and the margin to the others.
  Identifiers come from \<open>model/adapted.go\<close>, density classes from \<open>model/places.go\<close>.
  Floating-point numbers are reals, so there is no rounding and no NaN.
\<close>

section \<open>Data\<close>

type_synonym DensityClass = string

definition DensityRural :: DensityClass where "DensityRural = ''rural''"
definition DensitySuburban :: DensityClass where "DensitySuburban = ''suburban''"
definition DensityUrban :: DensityClass where "DensityUrban = ''urban''"
definition DensityMetro :: DensityClass where "DensityMetro = ''metro''"

datatype Decision = DecisionVerified | DecisionLowConfidence | DecisionDuplicateAmbiguous | DecisionRejected

definition decision_string :: "Decision \<Rightarrow> string" where
  "decision_string d =
     (case d of
        DecisionVerified \<Rightarrow> ''verified''
      | DecisionLowConfidence \<Rightarrow> ''low_confidence''
      | DecisionDuplicateAmbiguous \<Rightarrow> ''duplicate_ambiguous''
      | DecisionRejected \<Rightarrow> ''rejected'')"

definition ReviewReason :: "Decision \<Rightarrow> string" where
  "ReviewReason d =
     (case d of
        DecisionLowConfidence \<Rightarrow> ''low_confidence''
      | DecisionDuplicateAmbiguous \<Rightarrow> ''duplicate_ambiguous''
      | _ \<Rightarrow> '''')"

record PairItem =
  pi_name :: string
  pi_lat :: "real option"
  pi_lon :: "real option"
  pi_transport :: string
  pi_settlement :: string
  pi_codes :: "AdaptedIdentifier list"
  pi_source :: string

record Params =
  WeightName :: real
  WeightGeom :: real
  WeightSettlement :: real
  WeightTransport :: real
  Threshold :: real
  Margin :: real
  Ambiguity :: real
  GeoThresholdM :: real

record DensityThreshold =
  dt_distance :: "int option"
  dt_confidence :: "real option"

record VerificationConfig =
  vc_confidence :: real
  vc_distance :: int
  vc_margin :: real
  vc_ambiguity :: real
  vc_density :: "string \<Rightarrow> DensityThreshold option"

definition DefaultStopTerminalParams :: "VerificationConfig \<Rightarrow> DensityClass \<Rightarrow> Params" where
  "DefaultStopTerminalParams cfg cls =
     (let p = \<lparr>WeightName = 45 / 100, WeightGeom = 3 / 10, WeightSettlement = 15 / 100, WeightTransport = 1 / 10,
               Threshold = vc_confidence cfg, Margin = vc_margin cfg, Ambiguity = vc_ambiguity cfg,
               GeoThresholdM = of_int (vc_distance cfg)\<rparr>;
          p = (if Threshold p = 0 then p\<lparr>Threshold := 6 / 10\<rparr> else p);
          p = (if Margin p = 0 then p\<lparr>Margin := 1 / 10\<rparr> else p);
          p = (if Ambiguity p = 0 then p\<lparr>Ambiguity := 5 / 100\<rparr> else p);
          p = (if GeoThresholdM p = 0 then p\<lparr>GeoThresholdM := 500\<rparr> else p)
      in case vc_density cfg cls of
           None \<Rightarrow> p
         | Some dt \<Rightarrow>
             (let p = (case dt_distance dt of Some d \<Rightarrow> p\<lparr>GeoThresholdM := of_int d\<rparr> | None \<Rightarrow> p)
              in case dt_confidence dt of Some c \<Rightarrow> p\<lparr>Threshold := c\<rparr> | None \<Rightarrow> p))"

record PairScore =
  ps_value :: real
  ps_trust :: real
  ps_code_match :: bool
  ps_has_geom :: bool
  ps_distance :: real
  ps_name_sim :: real
  ps_guard :: bool

definition zero_score :: PairScore where
  "zero_score = \<lparr>ps_value = 0, ps_trust = 0, ps_code_match = False, ps_has_geom = False, ps_distance = 0,
     ps_name_sim = 0, ps_guard = False\<rparr>"

section \<open>Features\<close>

definition normSource :: "string \<Rightarrow> string" where
  "normSource s = (let s = to_lower (trim_space s) in if s = '''' then ''unknown'' else s)"

definition voiceOf :: "string \<Rightarrow> string" where
  "voiceOf s = (let s = normSource s in if s = ''motis'' then ''osm'' else s)"

definition Trust :: "string \<Rightarrow> string \<Rightarrow> real" where
  "Trust a b =
     (let na = voiceOf a; nb = voiceOf b in
      if na = ''seed'' \<or> nb = ''seed'' then 4 / 10
      else if na = ''manual'' \<or> nb = ''manual'' then 1
      else if na = ''legacy'' \<or> nb = ''legacy'' then 7 / 10
      else if na = nb then 6 / 10
      else 1)"

definition code_equal :: "AdaptedIdentifier \<Rightarrow> AdaptedIdentifier \<Rightarrow> bool" where
  "code_equal x y \<longleftrightarrow> ai_code x = ai_code y \<and> (ai_code_type x = ai_code_type y \<or> ai_system x = ai_system y)"

definition codesEqual :: "AdaptedIdentifier list \<Rightarrow> AdaptedIdentifier list \<Rightarrow> bool" where
  "codesEqual a b \<longleftrightarrow> (\<exists>x \<in> set a. ai_code x \<noteq> '''' \<and> (\<exists>y \<in> set b. code_equal x y))"

definition haversineMeters :: "real \<Rightarrow> real \<Rightarrow> real \<Rightarrow> real \<Rightarrow> real" where
  "haversineMeters lat1 lon1 lat2 lon2 = 2 * 6371000 * arcsin (sqrt (haversine_h lat1 lon1 lat2 lon2))"

definition geom_value :: "real \<Rightarrow> real \<Rightarrow> real" where
  "geom_value d t = (if d \<le> t / 5 then 1 else if d \<le> t then 6 / 10 else if d \<le> t * 4 then 25 / 100 else 0)"

definition geomFeature :: "PairItem \<Rightarrow> PairItem \<Rightarrow> real \<Rightarrow> real \<times> bool \<times> real" where
  "geomFeature a b geoThresholdM =
     (case (pi_lat a, pi_lon a, pi_lat b, pi_lon b) of
        (Some alat, Some alon, Some blat, Some blon) \<Rightarrow>
          (let d = haversineMeters alat alon blat blon in (geom_value d geoThresholdM, True, d))
      | _ \<Rightarrow> (0, False, 0))"

definition settlementFeature :: "PairItem \<Rightarrow> PairItem \<Rightarrow> real \<times> bool" where
  "settlementFeature a b =
     (if pi_settlement a = '''' \<or> pi_settlement b = '''' then (0, False)
      else if SameSettlement (pi_settlement a) (pi_settlement b) then (1, True)
      else (0, True))"

definition transportFeature :: "PairItem \<Rightarrow> PairItem \<Rightarrow> real \<times> bool" where
  "transportFeature a b =
     (if pi_transport a = '''' \<or> pi_transport b = '''' then (0, False)
      else if \<exists>x \<in> set (split_char CHR ''+'' (pi_transport a)). x \<noteq> '''' \<and> x \<in> set (split_char CHR ''+'' (pi_transport b))
      then (1, True) else (0, True))"

definition isNonUrban :: "DensityClass \<Rightarrow> bool" where
  "isNonUrban cls \<longleftrightarrow> cls = DensityRural \<or> cls = DensitySuburban"

section \<open>Scoring a pair\<close>

text \<open>Weight, value, presence. The mean is over the features that are present.\<close>

type_synonym feature = "real \<times> real \<times> bool"

definition present_weight :: "feature list \<Rightarrow> real" where
  "present_weight fs = foldl (\<lambda>acc (w, v, present). if present then acc + w else acc) 0 fs"

definition weighted_sum :: "real \<Rightarrow> feature list \<Rightarrow> real" where
  "weighted_sum sumW fs = foldl (\<lambda>acc (w, v, present). if present then acc + w / sumW * v else acc) 0 fs"

definition pair_features :: "PairItem \<Rightarrow> PairItem \<Rightarrow> Params \<Rightarrow> feature list" where
  "pair_features a b p =
     (let (geom, hasGeom, _) = geomFeature a b (GeoThresholdM p);
          (settle, hasSettle) = settlementFeature a b;
          (trans, hasTrans) = transportFeature a b
      in [(WeightName p, Similarity (pi_name a) (pi_name b), True),
          (WeightGeom p, geom, hasGeom),
          (WeightSettlement p, settle, hasSettle),
          (WeightTransport p, trans, hasTrans)])"

definition weighted :: "feature list \<Rightarrow> real" where
  "weighted fs = (let sumW = present_weight fs in if sumW > 0 then weighted_sum sumW fs else 0)"

definition guard_ok :: "PairItem \<Rightarrow> PairItem \<Rightarrow> DensityClass \<Rightarrow> Params \<Rightarrow> bool" where
  "guard_ok a b cls p =
     (let (_, hasGeom, dist) = geomFeature a b (GeoThresholdM p);
          (settle, hasSettle) = settlementFeature a b
      in if hasGeom \<and> dist \<le> GeoThresholdM p then True
         else isNonUrban cls \<and> Similarity (pi_name a) (pi_name b) \<ge> 8 / 10 \<and> hasSettle \<and> settle = 1
           \<and> Trust (pi_source a) (pi_source b) \<ge> 1)"

definition ScorePair :: "PairItem \<Rightarrow> PairItem \<Rightarrow> DensityClass \<Rightarrow> Params \<Rightarrow> PairScore" where
  "ScorePair a b cls p =
     (let t = Trust (pi_source a) (pi_source b) in
      if codesEqual (pi_codes a) (pi_codes b) then
        zero_score\<lparr>ps_value := t, ps_trust := t, ps_code_match := True, ps_guard := True,
          ps_name_sim := Similarity (pi_name a) (pi_name b)\<rparr>
      else (let (_, hasGeom, dist) = geomFeature a b (GeoThresholdM p) in
        zero_score\<lparr>ps_value := t * weighted (pair_features a b p), ps_trust := t, ps_has_geom := hasGeom,
          ps_distance := dist, ps_name_sim := Similarity (pi_name a) (pi_name b), ps_guard := guard_ok a b cls p\<rparr>))"

definition decideBest :: "PairScore \<Rightarrow> Params \<Rightarrow> bool \<Rightarrow> Decision" where
  "decideBest s p marginOK =
     (if ps_value s \<ge> Threshold p \<and> ps_guard s \<and> marginOK then DecisionVerified
      else if ps_value s \<ge> Threshold p - Margin p then DecisionLowConfidence
      else DecisionRejected)"

section \<open>Choosing the terminal\<close>

text \<open>The first candidate with the highest score, and the lowest score among the others; the
  infinite start value of the code is \<open>None\<close>.\<close>

definition top_index :: "real list \<Rightarrow> nat" where
  "top_index vs = foldl (\<lambda>best i. if vs ! i > vs ! best then i else best) 0 [0 ..< length vs]"

definition other_score :: "real list \<Rightarrow> nat \<Rightarrow> real option" where
  "other_score vs chosen = foldl (\<lambda>second i.
     if i = chosen then second
     else (case second of
         None \<Rightarrow> Some (vs ! i)
       | Some x \<Rightarrow> if vs ! i < x then Some (vs ! i) else second)) None [0 ..< length vs]"

definition MatchStopToTerminal :: "PairItem \<Rightarrow> PairItem list \<Rightarrow> DensityClass \<Rightarrow> Params \<Rightarrow> int \<times> Decision \<times> PairScore" where
  "MatchStopToTerminal stop terms cls p =
     (if terms = [] then (-1, DecisionRejected, zero_score)
      else (let all = map (\<lambda>t. ScorePair stop t cls p) terms;
                vs = map ps_value all;
                first = top_index vs;
                best = all ! first;
                gap = map_option (\<lambda>x. ps_value best - x) (other_score vs first)
            in if ps_value best \<ge> Threshold p - Margin p \<and> length all > 1
                  \<and> (case gap of None \<Rightarrow> False | Some g \<Rightarrow> g < Ambiguity p)
               then (int first, DecisionDuplicateAmbiguous, best)
               else if \<not> ps_code_match best \<and> \<not> ps_has_geom best \<and> isNonUrban cls
               then (int first, decideBest best p (case gap of None \<Rightarrow> True | Some g \<Rightarrow> g \<ge> Ambiguity p), best)
               else (int first, decideBest best p True, best)))"


section \<open>The score lies between 0 and the trust\<close>

lemma foldl_present:
  "foldl (\<lambda>acc (w, v, present). if present then acc + f w v else acc) a fs
     = a + (\<Sum>(w, v, present)\<leftarrow>fs. if present then f w v else (0::real))"
  by (induction fs arbitrary: a) auto

lemma present_weight_sum: "present_weight fs = (\<Sum>(w, v, present)\<leftarrow>fs. if present then w else 0)"
  unfolding present_weight_def using foldl_present [of "\<lambda>w v. w" 0 fs] by simp

lemma weighted_sum_sum: "weighted_sum s fs = (\<Sum>(w, v, present)\<leftarrow>fs. if present then w / s * v else 0)"
  unfolding weighted_sum_def using foldl_present [of "\<lambda>w v. w / s * v" 0 fs] by simp

definition unit_features :: "feature list \<Rightarrow> bool" where
  "unit_features fs \<longleftrightarrow> list_all (\<lambda>(w, v, _). 0 \<le> w \<and> 0 \<le> v \<and> v \<le> 1) fs"

lemma weighted_sum_unit:
  assumes "unit_features fs" "0 < s"
  shows "0 \<le> weighted_sum s fs \<and> weighted_sum s fs \<le> present_weight fs / s"
  using assms(1)
proof (induction fs)
  case (Cons f fs)
  obtain w v pr where f: "f = (w, v, pr)" by (metis prod_cases3)
  have "0 \<le> w / s * v \<and> w / s * v \<le> w / s"
    using Cons.prems assms(2) by (auto simp: f unit_features_def mult_left_le divide_right_mono)
  moreover have "0 \<le> weighted_sum s fs \<and> weighted_sum s fs \<le> present_weight fs / s"
    using Cons by (simp add: unit_features_def)
  ultimately show ?case
    by (simp add: f weighted_sum_sum present_weight_sum add_divide_distrib)
qed (simp add: weighted_sum_def present_weight_def)

lemma weighted_unit: "unit_features fs \<Longrightarrow> 0 \<le> weighted fs \<and> weighted fs \<le> 1"
  using weighted_sum_unit [of fs "present_weight fs"] by (simp add: weighted_def Let_def)

definition nonneg_weights :: "Params \<Rightarrow> bool" where
  "nonneg_weights p \<longleftrightarrow> 0 \<le> WeightName p \<and> 0 \<le> WeightGeom p \<and> 0 \<le> WeightSettlement p \<and> 0 \<le> WeightTransport p"

lemma default_weights [simp]: "nonneg_weights (DefaultStopTerminalParams cfg cls)"
  by (simp add: nonneg_weights_def DefaultStopTerminalParams_def Let_def split: option.split)

lemma geomFeature_unit: "0 \<le> fst (geomFeature a b t) \<and> fst (geomFeature a b t) \<le> 1"
  by (simp add: geomFeature_def geom_value_def Let_def split: option.split)

lemma settlementFeature_unit: "fst (settlementFeature a b) \<in> {0, 1}"
  by (simp add: settlementFeature_def)

lemma transportFeature_unit: "fst (transportFeature a b) \<in> {0, 1}"
  by (simp add: transportFeature_def)

lemma pair_features_unit:
  assumes "nonneg_weights p"
  shows "unit_features (pair_features a b p)"
proof -
  obtain g hg d where g: "geomFeature a b (GeoThresholdM p) = (g, hg, d)" by (metis prod_cases3)
  obtain s hs where s: "settlementFeature a b = (s, hs)" by (metis surj_pair)
  obtain t ht where t: "transportFeature a b = (t, ht)" by (metis surj_pair)
  have "0 \<le> g \<and> g \<le> 1" "s \<in> {0, 1}" "t \<in> {0, 1}"
    using geomFeature_unit [of a b "GeoThresholdM p"] settlementFeature_unit [of a b] transportFeature_unit [of a b]
    by (simp_all add: g s t)
  then show ?thesis
    using assms similarity_unit [of "pi_name a" "pi_name b"]
    by (auto simp: pair_features_def unit_features_def nonneg_weights_def g s t)
qed

lemma Trust_cases: "Trust a b \<in> {4 / 10, 6 / 10, 7 / 10, 1}"
  by (simp add: Trust_def Let_def)

lemma score_bounds:
  assumes "nonneg_weights p"
  shows "0 \<le> ps_value (ScorePair a b cls p) \<and> ps_value (ScorePair a b cls p) \<le> ps_trust (ScorePair a b cls p)"
proof -
  have "0 \<le> Trust (pi_source a) (pi_source b)" using Trust_cases [of "pi_source a" "pi_source b"] by auto
  then show ?thesis
    using weighted_unit [OF pair_features_unit [OF assms]]
    by (simp add: ScorePair_def zero_score_def Let_def mult_left_le split: prod.split)
qed

text \<open>A score lies between 0 and the trust in the two sources, which is one of 0.4, 0.6, 0.7 and 1, and a
pair with a common code scores its trust: no other pair of the same sources scores higher.\<close>

theorem score_within_trust:
  assumes "nonneg_weights p"
  shows "0 \<le> ps_value (ScorePair a b cls p) \<and> ps_value (ScorePair a b cls p) \<le> Trust (pi_source a) (pi_source b) \<and>
    Trust (pi_source a) (pi_source b) \<in> {4 / 10, 6 / 10, 7 / 10, 1} \<and>
    (if codesEqual (pi_codes a) (pi_codes b) then ps_value (ScorePair a b cls p) = Trust (pi_source a) (pi_source b)
     else \<not> ps_code_match (ScorePair a b cls p))"
proof -
  have "ps_trust (ScorePair a b cls p) = Trust (pi_source a) (pi_source b)"
    by (simp add: ScorePair_def Let_def split: prod.split)
  then show ?thesis
    using score_bounds [OF assms, of a b cls] Trust_cases [of "pi_source a" "pi_source b"]
    by (simp add: ScorePair_def zero_score_def Let_def split: prod.split)
qed

section \<open>The decision\<close>

lemma foldl_argmax:
  fixes vs :: "real list"
  assumes "m < n"
  shows "let k = foldl (\<lambda>best i. if vs ! i > vs ! best then i else best) m xs in
    (k = m \<or> k \<in> set xs) \<and> vs ! m \<le> vs ! k \<and> (\<forall>i \<in> set xs. vs ! i \<le> vs ! k)"
proof (induction xs arbitrary: m)
  case (Cons x xs)
  show ?case using Cons.IH [of x] Cons.IH [of m] by (auto simp: Let_def)
qed simp

lemma top_index_max:
  assumes "vs \<noteq> []"
  shows "top_index vs < length vs \<and> (\<forall>i < length vs. vs ! i \<le> vs ! top_index vs)"
  using foldl_argmax [of 0 1 vs "[0 ..< length vs]"] assms by (auto simp: top_index_def Let_def)

lemma foldl_other_score:
  fixes vs :: "real list"
  shows "foldl (\<lambda>second i. if i = k then second
     else (case second of None \<Rightarrow> Some (vs ! i) | Some x \<Rightarrow> if vs ! i < x then Some (vs ! i) else second)) s xs
   = (let rs = map ((!) vs) (filter (\<lambda>i. i \<noteq> k) xs) in
      case s of None \<Rightarrow> (case rs of [] \<Rightarrow> None | r # rs \<Rightarrow> Some (fold min rs r)) | Some y \<Rightarrow> Some (fold min rs y))"
proof (induction xs arbitrary: s)
  case (Cons x xs)
  have "(if vs ! x < y then Some (vs ! x) else Some y) = Some (min (vs ! x) y)" for y by (simp add: min_def)
  then show ?case using Cons.IH by (cases s) (simp_all add: Let_def)
qed (simp split: option.split)

lemma other_score_spec:
  "other_score vs k = (let rs = map ((!) vs) (filter (\<lambda>i. i \<noteq> k) [0 ..< length vs]) in
     if rs = [] then None else Some (Min (set rs)))"
proof -
  have "(case rs of [] \<Rightarrow> None | r # rs \<Rightarrow> Some (fold min rs r)) = (if rs = [] then None else Some (Min (set rs)))"
    for rs :: "real list"
    by (cases rs) (simp_all only: list.case Min.set_eq_fold list.distinct simp_thms if_False if_True)
  then show ?thesis unfolding other_score_def foldl_other_score by (simp add: Let_def)
qed

lemma gap_below:
  assumes "k < length vs"
  shows "(case map_option (\<lambda>x. v - x) (other_score vs k) of None \<Rightarrow> False | Some g \<Rightarrow> g < amb) \<longleftrightarrow>
    length vs > 1 \<and> (\<forall>i < length vs. i \<noteq> k \<longrightarrow> v - vs ! i < amb)"
proof -
  let ?rs = "map ((!) vs) (filter (\<lambda>i. i \<noteq> k) [0 ..< length vs])"
  have s: "set ?rs = {vs ! i | i. i < length vs \<and> i \<noteq> k}" by auto
  show ?thesis
  proof (cases "?rs = []")
    case True
    then have n: "\<forall>i < length vs. i = k" by (auto simp: filter_empty_conv)
    have "\<not> 1 < length vs"
    proof
      assume "1 < length vs"
      then have "0 = k" "1 = k" using n by (metis less_trans zero_less_one)+
      then show False by simp
    qed
    then show ?thesis using True by (simp add: other_score_spec)
  next
    case False
    have "\<exists>i < length vs. i \<noteq> k"
    proof (rule ccontr)
      assume "\<not> (\<exists>i < length vs. i \<noteq> k)"
      then have "filter (\<lambda>i. i \<noteq> k) [0 ..< length vs] = []" by (auto simp: filter_empty_conv)
      with False show False by simp
    qed
    then obtain i where i: "i < length vs" "i \<noteq> k" by blast
    then have l: "1 < length vs" using assms by linarith
    have ne: "set ?rs \<noteq> {}" using i by auto
    have "v - Min (set ?rs) < amb \<longleftrightarrow> v - amb < Min (set ?rs)" by linarith
    also have "\<dots> \<longleftrightarrow> (\<forall>x \<in> set ?rs. v - amb < x)" using ne by (intro Min_gr_iff) simp_all
    also have "\<dots> \<longleftrightarrow> (\<forall>i < length vs. i \<noteq> k \<longrightarrow> v - vs ! i < amb)" by auto
    finally have "v - Min (set ?rs) < amb \<longleftrightarrow> (\<forall>i < length vs. i \<noteq> k \<longrightarrow> v - vs ! i < amb)" .
    moreover have "other_score vs k = Some (Min (set ?rs))"
      unfolding other_score_spec Let_def using False by (simp only: if_False)
    ultimately show ?thesis using l by (simp only: option.map option.case simp_thms)
  qed
qed

lemma verified_index:
  assumes "MatchStopToTerminal stop terms cls p = (i, DecisionVerified, s)"
  shows "0 \<le> i \<and> nat i < length terms"
proof -
  have "terms \<noteq> []" using assms by (auto simp: MatchStopToTerminal_def)
  then show ?thesis
    using assms top_index_max [of "map ps_value (map (\<lambda>t. ScorePair stop t cls p) terms)"]
    by (auto simp: MatchStopToTerminal_def Let_def comp_def split: if_splits)
qed

text \<open>C6: A stop is tied to a terminal only on good grounds: when the decision is \<open>verified\<close>, the index names a
candidate whose score is the highest of all and reaches the threshold, and either the two share a code, or
they lie within the distance threshold, or both are outside the cities, lie in one settlement, and have
names at least 0.8 similar from fully trusted sources.\<close>

theorem verified_is_guarded_best:
  assumes "MatchStopToTerminal stop terms cls p = (i, DecisionVerified, s)"
  shows "0 \<le> i \<and> nat i < length terms \<and> s = ScorePair stop (terms ! nat i) cls p \<and> Threshold p \<le> ps_value s \<and>
    list_all (\<lambda>t. ps_value (ScorePair stop t cls p) \<le> ps_value s) terms \<and>
    (ps_code_match s \<or> (ps_has_geom s \<and> ps_distance s \<le> GeoThresholdM p) \<or>
     (isNonUrban cls \<and> 8 / 10 \<le> ps_name_sim s \<and> 1 \<le> ps_trust s \<and>
      SameSettlement (pi_settlement stop) (pi_settlement (terms ! nat i))))"
proof -
  let ?vs = "map ps_value (map (\<lambda>t. ScorePair stop t cls p) terms)"
  let ?k = "top_index ?vs"
  have ne: "terms \<noteq> []" using assms by (auto simp: MatchStopToTerminal_def)
  then have top: "?k < length terms" "\<forall>i < length terms. ?vs ! i \<le> ?vs ! ?k"
    using top_index_max [of ?vs] by auto
  have chosen: "i = int ?k" "s = ScorePair stop (terms ! ?k) cls p"
    and d: "\<exists>m. decideBest s p m = DecisionVerified"
    using assms ne top(1) by (auto simp: MatchStopToTerminal_def Let_def comp_def split: if_splits)
  have "list_all (\<lambda>t. ps_value (ScorePair stop t cls p) \<le> ps_value s) terms"
    using top chosen(2) by (auto simp: list_all_length)
  moreover have "Threshold p \<le> ps_value s" "ps_guard s" using d by (auto simp: decideBest_def split: if_splits)
  moreover have "ps_code_match s \<or> (ps_has_geom s \<and> ps_distance s \<le> GeoThresholdM p) \<or>
     (isNonUrban cls \<and> 8 / 10 \<le> ps_name_sim s \<and> 1 \<le> ps_trust s \<and>
      SameSettlement (pi_settlement stop) (pi_settlement (terms ! ?k)))"
    using \<open>ps_guard s\<close>
    by (auto simp: chosen(2) ScorePair_def zero_score_def guard_ok_def settlementFeature_def Let_def
        split: prod.splits if_splits)
  ultimately show ?thesis using top(1) chosen by simp
qed

text \<open>The search for ambiguous matches looks at the worst candidate, not at the runner-up: a match is called
ambiguous exactly when there are several candidates and every one of them scores within the ambiguity margin
of the best one. Two equal terminals are told apart by their order as soon as a third one scores badly.\<close>

theorem ambiguous_iff_all_close:
  "fst (snd (MatchStopToTerminal stop terms cls p)) = DecisionDuplicateAmbiguous \<longleftrightarrow>
    (let vs = map (\<lambda>t. ps_value (ScorePair stop t cls p)) terms; k = top_index vs in
     length vs > 1 \<and> Threshold p - Margin p \<le> vs ! k \<and>
     list_all (\<lambda>i. i = k \<or> vs ! k - vs ! i < Ambiguity p) [0 ..< length vs])"
proof (cases "terms = []")
  case False
  let ?vs = "map (\<lambda>t. ps_value (ScorePair stop t cls p)) terms"
  let ?k = "top_index ?vs"
  have k: "?k < length ?vs" using top_index_max [of ?vs] False by auto
  have never: "decideBest x p m \<noteq> DecisionDuplicateAmbiguous" for x m by (simp add: decideBest_def)
  have best: "ps_value (map (\<lambda>t. ScorePair stop t cls p) terms ! ?k) = ?vs ! ?k" using k by simp
  have "fst (snd (MatchStopToTerminal stop terms cls p)) = DecisionDuplicateAmbiguous \<longleftrightarrow>
    ?vs ! ?k \<ge> Threshold p - Margin p \<and> length ?vs > 1 \<and>
    (case map_option (\<lambda>x. ?vs ! ?k - x) (other_score ?vs ?k) of None \<Rightarrow> False | Some g \<Rightarrow> g < Ambiguity p)"
    unfolding MatchStopToTerminal_def Let_def map_map comp_def best using False never by simp
  then show ?thesis unfolding gap_below [OF k] Let_def by (auto simp: list_all_iff)
qed (simp add: MatchStopToTerminal_def)

section \<open>Witnesses\<close>

definition demo_params :: Params where
  "demo_params = \<lparr>WeightName = 45 / 100, WeightGeom = 3 / 10, WeightSettlement = 15 / 100, WeightTransport = 1 / 10,
     Threshold = 6 / 10, Margin = 1 / 10, Ambiguity = 5 / 100, GeoThresholdM = 500\<rparr>"

definition demo_item :: "string \<Rightarrow> PairItem" where
  "demo_item source = \<lparr>pi_name = ''A'', pi_lat = None, pi_lon = None, pi_transport = '''', pi_settlement = '''',
     pi_codes = [\<lparr>ai_system = ''m'', ai_code_type = ''c'', ai_code = ''1''\<rparr>], pi_source = source\<rparr>"

lemma demo_voices: "voiceOf ''mintrans'' = ''mintrans''" "voiceOf ''osm'' = ''osm''" "voiceOf ''seed'' = ''seed''"
  by (simp_all add: voiceOf_def normSource_def string_eval)

lemma demo_score:
  "ScorePair (demo_item ''mintrans'') (demo_item ''osm'') cls p =
     \<lparr>ps_value = 1, ps_trust = 1, ps_code_match = True, ps_has_geom = False, ps_distance = 0, ps_name_sim = 1, ps_guard = True\<rparr>"
proof -
  have "Trust ''mintrans'' ''osm'' = 1"
    by (simp add: Trust_def demo_voices)
  then show ?thesis
    using similarity_unit [of "''A''" "''A''"]
    by (simp add: ScorePair_def demo_item_def codesEqual_def code_equal_def zero_score_def)
qed

lemma score_within_trust_witness:
  "ps_value (ScorePair (demo_item ''mintrans'') (demo_item ''seed'') DensityUrban demo_params) \<le> 4 / 10"
proof -
  have "Trust ''mintrans'' ''seed'' = 4 / 10"
    by (simp add: Trust_def demo_voices)
  then show ?thesis
    using score_within_trust [of demo_params "demo_item ''mintrans''" "demo_item ''seed''" DensityUrban]
    by (simp add: nonneg_weights_def demo_params_def demo_item_def)
qed

lemma verified_is_guarded_best_witness:
  "Threshold demo_params \<le> ps_value (ScorePair (demo_item ''mintrans'') (demo_item ''osm'') DensityUrban demo_params)"
proof -
  have "MatchStopToTerminal (demo_item ''mintrans'') [demo_item ''osm''] DensityUrban demo_params
      = (0, DecisionVerified, ScorePair (demo_item ''mintrans'') (demo_item ''osm'') DensityUrban demo_params)"
    by (simp add: MatchStopToTerminal_def demo_score top_index_def other_score_def decideBest_def demo_params_def)
  from verified_is_guarded_best [OF this] show ?thesis by blast
qed

end
