(* ===== verification/Mintrans.thy ===== *)
theory Mintrans
  imports GoText
begin

text \<open>
  The registry of the Ministry of Transport (\<open>adapters/mintrans\<close>): days and times of a cell
  (\<open>days.go\<close>), the runs of a schedule (\<open>importer.go\<close>) and the flat trips made of them
  (\<open>trips.go\<close>, with the types of \<open>model/flat_trip.go\<close>), and the synthetic route keys
  (\<open>bootstrap.go\<close>). Times are minutes since midnight of the first day of the run. The contract of
  the data set is not checked here: every definition is total on any data set.
\<close>

section \<open>Days of the week\<close>

definition weekdayNum :: "(string \<times> int) list" where
  "weekdayNum = [(utf8 [1074, 1089], 0), (utf8 [1087, 1085], 1), (utf8 [1074, 1090], 2), (utf8 [1089, 1088], 3), (utf8 [1095, 1090], 4), (utf8 [1087, 1090], 5), (utf8 [1089, 1073], 6)]"

definition parseDayToken :: "string \<Rightarrow> int option" where
  "parseDayToken tok = map_of weekdayNum (to_lower (trim_space tok))"

fun day_tokens :: "int list \<Rightarrow> string list \<Rightarrow> int list option" where
  "day_tokens out [] = Some out"
| "day_tokens out (t # ts) =
     (case parseDayToken t of
        None \<Rightarrow> None
      | Some n \<Rightarrow> day_tokens (if n \<in> set out then out else out @ [n]) ts)"

definition sort_ints :: "int list \<Rightarrow> int list" where
  "sort_ints ns = sort_by (\<lambda>a b. a < b) ns"

definition parseDayList :: "string \<Rightarrow> int list option" where
  "parseDayList s =
     (case day_tokens [] (concat (map Fields (split_char CHR '','' s))) of
        None \<Rightarrow> None
      | Some out \<Rightarrow> if out = [] then None else Some (sort_ints out))"

definition ru_net :: string where "ru_net = utf8 [1085, 1077, 1090]"
definition ru_every_other :: string where "ru_every_other = utf8 [1095, 1077, 1088, 1077, 1079]"
definition ru_daily :: string where "ru_daily = utf8 [1077, 1078, 1077, 1076, 1085, 1077, 1074, 1085, 1086]"

definition IsNoServiceCell :: "string \<Rightarrow> bool" where
  "IsNoServiceCell s = has_prefix (to_lower (trim_space s)) ru_net"

section \<open>Cells\<close>

text \<open>The two regular expressions of times: one or two digits, a colon, two digits, and for a cell
  nothing more or a parenthesis with days.\<close>

definition re_space :: "char \<Rightarrow> bool" where
  "re_space c \<longleftrightarrow> byte c \<in> {9, 10, 12, 13, 32}"

definition re_digit :: "char \<Rightarrow> bool" where
  "re_digit c \<longleftrightarrow> 48 \<le> byte c \<and> byte c \<le> 57"

definition digit_value :: "char \<Rightarrow> int" where
  "digit_value c = int (byte c) - 48"

fun decimal :: "string \<Rightarrow> int" where
  "decimal [] = 0"
| "decimal [c] = digit_value c"
| "decimal (c # d # cs) = 10 * digit_value c + digit_value d"

definition hour_minute :: "string \<Rightarrow> (int \<times> int \<times> string) option" where
  "hour_minute s =
     (let hs = takeWhile re_digit s; rest = dropWhile re_digit s; ms = take 2 (tl rest) in
      if (length hs = 1 \<or> length hs = 2) \<and> rest \<noteq> [] \<and> hd rest = CHR '':'' \<and> length ms = 2 \<and> list_all re_digit ms
      then Some (decimal hs, decimal ms, drop 2 (tl rest)) else None)"

definition cell_days :: "string \<Rightarrow> string option" where
  "cell_days rest =
     (if rest = [] then Some []
      else (let r = dropWhile re_space rest; inner = takeWhile (\<lambda>c. c \<noteq> CHR '')'') (tl r)
            in if r \<noteq> [] \<and> hd r = CHR ''('' \<and> dropWhile (\<lambda>c. c \<noteq> CHR '')'') (tl r) = '')'' then Some inner else None))"

datatype cell_error = BadTime string | TimeOutOfDay string | UnknownDays string string

definition ParseCellTime :: "string \<Rightarrow> cell_error + int \<times> int list option" where
  "ParseCellTime s =
     (case hour_minute (trim_space s) of
        None \<Rightarrow> Inl (BadTime s)
      | Some (h, mm, rest) \<Rightarrow>
          (case cell_days rest of
             None \<Rightarrow> Inl (BadTime s)
           | Some ds \<Rightarrow>
               if h > 23 \<or> mm > 59 then Inl (TimeOutOfDay s)
               else if trim_space ds = '''' then Inr (h * 60 + mm, None)
               else (case parseDayList ds of
                   None \<Rightarrow> Inl (UnknownDays s ds)
                 | Some d \<Rightarrow> Inr (h * 60 + mm, Some d))))"

definition parseTimeMinutes :: "string \<Rightarrow> int option" where
  "parseTimeMinutes s = map_option (\<lambda>(h, mm, _). h * 60 + mm) (hour_minute (trim_space s))"

section \<open>Days of a block\<close>

record BlockDays =
  bd_all :: bool
  bd_none :: bool
  bd_parity :: bool
  bd_days :: "int list"

definition no_days :: BlockDays where
  "no_days = \<lparr>bd_all = False, bd_none = False, bd_parity = False, bd_days = []\<rparr>"

fun add_days :: "int list \<Rightarrow> int list \<Rightarrow> int list" where
  "add_days acc [] = acc"
| "add_days acc (n # ns) = add_days (if n \<in> set acc then acc else acc @ [n]) ns"

datatype block_part = BlockDaily | BlockBroken | BlockUnion "int list"

fun block_parts :: "int list \<Rightarrow> string list \<Rightarrow> block_part" where
  "block_parts acc [] = BlockUnion acc"
| "block_parts acc (p # ps) =
     (let part = trim_space p in
      if part = '''' then block_parts acc ps
      else if part = ru_daily then BlockDaily
      else (case parseDayList part of
          None \<Rightarrow> BlockBroken
        | Some d \<Rightarrow> block_parts (add_days acc d) ps))"

datatype block_error = UnknownFormat string | EmptyList string

text \<open>The code returns empty days beside an error, and \<open>FlattenTrips\<close> reads them.\<close>

definition ParseBlockDays :: "string \<Rightarrow> BlockDays \<times> block_error option" where
  "ParseBlockDays s =
     (let s = trim_space s in
      if s = '''' then (no_days\<lparr>bd_all := True\<rparr>, None)
      else (let low = to_lower s in
        if has_prefix low ru_net then (no_days\<lparr>bd_none := True\<rparr>, None)
        else if contains low ru_every_other then (no_days\<lparr>bd_parity := True\<rparr>, None)
        else (case block_parts [] (split_char CHR '';'' low) of
            BlockDaily \<Rightarrow> (no_days\<lparr>bd_all := True\<rparr>, None)
          | BlockBroken \<Rightarrow> (no_days, Some (UnknownFormat s))
          | BlockUnion acc \<Rightarrow>
              if acc = [] then (no_days, Some (EmptyList s))
              else (no_days\<lparr>bd_days := sort_ints acc\<rparr>, None))))"

definition intersectDays :: "int list \<Rightarrow> int list \<Rightarrow> int list" where
  "intersectDays a b = sort_ints (filter (\<lambda>n. n \<in> set a) b)"

definition allWeek :: "int list" where
  "allWeek = [0, 1, 2, 3, 4, 5, 6]"

definition blockDaysSet :: "BlockDays \<Rightarrow> int list" where
  "blockDaysSet bd = (if length (bd_days bd) > 0 then bd_days bd else allWeek)"

text \<open>The code collects the days in a map and sorts its keys; an empty list is \<open>nil\<close>, every day.\<close>

definition normWeekdays :: "int list \<Rightarrow> int list" where
  "normWeekdays days =
     (if days = [] then []
      else (let out = sort_ints (remdups (filter (\<lambda>n. 0 \<le> n \<and> n \<le> 6) days))
            in if length out = 7 then [] else out))"

definition FormatWeekdays :: "int list \<Rightarrow> string" where
  "FormatWeekdays days = (if length days = 0 then '''' else join '','' (map itoa days))"

definition parse_weekday :: "string \<Rightarrow> int list" where
  "parse_weekday p =
     (case atoi (trim_space p) of
        Some n \<Rightarrow> if 0 \<le> n \<and> n \<le> 6 then [n] else []
      | None \<Rightarrow> [])"

definition parseWeekdays :: "string \<Rightarrow> int list" where
  "parseWeekdays s = sort_ints (concat (map parse_weekday (split_char CHR '','' s)))"

section \<open>The data set\<close>

record reestrRoute =
  rr_reg :: string
  rr_name :: string
  rr_carrier :: string
  rr_carrier_inn :: string

record reestrStop =
  re_id :: string
  re_name :: string
  re_region :: string
  re_op :: string
  re_lat :: "real option"
  re_lon :: "real option"

record reestrBlock =
  rb_days :: string
  rb_dep :: "string list"
  rb_arr :: "string list"

record reestrSchedStop =
  ss_stop :: string
  ss_region :: string
  ss_winter :: "reestrBlock option"
  ss_summer :: "reestrBlock option"

record reestrSched =
  sc_route :: string
  sc_direction :: string
  sc_service :: int
  sc_stops :: "reestrSchedStop list"

record reestrDataset =
  ds_routes :: "reestrRoute list"
  ds_stops :: "reestrStop list"
  ds_schedules :: "reestrSched list"

record FlatStop =
  fs_stop :: string
  fs_name :: string
  fs_region :: string
  fs_op :: string
  fs_lat :: "real option"
  fs_lon :: "real option"
  fs_arr :: "int option"
  fs_dep :: "int option"

record FlatTrip =
  ft_route :: string
  ft_direction :: string
  ft_service :: int
  ft_run :: int
  ft_period :: string
  ft_carrier :: string
  ft_carrier_inn :: string
  ft_from :: string
  ft_to :: string
  ft_stops :: "FlatStop list"
  ft_untimed :: "string list"
  ft_frequency_only :: bool
  ft_weekdays :: "int list"

record FlattenStats =
  fl_schedules :: nat
  fl_runs :: nat
  fl_trips :: nat
  fl_frequency_only :: nat
  fl_dropped :: nat
  fl_restricted :: nat
  fl_parity :: nat

section \<open>Runs of a schedule\<close>

definition blockOf :: "reestrSchedStop \<Rightarrow> string \<Rightarrow> reestrBlock option" where
  "blockOf st period = (if period = ''winter'' then ss_winter st else ss_summer st)"

definition blockHasTimes :: "reestrBlock \<Rightarrow> bool" where
  "blockHasTimes b \<longleftrightarrow> (\<exists>t \<in> set (rb_dep b). parseTimeMinutes t \<noteq> None) \<or> (\<exists>t \<in> set (rb_arr b). parseTimeMinutes t \<noteq> None)"

definition has_times :: "reestrBlock option \<Rightarrow> bool" where
  "has_times ob = (case ob of None \<Rightarrow> False | Some b \<Rightarrow> blockHasTimes b)"

definition pickPeriod :: "reestrSched \<Rightarrow> string" where
  "pickPeriod sched =
     (if \<exists>st \<in> set (sc_stops sched). has_times (ss_winter st) then ''winter''
      else if \<exists>st \<in> set (sc_stops sched). has_times (ss_summer st) then ''summer''
      else '''')"

definition runsCount :: "reestrSched \<Rightarrow> string \<Rightarrow> nat" where
  "runsCount sched period =
     fold (\<lambda>st n. case blockOf st period of None \<Rightarrow> n | Some b \<Rightarrow> max (length (rb_arr b)) (max (length (rb_dep b)) n))
       (sc_stops sched) 1"

definition cellAt :: "string list \<Rightarrow> nat \<Rightarrow> (int \<times> int list option) option" where
  "cellAt list run =
     (if run \<ge> length list then None
      else (let raw = trim_space (list ! run) in
        if raw = '''' \<or> IsNoServiceCell raw then None
        else (case ParseCellTime raw of Inl _ \<Rightarrow> None | Inr c \<Rightarrow> Some c)))"

section \<open>Flat trips\<close>

definition no_stop :: reestrStop where
  "no_stop = \<lparr>re_id = '''', re_name = '''', re_region = '''', re_op = '''', re_lat = None, re_lon = None\<rparr>"

definition no_route :: reestrRoute where
  "no_route = \<lparr>rr_reg = '''', rr_name = '''', rr_carrier = '''', rr_carrier_inn = ''''\<rparr>"

definition stop_by_id :: "reestrDataset \<Rightarrow> string \<Rightarrow> reestrStop" where
  "stop_by_id ds i = (case map_of (rev (map (\<lambda>s. (re_id s, s)) (ds_stops ds))) i of Some s \<Rightarrow> s | None \<Rightarrow> no_stop)"

definition route_by_reg :: "reestrDataset \<Rightarrow> string \<Rightarrow> reestrRoute" where
  "route_by_reg ds i = (case map_of (rev (map (\<lambda>r. (rr_reg r, r)) (ds_routes ds))) i of Some r \<Rightarrow> r | None \<Rightarrow> no_route)"

definition set_endpoints :: "reestrSched \<Rightarrow> (string \<Rightarrow> string \<times> string) \<Rightarrow> string \<Rightarrow> string \<times> string" where
  "set_endpoints sc eps =
     (if sc_direction sc \<in> {''forward'', ''backward''} \<and> sc_stops sc \<noteq> []
         \<and> (sc_direction sc = ''forward'' \<or> eps (sc_route sc) = ('''', ''''))
      then eps(sc_route sc := (ss_stop (hd (sc_stops sc)), ss_stop (last (sc_stops sc))))
      else eps)"

definition endpoints :: "reestrDataset \<Rightarrow> string \<Rightarrow> string \<times> string" where
  "endpoints ds = fold set_endpoints (ds_schedules ds) (\<lambda>_. ('''', ''''))"

text \<open>\<open>for m+off*1440 < prev { off++ }\<close>\<close>

function day_offset :: "int \<Rightarrow> int \<Rightarrow> int \<Rightarrow> int" where
  "day_offset m prev off = (if m + off * 1440 < prev then day_offset m prev (off + 1) else off)"
  by auto
termination by (relation "measure (\<lambda>(m, prev, off). nat (prev - (m + off * 1440)))") auto

declare day_offset.simps [simp del]

record run_state =
  rs_stops :: "FlatStop list"
  rs_untimed :: "string list"
  rs_weekdays :: "int list"
  rs_parity :: bool
  rs_prev :: int

definition restrict_days :: "int list \<Rightarrow> (int \<times> int list option) option \<Rightarrow> int list" where
  "restrict_days days cell = (case cell of Some (_, Some d) \<Rightarrow> intersectDays days d | _ \<Rightarrow> days)"

definition untimed :: "reestrSchedStop \<Rightarrow> run_state \<Rightarrow> run_state" where
  "untimed s st = st\<lparr>rs_untimed := rs_untimed st @ [ss_stop s]\<rparr>"

definition timed :: "reestrDataset \<Rightarrow> reestrSchedStop \<Rightarrow> int \<Rightarrow> int \<Rightarrow> int list \<Rightarrow> run_state \<Rightarrow> run_state" where
  "timed ds s arrMin depMin stopDays st =
     (let arrOff = day_offset arrMin (rs_prev st) 0;
          eff = arrMin + arrOff * 1440;
          depOff = day_offset depMin eff arrOff;
          effDep = depMin + depOff * 1440;
          info = stop_by_id ds (ss_stop s)
      in st\<lparr>rs_weekdays := intersectDays (rs_weekdays st) stopDays,
            rs_prev := effDep,
            rs_stops := rs_stops st @ [\<lparr>fs_stop = ss_stop s, fs_name = re_name info, fs_region = ss_region s,
              fs_op = re_op info, fs_lat = re_lat info, fs_lon = re_lon info,
              fs_arr = Some eff, fs_dep = Some effDep\<rparr>]\<rparr>)"

definition flat_step :: "reestrDataset \<Rightarrow> string \<Rightarrow> nat \<Rightarrow> reestrSchedStop \<Rightarrow> run_state \<Rightarrow> run_state" where
  "flat_step ds period run s st =
     (case blockOf s period of
        None \<Rightarrow> untimed s st
      | Some b \<Rightarrow>
          (let bd = fst (ParseBlockDays (rb_days b)) in
           if bd_none bd then untimed s st
           else (let st = (if bd_parity bd then st\<lparr>rs_parity := True\<rparr> else st);
                     arr = cellAt (rb_arr b) run;
                     dep = cellAt (rb_dep b) run
                 in case (arr, dep) of
                      (None, None) \<Rightarrow> untimed s st
                    | _ \<Rightarrow>
                        (let arrMin = fst (case arr of Some a \<Rightarrow> a | None \<Rightarrow> the dep);
                             depMin = fst (case dep of Some d \<Rightarrow> d | None \<Rightarrow> the arr);
                             stopDays = restrict_days (restrict_days (blockDaysSet bd) arr) dep
                         in timed ds s arrMin depMin stopDays st))))"

definition flat_run :: "reestrDataset \<Rightarrow> reestrSched \<Rightarrow> string \<Rightarrow> nat \<Rightarrow> run_state" where
  "flat_run ds sc period run =
     fold (flat_step ds period run) (sc_stops sc)
       \<lparr>rs_stops = [], rs_untimed = [], rs_weekdays = allWeek, rs_parity = False, rs_prev = - 1\<rparr>"

definition base_trip :: "reestrDataset \<Rightarrow> reestrSched \<Rightarrow> FlatTrip" where
  "base_trip ds sc =
     (let r = route_by_reg ds (sc_route sc); ep = endpoints ds (sc_route sc)
      in \<lparr>ft_route = sc_route sc, ft_direction = sc_direction sc, ft_service = sc_service sc, ft_run = 0,
          ft_period = '''', ft_carrier = rr_carrier r, ft_carrier_inn = rr_carrier_inn r,
          ft_from = fst ep, ft_to = snd ep, ft_stops = [], ft_untimed = [], ft_frequency_only = False,
          ft_weekdays = []\<rparr>)"

definition add_run :: "reestrDataset \<Rightarrow> reestrSched \<Rightarrow> string \<Rightarrow> nat \<Rightarrow> FlatTrip list \<times> FlattenStats \<Rightarrow>
    FlatTrip list \<times> FlattenStats" where
  "add_run ds sc period run = (\<lambda>(out, stats).
     let stats = stats\<lparr>fl_runs := fl_runs stats + 1\<rparr>;
         st = flat_run ds sc period run;
         ft = (base_trip ds sc)\<lparr>ft_period := period, ft_run := int run, ft_stops := rs_stops st, ft_untimed := rs_untimed st\<rparr>
     in if rs_untimed st = [] then
          (if rs_weekdays st = [] then (out, stats\<lparr>fl_dropped := fl_dropped stats + 1\<rparr>)
           else (let stats = (if rs_parity st then stats\<lparr>fl_parity := fl_parity stats + 1\<rparr> else stats);
                     ft = ft\<lparr>ft_weekdays := normWeekdays (rs_weekdays st)\<rparr>;
                     stats = (if ft_weekdays ft \<noteq> [] then stats\<lparr>fl_restricted := fl_restricted stats + 1\<rparr> else stats)
                 in (out @ [ft], stats\<lparr>fl_trips := fl_trips stats + 1\<rparr>)))
        else (out @ [ft], stats\<lparr>fl_trips := fl_trips stats + 1\<rparr>))"

definition add_schedule :: "reestrDataset \<Rightarrow> reestrSched \<Rightarrow> FlatTrip list \<times> FlattenStats \<Rightarrow>
    FlatTrip list \<times> FlattenStats" where
  "add_schedule ds sc = (\<lambda>(out, stats).
     let stats = stats\<lparr>fl_schedules := fl_schedules stats + 1\<rparr>;
         period = pickPeriod sc
     in if period = '''' then
          (out @ [(base_trip ds sc)\<lparr>ft_frequency_only := True\<rparr>], stats\<lparr>fl_frequency_only := fl_frequency_only stats + 1\<rparr>)
        else fold (add_run ds sc period) [0 ..< runsCount sc period] (out, stats))"

definition no_stats :: FlattenStats where
  "no_stats = \<lparr>fl_schedules = 0, fl_runs = 0, fl_trips = 0, fl_frequency_only = 0, fl_dropped = 0,
     fl_restricted = 0, fl_parity = 0\<rparr>"

definition FlattenTrips :: "reestrDataset \<Rightarrow> FlatTrip list \<times> FlattenStats" where
  "FlattenTrips ds = fold (add_schedule ds) (ds_schedules ds) ([], no_stats)"

section \<open>Synthetic route keys\<close>

text \<open>\<open>sanitizeRe.ReplaceAllString(s, "-")\<close>: each run of other characters becomes one hyphen.\<close>

definition alnum :: "char \<Rightarrow> bool" where
  "alnum c \<longleftrightarrow> (48 \<le> byte c \<and> byte c \<le> 57) \<or> (65 \<le> byte c \<and> byte c \<le> 90) \<or> (97 \<le> byte c \<and> byte c \<le> 122)"

fun hyphenate :: "bool \<Rightarrow> string \<Rightarrow> string" where
  "hyphenate inRun [] = []"
| "hyphenate inRun (c # cs) =
     (if alnum c then c # hyphenate False cs
      else if inRun then hyphenate True cs else CHR ''-'' # hyphenate True cs)"

definition trim_hyphens :: "string \<Rightarrow> string" where
  "trim_hyphens s = rev (dropWhile (\<lambda>c. c = CHR ''-'') (rev (dropWhile (\<lambda>c. c = CHR ''-'') s)))"

definition sanitizePart :: "string \<Rightarrow> string" where
  "sanitizePart s =
     (let s = trim_hyphens (hyphenate False s);
          s = (if length s > 40 then take 40 s else s);
          s = trim_hyphens s
      in if s = '''' then ''x'' else s)"

definition splitReg :: "string \<Rightarrow> string \<times> string" where
  "splitReg reg =
     (let parts = split_char CHR ''.'' reg in
      if length parts = 0 then (''x'', ''x'')
      else if length parts = 1 then (hd parts, ''x'')
      else (hd parts, join ''-'' (tl parts)))"

definition SyntheticRouteKey :: "string \<Rightarrow> string \<Rightarrow> string \<Rightarrow> string \<Rightarrow> string \<Rightarrow> string" where
  "SyntheticRouteKey region number fromStop toStop carrierINN =
     ''synthetic:'' @ sanitizePart region @ '':'' @ sanitizePart number @ '':'' @ sanitizePart fromStop @ '':''
       @ sanitizePart toStop @ '':'' @ sanitizePart carrierINN"

definition SyntheticKeyForRoute :: "string \<Rightarrow> string \<Rightarrow> string \<Rightarrow> string \<Rightarrow> string" where
  "SyntheticKeyForRoute reg fromStop toStop carrierINN =
     (case splitReg reg of (region, number) \<Rightarrow> SyntheticRouteKey region number fromStop toStop carrierINN)"


section \<open>Times of a flat trip\<close>

lemma day_offset_spec:
  "off \<le> day_offset m prev off \<and> prev \<le> m + day_offset m prev off * 1440 \<and>
   (day_offset m prev off = off \<or> m + (day_offset m prev off - 1) * 1440 < prev)"
proof (induction m prev off rule: day_offset.induct)
  case (1 m prev off)
  then show ?case
    by (cases "m + off * 1440 < prev") (auto simp: day_offset.simps [of m prev off] algebra_simps)
qed

lemma decimal_nonneg: "list_all re_digit s \<Longrightarrow> 0 \<le> decimal s"
  by (induction s rule: decimal.induct) (auto simp: digit_value_def re_digit_def)

lemma hour_minute_nonneg:
  assumes "hour_minute s = Some (h, mm, rest)"
  shows "0 \<le> h \<and> 0 \<le> mm"
proof -
  have "list_all re_digit (takeWhile re_digit s)" by (auto simp: list_all_iff dest: set_takeWhileD)
  then show ?thesis
    using assms decimal_nonneg by (auto simp: hour_minute_def Let_def split: if_splits)
qed

lemma sorted_sort_ints: "sorted (sort_ints ns)"
proof -
  have "sorted_wrt (\<lambda>x y. \<not> y < x) (sort_ints ns)"
    unfolding sort_ints_def by (rule sorted_sort_by) (rule weak_order_key [of "\<lambda>x. x"])
  then show ?thesis by (simp add: sorted_wrt_iff_nth_less sorted_iff_nth_mono_less not_less)
qed

lemma set_sort_ints [simp]: "set (sort_ints ns) = set ns"
  by (simp add: sort_ints_def)

lemma distinct_sort_ints [simp]: "distinct (sort_ints ns) \<longleftrightarrow> distinct ns"
  by (simp add: sort_ints_def)

lemma sort_ints_sorted:
  assumes "sorted ns"
  shows "sort_ints ns = ns"
  using assms
proof (induction ns)
  case (Cons n ns)
  then have "sort_ints ns = ns" by simp
  moreover have "insert_by (\<lambda>a b. a < b) n ns = n # ns" using Cons.prems by (cases ns) auto
  ultimately show ?case by (simp add: sort_ints_def)
qed (simp add: sort_ints_def)

definition week_days :: "int list \<Rightarrow> bool" where
  "week_days ns \<longleftrightarrow> sorted ns \<and> distinct ns \<and> list_all (\<lambda>n. 0 \<le> n \<and> n \<le> 6) ns"

lemma day_tokens_range:
  "day_tokens out ts = Some ns \<Longrightarrow> distinct out \<Longrightarrow> list_all (\<lambda>n. 0 \<le> n \<and> n \<le> 6) out \<Longrightarrow>
   distinct ns \<and> list_all (\<lambda>n. 0 \<le> n \<and> n \<le> 6) ns"
proof (induction out ts rule: day_tokens.induct)
  case (2 out t ts)
  have "0 \<le> n \<and> n \<le> 6" if "parseDayToken t = Some n" for n
  proof -
    have "n \<in> snd ` set weekdayNum"
      using that by (auto simp: parseDayToken_def dest!: map_of_SomeD intro: rev_image_eqI)
    then show ?thesis by (auto simp: weekdayNum_def)
  qed
  with 2 show ?case by (auto split: option.splits if_splits)
qed simp

lemma parseDayList_week: "parseDayList s = Some ns \<Longrightarrow> week_days ns \<and> ns \<noteq> []"
  using day_tokens_range [of "[]" "concat (map Fields (split_char CHR '','' s))"]
  by (auto simp: parseDayList_def week_days_def list_all_iff sorted_sort_ints split: option.splits if_splits)
     (metis empty_iff list.set(1) set_sort_ints set_empty)

lemma ParseCellTime_range:
  assumes "ParseCellTime s = Inr (m, days)"
  shows "0 \<le> m \<and> m < 1440 \<and> (case days of None \<Rightarrow> True | Some d \<Rightarrow> week_days d \<and> d \<noteq> [])"
  using assms hour_minute_nonneg [of "trim_space s"] parseDayList_week
  by (auto simp: ParseCellTime_def split: option.splits if_splits)

lemma cellAt_range: "cellAt xs run = Some (m, days) \<Longrightarrow> 0 \<le> m \<and> m < 1440"
  using ParseCellTime_range by (auto simp: cellAt_def Let_def split: if_splits sum.splits)

text \<open>Times in order from a moment on: each is less than a day after the one before it.\<close>

fun stops_in_order :: "int \<Rightarrow> FlatStop list \<Rightarrow> bool" where
  "stops_in_order t [] \<longleftrightarrow> True"
| "stops_in_order t (s # ss) \<longleftrightarrow>
     (case (fs_arr s, fs_dep s) of
        (Some a, Some d) \<Rightarrow> 0 \<le> a \<and> t \<le> a \<and> a < max t 0 + 1440 \<and> a \<le> d \<and> d < a + 1440 \<and> stops_in_order d ss
      | _ \<Rightarrow> False)"

definition last_time :: "int \<Rightarrow> FlatStop list \<Rightarrow> int" where
  "last_time t ss = (if ss = [] then t else the (fs_dep (last ss)))"

lemma stops_in_order_append:
  "stops_in_order t (ss @ [s]) \<longleftrightarrow> stops_in_order t ss \<and> stops_in_order (last_time t ss) [s]"
  by (induction t ss rule: stops_in_order.induct) (auto simp: last_time_def split: option.splits)

definition run_ok :: "run_state \<Rightarrow> bool" where
  "run_ok st \<longleftrightarrow> stops_in_order (- 1) (rs_stops st) \<and> rs_prev st = last_time (- 1) (rs_stops st) \<and> - 1 \<le> rs_prev st"

lemma run_ok_untimed [simp]: "run_ok (untimed s st) \<longleftrightarrow> run_ok st" "run_ok (st\<lparr>rs_parity := b\<rparr>) \<longleftrightarrow> run_ok st"
  by (simp_all add: run_ok_def untimed_def)

lemma run_ok_timed:
  assumes "run_ok st" "0 \<le> arrMin" "arrMin < 1440" "0 \<le> depMin" "depMin < 1440"
  shows "run_ok (timed ds s arrMin depMin days st)"
proof -
  define k where "k = day_offset arrMin (rs_prev st) 0"
  define e where "e = arrMin + k * 1440"
  define l where "l = day_offset depMin e k"
  have k: "0 \<le> k" "rs_prev st \<le> e" "k = 0 \<or> e - 1440 < rs_prev st"
    using day_offset_spec [of 0 arrMin "rs_prev st"] by (auto simp: k_def e_def algebra_simps)
  have l: "k \<le> l" "e \<le> depMin + l * 1440" "l = k \<or> depMin + l * 1440 - 1440 < e"
    using day_offset_spec [of k depMin e] by (auto simp: l_def algebra_simps)
  have a: "0 \<le> e" "e < max (rs_prev st) 0 + 1440"
    using k assms by (auto simp: e_def)
  have d: "depMin + l * 1440 < e + 1440"
    using l assms by (auto simp: e_def)
  obtain x where x: "rs_stops (timed ds s arrMin depMin days st) = rs_stops st @ [x]"
    "fs_arr x = Some e" "fs_dep x = Some (depMin + l * 1440)"
    by (simp add: timed_def Let_def k_def e_def l_def)
  have p: "rs_prev (timed ds s arrMin depMin days st) = depMin + l * 1440"
    by (simp add: timed_def Let_def k_def e_def l_def)
  have o: "stops_in_order (- 1) (rs_stops st)" "last_time (- 1) (rs_stops st) = rs_prev st"
    using assms(1) by (simp_all add: run_ok_def)
  show ?thesis
    using a k(2) l(2) d unfolding run_ok_def p x(1) stops_in_order_append o(2)
    by (simp add: o(1) x(2,3) last_time_def)
qed

lemma run_ok_step: "run_ok st \<Longrightarrow> run_ok (flat_step ds period run s st)"
  by (auto simp: flat_step_def Let_def split: option.splits intro!: run_ok_timed dest!: cellAt_range)

lemma run_ok_run: "run_ok (flat_run ds sc period run)"
proof -
  have steps: "run_ok (fold (flat_step ds period run) ss st)" if "run_ok st" for ss st
    using that by (induction ss arbitrary: st) (auto simp: run_ok_step)
  show ?thesis unfolding flat_run_def by (rule steps) (simp add: run_ok_def last_time_def)
qed

section \<open>Flat trips are well formed\<close>

definition flat_trip_ok :: "FlatTrip \<Rightarrow> bool" where
  "flat_trip_ok ft \<longleftrightarrow> stops_in_order (- 1) (ft_stops ft) \<and> week_days (ft_weekdays ft) \<and> length (ft_weekdays ft) < 7 \<and>
     (if ft_frequency_only ft then ft_stops ft = [] else True) \<and> (if ft_untimed ft = [] then True else ft_weekdays ft = [])"

lemma normWeekdays_week: "week_days (normWeekdays ns) \<and> length (normWeekdays ns) < 7"
proof -
  let ?m = "sort_ints (remdups (filter (\<lambda>n. 0 \<le> n \<and> n \<le> 6) ns))"
  have w: "week_days ?m" by (auto simp: week_days_def sorted_sort_ints list_all_iff)
  then have "distinct ?m" "set ?m \<subseteq> {0..6}" by (auto simp: week_days_def list_all_iff)
  then have "length ?m \<le> card {0..6::int}" by (metis card_mono distinct_card finite_atLeastAtMost_int)
  then have "length ?m \<le> 7" by simp
  then show ?thesis using w by (auto simp: normWeekdays_def Let_def week_days_def)
qed

definition flatten_ok :: "FlatTrip list \<times> FlattenStats \<Rightarrow> bool" where
  "flatten_ok r \<longleftrightarrow> list_all flat_trip_ok (fst r) \<and> length (fst r) = fl_trips (snd r) + fl_frequency_only (snd r) \<and>
     fl_runs (snd r) = fl_trips (snd r) + fl_dropped (snd r)"

lemma base_trip_sel [simp]: "ft_weekdays (base_trip ds sc) = []" "ft_frequency_only (base_trip ds sc) = False"
  "ft_stops (base_trip ds sc) = []" "ft_untimed (base_trip ds sc) = []"
  by (simp_all add: base_trip_def Let_def)

lemma flatten_ok_run: "flatten_ok r \<Longrightarrow> flatten_ok (add_run ds sc period run r)"
  using run_ok_run [of ds sc period run] normWeekdays_week [of "rs_weekdays (flat_run ds sc period run)"]
  by (auto simp: flatten_ok_def add_run_def flat_trip_ok_def run_ok_def Let_def week_days_def split: prod.split)

lemma flatten_ok_schedule: "flatten_ok r \<Longrightarrow> flatten_ok (add_schedule ds sc r)"
proof -
  assume r: "flatten_ok r"
  have runs: "flatten_ok (fold (add_run ds sc period) ks r)" if "flatten_ok r" for period ks r
    using that by (induction ks arbitrary: r) (auto simp: flatten_ok_run)
  obtain out st where [simp]: "r = (out, st)" by force
  have "flatten_ok (out, st\<lparr>fl_schedules := fl_schedules st + 1\<rparr>)" using r by (simp add: flatten_ok_def)
  from runs [OF this] show ?thesis
    using r by (auto simp: add_schedule_def Let_def flatten_ok_def flat_trip_ok_def week_days_def)
qed

lemma flatten_ok_all: "flatten_ok (FlattenTrips ds)"
proof -
  have steps: "flatten_ok (fold (add_schedule ds) scs r)" if "flatten_ok r" for scs r
    using that by (induction scs arbitrary: r) (auto simp: flatten_ok_schedule)
  show ?thesis unfolding FlattenTrips_def by (rule steps) (simp add: flatten_ok_def no_stats_def)
qed

text \<open>C26: Every flat trip made of a data set, even one that breaks the contract, is well formed: arrivals and
departures never go back, each comes less than a day after the one before it and none before midnight of the
first day; the days of the week are sorted, distinct, between 0 and 6 and not all seven; and the counters
account for every run and every trip.\<close>

theorem flat_trips_well_formed:
  "list_all flat_trip_ok (fst (FlattenTrips ds)) \<and>
   length (fst (FlattenTrips ds)) = fl_trips (snd (FlattenTrips ds)) + fl_frequency_only (snd (FlattenTrips ds)) \<and>
   fl_runs (snd (FlattenTrips ds)) = fl_trips (snd (FlattenTrips ds)) + fl_dropped (snd (FlattenTrips ds))"
  using flatten_ok_all [of ds] by (simp add: flatten_ok_def)

section \<open>Weekday lists\<close>

lemma weekday_text:
  assumes "0 \<le> n" "n \<le> 6"
  shows "parse_weekday (itoa n) = [n] \<and> CHR '','' \<notin> set (itoa n)"
proof -
  have "n \<in> {0, 1, 2, 3, 4, 5, 6}" using assms by auto
  have "nat_digits (nat n) = [char_of (48 + nat n)]"
    using assms by (subst nat_digits.simps) simp
  then have i: "itoa n = [char_of (48 + nat n)]" using assms by (simp add: itoa_def)
  have b: "byte (char_of (48 + nat n)) = 48 + nat n" using assms by simp
  have k: "nat n < 7" using assms by linarith
  have "trim_space (itoa n) = itoa n"
    unfolding i using k b by (simp add: trim_space_def trim_runes_def is_space_def utf8_def utf8_rune_def)
  moreover have "CHR '','' \<noteq> char_of (48 + nat n)"
  proof
    assume "CHR '','' = char_of (48 + nat n)"
    then have "byte (CHR '','') = 48 + nat n" using b by simp
    then show False by (simp add: byte_def)
  qed
  ultimately show ?thesis using assms by (simp add: parse_weekday_def) (simp add: i)
qed

text \<open>C34: A list of service days survives being stored: the text of normalised weekdays parses back to them.\<close>

theorem weekdays_roundtrip:
  "parseWeekdays (FormatWeekdays (normWeekdays ns)) = normWeekdays ns"
proof -
  define ds where "ds = normWeekdays ns"
  have w: "list_all (\<lambda>n. 0 \<le> n \<and> n \<le> 6) ds" "sorted ds"
    using normWeekdays_week [of ns] by (simp_all add: ds_def week_days_def)
  show ?thesis
  proof (cases "ds = []")
    case True
    have "parse_weekday '''' = []"
      by (simp add: parse_weekday_def trim_space_def trim_runes_def atoi_def)
    then show ?thesis using True by (simp add: flip: ds_def) (simp add: FormatWeekdays_def parseWeekdays_def sort_ints_def)
  next
    case False
    have "list_all (\<lambda>p. CHR '','' \<notin> set p) (map itoa ds)"
      using w(1) weekday_text by (simp add: list_all_iff)
    then have "split_char CHR '','' (FormatWeekdays ds) = map itoa ds"
      using False by (simp add: FormatWeekdays_def split_char_join)
    moreover have "concat (map parse_weekday (map itoa ds)) = ds"
      using w(1) weekday_text by (induction ds) simp_all
    ultimately have "parseWeekdays (FormatWeekdays ds) = sort_ints ds" by (simp add: parseWeekdays_def)
    then show ?thesis using sort_ints_sorted [OF w(2)] by (simp add: ds_def)
  qed
qed

end
