(* ===== verification/Attach.thy ===== *)
theory Attach
  imports ScorePair Mintrans "HOL-Library.Word"
begin

text \<open>
  Tying the trips of the registry to the terminals of the skeleton
  (\<open>sync/trips_attach.go\<close>, \<open>sync/trips_match_index.go\<close>): the blocking index of terminals, the
  greedy matching of the stops of one trip, the checks on times and speeds, the report with its
  promoted, staged and dead trips, and the comparison with the trips published before. The
  texts of the details are data constructors. The context is a function that gives the error,
  if any, that is found before the \<open>i\<close>-th trip.
\<close>

section \<open>Data\<close>

record AttachTerminal =
  at_id :: int
  at_name :: string
  at_lat :: "real option"
  at_lon :: "real option"
  at_settlement :: string
  at_transport :: string
  at_source :: string
  at_codes :: "AdaptedIdentifier list"
  at_finalized :: bool

record AttachInput =
  in_trips :: "FlatTrip list"
  in_terminals :: "AttachTerminal list"
  in_prev :: "(string \<times> string list) list"
  in_trust_route :: bool
  in_source :: string
  in_churn :: real
  in_max_speed :: real
  in_params :: "(DensityClass \<Rightarrow> Params) option"
  in_class :: "(string \<Rightarrow> DensityClass) option"

record PromotableTrip =
  pt_route_nk :: string
  pt_trip_nk :: string
  pt_route_reg :: string
  pt_direction :: string
  pt_service :: int
  pt_run :: int
  pt_synthetic_key :: bool
  pt_winner_source :: string
  pt_winner_period :: string
  pt_weekdays :: "int list"
  pt_carrier :: string
  pt_carrier_inn :: string
  pt_stop_times :: "MatchedStopTime list"
  pt_route_synthetic :: bool

record StagedTrip =
  sg_route_nk :: string
  sg_trip_nk :: string
  sg_route_reg :: string
  sg_direction :: string
  sg_service :: int
  sg_run :: int
  sg_state :: string
  sg_reason :: stage_reason
  sg_matched :: "MatchedStopTime list"
  sg_unmatched :: "string list"
  sg_synthetic_key :: bool
  sg_carrier :: string
  sg_carrier_inn :: string
  sg_weekdays :: "int list"

datatype dead_detail = ArrivalAfterDeparture nat string | TimeDecreases nat string | LegOverspeed nat real real

record DeadTrip =
  dd_route_nk :: string
  dd_trip_nk :: string
  dd_reason :: string
  dd_detail :: dead_detail

record TombstonedTrip =
  tb_route_nk :: string
  tb_trip_nk :: string

record AttachReport =
  ar_in :: nat
  ar_promoted :: "PromotableTrip list"
  ar_staged :: "StagedTrip list"
  ar_reviews :: "ReviewQueueEntry list"
  ar_dead :: "DeadTrip list"
  ar_tombstoned :: "TombstonedTrip list"
  ar_churn :: real
  ar_disappearance :: real
  ar_alert :: bool
  ar_mid_gaps :: nat
  ar_gapped :: nat

definition empty_report :: AttachReport where
  "empty_report = \<lparr>ar_in = 0, ar_promoted = [], ar_staged = [], ar_reviews = [], ar_dead = [], ar_tombstoned = [],
     ar_churn = 0, ar_disappearance = 0, ar_alert = False, ar_mid_gaps = 0, ar_gapped = 0\<rparr>"

section \<open>The blocking index\<close>

record matchIndex =
  mi_terms :: "AttachTerminal list"
  mi_cells :: "int \<times> int \<Rightarrow> nat list"
  mi_no_coords :: "nat list"
  mi_by_code :: "string \<Rightarrow> nat list"

definition match_cell :: "real \<Rightarrow> real \<Rightarrow> int \<times> int" where
  "match_cell lat lon = (\<lfloor>lat / (5 / 10)\<rfloor>, \<lfloor>lon / (5 / 10)\<rfloor>)"

definition code_key :: "AdaptedIdentifier \<Rightarrow> string" where
  "code_key i = ai_system i @ ''|'' @ ai_code i"

definition index_term :: "nat \<times> AttachTerminal \<Rightarrow> matchIndex \<Rightarrow> matchIndex" where
  "index_term = (\<lambda>(i, t) idx.
     let idx = (case (at_lat t, at_lon t) of
           (Some la, Some lo) \<Rightarrow>
             (let c = match_cell la lo in idx\<lparr>mi_cells := (mi_cells idx)(c := mi_cells idx c @ [i])\<rparr>)
         | _ \<Rightarrow> idx\<lparr>mi_no_coords := mi_no_coords idx @ [i]\<rparr>)
     in fold (\<lambda>c idx.
          if ai_code c = '''' then idx
          else idx\<lparr>mi_by_code := (mi_by_code idx)(code_key c := mi_by_code idx (code_key c) @ [i])\<rparr>)
        (at_codes t) idx)"

definition buildMatchIndex :: "AttachTerminal list \<Rightarrow> matchIndex" where
  "buildMatchIndex terms =
     fold index_term (zip [0 ..< length terms] terms)
       \<lparr>mi_terms = terms, mi_cells = (\<lambda>_. []), mi_no_coords = [], mi_by_code = (\<lambda>_. [])\<rparr>"

definition StopCodes :: "string \<Rightarrow> string \<Rightarrow> AdaptedIdentifier list" where
  "StopCodes source opCode =
     (if source = ''mintrans'' \<and> opCode \<noteq> ''''
      then [\<lparr>ai_system = ''mintrans'', ai_code_type = ''op_reg'', ai_code = opCode\<rparr>] else [])"

definition add_new :: "nat list \<Rightarrow> nat list \<Rightarrow> nat list" where
  "add_new idxs out = fold (\<lambda>i out. if i \<in> set out then out else out @ [i]) idxs out"

definition near_cells :: "int \<times> int \<Rightarrow> (int \<times> int) list" where
  "near_cells b = concat (map (\<lambda>di. map (\<lambda>dj. (fst b + di, snd b + dj)) [-1, 0, 1]) [-1, 0, 1])"

definition candidates :: "matchIndex \<Rightarrow> FlatStop \<Rightarrow> string \<Rightarrow> nat list" where
  "candidates idx stop source =
     (let out = (case (fs_lat stop, fs_lon stop) of
            (Some la, Some lo) \<Rightarrow> fold (\<lambda>c. add_new (mi_cells idx c)) (near_cells (match_cell la lo)) []
          | _ \<Rightarrow> []);
          out = fold (\<lambda>c. add_new (mi_by_code idx (code_key c))) (StopCodes source (fs_op stop)) out
      in add_new (mi_no_coords idx) out)"

text \<open>The planar test of 2 km; \<open>candidates\<close> does not call it, and nothing else does.\<close>

definition cosDeg :: "real \<Rightarrow> real" where
  "cosDeg latDeg = 1 - latDeg * latDeg * (152 / 10000000)"

definition inGeoWindow :: "real \<Rightarrow> real \<Rightarrow> AttachTerminal \<Rightarrow> bool" where
  "inGeoWindow stopLat stopLon t =
     (case (at_lat t, at_lon t) of
        (Some la, Some lo) \<Rightarrow>
          (let dLat = (la - stopLat) * 111000;
               dLon = (lo - stopLon) * 111000 * cosDeg stopLat
           in dLat * dLat + dLon * dLon \<le> 2000 * 2000)
      | _ \<Rightarrow> True)"

section \<open>Matching the stops of a trip\<close>

definition PairItemFromTerminal :: "AttachTerminal \<Rightarrow> PairItem" where
  "PairItemFromTerminal t = \<lparr>pi_name = at_name t, pi_lat = at_lat t, pi_lon = at_lon t, pi_transport = at_transport t,
     pi_settlement = at_settlement t, pi_codes = at_codes t, pi_source = at_source t\<rparr>"

definition PairItemFromStop :: "string \<Rightarrow> real option \<Rightarrow> real option \<Rightarrow> string \<Rightarrow> string \<Rightarrow>
    AdaptedIdentifier list \<Rightarrow> PairItem" where
  "PairItemFromStop name lat lon settlement source codes = \<lparr>pi_name = name, pi_lat = lat, pi_lon = lon,
     pi_transport = '''', pi_settlement = settlement, pi_codes = codes, pi_source = source\<rparr>"

definition reasonRank :: "string \<Rightarrow> nat" where
  "reasonRank r = (if r = ''duplicate_ambiguous'' then 3 else if r = ''low_confidence'' then 2 else 1)"

record match_state =
  st_matched :: "MatchedStopTime list"
  st_unmatched :: "string list"
  st_reason :: string
  st_score :: real
  st_used :: "int list"
  st_first :: int

text \<open>A terminal of the trip is taken, except that a ring trip may end where it began.\<close>

definition available :: "match_state \<Rightarrow> nat \<Rightarrow> nat \<Rightarrow> int \<Rightarrow> bool" where
  "available st seq lastStop i \<longleftrightarrow>
     (if i \<in> set (st_used st) then seq = lastStop \<and> seq > 1 \<and> st_first st \<noteq> 0 \<and> i = st_first st else True)"

definition stop_seconds :: "int option \<Rightarrow> int" where
  "stop_seconds m = (case m of Some x \<Rightarrow> x * 60 | None \<Rightarrow> 0)"

definition match_stop :: "matchIndex \<Rightarrow> string \<Rightarrow> (string \<Rightarrow> DensityClass) \<Rightarrow> (DensityClass \<Rightarrow> Params) \<Rightarrow> nat \<Rightarrow>
    nat \<times> FlatStop \<Rightarrow> match_state \<Rightarrow> match_state" where
  "match_stop idx source classFor paramsFor lastStop = (\<lambda>(seq, s) st.
     let codes = StopCodes source (fs_op s);
         stop = PairItemFromStop (fs_name s) (fs_lat s) (fs_lon s) (ExtractSettlement (fs_name s)) source codes;
         cls = classFor (fs_region s);
         params = paramsFor cls;
         pool = filter (\<lambda>ti. available st seq lastStop (at_id (mi_terms idx ! ti))) (candidates idx s source);
         cands = map (\<lambda>ti. PairItemFromTerminal (mi_terms idx ! ti)) pool;
         (best, d, score) = MatchStopToTerminal stop cands cls params
     in if d \<noteq> DecisionVerified then
          (let reason = (if d = DecisionRejected then ''incomplete_trip'' else decision_string d);
               st = st\<lparr>st_unmatched := st_unmatched st @ [fs_stop s]\<rparr>
           in if reasonRank reason > reasonRank (st_reason st)
              then st\<lparr>st_reason := reason, st_score := ps_value score\<rparr> else st)
        else
          (let t = mi_terms idx ! (pool ! nat best);
               m = \<lparr>mt_seq = int seq, mt_terminal = at_id t, mt_stop = fs_stop s, mt_arr = stop_seconds (fs_arr s),
                    mt_dep = stop_seconds (fs_dep s), mt_codes = codes, mt_provisional = \<not> at_finalized t,
                    mt_score = ps_value score, mt_method = (if ps_code_match score then ''code'' else ''scorepair'')\<rparr>
           in st\<lparr>st_first := (if st_matched st = [] then at_id t else st_first st),
                 st_used := at_id t # st_used st,
                 st_matched := st_matched st @ [m]\<rparr>))"

definition renumber :: "MatchedStopTime list \<Rightarrow> MatchedStopTime list" where
  "renumber ms = map (\<lambda>(i, m). m\<lparr>mt_seq := int i\<rparr>) (zip [0 ..< length ms] ms)"

definition empty_match :: match_state where
  "empty_match = \<lparr>st_matched = [], st_unmatched = [], st_reason = ''incomplete_trip'', st_score = 0, st_used = [], st_first = 0\<rparr>"

definition matchStops :: "FlatTrip \<Rightarrow> matchIndex \<Rightarrow> string \<Rightarrow> (string \<Rightarrow> DensityClass) \<Rightarrow> (DensityClass \<Rightarrow> Params) \<Rightarrow>
    MatchedStopTime list \<times> string \<times> real \<times> string list" where
  "matchStops ft idx source classFor paramsFor =
     (let st = fold (match_stop idx source classFor paramsFor (length (ft_stops ft) - 1))
            (zip [0 ..< length (ft_stops ft)] (ft_stops ft)) empty_match
      in (renumber (st_matched st), st_reason st, st_score st, st_unmatched st))"

section \<open>Checks\<close>

definition backbonePromotable :: "MatchedStopTime list \<Rightarrow> nat \<Rightarrow> bool" where
  "backbonePromotable matched totalStops =
     (if length matched < 2 then False
      else if real (length matched) / real totalStops < 2 / 3 then False
      else True)"

definition collapse_step :: "MatchedStopTime list \<Rightarrow> MatchedStopTime \<Rightarrow> MatchedStopTime list" where
  "collapse_step out m =
     (if out \<noteq> [] \<and> mt_terminal (last out) = mt_terminal m
      then butlast out @ [(last out)\<lparr>mt_dep := mt_dep m\<rparr>]
      else out @ [m])"

definition collapseConsecutive :: "MatchedStopTime list \<Rightarrow> MatchedStopTime list" where
  "collapseConsecutive matched = renumber (foldl collapse_step [] matched)"

fun monotonic_from :: "nat \<Rightarrow> int option \<Rightarrow> MatchedStopTime list \<Rightarrow> dead_detail option" where
  "monotonic_from i prev [] = None"
| "monotonic_from i prev (m # ms) =
     (if mt_arr m > mt_dep m then Some (ArrivalAfterDeparture i (mt_stop m))
      else (case prev of
          Some d \<Rightarrow> if mt_arr m < d then Some (TimeDecreases i (mt_stop m)) else monotonic_from (Suc i) (Some (mt_dep m)) ms
        | None \<Rightarrow> monotonic_from (Suc i) (Some (mt_dep m)) ms))"

definition checkMonotonic :: "MatchedStopTime list \<Rightarrow> dead_detail option" where
  "checkMonotonic matched = monotonic_from 0 None matched"

definition terminalByID :: "AttachTerminal list \<Rightarrow> int \<Rightarrow> AttachTerminal option" where
  "terminalByID terms i = find (\<lambda>t. at_id t = i) terms"

definition legSpeedKmH :: "AttachTerminal option \<Rightarrow> AttachTerminal option \<Rightarrow> int \<Rightarrow> real option" where
  "legSpeedKmH a b durMin =
     (case (a, b) of
        (Some a, Some b) \<Rightarrow>
          (case (at_lat a, at_lon a, at_lat b, at_lon b) of
             (Some ala, Some alo, Some bla, Some blo) \<Rightarrow>
               (let distKm = Haversine \<lparr>co_lat = ala, co_lon = alo\<rparr> \<lparr>co_lat = bla, co_lon = blo\<rparr> in
                if durMin \<le> 0 then (if distKm < 5 / 100 then None else Some 1000000000)
                else Some (distKm / (of_int durMin / 60)))
           | _ \<Rightarrow> None)
      | _ \<Rightarrow> None)"

text \<open>Go's integer division truncates toward zero.\<close>

definition leg_minutes :: "MatchedStopTime \<Rightarrow> MatchedStopTime \<Rightarrow> int" where
  "leg_minutes p q = (let x = mt_arr q - mt_dep p in if x \<ge> 0 then x div 60 else - ((- x) div 60))"

definition leg_speed :: "AttachTerminal list \<Rightarrow> MatchedStopTime \<Rightarrow> MatchedStopTime \<Rightarrow> real option" where
  "leg_speed terms p q =
     legSpeedKmH (terminalByID terms (mt_terminal p)) (terminalByID terms (mt_terminal q)) (leg_minutes p q)"

definition both_finalized :: "AttachTerminal list \<Rightarrow> MatchedStopTime \<Rightarrow> MatchedStopTime \<Rightarrow> bool" where
  "both_finalized terms p q \<longleftrightarrow>
     (case (terminalByID terms (mt_terminal p), terminalByID terms (mt_terminal q)) of
        (Some a, Some b) \<Rightarrow> at_finalized a \<and> at_finalized b
      | _ \<Rightarrow> False)"

fun first_leg :: "(MatchedStopTime \<Rightarrow> MatchedStopTime \<Rightarrow> real option) \<Rightarrow> nat \<Rightarrow> MatchedStopTime list \<Rightarrow> (nat \<times> real) option" where
  "first_leg f i (p # q # ms) = (case f p q of Some v \<Rightarrow> Some (i, v) | None \<Rightarrow> first_leg f (Suc i) (q # ms))"
| "first_leg f i _ = None"

definition fast_leg :: "AttachTerminal list \<Rightarrow> real \<Rightarrow> bool \<Rightarrow> MatchedStopTime \<Rightarrow> MatchedStopTime \<Rightarrow> real option" where
  "fast_leg terms maxSpeed finalized p q =
     (case leg_speed terms p q of
        None \<Rightarrow> None
      | Some v \<Rightarrow> if both_finalized terms p q = finalized \<and> v > maxSpeed then Some v else None)"

definition checkSpeeds :: "MatchedStopTime list \<Rightarrow> AttachTerminal list \<Rightarrow> real \<Rightarrow> dead_detail option" where
  "checkSpeeds matched terms maxSpeed =
     map_option (\<lambda>(i, v). LegOverspeed i v maxSpeed) (first_leg (fast_leg terms maxSpeed True) 0 matched)"

definition softSpeeds :: "MatchedStopTime list \<Rightarrow> AttachTerminal list \<Rightarrow> real \<Rightarrow> stage_reason option" where
  "softSpeeds matched terms maxSpeed =
     map_option (\<lambda>(i, v). SoftSpeed i v) (first_leg (fast_leg terms maxSpeed False) 0 matched)"

section \<open>The report\<close>

text \<open>FNV-1a with 64 bits, and an identifier below zero for an entry without a row of its own.\<close>

definition fnv64a :: "string \<Rightarrow> 64 word" where
  "fnv64a s = foldl (\<lambda>h c. (xor h (word_of_nat (byte c))) * 1099511628211) 14695981039346656037 s"

definition syntheticReviewID :: "string \<Rightarrow> string \<Rightarrow> string \<Rightarrow> string \<Rightarrow> int" where
  "syntheticReviewID entityType reason source code =
     (let v = sint (fnv64a (entityType @ nul @ reason @ nul @ source @ nul @ code));
          v = (if v \<ge> 0 then - v - 1 else v)
      in if v = 0 then - 1 else v)"

definition tripReview :: "string \<Rightarrow> string \<Rightarrow> string \<Rightarrow> string \<Rightarrow> real \<Rightarrow> ReviewQueueEntry" where
  "tripReview source routeNK tripNK reason score =
     (let reason = (if reason \<noteq> ''incomplete_trip'' \<and> reason \<noteq> ''low_confidence'' \<and> reason \<noteq> ''duplicate_ambiguous''
            then ''incomplete_trip'' else reason)
      in \<lparr>rq_entity_type = ''trip'', rq_entity_id = syntheticReviewID ''trip'' reason source (routeNK @ ''|'' @ tripNK),
          rq_reason = reason, rq_score = score, rq_fingerprint = source @ '':'' @ routeNK @ ''|'' @ tripNK\<rparr>)"

definition ru_no_times :: string where
  "ru_no_times = utf8 [1085, 1077, 1090, 32, 1090, 1086, 1095, 1085, 1099, 1093, 32, 1074, 1088, 1077, 1084, 1105, 1085, 58, 32, 102, 114, 101, 113, 117, 101, 110, 99, 121, 45, 111, 110, 108, 121, 32, 1080, 1083, 1080, 32, 1084, 1077, 1085, 1100, 1096, 1077, 32, 1076, 1074, 1091, 1093, 32, 116, 105, 109, 101, 100, 45, 1089, 1090, 1086, 1087, 1086, 1074]"
definition ru_untimed_stops :: string where
  "ru_untimed_stops = utf8 [1089, 1090, 1086, 1087, 1099, 32, 1073, 1077, 1079, 32, 1074, 1088, 1077, 1084, 1105, 1085, 44, 32, 1080, 1085, 1090, 1077, 1088, 1087, 1086, 1083, 1103, 1094, 1080, 1103, 32, 1079, 1072, 1087, 1088, 1077, 1097, 1077, 1085, 1072]"
definition ru_no_terminal :: string where
  "ru_no_terminal = utf8 [1085, 1077, 1090, 32, 1074, 1077, 1088, 1080, 1092, 1080, 1094, 1080, 1088, 1086, 1074, 1072, 1085, 1085, 1086, 1075, 1086, 32, 1090, 1077, 1088, 1084, 1080, 1085, 1072, 1083, 1072, 32, 1074, 32, 1089, 1082, 1077, 1083, 1077, 1090, 1077]"

definition staged :: "string \<Rightarrow> string \<Rightarrow> FlatTrip \<Rightarrow> string \<Rightarrow> stage_reason \<Rightarrow> StagedTrip" where
  "staged routeNK tripNK ft state reason = \<lparr>sg_route_nk = routeNK, sg_trip_nk = tripNK, sg_route_reg = ft_route ft,
     sg_direction = ft_direction ft, sg_service = ft_service ft, sg_run = ft_run ft, sg_state = state, sg_reason = reason,
     sg_matched = [], sg_unmatched = [], sg_synthetic_key = True, sg_carrier = ft_carrier ft,
     sg_carrier_inn = ft_carrier_inn ft, sg_weekdays = ft_weekdays ft\<rparr>"

record attach_config =
  ac_source :: string
  ac_threshold :: real
  ac_max_speed :: real
  ac_class :: "string \<Rightarrow> DensityClass"
  ac_params :: "DensityClass \<Rightarrow> Params"

definition attach_defaults :: "AttachInput \<Rightarrow> (DensityClass \<Rightarrow> Params) \<Rightarrow> attach_config" where
  "attach_defaults inp params =
     \<lparr>ac_source = (if in_source inp = '''' then ''mintrans'' else in_source inp),
      ac_threshold = (if in_churn inp \<le> 0 then 2 / 10 else in_churn inp),
      ac_max_speed = (if in_max_speed inp \<le> 0 then 200 else in_max_speed inp),
      ac_class = (case in_class inp of Some f \<Rightarrow> f | None \<Rightarrow> (\<lambda>_. DensityUrban)),
      ac_params = params\<rparr>"

definition route_key :: "AttachInput \<Rightarrow> FlatTrip \<Rightarrow> string" where
  "route_key inp ft =
     (if in_trust_route inp then ft_route ft
      else SyntheticKeyForRoute (ft_route ft) (ft_from ft) (ft_to ft) (ft_carrier_inn ft))"

definition trip_key :: "string \<Rightarrow> FlatTrip \<Rightarrow> string" where
  "trip_key routeNK ft = routeNK @ ''|'' @ ft_direction ft @ '':'' @ itoa (ft_service ft) @ '':'' @ itoa (ft_run ft)"

definition promotable :: "AttachInput \<Rightarrow> attach_config \<Rightarrow> string \<Rightarrow> string \<Rightarrow> FlatTrip \<Rightarrow> MatchedStopTime list \<Rightarrow> PromotableTrip" where
  "promotable inp cfg routeNK tripNK ft stopTimes =
     \<lparr>pt_route_nk = routeNK, pt_trip_nk = tripNK, pt_route_reg = ft_route ft, pt_direction = ft_direction ft,
      pt_service = ft_service ft, pt_run = ft_run ft, pt_synthetic_key = True,
      pt_winner_source = ac_source cfg @ '':'' @ ft_period ft, pt_winner_period = ft_period ft,
      pt_weekdays = ft_weekdays ft, pt_carrier = ft_carrier ft, pt_carrier_inn = ft_carrier_inn ft,
      pt_stop_times = stopTimes, pt_route_synthetic = \<not> in_trust_route inp\<rparr>"

type_synonym attach_state = "AttachReport \<times> (string \<times> string) list"

definition stage :: "StagedTrip \<Rightarrow> attach_state \<Rightarrow> attach_state" where
  "stage s = (\<lambda>(rep, current). (rep\<lparr>ar_staged := ar_staged rep @ [s]\<rparr>, current))"

definition review :: "ReviewQueueEntry \<Rightarrow> attach_state \<Rightarrow> attach_state" where
  "review r = (\<lambda>(rep, current). (rep\<lparr>ar_reviews := ar_reviews rep @ [r]\<rparr>, current))"

definition bury :: "DeadTrip \<Rightarrow> attach_state \<Rightarrow> attach_state" where
  "bury d = (\<lambda>(rep, current). (rep\<lparr>ar_dead := ar_dead rep @ [d]\<rparr>, current))"

text \<open>The part of the loop after the matching: gaps are counted, times and speeds checked.\<close>

definition attach_matched :: "AttachInput \<Rightarrow> attach_config \<Rightarrow> string \<Rightarrow> string \<Rightarrow> FlatTrip \<Rightarrow> MatchedStopTime list \<Rightarrow>
    string list \<Rightarrow> attach_state \<Rightarrow> attach_state" where
  "attach_matched inp cfg routeNK tripNK ft matched unmatched = (\<lambda>(rep, current).
     let rep = (if unmatched \<noteq> []
            then rep\<lparr>ar_mid_gaps := ar_mid_gaps rep + length unmatched, ar_gapped := ar_gapped rep + 1\<rparr> else rep);
         collapsed = collapseConsecutive matched
     in case checkMonotonic collapsed of
          Some bad \<Rightarrow>
            bury \<lparr>dd_route_nk = routeNK, dd_trip_nk = tripNK, dd_reason = ''non-monotonic'', dd_detail = bad\<rparr> (rep, current)
        | None \<Rightarrow>
            (case checkSpeeds collapsed (in_terminals inp) (ac_max_speed cfg) of
               Some bad \<Rightarrow>
                 bury \<lparr>dd_route_nk = routeNK, dd_trip_nk = tripNK, dd_reason = ''overspeed'', dd_detail = bad\<rparr> (rep, current)
             | None \<Rightarrow>
                 (case softSpeeds collapsed (in_terminals inp) (ac_max_speed cfg) of
                    Some soft \<Rightarrow>
                      review (tripReview (ac_source cfg) routeNK tripNK ''low_confidence'' 0)
                        (stage ((staged routeNK tripNK ft ''needs_review'' soft)\<lparr>sg_matched := collapsed\<rparr>) (rep, current))
                  | None \<Rightarrow>
                      (rep\<lparr>ar_promoted := ar_promoted rep @ [promotable inp cfg routeNK tripNK ft collapsed]\<rparr>,
                       AList.update tripNK routeNK current))))"

definition attach_trip :: "AttachInput \<Rightarrow> attach_config \<Rightarrow> matchIndex \<Rightarrow> FlatTrip \<Rightarrow> attach_state \<Rightarrow> attach_state" where
  "attach_trip inp cfg mindex ft st =
     (let routeNK = route_key inp ft;
          tripNK = trip_key routeNK ft
      in if ft_frequency_only ft \<or> length (ft_stops ft) < 2
         then stage (staged routeNK tripNK ft ''awaiting_times'' (StageText ru_no_times)) st
         else if length (ft_untimed ft) > 0
         then stage ((staged routeNK tripNK ft ''incomplete_trip'' (StageText ru_untimed_stops))\<lparr>sg_unmatched := ft_untimed ft\<rparr>) st
         else (case matchStops ft mindex (ac_source cfg) (ac_class cfg) (ac_params cfg) of
             (matched, worstReason, worstScore, unmatched) \<Rightarrow>
               if length unmatched > 0 \<and> \<not> backbonePromotable matched (length (ft_stops ft)) then
                 (let sg = (staged routeNK tripNK ft ''incomplete_trip'' (StageText worstReason))
                        \<lparr>sg_matched := matched, sg_unmatched := unmatched\<rparr>
                  in if worstReason = ''incomplete_trip''
                     then stage (sg\<lparr>sg_state := ''skeleton_gap'', sg_reason := StageText ru_no_terminal\<rparr>) st
                     else stage sg (review (tripReview (ac_source cfg) routeNK tripNK worstReason worstScore) st))
               else attach_matched inp cfg routeNK tripNK ft matched unmatched st))"

text \<open>Before each trip the context is asked.\<close>

fun attach_loop :: "(nat \<Rightarrow> string option) \<Rightarrow> (FlatTrip \<Rightarrow> attach_state \<Rightarrow> attach_state) \<Rightarrow> nat \<Rightarrow> FlatTrip list \<Rightarrow>
    attach_state \<Rightarrow> attach_state \<times> string option" where
  "attach_loop ctx step i [] st = (st, None)"
| "attach_loop ctx step i (ft # fts) st =
     (case ctx i of
        Some e \<Rightarrow> (st, Some e)
      | None \<Rightarrow> attach_loop ctx step (Suc i) fts (step ft st))"

definition tombstone :: "(string \<times> string list) list \<Rightarrow> (string \<times> string) list \<Rightarrow> real \<Rightarrow> AttachReport \<Rightarrow> AttachReport" where
  "tombstone prev current threshold rep =
     (let pairs = concat (map (\<lambda>(route, trips). map (\<lambda>t. (t, route)) trips) prev);
          oldTrips = length pairs;
          prevSet = fold (\<lambda>(t, route). AList.update t route) pairs [];
          added = length (filter (\<lambda>(t, _). map_of prevSet t = None) current);
          gone = filter (\<lambda>(t, _). map_of current t = None) prevSet;
          removed = length gone;
          rep = rep\<lparr>ar_tombstoned := sort_by (\<lambda>a b. tb_trip_nk a < tb_trip_nk b)
            (ar_tombstoned rep @ map (\<lambda>(t, route). \<lparr>tb_route_nk = route, tb_trip_nk = t\<rparr>) gone)\<rparr>;
          newTrips = length current;
          denom = (if newTrips > oldTrips then newTrips else oldTrips);
          denom = (if denom = 0 then 1 else denom);
          rep = rep\<lparr>ar_churn := real (added + removed) / real denom\<rparr>;
          rep = (if oldTrips > 0 then rep\<lparr>ar_disappearance := real removed / real oldTrips\<rparr> else rep)
      in if oldTrips = 0 then rep
         else rep\<lparr>ar_alert := ar_churn rep > threshold \<or> ar_disappearance rep > threshold\<rparr>)"

datatype attach_error = NoParams | Cancelled string | RowMismatch | ChurnAlert

definition AttachTrips :: "(nat \<Rightarrow> string option) \<Rightarrow> AttachInput \<Rightarrow> AttachReport \<times> attach_error option" where
  "AttachTrips ctx inp =
     (case in_params inp of
        None \<Rightarrow> (empty_report, Some NoParams)
      | Some params \<Rightarrow>
          (let cfg = attach_defaults inp params;
               mindex = buildMatchIndex (in_terminals inp);
               rep = empty_report\<lparr>ar_in := length (in_trips inp)\<rparr>
           in case attach_loop ctx (attach_trip inp cfg mindex) 0 (in_trips inp) (rep, []) of
                ((rep, current), Some e) \<Rightarrow> (rep, Some (Cancelled e))
              | ((rep, current), None) \<Rightarrow>
                  (let rep = rep\<lparr>ar_promoted := sort_by (\<lambda>a b. pt_trip_nk a < pt_trip_nk b) (ar_promoted rep),
                        ar_staged := sort_by (\<lambda>a b. sg_trip_nk a < sg_trip_nk b) (ar_staged rep),
                        ar_dead := sort_by (\<lambda>a b. dd_trip_nk a < dd_trip_nk b) (ar_dead rep)\<rparr>;
                      rep = tombstone (in_prev inp) current (ac_threshold cfg) rep
                   in if ar_in rep \<noteq> length (ar_promoted rep) + length (ar_staged rep) + length (ar_dead rep)
                      then (rep, Some RowMismatch)
                      else if ar_alert rep then (rep, Some ChurnAlert)
                      else (rep, None))))"

end
