(* ===== verification/Attach_Correct.thy ===== *)
theory Attach_Correct
  imports Attach
begin

text \<open>
  What the attach engine promises: its report accounts for every trip and its fate, a promoted trip has times in order,
  bounded speeds and its own terminals, the blocking index loses no near or coded terminal, the
  tombstones are the trips that are gone, and a flat trip of the registry is never dead for its times.
\<close>

section \<open>Every trip is accounted for\<close>

definition reported :: "attach_state \<Rightarrow> nat" where
  "reported st = length (ar_promoted (fst st)) + length (ar_staged (fst st)) + length (ar_dead (fst st))"

lemma reported_steps [simp]:
  "reported (stage s st) = Suc (reported st)" "reported (bury d st) = Suc (reported st)" "reported (review r st) = reported st"
  by (simp_all add: reported_def stage_def bury_def review_def split: prod.split)

lemma reported_matched: "reported (attach_matched inp cfg rnk tnk ft ms us st) = Suc (reported st)"
proof -
  obtain rep current where st: "st = (rep, current)" by force
  have gaps: "reported (if us \<noteq> [] then rep\<lparr>ar_mid_gaps := a, ar_gapped := b\<rparr> else rep, current) = reported (rep, current)"
    for a b by (simp add: reported_def)
  show ?thesis
    unfolding st attach_matched_def Let_def prod.case
    by (simp add: gaps split: option.split) (simp add: reported_def)
qed

lemma reported_trip: "reported (attach_trip inp cfg idx ft st) = Suc (reported st)"
  by (simp add: attach_trip_def Let_def reported_matched split: prod.split)

lemma reported_loop:
  assumes "\<And>ft st. reported (step ft st) = Suc (reported st)"
    and "attach_loop ctx step i fts st = (st', None)"
  shows "reported st' = reported st + length fts"
  using assms(2)
proof (induction fts arbitrary: i st)
  case (Cons ft fts)
  then show ?case using assms(1) by (fastforce split: option.splits)
qed simp

lemma tombstone_sel [simp]:
  "ar_in (tombstone prev current th rep) = ar_in rep" "ar_promoted (tombstone prev current th rep) = ar_promoted rep"
  "ar_staged (tombstone prev current th rep) = ar_staged rep" "ar_dead (tombstone prev current th rep) = ar_dead rep"
  "ar_reviews (tombstone prev current th rep) = ar_reviews rep"
  by (simp_all add: tombstone_def Let_def)

lemma stage_in [simp]: "ar_in (fst (stage s st)) = ar_in (fst st)" "ar_in (fst (bury d st)) = ar_in (fst st)"
  "ar_in (fst (review r st)) = ar_in (fst st)"
  by (simp_all add: stage_def bury_def review_def split: prod.split)

lemma matched_in: "ar_in (fst (attach_matched inp cfg rnk tnk ft ms us st)) = ar_in (fst st)"
  by (cases st) (simp add: attach_matched_def Let_def split: option.split)

lemma trip_in: "ar_in (fst (attach_trip inp cfg idx ft st)) = ar_in (fst st)"
  by (simp add: attach_trip_def Let_def matched_in split: prod.split)

lemma loop_in:
  assumes "\<And>ft st. ar_in (fst (step ft st)) = ar_in (fst st)"
  shows "ar_in (fst (fst (attach_loop ctx step i fts st))) = ar_in (fst st)"
  by (induction fts arbitrary: i st) (auto simp: assms split: option.split)

text \<open>The end of a run: the lists are sorted, the trips that are gone are marked, the rows are counted.\<close>

definition settled :: "AttachInput \<Rightarrow> attach_config \<Rightarrow> AttachReport \<Rightarrow> (string \<times> string) list \<Rightarrow> AttachReport" where
  "settled inp cfg rep current = tombstone (in_prev inp) current (ac_threshold cfg)
     (rep\<lparr>ar_promoted := sort_by (\<lambda>a b. pt_trip_nk a < pt_trip_nk b) (ar_promoted rep),
          ar_staged := sort_by (\<lambda>a b. sg_trip_nk a < sg_trip_nk b) (ar_staged rep),
          ar_dead := sort_by (\<lambda>a b. dd_trip_nk a < dd_trip_nk b) (ar_dead rep)\<rparr>)"

lemma settled_sel [simp]:
  "ar_in (settled inp cfg rep current) = ar_in rep"
  "set (ar_promoted (settled inp cfg rep current)) = set (ar_promoted rep)"
  "set (ar_staged (settled inp cfg rep current)) = set (ar_staged rep)"
  "set (ar_dead (settled inp cfg rep current)) = set (ar_dead rep)"
  "length (ar_promoted (settled inp cfg rep current)) = length (ar_promoted rep)"
  "length (ar_staged (settled inp cfg rep current)) = length (ar_staged rep)"
  "length (ar_dead (settled inp cfg rep current)) = length (ar_dead rep)"
  by (simp_all add: settled_def)

lemma AttachTrips_run:
  assumes "in_params inp = Some params"
    and "attach_loop ctx (attach_trip inp (attach_defaults inp params) (buildMatchIndex (in_terminals inp))) 0 (in_trips inp)
      (empty_report\<lparr>ar_in := length (in_trips inp)\<rparr>, []) = ((rep, current), e)"
  shows "AttachTrips ctx inp = (case e of
      Some x \<Rightarrow> (rep, Some (Cancelled x))
    | None \<Rightarrow> (let rep = settled inp (attach_defaults inp params) rep current in
        (rep, if ar_in rep \<noteq> length (ar_promoted rep) + length (ar_staged rep) + length (ar_dead rep) then Some RowMismatch
              else if ar_alert rep then Some ChurnAlert else None)))"
  using assms by (simp add: AttachTrips_def settled_def Let_def split: option.split)

lemma AttachTrips_cases:
  obtains (none) "in_params inp = None" "AttachTrips ctx inp = (empty_report, Some NoParams)"
  | (run) params rep current e where "in_params inp = Some params"
    "attach_loop ctx (attach_trip inp (attach_defaults inp params) (buildMatchIndex (in_terminals inp))) 0 (in_trips inp)
      (empty_report\<lparr>ar_in := length (in_trips inp)\<rparr>, []) = ((rep, current), e)"
proof (cases "in_params inp")
  case None
  then show ?thesis by (intro none) (simp_all add: AttachTrips_def)
next
  case (Some params)
  then show ?thesis by (metis run prod.exhaust)
qed

section \<open>The blocking index\<close>

definition term_cell :: "AttachTerminal \<Rightarrow> (int \<times> int) option" where
  "term_cell t = (case (at_lat t, at_lon t) of (Some la, Some lo) \<Rightarrow> Some (match_cell la lo) | _ \<Rightarrow> None)"

definition has_key :: "string \<Rightarrow> AttachTerminal \<Rightarrow> bool" where
  "has_key k t \<longleftrightarrow> list_ex (\<lambda>c. ai_code c \<noteq> '''' \<and> code_key c = k) (at_codes t)"

lemma index_codes:
  defines "f \<equiv> \<lambda>i c idx. if ai_code c = '''' then idx
          else idx\<lparr>mi_by_code := (mi_by_code idx)(code_key c := mi_by_code idx (code_key c) @ [i])\<rparr>"
  shows "mi_terms (fold (f i) cs idx) = mi_terms idx" "mi_cells (fold (f i) cs idx) = mi_cells idx"
    "mi_no_coords (fold (f i) cs idx) = mi_no_coords idx"
    "set (mi_by_code (fold (f i) cs idx) k) = set (mi_by_code idx k) \<union>
       (if list_ex (\<lambda>c. ai_code c \<noteq> '''' \<and> code_key c = k) cs then {i} else {})"
  by (induction cs arbitrary: idx) (auto simp: f_def)

lemma index_term_sel:
  "mi_terms (index_term (i, t) idx) = mi_terms idx"
  "mi_cells (index_term (i, t) idx) c = mi_cells idx c @ (if term_cell t = Some c then [i] else [])"
  "mi_no_coords (index_term (i, t) idx) = mi_no_coords idx @ (if term_cell t = None then [i] else [])"
  "set (mi_by_code (index_term (i, t) idx) k) = set (mi_by_code idx k) \<union> (if has_key k t then {i} else {})"
  by (simp_all add: index_term_def term_cell_def has_key_def index_codes Let_def split: option.split)

lemma fold_index_term:
  "mi_terms (fold index_term ps idx) = mi_terms idx"
  "set (mi_cells (fold index_term ps idx) c) = set (mi_cells idx c) \<union> {i. \<exists>t. (i, t) \<in> set ps \<and> term_cell t = Some c}"
  "set (mi_no_coords (fold index_term ps idx)) = set (mi_no_coords idx) \<union> {i. \<exists>t. (i, t) \<in> set ps \<and> term_cell t = None}"
  "set (mi_by_code (fold index_term ps idx) k) = set (mi_by_code idx k) \<union> {i. \<exists>t. (i, t) \<in> set ps \<and> has_key k t}"
  by (induction ps arbitrary: idx) (auto simp: index_term_sel split: if_splits)

lemma in_enum: "(i, t) \<in> set (zip [0 ..< length ts] ts) \<longleftrightarrow> i < length ts \<and> t = ts ! i"
  by (auto simp: in_set_zip intro!: exI [of _ i])

lemma buildMatchIndex_sel:
  "mi_terms (buildMatchIndex ts) = ts"
  "set (mi_cells (buildMatchIndex ts) c) = {i. i < length ts \<and> term_cell (ts ! i) = Some c}"
  "set (mi_no_coords (buildMatchIndex ts)) = {i. i < length ts \<and> term_cell (ts ! i) = None}"
  "set (mi_by_code (buildMatchIndex ts) k) = {i. i < length ts \<and> has_key k (ts ! i)}"
  by (simp_all add: buildMatchIndex_def fold_index_term in_enum)

lemma set_add_new: "set (add_new is out) = set is \<union> set out"
  by (induction "is" arbitrary: out) (auto simp: add_new_def)

lemma distinct_add_new: "distinct out \<Longrightarrow> distinct (add_new is out)"
  by (induction "is" arbitrary: out) (simp_all add: add_new_def)

lemma set_fold_add_new: "set (fold (\<lambda>c. add_new (g c)) cs out) = (\<Union>c \<in> set cs. set (g c)) \<union> set out"
  by (induction cs arbitrary: out) (auto simp: set_add_new)

lemma distinct_fold_add_new: "distinct out \<Longrightarrow> distinct (fold (\<lambda>c. add_new (g c)) cs out)"
  by (induction cs arbitrary: out) (simp_all add: distinct_add_new)

definition flat_cell :: "FlatStop \<Rightarrow> (int \<times> int) option" where
  "flat_cell s = (case (fs_lat s, fs_lon s) of (Some la, Some lo) \<Rightarrow> Some (match_cell la lo) | _ \<Rightarrow> None)"

lemma set_candidates:
  "set (candidates (buildMatchIndex ts) s source) = {i. i < length ts \<and>
     (term_cell (ts ! i) = None \<or>
      (case (flat_cell s, term_cell (ts ! i)) of (Some a, Some b) \<Rightarrow> b \<in> set (near_cells a) | _ \<Rightarrow> False) \<or>
      (\<exists>c \<in> set (StopCodes source (fs_op s)). has_key (code_key c) (ts ! i)))}"
  by (auto simp: candidates_def flat_cell_def Let_def set_add_new set_fold_add_new buildMatchIndex_sel split: option.splits prod.splits)

lemma distinct_candidates: "distinct (candidates idx s source)"
  by (simp add: candidates_def Let_def distinct_add_new distinct_fold_add_new split: option.split)

lemma near_cells_iff: "(x, y) \<in> set (near_cells (a, b)) \<longleftrightarrow> \<bar>x - a\<bar> \<le> 1 \<and> \<bar>y - b\<bar> \<le> 1"
proof -
  have three: "\<bar>z\<bar> \<le> 1 \<longleftrightarrow> z = -1 \<or> z = 0 \<or> z = 1" for z :: int by arith
  have "(x, y) \<in> set (near_cells (a, b)) \<longleftrightarrow> (\<exists>di \<in> {-1, 0, 1}. \<exists>dj \<in> {-1, 0, 1}. x - a = di \<and> y - b = dj)"
    by (simp add: near_cells_def) presburger
  then show ?thesis unfolding three by auto
qed

lemma floor_near:
  fixes x y :: real
  assumes "\<bar>x - y\<bar> \<le> 1"
  shows "\<bar>\<lfloor>x\<rfloor> - \<lfloor>y\<rfloor>\<bar> \<le> 1"
  using assms by linarith

lemma match_cell_near:
  assumes "match_cell la' lo' = c" "\<bar>la - la'\<bar> * 2 \<le> 1" "\<bar>lo - lo'\<bar> * 2 \<le> 1"
  shows "match_cell la lo \<in> set (near_cells c)"
proof -
  have "\<bar>x / (5 / 10) - y / (5 / 10)\<bar> \<le> 1" if "\<bar>x - y\<bar> * 2 \<le> 1" for x y :: real
  proof -
    have "x / (5 / 10) - y / (5 / 10) = (x - y) * 2" by simp
    then show ?thesis using that by (simp only: abs_mult abs_numeral)
  qed
  then show ?thesis
    unfolding assms(1) [symmetric] match_cell_def near_cells_iff using assms(2,3) by (blast intro: floor_near)
qed

text \<open>C27: The blocking index loses nothing that counts: the candidates of a stop are distinct terminals, and they
contain every terminal without coordinates, every one within half a degree of the stop in both coordinates - the
planar test of 2 km that the comment of the index promises is never made - and, for the state registry, every one
that carries the stop's code.\<close>

theorem blocking_pool_complete:
  "distinct (candidates (buildMatchIndex ts) s source) \<and>
   list_all (\<lambda>i. i < length ts) (candidates (buildMatchIndex ts) s source) \<and>
   list_all (\<lambda>i. i \<in> set (candidates (buildMatchIndex ts) s source))
     (filter (\<lambda>i. at_lat (ts ! i) = None \<or> at_lon (ts ! i) = None \<or>
        (case (at_lat (ts ! i), at_lon (ts ! i), fs_lat s, fs_lon s) of
           (Some la, Some lo, Some la', Some lo') \<Rightarrow> \<bar>la - la'\<bar> \<le> 1 / 2 \<and> \<bar>lo - lo'\<bar> \<le> 1 / 2
         | _ \<Rightarrow> False) \<or>
        (source = ''mintrans'' \<and> fs_op s \<noteq> '''' \<and>
         list_ex (\<lambda>c. ai_system c = ''mintrans'' \<and> ai_code c = fs_op s) (at_codes (ts ! i)))) [0 ..< length ts])"
proof -
  have "i \<in> set (candidates (buildMatchIndex ts) s source)"
    if "i < length ts" "at_lat (ts ! i) = None \<or> at_lon (ts ! i) = None" for i
    using that by (auto simp: set_candidates term_cell_def split: option.split)
  moreover have "i \<in> set (candidates (buildMatchIndex ts) s source)"
    if "i < length ts" and "case (at_lat (ts ! i), at_lon (ts ! i), fs_lat s, fs_lon s) of
           (Some la, Some lo, Some la', Some lo') \<Rightarrow> \<bar>la - la'\<bar> \<le> 1 / 2 \<and> \<bar>lo - lo'\<bar> \<le> 1 / 2
         | _ \<Rightarrow> False" for i
    using that by (auto simp: set_candidates term_cell_def flat_cell_def match_cell_near split: option.splits)
  moreover have "i \<in> set (candidates (buildMatchIndex ts) s source)"
    if "i < length ts" "source = ''mintrans''" "fs_op s \<noteq> ''''"
      "list_ex (\<lambda>c. ai_system c = ''mintrans'' \<and> ai_code c = fs_op s) (at_codes (ts ! i))" for i
  proof -
    have "has_key (''mintrans'' @ ''|'' @ fs_op s) (ts ! i)"
      using that(3,4) unfolding has_key_def code_key_def list_ex_iff by metis
    then show ?thesis using that by (simp add: set_candidates StopCodes_def code_key_def)
  qed
  ultimately show ?thesis
    by (auto simp: list_all_iff distinct_candidates) (simp add: set_candidates)
qed

text \<open>So a terminal that \<open>inGeoWindow\<close> would keep out is a candidate: one half a degree to the north.\<close>

lemma pool_outside_window:
  assumes "at_lat t = Some (la + 1 / 2)" "at_lon t = Some lo" "fs_lat s = Some la" "fs_lon s = Some lo"
  shows "0 \<in> set (candidates (buildMatchIndex [t]) s source) \<and> \<not> inGeoWindow la lo t"
proof -
  have "match_cell (la + 1 / 2) lo \<in> set (near_cells (match_cell la lo))" by (rule match_cell_near [OF refl]) simp_all
  then show ?thesis using assms by (simp add: set_candidates term_cell_def flat_cell_def inGeoWindow_def)
qed

section \<open>Promoted trips\<close>

definition times_forward :: "MatchedStopTime list \<Rightarrow> bool" where
  "times_forward ms \<longleftrightarrow> list_all (\<lambda>m. mt_arr m \<le> mt_dep m) ms \<and> sorted_wrt (\<lambda>p q. mt_dep p \<le> mt_arr q) ms"

fun slow_legs :: "AttachTerminal list \<Rightarrow> real \<Rightarrow> MatchedStopTime list \<Rightarrow> bool" where
  "slow_legs terms v (p # q # ms) \<longleftrightarrow>
     (case leg_speed terms p q of None \<Rightarrow> True | Some s \<Rightarrow> s \<le> v) \<and> slow_legs terms v (q # ms)"
| "slow_legs terms v _ \<longleftrightarrow> True"

definition ring_or_distinct :: "int list \<Rightarrow> bool" where
  "ring_or_distinct xs \<longleftrightarrow> distinct xs \<or> (distinct (butlast xs) \<and> last xs = hd xs)"

lemma monotonic_from_None:
  "monotonic_from i prev ms = None \<Longrightarrow> times_forward ms \<and> (case prev of None \<Rightarrow> True | Some d \<Rightarrow> list_all (\<lambda>m. d \<le> mt_arr m) ms)"
proof (induction i prev ms rule: monotonic_from.induct)
  case (2 i prev m ms)
  then have le: "mt_arr m \<le> mt_dep m" by (auto split: if_splits)
  have "monotonic_from (Suc i) (Some (mt_dep m)) ms = None"
    using 2(3) by (auto split: if_splits option.splits)
  then have r: "times_forward ms" "list_all (\<lambda>m'. mt_dep m \<le> mt_arr m') ms"
    using 2 by (auto split: if_splits option.splits)
  have "\<forall>d. prev = Some d \<longrightarrow> d \<le> mt_arr m" using 2(3) by (auto split: if_splits)
  then show ?case
    using le r by (fastforce simp: times_forward_def list_all_iff split: option.splits)
qed (auto simp: times_forward_def split: option.split)

lemma first_leg_None:
  assumes "first_leg (fast_leg terms v True) i ms = None" "first_leg (fast_leg terms v False) j ms = None"
  shows "slow_legs terms v ms"
  using assms
proof (induction terms v ms arbitrary: i j rule: slow_legs.induct)
  case (1 terms v p q ms)
  have "fast_leg terms v True p q = None" "fast_leg terms v False p q = None"
    using 1(2,3) by (auto split: option.splits)
  then have "case leg_speed terms p q of None \<Rightarrow> True | Some s \<Rightarrow> s \<le> v"
    by (auto simp: fast_leg_def split: option.splits if_splits)
  then show ?case using 1 by (auto split: option.splits)
qed auto


definition matched_well :: "AttachTerminal list \<Rightarrow> match_state \<Rightarrow> bool" where
  "matched_well ts st \<longleftrightarrow> st_used st = rev (map mt_terminal (st_matched st)) \<and>
     (st_matched st \<noteq> [] \<longrightarrow> st_first st = mt_terminal (hd (st_matched st))) \<and>
     mt_terminal ` set (st_matched st) \<subseteq> at_id ` set ts"

lemma match_stop_cases:
  obtains (no) "st_used (match_stop (buildMatchIndex ts) src cf pf n (seq, s) st) = st_used st"
      "st_matched (match_stop (buildMatchIndex ts) src cf pf n (seq, s) st) = st_matched st"
      "st_first (match_stop (buildMatchIndex ts) src cf pf n (seq, s) st) = st_first st"
  | (yes) m where "st_used (match_stop (buildMatchIndex ts) src cf pf n (seq, s) st) = mt_terminal m # st_used st"
      "st_matched (match_stop (buildMatchIndex ts) src cf pf n (seq, s) st) = st_matched st @ [m]"
      "st_first (match_stop (buildMatchIndex ts) src cf pf n (seq, s) st) =
         (if st_matched st = [] then mt_terminal m else st_first st)"
      "available st seq n (mt_terminal m)" "mt_terminal m \<in> at_id ` set ts"
      "mt_arr m = stop_seconds (fs_arr s)" "mt_dep m = stop_seconds (fs_dep s)"
proof -
  define idx where "idx = buildMatchIndex ts"
  define codes where "codes = StopCodes src (fs_op s)"
  define cls where "cls = cf (fs_region s)"
  define item where "item = PairItemFromStop (fs_name s) (fs_lat s) (fs_lon s) (ExtractSettlement (fs_name s)) src codes"
  define pool where "pool = filter (\<lambda>ti. available st seq n (at_id (ts ! ti))) (candidates idx s src)"
  define cands where "cands = map (\<lambda>ti. PairItemFromTerminal (ts ! ti)) pool"
  obtain best d score where b: "MatchStopToTerminal item cands cls (pf cls) = (best, d, score)" by (metis prod_cases3)
  note defs = match_stop_def Let_def prod.case buildMatchIndex_sel(1)
  have b': "MatchStopToTerminal (PairItemFromStop (fs_name s) (fs_lat s) (fs_lon s) (ExtractSettlement (fs_name s)) src
      (StopCodes src (fs_op s))) (map (\<lambda>ti. PairItemFromTerminal (ts ! ti))
        (filter (\<lambda>ti. available st seq n (at_id (ts ! ti))) (candidates (buildMatchIndex ts) s src)))
      (cf (fs_region s)) (pf (cf (fs_region s))) = (best, d, score)"
    using b by (simp only: item_def codes_def cands_def pool_def idx_def cls_def)
  show ?thesis
  proof (cases "d = DecisionVerified")
    case False
    then show ?thesis unfolding defs b' by (intro no) (simp_all add: defs b')
  next
    case True
    have "nat best < length cands" using verified_index b True by metis
    then have "pool ! nat best \<in> set pool" by (simp add: cands_def)
    then have "available st seq n (at_id (ts ! (pool ! nat best)))" "pool ! nat best < length ts"
      by (auto simp: pool_def idx_def set_candidates)
    then show ?thesis
      using True by (intro yes) (auto simp: defs b' pool_def idx_def)
  qed
qed


lemma match_inner:
  assumes "seq \<noteq> n" "matched_well ts st \<and> distinct (map mt_terminal (st_matched st))"
  shows "matched_well ts (match_stop (buildMatchIndex ts) src cf pf n (seq, s) st) \<and>
    distinct (map mt_terminal (st_matched (match_stop (buildMatchIndex ts) src cf pf n (seq, s) st)))"
  using assms
  by (cases rule: match_stop_cases [of ts src cf pf n seq s st])
    (auto simp: matched_well_def available_def hd_append split: if_splits)

lemma match_last:
  assumes "matched_well ts st \<and> distinct (map mt_terminal (st_matched st))"
  shows "matched_well ts (match_stop (buildMatchIndex ts) src cf pf n (seq, s) st) \<and>
    ring_or_distinct (map mt_terminal (st_matched (match_stop (buildMatchIndex ts) src cf pf n (seq, s) st)))"
proof (cases rule: match_stop_cases [of ts src cf pf n seq s st])
  case no
  then show ?thesis using assms by (simp add: matched_well_def ring_or_distinct_def)
next
  case (yes m)
  have "matched_well ts (match_stop (buildMatchIndex ts) src cf pf n (seq, s) st)"
    using yes assms by (auto simp: matched_well_def hd_append)
  moreover have "mt_terminal m \<in> mt_terminal ` set (st_matched st) \<Longrightarrow> mt_terminal m = mt_terminal (hd (st_matched st))"
    using yes(4) assms by (auto simp: matched_well_def available_def split: if_splits)
  ultimately show ?thesis
    using assms yes(2) by (auto simp: ring_or_distinct_def hd_append hd_map)
qed

lemma match_fold:
  assumes "matched_well ts st \<and> distinct (map mt_terminal (st_matched st))" "list_all (\<lambda>(seq, s). seq \<noteq> n) ps"
  shows "matched_well ts (fold (match_stop (buildMatchIndex ts) src cf pf n) ps st) \<and>
    distinct (map mt_terminal (st_matched (fold (match_stop (buildMatchIndex ts) src cf pf n) ps st)))"
  using assms
proof (induction ps arbitrary: st)
  case (Cons x ps)
  then show ?case using match_inner [of "fst x" n ts st src cf pf "snd x"] by (cases x) simp
qed simp

lemma renumber_sel: "map mt_terminal (renumber ms) = map mt_terminal ms" "length (renumber ms) = length ms"
  "map mt_seq (renumber ms) = map int [0 ..< length ms]" "map mt_arr (renumber ms) = map mt_arr ms"
  "map mt_dep (renumber ms) = map mt_dep ms"
  by (auto simp: renumber_def comp_def split_beta intro: nth_equalityI)

lemma matchStops_well:
  assumes "matchStops ft (buildMatchIndex ts) src cf pf = (ms, r, sc, un)"
  shows "ring_or_distinct (map mt_terminal ms) \<and> mt_terminal ` set ms \<subseteq> at_id ` set ts"
proof -
  let ?f = "match_stop (buildMatchIndex ts) src cf pf"
  have start: "matched_well ts empty_match \<and> distinct (map mt_terminal (st_matched empty_match))"
    by (simp add: matched_well_def empty_match_def)
  have "matched_well ts st \<and> ring_or_distinct (map mt_terminal (st_matched st))"
    if st: "st = fold (?f (length (ft_stops ft) - 1)) (zip [0 ..< length (ft_stops ft)] (ft_stops ft)) empty_match" for st
  proof (cases "ft_stops ft" rule: rev_cases)
    case Nil
    then show ?thesis using start by (simp add: st ring_or_distinct_def)
  next
    case (snoc ss x)
    have "list_all (\<lambda>(seq, s). seq \<noteq> length ss) (zip [0 ..< length ss] ss)"
      by (auto simp: list_all_iff set_zip)
    from match_last [OF match_fold [OF start this]] show ?thesis by (simp add: st snoc)
  qed
  moreover have "mt_terminal ` set ms = mt_terminal ` set (renumber ms)" for ms
    using renumber_sel(1) [of ms] by (metis list.set_map)
  ultimately show ?thesis
    using assms unfolding matchStops_def Let_def prod.inject by (metis renumber_sel(1) matched_well_def)
qed

lemma remdups_adj_snoc: "xs \<noteq> [] \<Longrightarrow> remdups_adj (xs @ [x]) = remdups_adj xs @ (if last xs = x then [] else [x])"
  by (cases xs rule: rev_cases) (simp_all add: remdups_adj_append_two)

lemma collapse_step_terminals: "map mt_terminal (collapse_step out m) =
    map mt_terminal out @ (if out \<noteq> [] \<and> mt_terminal (last out) = mt_terminal m then [] else [mt_terminal m])"
  by (cases out rule: rev_cases) (simp_all add: collapse_step_def)

lemma collapse_terminals: "map mt_terminal (foldl collapse_step [] ms) = remdups_adj (map mt_terminal ms)"
proof (induction ms rule: rev_induct)
  case (snoc m ms)
  let ?out = "foldl collapse_step [] ms"
  show ?case
  proof (cases "ms = []")
    case False
    then have ne: "?out \<noteq> []" using snoc.IH by (metis list.map_disc_iff remdups_adj_Nil_iff)
    have "last (map mt_terminal ?out) = last (map mt_terminal ms)" unfolding snoc.IH by simp
    then have l: "mt_terminal (last ?out) = mt_terminal (last ms)" using ne False by (simp add: last_map)
    from ne False show ?thesis by (simp add: collapse_step_terminals l snoc.IH remdups_adj_snoc last_map)
  qed (simp add: collapse_step_def)
qed simp

lemma ring_remdups_adj:
  assumes "ring_or_distinct xs"
  shows "ring_or_distinct (remdups_adj xs)"
proof (cases "distinct xs")
  case False
  then have xs: "distinct (butlast xs)" "last xs = hd xs" using assms by (auto simp: ring_or_distinct_def)
  show ?thesis
  proof (cases xs rule: rev_cases)
    case (snoc ys x)
    have "remdups_adj ys = ys" using xs(1) snoc by (simp add: remdups_adj_distinct)
    then show ?thesis
      using xs snoc by (cases "ys = []") (auto simp: remdups_adj_snoc ring_or_distinct_def)
  qed (simp add: ring_or_distinct_def)
qed (simp add: remdups_adj_distinct ring_or_distinct_def)


definition sound_times :: "AttachTerminal list \<Rightarrow> real \<Rightarrow> MatchedStopTime list \<Rightarrow> bool" where
  "sound_times ts v ms \<longleftrightarrow>
     map mt_seq ms = map int [0 ..< length ms] \<and> times_forward ms \<and> slow_legs ts v ms \<and>
     ring_or_distinct (map mt_terminal ms) \<and> distinct_adj (map mt_terminal ms) \<and>
     mt_terminal ` set ms \<subseteq> at_id ` set ts"

lemma collapse_sound:
  assumes "matchStops ft (buildMatchIndex ts) src cf pf = (ms, r, sc, un)"
    and "checkMonotonic (collapseConsecutive ms) = None" "checkSpeeds (collapseConsecutive ms) ts v = None"
      "softSpeeds (collapseConsecutive ms) ts v = None"
  shows "sound_times ts v (collapseConsecutive ms)"
proof -
  let ?c = "foldl collapse_step [] ms"
  have "map mt_terminal (collapseConsecutive ms) = remdups_adj (map mt_terminal ms)"
    by (simp add: collapseConsecutive_def renumber_sel collapse_terminals)
  moreover from this have "mt_terminal ` set (collapseConsecutive ms) = mt_terminal ` set ms"
    by (metis list.set_map remdups_adj_set)
  moreover have "map mt_seq (collapseConsecutive ms) = map int [0 ..< length (collapseConsecutive ms)]"
    by (simp add: collapseConsecutive_def renumber_sel)
  ultimately show ?thesis
    using matchStops_well [OF assms(1)] assms(2-4) unfolding sound_times_def
    by (auto simp: ring_remdups_adj checkMonotonic_def checkSpeeds_def softSpeeds_def
        dest: monotonic_from_None first_leg_None)
qed

lemma attach_loop_inv:
  assumes "\<And>ft st. ft \<in> set fts \<Longrightarrow> I st \<Longrightarrow> I (step ft st)" "I st"
  shows "I (fst (attach_loop ctx step i fts st))"
  using assms by (induction fts arbitrary: i st) (auto split: option.split)

definition promoted_sound :: "AttachInput \<Rightarrow> real \<Rightarrow> attach_state \<Rightarrow> bool" where
  "promoted_sound inp v st \<longleftrightarrow> list_all (\<lambda>p. sound_times (in_terminals inp) v (pt_stop_times p)) (ar_promoted (fst st))"

lemma promoted_sound_steps [simp]:
  "promoted_sound inp v (stage s st) = promoted_sound inp v st" "promoted_sound inp v (bury d st) = promoted_sound inp v st"
  "promoted_sound inp v (review r st) = promoted_sound inp v st"
  by (simp_all add: promoted_sound_def stage_def bury_def review_def split: prod.split)

lemma promoted_sound_matched:
  assumes "promoted_sound inp (ac_max_speed cfg) st"
    and "matchStops ft (buildMatchIndex (in_terminals inp)) (ac_source cfg) (ac_class cfg) (ac_params cfg) = (ms, r, sc, un)"
  shows "promoted_sound inp (ac_max_speed cfg) (attach_matched inp cfg rnk tnk ft' ms us st)"
proof -
  obtain rep current where st: "st = (rep, current)" by force
  have gaps: "promoted_sound inp v (if us \<noteq> [] then rep\<lparr>ar_mid_gaps := a, ar_gapped := b\<rparr> else rep, current)
      = promoted_sound inp v (rep, current)" for a b v
    by (simp add: promoted_sound_def)
  show ?thesis
    using assms(1) collapse_sound [OF assms(2), of "ac_max_speed cfg"]
    unfolding st attach_matched_def Let_def prod.case
    by (simp add: gaps split: option.split) (simp add: promoted_sound_def promotable_def)
qed

lemma promoted_sound_trip:
  "promoted_sound inp (ac_max_speed cfg) st \<Longrightarrow>
    promoted_sound inp (ac_max_speed cfg) (attach_trip inp cfg (buildMatchIndex (in_terminals inp)) ft st)"
  by (auto simp: attach_trip_def Let_def promoted_sound_matched split: prod.split)

lemma promoted_sound_report:
  "list_all (\<lambda>p. sound_times (in_terminals inp) (if in_max_speed inp \<le> 0 then 200 else in_max_speed inp) (pt_stop_times p))
     (ar_promoted (fst (AttachTrips ctx inp)))"
proof (cases rule: AttachTrips_cases [of inp ctx])
  case none
  then show ?thesis by (simp add: empty_report_def)
next
  case (run params rep current e)
  let ?cfg = "attach_defaults inp params"
  have "promoted_sound inp (ac_max_speed ?cfg) (rep, current)"
    using attach_loop_inv [where I = "promoted_sound inp (ac_max_speed ?cfg)" and ctx = ctx and i = 0 and
        step = "attach_trip inp ?cfg (buildMatchIndex (in_terminals inp))" and
        st = "(empty_report\<lparr>ar_in := length (in_trips inp)\<rparr>, [])" and fts = "in_trips inp"] run(2)
    by (simp add: promoted_sound_trip) (simp add: promoted_sound_def empty_report_def)
  then show ?thesis
    using AttachTrips_run [OF run]
    by (cases e) (simp_all add: promoted_sound_def list_all_iff attach_defaults_def Let_def)
qed

text \<open>C7: A promoted trip is fit for the timetable: its stops are numbered from 0, its times never go back, no leg is
faster than the limit, every stop is one of the given terminals, consecutive stops are different terminals, and
no terminal comes twice, unless the trip is a ring that ends where it began.\<close>

theorem promoted_trips_sound:
  "list_all (\<lambda>p. sound_times (in_terminals inp) (if in_max_speed inp \<le> 0 then 200 else in_max_speed inp) (pt_stop_times p))
     (ar_promoted (fst (AttachTrips ctx inp)))"
  by (rule promoted_sound_report)

section \<open>Trips of the registry\<close>

lemma times_forward_None:
  "times_forward ms \<and> (case prev of None \<Rightarrow> True | Some d \<Rightarrow> list_all (\<lambda>m. d \<le> mt_arr m) ms) \<Longrightarrow> monotonic_from i prev ms = None"
  by (induction i prev ms rule: monotonic_from.induct) (auto simp: times_forward_def list_all_iff split: option.splits)

lemma times_forward_Nil [simp]: "times_forward []"
  by (simp add: times_forward_def)

lemma times_forward_append: "times_forward (ms @ ns) \<longleftrightarrow>
    times_forward ms \<and> times_forward ns \<and> (\<forall>m \<in> set ms. \<forall>n \<in> set ns. mt_dep m \<le> mt_arr n)"
  by (auto simp: times_forward_def sorted_wrt_append)

lemma times_forward_Cons: "times_forward (m # ns) \<longleftrightarrow>
    mt_arr m \<le> mt_dep m \<and> times_forward ns \<and> (\<forall>n \<in> set ns. mt_dep m \<le> mt_arr n)"
  by (auto simp: times_forward_def)

lemma times_forward_collapse_step: "times_forward (out @ m # ms) \<Longrightarrow> times_forward (collapse_step out m @ ms)"
proof (cases out rule: rev_cases)
  case (snoc ys y)
  assume "times_forward (out @ m # ms)"
  then show ?thesis
    unfolding snoc collapse_step_def
    by (simp add: times_forward_append times_forward_Cons)
qed (simp add: collapse_step_def)

lemma times_forward_collapse: "times_forward (out @ ms) \<Longrightarrow> times_forward (foldl collapse_step out ms)"
proof (induction ms arbitrary: out)
  case (Cons m ms)
  then show ?case using times_forward_collapse_step [of out m ms] by simp
qed simp

lemma times_forward_renumber: "times_forward (renumber ms) \<longleftrightarrow> times_forward ms"
  by (simp add: times_forward_def list_all_length sorted_wrt_iff_nth_less renumber_def)

lemma match_fold_forward:
  assumes "stops_in_order t (map snd ps)" "times_forward (st_matched st)"
    and "\<forall>m \<in> set (st_matched st). mt_dep m \<le> t * 60"
  shows "times_forward (st_matched (fold (match_stop (buildMatchIndex ts) src cf pf n) ps st))"
  using assms
proof (induction ps arbitrary: t st)
  case (Cons x ps)
  obtain seq s where x: "x = (seq, s)" by force
  obtain a d where ad: "fs_arr s = Some a" "fs_dep s = Some d" "t \<le> a" "a \<le> d" "stops_in_order d (map snd ps)"
    using Cons.prems(1) by (auto simp: x split: option.splits)
  let ?st = "match_stop (buildMatchIndex ts) src cf pf n (seq, s) st"
  have "times_forward (st_matched ?st) \<and> (\<forall>m \<in> set (st_matched ?st). mt_dep m \<le> d * 60)"
  proof (cases rule: match_stop_cases [of ts src cf pf n seq s st])
    case no
    then show ?thesis using Cons.prems(2,3) ad by fastforce
  next
    case (yes m)
    then have "mt_arr m = a * 60" "mt_dep m = d * 60" by (simp_all add: ad stop_seconds_def)
    moreover have "mt_dep k \<le> a * 60" if "k \<in> set (st_matched st)" for k
      using Cons.prems(3) that ad(3) by fastforce
    ultimately show ?thesis
      using yes(2) Cons.prems(2) ad(4) by (fastforce simp: times_forward_append times_forward_Cons)
  qed
  then show ?case using Cons.IH [OF ad(5)] by (simp add: x)
qed simp

lemma registry_monotonic:
  assumes "stops_in_order (- 1) (ft_stops ft)"
    and "matchStops ft (buildMatchIndex ts) src cf pf = (ms, r, sc, un)"
  shows "checkMonotonic (collapseConsecutive ms) = None"
proof -
  let ?st = "fold (match_stop (buildMatchIndex ts) src cf pf (length (ft_stops ft) - 1))
    (zip [0 ..< length (ft_stops ft)] (ft_stops ft)) empty_match"
  have "times_forward (st_matched ?st)"
    using match_fold_forward [of "- 1" "zip [0 ..< length (ft_stops ft)] (ft_stops ft)" empty_match] assms(1)
    by (simp add: empty_match_def times_forward_def)
  then have "times_forward ms"
    using assms(2) by (auto simp: matchStops_def Let_def times_forward_renumber)
  then have "times_forward (collapseConsecutive ms)"
    by (simp add: collapseConsecutive_def times_forward_renumber times_forward_collapse)
  then show ?thesis by (simp add: checkMonotonic_def times_forward_None)
qed

definition forward_dead :: "attach_state \<Rightarrow> bool" where
  "forward_dead st \<longleftrightarrow> list_all (\<lambda>d. dd_reason d = ''overspeed'') (ar_dead (fst st))"

lemma forward_dead_trip:
  assumes "forward_dead st" "stops_in_order (- 1) (ft_stops ft)"
  shows "forward_dead (attach_trip inp cfg (buildMatchIndex (in_terminals inp)) ft st)"
proof -
  have steps: "forward_dead (stage s st) = forward_dead st" "forward_dead (review r st) = forward_dead st"
    "forward_dead (bury d st) = (forward_dead st \<and> dd_reason d = ''overspeed'')" for s r d st
    by (auto simp: forward_dead_def stage_def bury_def review_def split: prod.split)
  have "forward_dead (attach_matched inp cfg rnk tnk ft' ms us st)"
    if "matchStops ft (buildMatchIndex (in_terminals inp)) (ac_source cfg) (ac_class cfg) (ac_params cfg) = (ms, r, sc, un)"
    for ms r sc un rnk tnk ft' us
  proof -
    obtain rep current where st: "st = (rep, current)" by force
    have gaps: "forward_dead (if us \<noteq> [] then rep\<lparr>ar_mid_gaps := a, ar_gapped := b\<rparr> else rep, current)
        = forward_dead (rep, current)" for a b
      by (simp add: forward_dead_def)
    show ?thesis
      using assms(1) registry_monotonic [OF assms(2) that]
      unfolding st attach_matched_def Let_def prod.case
      by (simp add: gaps steps split: option.split) (simp add: forward_dead_def)
  qed
  then show ?thesis
    using assms(1) by (auto simp: attach_trip_def Let_def steps split: prod.split)
qed

text \<open>C31: The two halves of the import fit together: whatever the registry's data set is, a trip that flattening made
of it is never dead because its times go back; if it is dead, then for its speed.\<close>

theorem flattened_trips_never_go_back:
  "list_all (\<lambda>d. dd_reason d = ''overspeed'') (ar_dead (fst (AttachTrips ctx (inp\<lparr>in_trips := fst (FlattenTrips ds)\<rparr>))))"
proof (cases rule: AttachTrips_cases [of "inp\<lparr>in_trips := fst (FlattenTrips ds)\<rparr>" ctx])
  case none
  then show ?thesis by (simp add: empty_report_def)
next
  case (run params rep current e)
  let ?inp = "inp\<lparr>in_trips := fst (FlattenTrips ds)\<rparr>"
  have "forward_dead (attach_trip ?inp cfg (buildMatchIndex (in_terminals ?inp)) ft st)"
    if "ft \<in> set (in_trips ?inp)" "forward_dead st" for ft st cfg
    using that flatten_ok_all [of ds] by (intro forward_dead_trip) (auto simp: flatten_ok_def flat_trip_ok_def list_all_iff)
  then have "forward_dead (rep, current)"
    using attach_loop_inv [where I = forward_dead and ctx = ctx and i = 0 and fts = "in_trips ?inp" and
        step = "attach_trip ?inp (attach_defaults ?inp params) (buildMatchIndex (in_terminals ?inp))" and
        st = "(empty_report\<lparr>ar_in := length (in_trips ?inp)\<rparr>, [])"] run(2)
    by (simp add: forward_dead_def empty_report_def)
  then show ?thesis
    using AttachTrips_run [OF run] by (cases e) (simp_all add: forward_dead_def list_all_iff Let_def)
qed

section \<open>What becomes of each trip\<close>

text \<open>
  What becomes of a trip, by its data alone: it waits for its times or for its stops, it is broken, its speed is to be
  reviewed, or it is published with the stop times left when neighbours at one terminal are one.
\<close>

datatype fate = Published "MatchedStopTime list" | Waits string "MatchedStopTime list" | Broken string

definition fast_legs :: "AttachTerminal list \<Rightarrow> real \<Rightarrow> MatchedStopTime list \<Rightarrow> (MatchedStopTime \<times> MatchedStopTime) list" where
  "fast_legs terms v ms = filter (\<lambda>(p, q). case leg_speed terms p q of Some s \<Rightarrow> v < s | None \<Rightarrow> False) (zip ms (tl ms))"

definition fate_of :: "AttachInput \<Rightarrow> attach_config \<Rightarrow> FlatTrip \<Rightarrow> fate" where
  "fate_of inp cfg ft =
     (if ft_frequency_only ft \<or> length (ft_stops ft) < 2 then Waits ''awaiting_times'' []
      else if ft_untimed ft \<noteq> [] then Waits ''incomplete_trip'' []
      else case matchStops ft (buildMatchIndex (in_terminals inp)) (ac_source cfg) (ac_class cfg) (ac_params cfg) of
        (ms, why, score, missing) \<Rightarrow>
          let c = collapseConsecutive ms; fast = fast_legs (in_terminals inp) (ac_max_speed cfg) c in
          if missing \<noteq> [] \<and> (length ms < 2 \<or> 3 * length ms < 2 * length (ft_stops ft))
          then Waits (if why = ''incomplete_trip'' then ''skeleton_gap'' else ''incomplete_trip'') ms
          else if \<not> times_forward c then Broken ''non-monotonic''
          else if list_ex (\<lambda>(p, q). both_finalized (in_terminals inp) p q) fast then Broken ''overspeed''
          else if fast \<noteq> [] then Waits ''needs_review'' c
          else Published c)"

text \<open>The entries of a report, each with the keys of its trip and what it says of it.\<close>

definition entries :: "AttachReport \<Rightarrow> (string \<times> string \<times> fate) multiset" where
  "entries rep = image_mset (\<lambda>p. (pt_route_nk p, pt_trip_nk p, Published (pt_stop_times p))) (mset (ar_promoted rep)) +
     image_mset (\<lambda>s. (sg_route_nk s, sg_trip_nk s, Waits (sg_state s) (sg_matched s))) (mset (ar_staged rep)) +
     image_mset (\<lambda>d. (dd_route_nk d, dd_trip_nk d, Broken (dd_reason d))) (mset (ar_dead rep))"

definition trip_entry :: "AttachInput \<Rightarrow> attach_config \<Rightarrow> FlatTrip \<Rightarrow> string \<times> string \<times> fate" where
  "trip_entry inp cfg ft = (route_key inp ft, trip_key (route_key inp ft) ft, fate_of inp cfg ft)"

lemma entries_steps:
  "entries (fst (stage s st)) = add_mset (sg_route_nk s, sg_trip_nk s, Waits (sg_state s) (sg_matched s)) (entries (fst st))"
  "entries (fst (bury d st)) = add_mset (dd_route_nk d, dd_trip_nk d, Broken (dd_reason d)) (entries (fst st))"
  "entries (fst (review r st)) = entries (fst st)"
  by (simp_all add: entries_def stage_def bury_def review_def split: prod.split)

lemma monotonic_iff: "checkMonotonic ms = None \<longleftrightarrow> times_forward ms"
  using monotonic_from_None [of 0 None ms] times_forward_None [of ms None 0] by (auto simp: checkMonotonic_def)

lemma first_leg_iff: "first_leg f i ms = None \<longleftrightarrow> (\<forall>(p, q) \<in> set (zip ms (tl ms)). f p q = None)"
  by (induction f i ms rule: first_leg.induct) (auto split: option.splits)

lemma speeds_iff:
  "checkSpeeds ms terms v = None \<longleftrightarrow> \<not> list_ex (\<lambda>(p, q). both_finalized terms p q) (fast_legs terms v ms)"
  "checkSpeeds ms terms v = None \<Longrightarrow> softSpeeds ms terms v = None \<longleftrightarrow> fast_legs terms v ms = []"
proof -
  have f: "fast_leg terms v b p q = None \<longleftrightarrow>
      \<not> (both_finalized terms p q = b \<and> (case leg_speed terms p q of Some s \<Rightarrow> v < s | None \<Rightarrow> False))" for b p q
    by (auto simp: fast_leg_def split: option.splits)
  show "checkSpeeds ms terms v = None \<longleftrightarrow> \<not> list_ex (\<lambda>(p, q). both_finalized terms p q) (fast_legs terms v ms)"
    by (auto simp: checkSpeeds_def first_leg_iff f fast_legs_def list_ex_iff)
  show "softSpeeds ms terms v = None \<longleftrightarrow> fast_legs terms v ms = []" if "checkSpeeds ms terms v = None"
    using that by (auto simp: checkSpeeds_def softSpeeds_def first_leg_iff f fast_legs_def filter_empty_conv)
qed

lemma backbone_iff: "2 \<le> n \<Longrightarrow> backbonePromotable ms n \<longleftrightarrow> \<not> (length ms < 2 \<or> 3 * length ms < 2 * n)"
proof -
  assume n: "2 \<le> n"
  have "real (length ms) / real n < 2 / 3 \<longleftrightarrow> 3 * real (length ms) < 2 * real n" using n by (simp add: field_simps)
  also have "\<dots> \<longleftrightarrow> 3 * length ms < 2 * n" by linarith
  finally show ?thesis by (auto simp: backbonePromotable_def)
qed

lemma entries_matched:
  "entries (fst (attach_matched inp cfg rnk tnk ft ms us st)) =
     add_mset (rnk, tnk, let c = collapseConsecutive ms; fast = fast_legs (in_terminals inp) (ac_max_speed cfg) c in
       if \<not> times_forward c then Broken ''non-monotonic''
       else if list_ex (\<lambda>(p, q). both_finalized (in_terminals inp) p q) fast then Broken ''overspeed''
       else if fast \<noteq> [] then Waits ''needs_review'' c
       else Published c) (entries (fst st))"
proof -
  obtain rep current where st: "st = (rep, current)" by force
  let ?c = "collapseConsecutive ms"
  have gaps: "entries (if us \<noteq> [] then rep\<lparr>ar_mid_gaps := a, ar_gapped := b\<rparr> else rep) = entries rep" for a b
    by (simp add: entries_def)
  have pub: "entries (r\<lparr>ar_promoted := ar_promoted r @ [promotable inp cfg rnk tnk ft c]\<rparr>) = add_mset (rnk, tnk, Published c) (entries r)"
    for r c by (simp add: entries_def promotable_def)
  show ?thesis
    unfolding st attach_matched_def Let_def prod.case
    by (cases "checkMonotonic ?c"; cases "checkSpeeds ?c (in_terminals inp) (ac_max_speed cfg)";
        cases "softSpeeds ?c (in_terminals inp) (ac_max_speed cfg)")
      (use monotonic_iff [of ?c] speeds_iff [of ?c "in_terminals inp" "ac_max_speed cfg"]
        in \<open>simp_all add: entries_steps gaps pub staged_def\<close>)
qed

lemma entries_trip:
  "entries (fst (attach_trip inp cfg (buildMatchIndex (in_terminals inp)) ft st)) = add_mset (trip_entry inp cfg ft) (entries (fst st))"
proof (cases "ft_frequency_only ft \<or> length (ft_stops ft) < 2")
  case False
  then have n: "2 \<le> length (ft_stops ft)" by simp
  show ?thesis using False
    by (simp add: attach_trip_def Let_def trip_entry_def fate_of_def entries_steps entries_matched staged_def backbone_iff [OF n]
        split: prod.split)
qed (simp add: attach_trip_def Let_def trip_entry_def fate_of_def entries_steps staged_def)

lemma entries_loop:
  assumes "\<And>ft st. entries (fst (step ft st)) = add_mset (g ft) (entries (fst st))"
    and "attach_loop ctx step i fts st = (st', None)"
  shows "entries (fst st') = entries (fst st) + mset (map g fts)"
  using assms(2)
proof (induction fts arbitrary: i st)
  case (Cons ft fts)
  then have "entries (fst st') = entries (fst (step ft st)) + mset (map g fts)" by (auto split: option.splits)
  then show ?case by (simp add: assms(1))
qed simp

lemma entries_settled: "entries (settled inp cfg rep current) = entries rep"
  by (simp add: settled_def entries_def mset_sort_by)

text \<open>C28: The row balance of a run never fails, whatever the trips and the terminals are; and unless it is cancelled or
has no parameters, its report has one entry for each trip it was given and no other, under the keys of that trip: it
is published exactly if its times are known, at least two and two thirds of its stops are matched or none is missing,
its times never go back and no leg is too fast; it is dead only for its times or for a fast leg between confirmed
terminals, and it waits otherwise, under the state that says for what.\<close>

theorem every_trip_accounted_for:
  "case AttachTrips ctx inp of (rep, err) \<Rightarrow>
     err \<noteq> Some RowMismatch \<and>
     (case err of Some NoParams \<Rightarrow> True | Some (Cancelled _) \<Rightarrow> True
      | _ \<Rightarrow> ar_in rep = length (in_trips inp) \<and>
          entries rep = mset (map (trip_entry inp (attach_defaults inp (the (in_params inp)))) (in_trips inp)))"
proof (cases rule: AttachTrips_cases [of inp ctx])
  case (run params rep current e)
  let ?st = "(empty_report\<lparr>ar_in := length (in_trips inp)\<rparr>, [] :: (string \<times> string) list)"
  have n: "ar_in rep = length (in_trips inp)"
    using loop_in [where ctx = ctx and i = 0 and fts = "in_trips inp" and st = ?st,
        of "attach_trip inp (attach_defaults inp params) (buildMatchIndex (in_terminals inp))"] run(2)
    by (simp add: trip_in)
  have "reported ?st = 0" by (simp add: reported_def empty_report_def)
  then have r: "e = None \<Longrightarrow> reported (rep, current) = length (in_trips inp)"
    using reported_loop [OF reported_trip] run(2) by fastforce
  have "entries (fst ?st) = {#}" by (simp add: entries_def empty_report_def)
  then have "e = None \<Longrightarrow> entries rep = mset (map (trip_entry inp (attach_defaults inp params)) (in_trips inp))"
    using entries_loop [OF entries_trip] run(2) by fastforce
  then show ?thesis
    using n r AttachTrips_run [OF run] run(1) by (cases e) (simp_all add: reported_def Let_def entries_settled)
qed simp

section \<open>Trips that are gone\<close>

definition current_ok :: "attach_state \<Rightarrow> bool" where
  "current_ok st \<longleftrightarrow> fst ` set (snd st) = set (map pt_trip_nk (ar_promoted (fst st))) \<and> ar_alert (fst st) = False \<and>
     ar_tombstoned (fst st) = [] \<and> ar_disappearance (fst st) = 0"

lemma current_ok_trip: "current_ok st \<Longrightarrow> current_ok (attach_trip inp cfg idx ft st)"
proof -
  have steps: "current_ok (stage s st) = current_ok st" "current_ok (review r st) = current_ok st"
    "current_ok (bury d st) = current_ok st" for s r d st
    by (auto simp: current_ok_def stage_def bury_def review_def split: prod.split)
  have "current_ok (attach_matched inp cfg rnk tnk ft ms us st)" if "current_ok st" for rnk tnk ms us
  proof -
    obtain rep current where st: "st = (rep, current)" by force
    have gaps: "current_ok (if us \<noteq> [] then rep\<lparr>ar_mid_gaps := a, ar_gapped := b\<rparr> else rep, current)
        = current_ok (rep, current)" for a b
      by (simp add: current_ok_def)
    show ?thesis
      using that unfolding st attach_matched_def Let_def prod.case
      by (simp add: gaps steps split: option.split) (auto simp: current_ok_def promotable_def dom_update)
  qed
  then show "current_ok st \<Longrightarrow> current_ok (attach_trip inp cfg idx ft st)"
    by (simp add: attach_trip_def Let_def steps split: prod.split)
qed

definition prev_pairs :: "(string \<times> string list) list \<Rightarrow> (string \<times> string) list" where
  "prev_pairs prev = concat (map (\<lambda>(route, trips). map (\<lambda>t. (t, route)) trips) prev)"

definition prev_set :: "(string \<times> string list) list \<Rightarrow> (string \<times> string) list" where
  "prev_set prev = fold (\<lambda>(t, route). AList.update t route) (prev_pairs prev) []"

lemma fold_update_keys:
  "distinct (map fst al) \<Longrightarrow> distinct (map fst (fold (\<lambda>(k, v). AList.update k v) ps al)) \<and>
    fst ` set (fold (\<lambda>(k, v). AList.update k v) ps al) = fst ` set ps \<union> fst ` set al \<and>
    length (fold (\<lambda>(k, v). AList.update k v) ps al) \<le> length ps + length al"
proof (induction ps arbitrary: al)
  case (Cons p ps)
  obtain k v where p: "p = (k, v)" by force
  have "length (AList.update k v al) \<le> Suc (length al)" by (induction al) auto
  then show ?case using Cons.IH [of "AList.update k v al"] Cons.prems by (auto simp: p distinct_update dom_update)
qed simp

lemma prev_keys: "fst ` set (prev_pairs prev) = set (concat (map snd prev))"
proof -
  have "map fst (prev_pairs prev) = concat (map snd prev)"
    by (induction prev) (simp_all add: prev_pairs_def comp_def split_beta)
  then show ?thesis by (metis list.set_map)
qed

lemma prev_set_facts:
  "distinct (map fst (prev_set prev))" "fst ` set (prev_set prev) = set (concat (map snd prev))"
  "length (prev_set prev) \<le> length (prev_pairs prev)"
  using fold_update_keys [of "[]" "prev_pairs prev"] by (simp_all add: prev_set_def prev_keys)

lemma prev_set_Nil: "prev_pairs prev = [] \<Longrightarrow> prev_set prev = []"
  by (simp add: prev_set_def)

lemma filter_keys: "set (map fst (filter (\<lambda>(t, _). map_of al t = None) xs)) = fst ` set xs - fst ` set al"
proof -
  have "set (map fst (filter (\<lambda>(t, _). P t) xs)) = {t \<in> fst ` set xs. P t}" for P by (auto simp: image_iff)
  then show ?thesis by (simp only: map_of_eq_None_iff) blast
qed

lemma tombstone_facts:
  fixes prev current th rep
  defines "gone \<equiv> filter (\<lambda>(t, _). map_of current t = None) (prev_set prev)"
  assumes "ar_tombstoned rep = []" "ar_disappearance rep = 0" "\<not> ar_alert rep"
  shows "mset (map tb_trip_nk (ar_tombstoned (tombstone prev current th rep))) = mset (map fst gone)"
    "ar_disappearance (tombstone prev current th rep) =
      (if prev_pairs prev = [] then 0 else real (length gone) / real (length (prev_pairs prev)))"
    "prev_pairs prev = [] \<Longrightarrow> \<not> ar_alert (tombstone prev current th rep)"
proof -
  let ?t = "map (\<lambda>(t, route). \<lparr>tb_route_nk = route, tb_trip_nk = t\<rparr>) gone"
  have "ar_tombstoned (tombstone prev current th rep) = sort_by (\<lambda>a b. tb_trip_nk a < tb_trip_nk b) ?t"
    using assms(2) by (simp add: tombstone_def Let_def gone_def prev_set_Nil flip: prev_pairs_def prev_set_def)
  then have "mset (map tb_trip_nk (ar_tombstoned (tombstone prev current th rep))) = mset (map tb_trip_nk ?t)"
    by (simp only: mset_map mset_sort_by)
  moreover have "map tb_trip_nk ?t = map fst gone" by auto
  ultimately show "mset (map tb_trip_nk (ar_tombstoned (tombstone prev current th rep))) = mset (map fst gone)"
    by (simp only:)
  show "ar_disappearance (tombstone prev current th rep) =
      (if prev_pairs prev = [] then 0 else real (length gone) / real (length (prev_pairs prev)))"
    "prev_pairs prev = [] \<Longrightarrow> \<not> ar_alert (tombstone prev current th rep)"
    using assms(3,4) by (simp_all add: tombstone_def Let_def gone_def flip: prev_pairs_def prev_set_def)
qed

text \<open>What disappeared is reported exactly: when a run ends without an error or with the alert, the tombstones are,
each once, the trips published before that were not promoted now, the rate of disappearance lies between 0 and
1, and without trips published before there is no alert.\<close>

theorem tombstones_exact:
  "case AttachTrips ctx inp of (rep, err) \<Rightarrow>
     if err = None \<or> err = Some ChurnAlert
     then set (map tb_trip_nk (ar_tombstoned rep)) =
            set (concat (map snd (in_prev inp))) - set (map pt_trip_nk (ar_promoted rep)) \<and>
          distinct (map tb_trip_nk (ar_tombstoned rep)) \<and>
          0 \<le> ar_disappearance rep \<and> ar_disappearance rep \<le> 1 \<and>
          (err = Some ChurnAlert \<longleftrightarrow> ar_alert rep) \<and>
          (if concat (map snd (in_prev inp)) = [] then \<not> ar_alert rep else True)
     else True"
proof (cases rule: AttachTrips_cases [of inp ctx])
  case (run params rep current e)
  let ?cfg = "attach_defaults inp params"
  have "current_ok (rep, current)"
    using attach_loop_inv [where I = current_ok and ctx = ctx and i = 0 and fts = "in_trips inp" and
        step = "attach_trip inp ?cfg (buildMatchIndex (in_terminals inp))" and
        st = "(empty_report\<lparr>ar_in := length (in_trips inp)\<rparr>, [])"] run(2)
    by (simp add: current_ok_trip) (simp add: current_ok_def empty_report_def)
  then have c: "fst ` set current = set (map pt_trip_nk (ar_promoted rep))" "ar_tombstoned rep = []"
    "ar_disappearance rep = 0" "\<not> ar_alert rep"
    by (simp_all add: current_ok_def)
  let ?gone = "filter (\<lambda>(t, _). map_of current t = None) (prev_set (in_prev inp))"
  let ?rep = "settled inp ?cfg rep current"
  note facts = tombstone_facts [of "rep\<lparr>ar_promoted := sort_by (\<lambda>a b. pt_trip_nk a < pt_trip_nk b) (ar_promoted rep),
      ar_staged := sort_by (\<lambda>a b. sg_trip_nk a < sg_trip_nk b) (ar_staged rep),
      ar_dead := sort_by (\<lambda>a b. dd_trip_nk a < dd_trip_nk b) (ar_dead rep)\<rparr>" "in_prev inp" current "ac_threshold ?cfg",
      folded settled_def]
  have m: "mset (map tb_trip_nk (ar_tombstoned ?rep)) = mset (map fst ?gone)" using facts(1) c by simp
  have "set (map tb_trip_nk (ar_tombstoned ?rep)) = set (map fst ?gone)" using m by (rule mset_eq_setD)
  also have "\<dots> = set (concat (map snd (in_prev inp))) - fst ` set current"
    unfolding prev_set_facts(2) [symmetric] by (rule filter_keys)
  also have "fst ` set current = set (map pt_trip_nk (ar_promoted ?rep))" unfolding c(1) by simp
  finally have gone: "set (map tb_trip_nk (ar_tombstoned ?rep)) =
      set (concat (map snd (in_prev inp))) - set (map pt_trip_nk (ar_promoted ?rep))" .
  have "distinct (map fst ?gone)"
    using prev_set_facts(1) [of "in_prev inp"] by (simp add: distinct_map inj_on_def)
  then have dist: "distinct (map tb_trip_nk (ar_tombstoned ?rep))"
    using mset_eq_imp_distinct_iff [OF m] by blast
  have "length ?gone \<le> length (prev_pairs (in_prev inp))"
    using prev_set_facts(3) [of "in_prev inp"] length_filter_le order_trans by blast
  then have rate: "0 \<le> ar_disappearance ?rep \<and> ar_disappearance ?rep \<le> 1"
    using facts(2) c by (simp add: divide_le_eq)
  have calm: "concat (map snd (in_prev inp)) = [] \<Longrightarrow> \<not> ar_alert ?rep"
    using facts(3) c prev_keys [of "in_prev inp"] by (simp del: concat_eq_Nil_conv)
  show ?thesis
  proof (cases e)
    case None
    define err where "err = (if ar_in ?rep \<noteq> length (ar_promoted ?rep) + length (ar_staged ?rep) + length (ar_dead ?rep)
      then Some RowMismatch else if ar_alert ?rep then Some ChurnAlert else None)"
    have r: "AttachTrips ctx inp = (?rep, err)" using AttachTrips_run [OF run] None by (simp add: Let_def err_def)
    show ?thesis
    proof (cases "err = None \<or> err = Some ChurnAlert")
      case True
      then have "err = Some ChurnAlert \<longleftrightarrow> ar_alert ?rep" by (simp add: err_def split: if_splits)
      then show ?thesis unfolding r prod.case gone using True dist rate calm by argo
    qed (simp only: r prod.case if_False)
  next
    case (Some x)
    then show ?thesis using AttachTrips_run [OF run] by simp
  qed
qed simp

section \<open>Trips that lose their ends\<close>

definition demo_term :: "int \<Rightarrow> string \<Rightarrow> AttachTerminal" where
  "demo_term i c = \<lparr>at_id = i, at_name = ''A'', at_lat = Some 0, at_lon = Some 0, at_settlement = '''', at_transport = '''',
     at_source = ''osm'', at_codes = [\<lparr>ai_system = ''mintrans'', ai_code_type = ''op_reg'', ai_code = c\<rparr>], at_finalized = True\<rparr>"

definition demo_flat_stop :: "string \<Rightarrow> int \<Rightarrow> FlatStop" where
  "demo_flat_stop c t = \<lparr>fs_stop = c, fs_name = ''A'', fs_region = '''', fs_op = c, fs_lat = None, fs_lon = None,
     fs_arr = Some t, fs_dep = Some t\<rparr>"

definition demo_trip :: "FlatStop list \<Rightarrow> FlatTrip" where
  "demo_trip ss = \<lparr>ft_route = ''r'', ft_direction = ''d'', ft_service = 1, ft_run = 1, ft_period = '''', ft_carrier = '''',
     ft_carrier_inn = '''', ft_from = '''', ft_to = '''', ft_stops = ss, ft_untimed = [], ft_frequency_only = False,
     ft_weekdays = []\<rparr>"

definition demo_attach :: "AttachTerminal list \<Rightarrow> FlatTrip list \<Rightarrow> AttachInput" where
  "demo_attach ts fts = \<lparr>in_trips = fts, in_terminals = ts, in_prev = [], in_trust_route = True, in_source = '''', in_churn = 0,
     in_max_speed = 0, in_params = Some (\<lambda>_. demo_params), in_class = None\<rparr>"

lemma demo_index: "buildMatchIndex [demo_term 1 ''1'', demo_term 2 ''2''] =
   \<lparr>mi_terms = [demo_term 1 ''1'', demo_term 2 ''2''], mi_cells = (\<lambda>_. [])((0, 0) := [0, 1]), mi_no_coords = [],
     mi_by_code = (\<lambda>_. [])(''mintrans|1'' := [0], ''mintrans|2'' := [1])\<rparr>"
  by (simp add: buildMatchIndex_def index_term_def demo_term_def upt_rec match_cell_def code_key_def)
lemma demo_match: "MatchStopToTerminal
   (PairItemFromStop (fs_name (demo_flat_stop c t)) None None st ''mintrans'' [\<lparr>ai_system = ''mintrans'', ai_code_type = ''op_reg'', ai_code = c\<rparr>])
   [PairItemFromTerminal (demo_term i c)] cls demo_params = 
   (0, DecisionVerified, \<lparr>ps_value = 1, ps_trust = 1, ps_code_match = True, ps_has_geom = False, ps_distance = 0, ps_name_sim = 1, ps_guard = True\<rparr>)"
  if "c \<noteq> ''''"
  using that similarity_unit [of "''A''" "''A''"]
  by (simp add: MatchStopToTerminal_def ScorePair_def top_index_def other_score_def decideBest_def Let_def zero_score_def
   Trust_def demo_voices PairItemFromStop_def PairItemFromTerminal_def demo_flat_stop_def demo_term_def codesEqual_def code_equal_def demo_params_def)


lemma demo_candidates:
  "candidates (buildMatchIndex [demo_term 1 ''1'', demo_term 2 ''2'']) (demo_flat_stop ''1'' t) ''mintrans'' = [0]"
  "candidates (buildMatchIndex [demo_term 1 ''1'', demo_term 2 ''2'']) (demo_flat_stop ''2'' t) ''mintrans'' = [1]"
  "candidates (buildMatchIndex [demo_term 1 ''1'', demo_term 2 ''2'']) (demo_flat_stop ''9'' t) ''mintrans'' = []"
  by (simp_all add: demo_index candidates_def demo_flat_stop_def StopCodes_def code_key_def add_new_def)

lemma demo_no_match: "MatchStopToTerminal stop [] cls p = (- 1, DecisionRejected, zero_score)"
  by (simp add: MatchStopToTerminal_def)

definition demo_code :: "string \<Rightarrow> AdaptedIdentifier" where
  "demo_code c = \<lparr>ai_system = ''mintrans'', ai_code_type = ''op_reg'', ai_code = c\<rparr>"

definition demo_matched :: "int \<Rightarrow> string \<Rightarrow> int \<Rightarrow> int \<Rightarrow> MatchedStopTime" where
  "demo_matched i c s t = \<lparr>mt_seq = s, mt_terminal = i, mt_stop = c, mt_arr = t * 60, mt_dep = t * 60,
    mt_codes = [demo_code c], mt_provisional = False, mt_score = 1, mt_method = ''code''\<rparr>"

lemma demo_step:
  assumes "candidates idx (demo_flat_stop c t) ''mintrans'' = [k]" "mi_terms idx ! k = demo_term i c" "c \<noteq> ''''" "available st seq n i"
  shows "match_stop idx ''mintrans'' cf (\<lambda>_. demo_params) n (seq, demo_flat_stop c t) st =
    st\<lparr>st_first := (if st_matched st = [] then i else st_first st), st_used := i # st_used st,
       st_matched := st_matched st @ [demo_matched i c (int seq) t]\<rparr>"
proof -
  have f: "fs_op (demo_flat_stop c t) = c" "fs_lat (demo_flat_stop c t) = None" "fs_lon (demo_flat_stop c t) = None"
    "fs_stop (demo_flat_stop c t) = c" "fs_arr (demo_flat_stop c t) = Some t" "fs_dep (demo_flat_stop c t) = Some t"
    "at_id (demo_term i c) = i" "at_finalized (demo_term i c)"
    by (simp_all add: demo_flat_stop_def demo_term_def)
  have codes: "StopCodes ''mintrans'' c = [demo_code c]" using assms(3) by (simp add: StopCodes_def demo_code_def)
  show ?thesis
    using assms demo_match [OF assms(3)]
    by (simp add: match_stop_def Let_def f codes demo_matched_def stop_seconds_def flip: demo_code_def)
qed

lemma demo_gap:
  assumes "candidates idx (demo_flat_stop c t) ''mintrans'' = []"
  shows "match_stop idx ''mintrans'' cf (\<lambda>_. demo_params) n (seq, demo_flat_stop c t) st =
    st\<lparr>st_unmatched := st_unmatched st @ [c]\<rparr>"
proof -
  have "fs_stop (demo_flat_stop c t) = c" by (simp add: demo_flat_stop_def)
  then show ?thesis by (simp add: match_stop_def Let_def assms demo_no_match reasonRank_def)
qed

lemma demo_matches:
   "matchStops (demo_trip [demo_flat_stop ''1'' a, demo_flat_stop ''2'' b, demo_flat_stop ''9'' c])
      (buildMatchIndex [demo_term 1 ''1'', demo_term 2 ''2'']) ''mintrans'' cf (\<lambda>_. demo_params)
    = ([demo_matched 1 ''1'' 0 a, demo_matched 2 ''2'' 1 b], ''incomplete_trip'', 0, [''9''])"
   "matchStops (demo_trip [demo_flat_stop ''1'' a, demo_flat_stop ''9'' b, demo_flat_stop ''1'' c])
      (buildMatchIndex [demo_term 1 ''1'', demo_term 2 ''2'']) ''mintrans'' cf (\<lambda>_. demo_params)
    = ([demo_matched 1 ''1'' 0 a, demo_matched 1 ''1'' 1 c], ''incomplete_trip'', 0, [''9''])"
proof -
  let ?idx = "buildMatchIndex [demo_term 1 ''1'', demo_term 2 ''2'']"
  have i: "mi_terms ?idx ! 0 = demo_term 1 ''1''" "mi_terms ?idx ! 1 = demo_term 2 ''2''" by (simp_all add: buildMatchIndex_sel)
  note step = demo_step [OF demo_candidates(1) i(1)] demo_step [OF demo_candidates(2) i(2)] demo_gap [OF demo_candidates(3)]
  have three: "zip [0 ..< length [x, y, z]] [x, y, z] = [(0, x), (1, y), (2, z)]" for x y z :: FlatStop
    by (simp add: upt_rec)
  show "matchStops (demo_trip [demo_flat_stop ''1'' a, demo_flat_stop ''2'' b, demo_flat_stop ''9'' c])
      ?idx ''mintrans'' cf (\<lambda>_. demo_params)
    = ([demo_matched 1 ''1'' 0 a, demo_matched 2 ''2'' 1 b], ''incomplete_trip'', 0, [''9''])"
    unfolding matchStops_def demo_trip_def FlatTrip.select_convs three
    by (simp add: step available_def empty_match_def renumber_def upt_rec demo_matched_def)
  show "matchStops (demo_trip [demo_flat_stop ''1'' a, demo_flat_stop ''9'' b, demo_flat_stop ''1'' c])
      ?idx ''mintrans'' cf (\<lambda>_. demo_params)
    = ([demo_matched 1 ''1'' 0 a, demo_matched 1 ''1'' 1 c], ''incomplete_trip'', 0, [''9''])"
    unfolding matchStops_def demo_trip_def FlatTrip.select_convs three
    by (simp add: step available_def empty_match_def renumber_def upt_rec demo_matched_def)
qed

lemma demo_collapsed:
  "collapseConsecutive [demo_matched 1 ''1'' 0 a, demo_matched 2 ''2'' 1 b] = [demo_matched 1 ''1'' 0 a, demo_matched 2 ''2'' 1 b]"
  "collapseConsecutive [demo_matched 1 ''1'' 0 a, demo_matched 1 ''1'' 1 c] =
     [(demo_matched 1 ''1'' 0 a)\<lparr>mt_dep := c * 60\<rparr>]"
  by (simp_all add: collapseConsecutive_def collapse_step_def renumber_def demo_matched_def upt_rec)

lemma demo_leg: "leg_speed [demo_term 1 ''1'', demo_term 2 ''2''] (demo_matched 1 ''1'' 0 480) (demo_matched 2 ''2'' 1 540) = Some 0"
  by (simp add: leg_speed_def legSpeedKmH_def terminalByID_def demo_term_def demo_matched_def leg_minutes_def)

text \<open>A trip can lose its ends and still be published: the share of matched stops is tested, not, as the comment
in the code promises, that the first and the last one are matched. Of a trip of three stops whose last stop is
unknown the first two are promoted; a ring whose middle is unknown is promoted with a single stop.\<close>

lemma trips_lose_their_ends:
  "let ts = [demo_term 1 ''1'', demo_term 2 ''2''];
       promoted = (\<lambda>cs. map (\<lambda>p. map mt_terminal (pt_stop_times p))
         (ar_promoted (fst (AttachTrips (\<lambda>_. None) (demo_attach ts [demo_trip (map (\<lambda>(c, t). demo_flat_stop c t) cs)])))))
   in promoted [(''1'', 480), (''2'', 540), (''9'', 600)] = [[1, 2]] \<and>
      promoted [(''1'', 480), (''9'', 540), (''1'', 600)] = [[1]]"
proof -
  let ?ts = "[demo_term 1 ''1'', demo_term 2 ''2'']"
  have cfg: "attach_defaults (demo_attach ?ts fts) (\<lambda>_. demo_params) =
    \<lparr>ac_source = ''mintrans'', ac_threshold = 2 / 10, ac_max_speed = 200, ac_class = (\<lambda>_. DensityUrban), ac_params = (\<lambda>_. demo_params)\<rparr>" for fts
    by (simp add: attach_defaults_def demo_attach_def)
  have sel: "in_params (demo_attach ?ts fts) = Some (\<lambda>_. demo_params)" "in_terminals (demo_attach ?ts fts) = ?ts"
    "in_trips (demo_attach ?ts fts) = fts" for fts
    by (simp_all add: demo_attach_def)
  have trip: "ft_frequency_only (demo_trip ss) = False" "ft_untimed (demo_trip ss) = []" "ft_stops (demo_trip ss) = ss" for ss
    by (simp_all add: demo_trip_def)
  have times: "mt_arr (demo_matched i c s t) = t * 60" "mt_dep (demo_matched i c s t) = t * 60"
    "mt_terminal (demo_matched i c s t) = i" for i c s t
    by (simp_all add: demo_matched_def)
  note sel = sel cfg trip times
  show ?thesis
    unfolding Let_def
    by (simp add: AttachTrips_def Let_def sel attach_trip_def demo_matches backbonePromotable_def attach_matched_def demo_collapsed checkMonotonic_def
      checkSpeeds_def softSpeeds_def fast_leg_def demo_leg empty_report_def promotable_def)
qed

section \<open>Identifiers of reviews\<close>

text \<open>A review of something that has no row of its own gets a negative identifier that fits 64 bits, so it
never meets the identifier of a row, whatever the texts are.\<close>

theorem review_id_negative:
  "- (2 ^ 63) \<le> syntheticReviewID t r s c \<and> syntheticReviewID t r s c < 0"
proof -
  let ?v = "sint (fnv64a (t @ nul @ r @ nul @ s @ nul @ c))"
  have "- (2 ^ 63) \<le> ?v" "?v < 2 ^ 63"
    using sint_ge [of "fnv64a (t @ nul @ r @ nul @ s @ nul @ c)"] sint_lt [of "fnv64a (t @ nul @ r @ nul @ s @ nul @ c)"] by simp_all
  then show ?thesis by (auto simp: syntheticReviewID_def Let_def)
qed

end
