(* ===== verification/Skeleton.thy ===== *)
theory Skeleton
  imports ScorePair
begin

text \<open>
  The skeleton of terminals: records adapted from a source (\<open>model/adapted.go\<close>), the records made of
  decoded OSM stations and of a decoded Yandex dump (\<open>skeleton/osm.go\<close>, \<open>skeleton/yandex.go\<close>), and the
  join of the two, at once (\<open>skeleton/join.go\<close>) and in pages (\<open>skeleton/join_stream.go\<close>). The map of
  extras is a function, so a missing map is an empty one. A record is a value: the code writes into
  the map that a merged record shares with its original, which no later step of a join reads.
\<close>

section \<open>Records\<close>

record AdaptedRecord =
  ar_kind :: string
  ar_ids :: "AdaptedIdentifier list"
  ar_name :: string
  ar_name_en :: string
  ar_lat :: "real option"
  ar_lon :: "real option"
  ar_tz :: string
  ar_admin_level :: "int option"
  ar_level :: "int option"
  ar_parent :: string
  ar_valid_from :: "int option"
  ar_valid_to :: "int option"
  ar_source :: string
  ar_raw :: string
  ar_extra :: "string \<rightharpoonup> string"

definition HasCoords :: "AdaptedRecord \<Rightarrow> bool" where
  "HasCoords r \<longleftrightarrow> ar_lat r \<noteq> None \<and> ar_lon r \<noteq> None"

definition PrimaryCode :: "AdaptedRecord \<Rightarrow> string" where
  "PrimaryCode r = (if ar_ids r = [] then '''' else ai_code (hd (ar_ids r)))"

datatype EnrichmentStatus = IdentityOnly | Enriched | Unverified

record JoinedRecord =
  jr_record :: AdaptedRecord
  jr_score :: real
  jr_enrichment :: EnrichmentStatus

record JoinOutcome =
  jo_canon :: "JoinedRecord list"
  jo_unverified :: "AdaptedRecord list"
  jo_ambiguous :: "JoinedRecord list"

definition extra :: "AdaptedRecord \<Rightarrow> string \<Rightarrow> string" where
  "extra r key = (case ar_extra r key of Some v \<Rightarrow> v | None \<Rightarrow> '''')"

definition withExtra :: "AdaptedRecord \<Rightarrow> string \<Rightarrow> string \<Rightarrow> AdaptedRecord" where
  "withExtra r key value = r\<lparr>ar_extra := (ar_extra r)(key \<mapsto> value)\<rparr>"

definition empty_record :: AdaptedRecord where
  "empty_record = \<lparr>ar_kind = '''', ar_ids = [], ar_name = '''', ar_name_en = '''', ar_lat = None, ar_lon = None, ar_tz = '''',
     ar_admin_level = None, ar_level = None, ar_parent = '''', ar_valid_from = None, ar_valid_to = None, ar_source = '''',
     ar_raw = '''', ar_extra = Map.empty\<rparr>"

definition AdaptedTerminal :: string where
  "AdaptedTerminal = ''terminal''"

text \<open>Zero coordinates stand for missing ones.\<close>

definition coords_or_none :: "real \<Rightarrow> real \<Rightarrow> real option \<times> real option" where
  "coords_or_none lat lon = (if lat \<noteq> 0 \<or> lon \<noteq> 0 then (Some lat, Some lon) else (None, None))"

section \<open>Decoded sources\<close>

record osmStation =
  os_id :: int
  os_kind :: string
  os_name :: string
  os_tags :: "string \<rightharpoonup> string"
  os_lat :: real
  os_lon :: real

definition osmTransportType :: "(string \<rightharpoonup> string) \<Rightarrow> string" where
  "osmTransportType tags =
     (if tags ''railway'' = Some ''station'' \<or> tags ''railway'' = Some ''halt'' then ''rail''
      else if tags ''building'' = Some ''train_station'' then ''rail''
      else ''bus'')"

definition osmObjectType :: "(string \<rightharpoonup> string) \<Rightarrow> string" where
  "osmObjectType tags =
     (if tags ''public_transport'' = Some ''station'' then ''station''
      else if tags ''amenity'' = Some ''bus_station'' then ''station''
      else ''stop'')"

definition osm_record :: "osmStation \<Rightarrow> AdaptedRecord" where
  "osm_record st =
     (let (lat, lon) = coords_or_none (os_lat st) (os_lon st) in
      empty_record\<lparr>ar_kind := AdaptedTerminal, ar_name := os_name st, ar_lat := lat, ar_lon := lon, ar_source := ''osm'',
        ar_ids := [\<lparr>ai_system = ''osm'', ai_code_type = ''osm_id'', ai_code = itoa (os_id st)\<rparr>],
        ar_extra := [''settlement'' \<mapsto> ExtractSettlement (os_name st), ''transport_type'' \<mapsto> osmTransportType (os_tags st),
          ''object_type'' \<mapsto> osmObjectType (os_tags st), ''osm_kind'' \<mapsto> os_kind st]\<rparr>)"

record yandexStation =
  ys_title :: string
  ys_longitude :: real
  ys_latitude :: real
  ys_transport :: string
  ys_station :: string
  ys_yandex_code :: string
  ys_esr_code :: string

record yandexSettlement =
  yt_title :: string
  yt_stations :: "yandexStation list"

record yandexRegion =
  yr_title :: string
  yr_settlements :: "yandexSettlement list"

record yandexCountry =
  yc_title :: string
  yc_regions :: "yandexRegion list"

definition yandexTransportType :: "string \<Rightarrow> string" where
  "yandexTransportType t =
     (if t = ''train'' \<or> t = ''suburban'' then ''rail'' else if t = ''plane'' then ''flight'' else t)"

definition yandex_ids :: "yandexStation \<Rightarrow> AdaptedIdentifier list" where
  "yandex_ids s =
     (if ys_yandex_code s \<noteq> '''' then [\<lparr>ai_system = ''yandex'', ai_code_type = ''yandex_code'', ai_code = ys_yandex_code s\<rparr>] else []) @
     (if ys_esr_code s \<noteq> '''' then [\<lparr>ai_system = ''yandex'', ai_code_type = ''esr_code'', ai_code = ys_esr_code s\<rparr>] else [])"

definition yandex_record :: "string \<Rightarrow> string \<Rightarrow> yandexStation \<Rightarrow> AdaptedRecord" where
  "yandex_record region settlement s =
     (let (lat, lon) = coords_or_none (ys_latitude s) (ys_longitude s) in
      empty_record\<lparr>ar_kind := AdaptedTerminal, ar_name := ys_title s, ar_lat := lat, ar_lon := lon, ar_source := ''yandex'',
        ar_ids := yandex_ids s,
        ar_extra := [''settlement'' \<mapsto> settlement, ''region'' \<mapsto> region,
          ''transport_type'' \<mapsto> yandexTransportType (ys_transport s), ''station_type'' \<mapsto> ys_station s]\<rparr>)"

definition YandexLoad :: "yandexCountry list \<Rightarrow> AdaptedRecord list" where
  "YandexLoad countries =
     concat (map (\<lambda>c. concat (map (\<lambda>r. concat (map (\<lambda>st.
       map (yandex_record (yr_title r) (yt_title st)) (filter (\<lambda>s. trim_space (ys_title s) \<noteq> '''') (yt_stations st)))
         (yr_settlements r))) (yc_regions c))) countries)"

section \<open>The score of a pair\<close>

record JoinConfig =
  jc_geo :: real
  jc_threshold :: real
  jc_margin :: real
  jc_ambiguity :: real

definition DefaultJoinConfig :: JoinConfig where
  "DefaultJoinConfig = \<lparr>jc_geo = 500, jc_threshold = 6 / 10, jc_margin = 1 / 10, jc_ambiguity = 5 / 100\<rparr>"

definition codesMatch :: "AdaptedRecord \<Rightarrow> AdaptedRecord \<Rightarrow> bool" where
  "codesMatch a b \<longleftrightarrow> codesEqual (ar_ids a) (ar_ids b)"

text \<open>The string is read rune by rune and cut at every plus sign.\<close>

fun split_plus :: "rune list \<Rightarrow> rune list \<Rightarrow> string list" where
  "split_plus cur [] = [utf8 cur]"
| "split_plus cur (r # rs) = (if r = 43 then utf8 cur # split_plus [] rs else split_plus (cur @ [r]) rs)"

definition splitPlus :: "string \<Rightarrow> string list" where
  "splitPlus s = split_plus [] (runes s)"

definition transportCompatible :: "string \<Rightarrow> string \<Rightarrow> bool" where
  "transportCompatible a b \<longleftrightarrow> (\<exists>x \<in> set (splitPlus a). x \<in> set (splitPlus b))"

definition normalizeTransport :: "string \<Rightarrow> string" where
  "normalizeTransport combined =
     join ''+'' (sort (fold (\<lambda>p parts. if p = '''' \<or> p \<in> set parts then parts else parts @ [p]) (splitPlus combined) []))"

definition haversineM :: "real \<Rightarrow> real \<Rightarrow> real \<Rightarrow> real \<Rightarrow> real" where
  "haversineM aLat aLon bLat bLon = Haversine \<lparr>co_lat = aLat, co_lon = aLon\<rparr> \<lparr>co_lat = bLat, co_lon = bLon\<rparr> * 1000"

definition record_distance :: "AdaptedRecord \<Rightarrow> AdaptedRecord \<Rightarrow> real option" where
  "record_distance a b =
     (case (ar_lat a, ar_lon a, ar_lat b, ar_lon b) of
        (Some alat, Some alon, Some blat, Some blon) \<Rightarrow> Some (haversineM alat alon blat blon)
      | _ \<Rightarrow> None)"

definition join_features :: "AdaptedRecord \<Rightarrow> AdaptedRecord \<Rightarrow> JoinConfig \<Rightarrow> real \<Rightarrow> feature list" where
  "join_features a b cfg nameSim =
     (let d = record_distance a b;
          geom = (case d of
              None \<Rightarrow> 0
            | Some d \<Rightarrow> if d \<le> jc_geo cfg / 5 then 1 else if d \<le> jc_geo cfg then 6 / 10
                else if d \<le> jc_geo cfg * 4 then 25 / 100 else 0);
          as = extra a ''settlement''; bs = extra b ''settlement'';
          settlementPresent = (as \<noteq> '''' \<and> bs \<noteq> '''');
          ta = extra a ''transport_type''; tb = extra b ''transport_type'';
          transportPresent = (ta \<noteq> '''' \<and> tb \<noteq> '''')
      in [(45 / 100, nameSim, True),
          (3 / 10, geom, d \<noteq> None),
          (15 / 100, if settlementPresent \<and> SameSettlement as bs then 1 else 0, settlementPresent),
          (1 / 10, if transportPresent \<and> transportCompatible ta tb then 1 else 0, transportPresent)])"

definition scorePairBody :: "AdaptedRecord \<Rightarrow> AdaptedRecord \<Rightarrow> JoinConfig \<Rightarrow> (string \<Rightarrow> string \<Rightarrow> real) \<Rightarrow> real" where
  "scorePairBody a b cfg nameSimFn =
     (if codesMatch a b then 1
      else (let feats = join_features a b cfg (nameSimFn (ar_name a) (ar_name b)); sumW = present_weight feats in
        if sumW = 0 then 0 else weighted_sum sumW feats))"

definition JoinPairScore :: "AdaptedRecord \<Rightarrow> AdaptedRecord \<Rightarrow> JoinConfig \<Rightarrow> real" where
  "JoinPairScore a b cfg = scorePairBody a b cfg NormalizedSimilarity"

definition hardGuard :: "AdaptedRecord \<Rightarrow> AdaptedRecord \<Rightarrow> JoinConfig \<Rightarrow> bool" where
  "hardGuard a b cfg \<longleftrightarrow> codesMatch a b \<or> (case record_distance a b of Some d \<Rightarrow> d \<le> jc_geo cfg | None \<Rightarrow> False)"

definition id_key :: "AdaptedIdentifier \<Rightarrow> string" where
  "id_key i = ai_system i @ ''|'' @ ai_code_type i @ ''|'' @ ai_code i"

definition fill_extra :: "string \<Rightarrow> AdaptedRecord \<Rightarrow> AdaptedRecord \<Rightarrow> AdaptedRecord" where
  "fill_extra key y merged = (if extra merged key = '''' then withExtra merged key (extra y key) else merged)"

definition enrichFrom :: "AdaptedRecord \<Rightarrow> AdaptedRecord \<Rightarrow> AdaptedRecord" where
  "enrichFrom o1 y =
     (let merged = (if ar_name y \<noteq> '''' \<and> ar_name y \<noteq> ar_name o1 then withExtra o1 ''yandex_title'' (ar_name y) else o1);
          merged = fill_extra ''transport_type'' y (fill_extra ''region'' y (fill_extra ''settlement'' y merged));
          seen = set (map id_key (ar_ids merged))
      in merged\<lparr>ar_ids := ar_ids merged @ filter (\<lambda>i. id_key i \<notin> seen) (ar_ids y)\<rparr>)"

section \<open>The join\<close>

text \<open>The best candidate so far, its score and the second score; a candidate must score above 0.\<close>

type_synonym search = "nat option \<times> real \<times> real"

definition search_step :: "(nat \<Rightarrow> real) \<Rightarrow> nat \<Rightarrow> search \<Rightarrow> search" where
  "search_step f j = (\<lambda>(best, bestScore, second).
     if f j > bestScore then (Some j, f j, bestScore)
     else if f j > second then (best, bestScore, f j)
     else (best, bestScore, second))"

definition no_search :: search where
  "no_search = (None, 0, 0)"

datatype verdict = Verified nat real | AmbiguousPair nat real | NoPair real

text \<open>What becomes of an OSM record: \<open>n\<close> is the number that the test for ambiguity looks at.\<close>

definition judge :: "JoinConfig \<Rightarrow> AdaptedRecord \<Rightarrow> AdaptedRecord list \<Rightarrow> nat \<Rightarrow> search \<Rightarrow> verdict" where
  "judge cfg o1 yandex n = (\<lambda>(best, bestScore, second).
     let marginOK = (bestScore - second \<ge> jc_margin cfg \<or> second = 0) in
     case best of
       None \<Rightarrow> NoPair bestScore
     | Some b \<Rightarrow>
         if bestScore \<ge> jc_threshold cfg \<and> marginOK \<and> hardGuard o1 (yandex ! b) cfg then Verified b bestScore
         else if n > 1 \<and> bestScore \<ge> jc_threshold cfg - jc_margin cfg \<and> bestScore - second < jc_ambiguity cfg
         then AmbiguousPair b bestScore
         else NoPair bestScore)"

definition settle :: "AdaptedRecord list \<Rightarrow> AdaptedRecord \<Rightarrow> verdict \<Rightarrow> bool list \<times> JoinOutcome \<Rightarrow> bool list \<times> JoinOutcome" where
  "settle yandex o1 v = (\<lambda>(used, out).
     case v of
       Verified b s \<Rightarrow>
         (used[b := True],
          out\<lparr>jo_canon := jo_canon out @ [\<lparr>jr_record = enrichFrom o1 (yandex ! b), jr_score = s, jr_enrichment = Enriched\<rparr>]\<rparr>)
     | AmbiguousPair b s \<Rightarrow>
         (used[b := True],
          out\<lparr>jo_ambiguous := jo_ambiguous out @ [\<lparr>jr_record = enrichFrom o1 (yandex ! b), jr_score = s, jr_enrichment = IdentityOnly\<rparr>]\<rparr>)
     | NoPair s \<Rightarrow>
         (used, out\<lparr>jo_canon := jo_canon out @ [\<lparr>jr_record = o1, jr_score = s, jr_enrichment = IdentityOnly\<rparr>]\<rparr>))"

definition empty_outcome :: JoinOutcome where
  "empty_outcome = \<lparr>jo_canon = [], jo_unverified = [], jo_ambiguous = []\<rparr>"

definition free_indices :: "bool list \<Rightarrow> nat list" where
  "free_indices used = filter (\<lambda>j. \<not> used ! j) [0 ..< length used]"

definition unused :: "AdaptedRecord list \<Rightarrow> bool list \<Rightarrow> AdaptedRecord list" where
  "unused yandex used = map ((!) yandex) (free_indices used)"

definition join_one :: "AdaptedRecord list \<Rightarrow> JoinConfig \<Rightarrow> AdaptedRecord \<Rightarrow> bool list \<times> JoinOutcome \<Rightarrow> bool list \<times> JoinOutcome" where
  "join_one yandex cfg o1 st =
     (let found = fold (search_step (\<lambda>j. JoinPairScore o1 (yandex ! j) cfg)) (free_indices (fst st)) no_search
      in settle yandex o1 (judge cfg o1 yandex (length yandex) found) st)"

definition Join :: "AdaptedRecord list \<Rightarrow> AdaptedRecord list \<Rightarrow> JoinConfig \<Rightarrow> JoinOutcome" where
  "Join osm yandex cfg =
     (let (used, out) = fold (join_one yandex cfg) osm (replicate (length yandex) False, empty_outcome)
      in out\<lparr>jo_unverified := unused yandex used\<rparr>)"

section \<open>The join in pages\<close>

type_synonym memo = "string \<times> string \<rightharpoonup> real"

text \<open>The cell of records without coordinates has an index of its own.\<close>

record JoinPager =
  jp_cfg :: JoinConfig
  jp_page_size :: int
  jp_cells :: "int \<times> int \<Rightarrow> nat list"
  jp_yandex :: "AdaptedRecord list"
  jp_used :: "bool list"
  jp_osm :: "AdaptedRecord list"
  jp_cursor :: nat
  jp_memo :: memo

definition cellOf :: "real \<Rightarrow> real \<Rightarrow> int \<times> int" where
  "cellOf lat lon = (\<lfloor>lat / (5 / 10)\<rfloor>, \<lfloor>lon / (5 / 10)\<rfloor>)"

definition min_int32 :: int where
  "min_int32 = - 2147483648"

definition record_cell :: "AdaptedRecord \<Rightarrow> int \<times> int" where
  "record_cell y = (case (ar_lat y, ar_lon y) of (Some la, Some lo) \<Rightarrow> cellOf la lo | _ \<Rightarrow> (min_int32, min_int32))"

definition NewJoinPager :: "AdaptedRecord list \<Rightarrow> AdaptedRecord list \<Rightarrow> JoinConfig \<Rightarrow> int \<Rightarrow> JoinPager" where
  "NewJoinPager osm yandex cfg pageSize =
     \<lparr>jp_cfg = (if jc_ambiguity cfg = 0 then cfg\<lparr>jc_ambiguity := 5 / 100\<rparr> else cfg),
      jp_page_size = (if pageSize \<le> 0 then 100 else pageSize),
      jp_cells = fold (\<lambda>i cells. cells(record_cell (yandex ! i) := cells (record_cell (yandex ! i)) @ [i]))
        [0 ..< length yandex] (\<lambda>_. []),
      jp_yandex = yandex, jp_used = replicate (length yandex) False, jp_osm = osm, jp_cursor = 0, jp_memo = Map.empty\<rparr>"

definition push_new :: "nat list \<Rightarrow> nat list \<Rightarrow> nat list" where
  "push_new idxs out = fold (\<lambda>i out. if i \<in> set out then out else out @ [i]) idxs out"

definition nearbyYandex :: "JoinPager \<Rightarrow> real \<Rightarrow> real \<Rightarrow> nat list" where
  "nearbyYandex p lat lon =
     (let base = cellOf lat lon;
          out = fold (\<lambda>di out. fold (\<lambda>dj. push_new (jp_cells p (fst base + di, snd base + dj))) [-1, 0, 1] out) [-1, 0, 1] []
      in push_new (jp_cells p (min_int32, min_int32)) out)"

definition allFreeYandex :: "JoinPager \<Rightarrow> nat list" where
  "allFreeYandex p = free_indices (jp_used p)"

definition geoWindowM :: real where
  "geoWindowM = 2000"

definition cosApprox :: "real \<Rightarrow> real" where
  "cosApprox latDeg = 1 - latDeg * latDeg * (152 / 10000000)"

definition in_window :: "AdaptedRecord \<Rightarrow> AdaptedRecord \<Rightarrow> bool" where
  "in_window o1 y =
     (case (ar_lat o1, ar_lon o1, ar_lat y, ar_lon y) of
        (Some oLat, Some oLon, Some yLat, Some yLon) \<Rightarrow>
          (let dLat = (yLat - oLat) * 111000; dLon = (yLon - oLon) * 111000 * cosApprox oLat in
           dLat * dLat + dLon * dLon \<le> geoWindowM * geoWindowM \<or> codesMatch o1 y)
      | _ \<Rightarrow> True)"

definition prefilter :: "JoinPager \<Rightarrow> AdaptedRecord \<Rightarrow> nat list \<Rightarrow> nat list" where
  "prefilter p o1 candIdx =
     (if \<not> HasCoords o1 then candIdx else filter (\<lambda>j. in_window o1 (jp_yandex p ! j)) candIdx)"

definition pair_candidates :: "JoinPager \<Rightarrow> AdaptedRecord \<Rightarrow> nat list" where
  "pair_candidates p o1 =
     prefilter p o1 (case (ar_lat o1, ar_lon o1) of
         (Some la, Some lo) \<Rightarrow> nearbyYandex p la lo
       | _ \<Rightarrow> allFreeYandex p)"

text \<open>The similarity of two names is kept for the next pair with these names; it is not computed when the codes match.\<close>

definition cached_sim :: "memo \<Rightarrow> string \<Rightarrow> string \<Rightarrow> real" where
  "cached_sim memo x y = (case memo (x, y) of Some v \<Rightarrow> v | None \<Rightarrow> NormalizedSimilarity x y)"

definition pairScoreCached :: "JoinConfig \<Rightarrow> AdaptedRecord \<Rightarrow> AdaptedRecord \<Rightarrow> memo \<Rightarrow> real \<times> memo" where
  "pairScoreCached cfg a b memo =
     (scorePairBody a b cfg (cached_sim memo),
      if codesMatch a b then memo else memo((ar_name a, ar_name b) \<mapsto> cached_sim memo (ar_name a) (ar_name b)))"

definition page_search_step :: "JoinPager \<Rightarrow> AdaptedRecord \<Rightarrow> nat \<Rightarrow> search \<times> memo \<Rightarrow> search \<times> memo" where
  "page_search_step p o1 j = (\<lambda>(found, memo).
     if jp_used p ! j then (found, memo)
     else (let (s, memo) = pairScoreCached (jp_cfg p) o1 (jp_yandex p ! j) memo
           in (search_step (\<lambda>_. s) j found, memo)))"

definition page_one :: "AdaptedRecord \<Rightarrow> JoinPager \<times> JoinOutcome \<Rightarrow> JoinPager \<times> JoinOutcome" where
  "page_one o1 = (\<lambda>(p, out).
     let candIdx = pair_candidates p o1;
         (found, memo) = fold (page_search_step p o1) candIdx (no_search, jp_memo p);
         (used, out) = settle (jp_yandex p) o1 (judge (jp_cfg p) o1 (jp_yandex p) (length candIdx) found) (jp_used p, out)
     in (p\<lparr>jp_used := used, jp_memo := memo\<rparr>, out))"

definition page_end :: "JoinPager \<Rightarrow> nat" where
  "page_end p = (if int (jp_cursor p) + jp_page_size p > int (length (jp_osm p)) then length (jp_osm p)
     else nat (int (jp_cursor p) + jp_page_size p))"

definition NextPage :: "JoinPager \<Rightarrow> JoinPager \<times> JoinOutcome option" where
  "NextPage p =
     (if jp_cursor p \<ge> length (jp_osm p) then (p, None)
      else (let page = take (page_end p - jp_cursor p) (drop (jp_cursor p) (jp_osm p));
                (p', out) = fold page_one page (p\<lparr>jp_cursor := page_end p\<rparr>, empty_outcome)
            in (p', Some out)))"

definition FlushUnverified :: "JoinPager \<Rightarrow> AdaptedRecord list" where
  "FlushUnverified p = unused (jp_yandex p) (jp_used p)"

text \<open>The loop over the pages in \<open>cmd/skeleton-sync\<close>. That it ends is proved, not assumed.\<close>

partial_function (option) drain :: "JoinPager \<Rightarrow> JoinOutcome \<Rightarrow> JoinOutcome option" where
  "drain p out =
     (case NextPage p of
        (p, None) \<Rightarrow> Some (out\<lparr>jo_unverified := FlushUnverified p\<rparr>)
      | (p, Some page) \<Rightarrow>
          drain p (out\<lparr>jo_canon := jo_canon out @ jo_canon page, jo_ambiguous := jo_ambiguous out @ jo_ambiguous page\<rparr>))"

definition joinPaged :: "AdaptedRecord list \<Rightarrow> AdaptedRecord list \<Rightarrow> JoinOutcome option" where
  "joinPaged osm yan = drain (NewJoinPager osm yan DefaultJoinConfig 100) empty_outcome"

end
