(* ===== verification/Skeleton_Correct.thy ===== *)
theory Skeleton_Correct
  imports Skeleton
begin

text \<open>
  What the join promises: scores between 0 and 1, every record accounted for, no pair without its guard;
  the pages give what one pass gives, whatever their size, but not what \<open>Join\<close> gives.
\<close>

section \<open>Scores\<close>

lemma NormalizedSimilarity_unit: "0 \<le> NormalizedSimilarity a b \<and> NormalizedSimilarity a b \<le> 1"
  using NormalizedSimilarity_spec [of a b] by simp

lemma join_features_unit: "0 \<le> s \<and> s \<le> 1 \<Longrightarrow> unit_features (join_features a b cfg s)"
  by (auto simp: unit_features_def join_features_def Let_def split: option.split)

lemma join_features_weight: "0 < present_weight (join_features a b cfg s)"
  by (auto simp: present_weight_def join_features_def Let_def)

lemma scorePairBody_weighted:
  "scorePairBody a b cfg f = (if codesMatch a b then 1 else weighted (join_features a b cfg (f (ar_name a) (ar_name b))))"
  using join_features_weight [of a b cfg "f (ar_name a) (ar_name b)"]
  by (simp add: scorePairBody_def weighted_def Let_def)

text \<open>The score of an OSM record and a Yandex record lies between 0 and 1, and it is 1 if they share a code.\<close>

theorem join_score_unit:
  "0 \<le> JoinPairScore a b cfg \<and> JoinPairScore a b cfg \<le> 1 \<and> (if codesMatch a b then JoinPairScore a b cfg = 1 else True)"
  using weighted_unit [OF join_features_unit [OF NormalizedSimilarity_unit, where a = a and b = b and cfg = cfg]]
  by (simp add: JoinPairScore_def scorePairBody_weighted)

section \<open>The search\<close>

text \<open>A search over a list of candidates finds one of them, and no candidate scores higher.\<close>

lemma search_step_facts:
  assumes "search_step f j (b0, s0, t0) = (b1, s1, t1)"
  shows "(b1 = b0 \<and> s1 = s0 \<or> b1 = Some j \<and> s1 = f j) \<and> s0 \<le> s1 \<and> f j \<le> s1"
  using assms by (auto simp: search_step_def split: if_splits)

lemma search_fold:
  assumes "fold (search_step f) js (b0, s0, t0) = (b, s, t)"
  shows "(b = b0 \<and> s = s0 \<or> (\<exists>j \<in> set js. b = Some j \<and> s = f j)) \<and> s0 \<le> s \<and> (\<forall>j \<in> set js. f j \<le> s)"
  using assms
proof (induction js arbitrary: b0 s0 t0)
  case (Cons j js)
  obtain b1 s1 t1 where 1: "search_step f j (b0, s0, t0) = (b1, s1, t1)" by (metis prod_cases3)
  then have "fold (search_step f) js (b1, s1, t1) = (b, s, t)" using Cons.prems by simp
  from Cons.IH [OF this] search_step_facts [OF 1] show ?case by auto
qed simp

lemma search_from_nothing:
  assumes "fold (search_step f) js no_search = (Some j, s, t)"
  shows "j \<in> set js \<and> s = f j \<and> list_all (\<lambda>k. f k \<le> f j) js"
  using search_fold [of f js None 0 0 "Some j" s t] assms by (auto simp: no_search_def list_all_iff)

lemma judge_facts:
  assumes "fold (search_step f) js no_search = found"
  shows "case judge cfg o1 yandex n found of
      Verified b s \<Rightarrow> b \<in> set js \<and> s = f b \<and> list_all (\<lambda>k. f k \<le> s) js \<and> jc_threshold cfg \<le> s \<and> hardGuard o1 (yandex ! b) cfg
    | AmbiguousPair b s \<Rightarrow> b \<in> set js \<and> s = f b \<and> list_all (\<lambda>k. f k \<le> s) js
    | NoPair s \<Rightarrow> True"
proof -
  obtain b s t where found: "found = (b, s, t)" by (metis prod_cases3)
  show ?thesis
    using search_from_nothing [of f js _ s t] assms
    by (auto simp: found judge_def Let_def split: option.split)
qed

section \<open>Every record is accounted for\<close>

definition picks_free :: "bool list \<Rightarrow> verdict \<Rightarrow> bool" where
  "picks_free used v \<longleftrightarrow> (case v of Verified b s \<Rightarrow> b < length used \<and> \<not> used ! b
     | AmbiguousPair b s \<Rightarrow> b < length used \<and> \<not> used ! b | NoPair s \<Rightarrow> True)"

definition consumed :: "JoinOutcome \<Rightarrow> nat" where
  "consumed out = length (filter (\<lambda>r. jr_enrichment r = Enriched) (jo_canon out)) + length (jo_ambiguous out)"

definition balanced :: "nat \<Rightarrow> bool list \<times> JoinOutcome \<Rightarrow> bool" where
  "balanced n = (\<lambda>(used, out). length (jo_canon out) + length (jo_ambiguous out) = n \<and>
     consumed out + length (free_indices used) = length used)"

lemma free_indices_update:
  assumes "b < length used" "\<not> used ! b"
  shows "length (free_indices used) = Suc (length (free_indices (used[b := True])))"
proof -
  have "set (free_indices used) = insert b (set (free_indices (used[b := True])))" "b \<notin> set (free_indices (used[b := True]))"
    using assms by (auto simp: free_indices_def nth_list_update)
  moreover have d: "distinct (free_indices u)" for u by (simp add: free_indices_def)
  ultimately show ?thesis by (metis card_insert_disjoint distinct_card List.finite_set)
qed

lemma balanced_settle:
  assumes "picks_free (fst st) v" "balanced n st"
  shows "balanced (Suc n) (settle yandex o1 v st)" "length (fst (settle yandex o1 v st)) = length (fst st)"
  using assms free_indices_update
  by (cases v; fastforce simp: balanced_def settle_def picks_free_def consumed_def split: prod.splits)+

text \<open>A record of the canon is an OSM record, as it came or enriched from a Yandex record that fits it.\<close>

definition well_joined :: "AdaptedRecord list \<Rightarrow> AdaptedRecord list \<Rightarrow> JoinConfig \<Rightarrow> JoinedRecord \<Rightarrow> bool" where
  "well_joined osm yandex cfg r \<longleftrightarrow>
     (if jr_enrichment r = Enriched
      then list_ex (\<lambda>o1. list_ex (\<lambda>y. jr_record r = enrichFrom o1 y \<and> jr_score r = JoinPairScore o1 y cfg \<and>
             jc_threshold cfg \<le> jr_score r \<and> hardGuard o1 y cfg) yandex) osm
      else jr_record r \<in> set osm)"

definition verdict_ok :: "AdaptedRecord list \<Rightarrow> JoinConfig \<Rightarrow> AdaptedRecord \<Rightarrow> bool list \<Rightarrow> verdict \<Rightarrow> bool" where
  "verdict_ok yandex cfg o1 used v \<longleftrightarrow> picks_free used v \<and>
     (case v of Verified b s \<Rightarrow> s = JoinPairScore o1 (yandex ! b) cfg \<and> jc_threshold cfg \<le> s \<and> hardGuard o1 (yandex ! b) cfg
      | _ \<Rightarrow> True)"

definition join_inv :: "AdaptedRecord list \<Rightarrow> AdaptedRecord list \<Rightarrow> JoinConfig \<Rightarrow> nat \<Rightarrow> bool list \<times> JoinOutcome \<Rightarrow> bool" where
  "join_inv osm yandex cfg n st \<longleftrightarrow> balanced n st \<and> length (fst st) = length yandex \<and>
     list_all (well_joined osm yandex cfg) (jo_canon (snd st))"

lemma join_inv_settle:
  assumes "join_inv osm yandex cfg n st" "verdict_ok yandex cfg o1 (fst st) v" "o1 \<in> set osm"
  shows "join_inv osm yandex cfg (Suc n) (settle yandex o1 v st)"
proof -
  have "well_joined osm yandex cfg \<lparr>jr_record = enrichFrom o1 (yandex ! b), jr_score = s, jr_enrichment = Enriched\<rparr>"
    if "v = Verified b s" for b s
  proof -
    have "yandex ! b \<in> set yandex" using assms that by (auto simp: join_inv_def verdict_ok_def picks_free_def)
    then show ?thesis
      using assms(2,3) that by (fastforce simp: well_joined_def verdict_ok_def list_ex_iff)
  qed
  then have "list_all (well_joined osm yandex cfg) (jo_canon (snd (settle yandex o1 v st)))"
    using assms
    by (cases v) (auto simp: join_inv_def settle_def well_joined_def split: prod.splits)
  then show ?thesis
    using assms balanced_settle [of st v n yandex o1] by (simp add: join_inv_def verdict_ok_def)
qed

lemma judge_ok:
  assumes "set js \<subseteq> set (free_indices used)"
  shows "verdict_ok yandex cfg o1 used
    (judge cfg o1 yandex n (fold (search_step (\<lambda>j. JoinPairScore o1 (yandex ! j) cfg)) js no_search))"
proof -
  have "b \<in> set js \<Longrightarrow> b < length used \<and> \<not> used ! b" for b using assms by (auto simp: free_indices_def)
  then show ?thesis
    using judge_facts [OF refl, where cfg = cfg and f = "\<lambda>j. JoinPairScore o1 (yandex ! j) cfg" and js = js
        and ?o1.0 = o1 and yandex = yandex and n = n]
    by (auto simp: verdict_ok_def picks_free_def split: verdict.splits)
qed

lemma join_inv_fold:
  assumes "\<And>o1 st. o1 \<in> set osm \<Longrightarrow> \<exists>v. verdict_ok yandex cfg o1 (fst st) v \<and> step o1 st = settle yandex o1 v st"
    and "set os \<subseteq> set osm" "join_inv osm yandex cfg n st"
  shows "join_inv osm yandex cfg (n + length os) (fold step os st)"
  using assms(2,3)
proof (induction os arbitrary: n st)
  case (Cons o1 os)
  obtain v where "verdict_ok yandex cfg o1 (fst st) v" "step o1 st = settle yandex o1 v st"
    using assms(1) Cons.prems(1) by (metis list.set_intros(1) subsetD)
  then have "join_inv osm yandex cfg (Suc n) (step o1 st)"
    using join_inv_settle Cons.prems by simp
  then show ?case using Cons.IH [of "Suc n"] Cons.prems(1) by simp
qed simp

lemma join_inv_start: "join_inv osm yandex cfg 0 (replicate (length yandex) False, empty_outcome)"
  by (simp add: join_inv_def balanced_def consumed_def empty_outcome_def free_indices_def filter_id_conv)

definition outcome_ok :: "AdaptedRecord list \<Rightarrow> AdaptedRecord list \<Rightarrow> JoinConfig \<Rightarrow> JoinOutcome \<Rightarrow> bool" where
  "outcome_ok osm yandex cfg out \<longleftrightarrow>
     length (jo_canon out) + length (jo_ambiguous out) = length osm \<and>
     consumed out + length (jo_unverified out) = length yandex \<and>
     set (jo_unverified out) \<subseteq> set yandex \<and>
     list_all (well_joined osm yandex cfg) (jo_canon out)"

lemma outcome_from_inv:
  assumes "join_inv osm yandex cfg (length osm) (used, out)"
  shows "outcome_ok osm yandex cfg (out\<lparr>jo_unverified := unused yandex used\<rparr>)"
  using assms
  by (auto simp: join_inv_def balanced_def outcome_ok_def consumed_def unused_def free_indices_def)

text \<open>C18: A join loses nothing and pairs nothing without reason: every OSM record yields one record, in the canon
or among the ambiguous ones, every Yandex record is either consumed once or listed as unverified, and a
record of the canon is enriched only from a Yandex record with a score that reaches the threshold and either a
common code or a distance within the limit.\<close>

theorem join_accounts_for_all:
  "outcome_ok osm yandex cfg (Join osm yandex cfg)"
proof -
  have "\<exists>v. verdict_ok yandex cfg o1 (fst st) v \<and> join_one yandex cfg o1 st = settle yandex o1 v st" for o1 st
    using judge_ok [OF subset_refl, of yandex cfg o1 "fst st"] by (auto simp: join_one_def Let_def)
  then have "join_inv osm yandex cfg (length osm) (fold (join_one yandex cfg) osm (replicate (length yandex) False, empty_outcome))"
    using join_inv_fold [OF _ subset_refl join_inv_start] by fastforce
  then show ?thesis
    by (auto simp: Join_def intro!: outcome_from_inv split: prod.split)
qed

section \<open>Pages\<close>

text \<open>A memo is valid if it holds only similarities; then the cached score is the score.\<close>

definition valid_memo :: "memo \<Rightarrow> bool" where
  "valid_memo m \<longleftrightarrow> (\<forall>x y v. m (x, y) = Some v \<longrightarrow> v = NormalizedSimilarity x y)"

lemma cached_sim_valid: "valid_memo m \<Longrightarrow> cached_sim m = NormalizedSimilarity"
  by (intro ext) (auto simp: cached_sim_def valid_memo_def split: option.split)

lemma pairScoreCached_valid:
  assumes "valid_memo m" "pairScoreCached cfg a b m = (s, m')"
  shows "s = JoinPairScore a b cfg \<and> valid_memo m'"
  using assms by (auto simp: pairScoreCached_def cached_sim_valid JoinPairScore_def valid_memo_def split: if_splits)

lemma page_search_valid:
  assumes "valid_memo m" "fold (page_search_step p o1) js (found, m) = (found', m')"
  shows "found' = fold (search_step (\<lambda>j. JoinPairScore o1 (jp_yandex p ! j) (jp_cfg p))) (filter (\<lambda>j. \<not> jp_used p ! j) js) found \<and>
    valid_memo m'"
  using assms
proof (induction js arbitrary: found m)
  case (Cons j js)
  show ?case
  proof (cases "jp_used p ! j")
    case True
    then show ?thesis using Cons by (simp add: page_search_step_def)
  next
    case False
    obtain s m1 where s: "pairScoreCached (jp_cfg p) o1 (jp_yandex p ! j) m = (s, m1)" by force
    from pairScoreCached_valid [OF Cons.prems(1) s] show ?thesis
      using Cons.IH [of m1 "search_step (\<lambda>_. s) j found"] Cons.prems(2) False s
      by (simp add: page_search_step_def search_step_def)
  qed
qed simp

text \<open>One pass without pages and without a memo, over the same cells.\<close>

definition pass_one :: "JoinPager \<Rightarrow> AdaptedRecord \<Rightarrow> bool list \<times> JoinOutcome \<Rightarrow> bool list \<times> JoinOutcome" where
  "pass_one p o1 st =
     (let js = pair_candidates (p\<lparr>jp_used := fst st\<rparr>) o1;
          found = fold (search_step (\<lambda>j. JoinPairScore o1 (jp_yandex p ! j) (jp_cfg p))) (filter (\<lambda>j. \<not> fst st ! j) js) no_search
      in settle (jp_yandex p) o1 (judge (jp_cfg p) o1 (jp_yandex p) (length js) found) st)"

lemma pair_candidates_frame [simp]:
  "pair_candidates (p\<lparr>jp_memo := m\<rparr>) o1 = pair_candidates p o1"
  "pair_candidates (p\<lparr>jp_cursor := c\<rparr>) o1 = pair_candidates p o1"
  by (simp_all add: pair_candidates_def prefilter_def nearbyYandex_def allFreeYandex_def Let_def split: option.split)

lemma pass_one_frame [simp]:
  "pass_one (p\<lparr>jp_memo := m\<rparr>) = pass_one p" "pass_one (p\<lparr>jp_cursor := c\<rparr>) = pass_one p" "pass_one (p\<lparr>jp_used := u\<rparr>) = pass_one p"
proof -
  have "p\<lparr>jp_memo := m, jp_used := v\<rparr> = p\<lparr>jp_used := v\<rparr>\<lparr>jp_memo := m\<rparr>" "p\<lparr>jp_cursor := c, jp_used := v\<rparr> = p\<lparr>jp_used := v\<rparr>\<lparr>jp_cursor := c\<rparr>"
    for v by simp_all
  then show "pass_one (p\<lparr>jp_memo := m\<rparr>) = pass_one p" "pass_one (p\<lparr>jp_cursor := c\<rparr>) = pass_one p" "pass_one (p\<lparr>jp_used := u\<rparr>) = pass_one p"
    by (intro ext; simp only: pass_one_def pair_candidates_frame; simp)+
qed

lemma page_one_pass:
  assumes "valid_memo (jp_memo p)"
  shows "\<exists>m. valid_memo m \<and> page_one o1 (p, out) =
    (case pass_one p o1 (jp_used p, out) of (used, out') \<Rightarrow> (p\<lparr>jp_used := used, jp_memo := m\<rparr>, out'))"
proof -
  obtain found m where f: "fold (page_search_step p o1) (pair_candidates p o1) (no_search, jp_memo p) = (found, m)" by (metis prod.exhaust)
  have u: "p\<lparr>jp_used := jp_used p\<rparr> = p" by simp
  show ?thesis
    using page_search_valid [OF assms f]
    by (intro exI [of _ m]) (simp add: page_one_def pass_one_def f Let_def u split: prod.split)
qed

lemma page_fold_pass:
  assumes "valid_memo (jp_memo p)"
  shows "\<exists>m. valid_memo m \<and> fold page_one os (p, out) =
    (case fold (pass_one p) os (jp_used p, out) of (used, out') \<Rightarrow> (p\<lparr>jp_used := used, jp_memo := m\<rparr>, out'))"
  using assms
proof (induction os arbitrary: p out)
  case Nil
  then show ?case by (intro exI [of _ "jp_memo p"]) simp
next
  case (Cons o1 os)
  obtain used out' where st: "pass_one p o1 (jp_used p, out) = (used, out')" by force
  obtain m where m: "valid_memo m" "page_one o1 (p, out) = (p\<lparr>jp_used := used, jp_memo := m\<rparr>, out')"
    using page_one_pass [OF Cons.prems, of o1 out] st by auto
  let ?p = "p\<lparr>jp_used := used, jp_memo := m\<rparr>"
  have p: "pass_one ?p = pass_one p" by (metis pass_one_frame(1,3))
  obtain m' where "valid_memo m'" "fold page_one os (?p, out') =
      (case fold (pass_one p) os (used, out') of (used, out') \<Rightarrow> (?p\<lparr>jp_used := used, jp_memo := m'\<rparr>, out'))"
    using Cons.IH [of ?p out'] m(1) p by auto
  then show ?case using m(2) st by (intro exI [of _ m']) (auto split: prod.splits)
qed

definition plus_outcome :: "JoinOutcome \<Rightarrow> JoinOutcome \<Rightarrow> JoinOutcome" where
  "plus_outcome a b = a\<lparr>jo_canon := jo_canon a @ jo_canon b, jo_ambiguous := jo_ambiguous a @ jo_ambiguous b\<rparr>"

lemma plus_empty [simp]: "plus_outcome a empty_outcome = a"
  by (simp add: plus_outcome_def empty_outcome_def)

lemma plus_assoc: "plus_outcome (plus_outcome a b) c = plus_outcome a (plus_outcome b c)"
  by (simp add: plus_outcome_def)

lemma settle_plus: "settle y o1 v (u, plus_outcome a b) = (case settle y o1 v (u, b) of (u, b) \<Rightarrow> (u, plus_outcome a b))"
  by (simp add: settle_def plus_outcome_def split: verdict.split)

lemma pass_one_plus: "pass_one p o1 (u, plus_outcome a b) = (case pass_one p o1 (u, b) of (u, b) \<Rightarrow> (u, plus_outcome a b))"
  by (simp add: pass_one_def Let_def settle_plus)

lemma pass_fold_plus:
  "fold (pass_one p) os (u, plus_outcome a b) = (case fold (pass_one p) os (u, b) of (u, b) \<Rightarrow> (u, plus_outcome a b))"
proof (induction os arbitrary: u b)
  case (Cons o1 os)
  obtain u' b' where "pass_one p o1 (u, b) = (u', b')" by force
  then show ?case using Cons by (simp add: pass_one_plus)
qed simp

definition pass_all :: "JoinPager \<Rightarrow> AdaptedRecord list \<Rightarrow> bool list \<Rightarrow> JoinOutcome \<Rightarrow> JoinOutcome" where
  "pass_all p os used out =
     (let (used, out) = fold (pass_one p) os (used, out) in out\<lparr>jo_unverified := unused (jp_yandex p) used\<rparr>)"

lemma settle_unverified: "jo_unverified (snd (settle y o1 v st)) = jo_unverified (snd st)"
  by (cases st; cases v) (simp_all add: settle_def)

lemma pass_fold_unverified: "jo_unverified (snd (fold (pass_one p) os st)) = jo_unverified (snd st)"
  by (induction os arbitrary: st) (simp_all add: pass_one_def Let_def settle_unverified)

lemma drain_pass:
  assumes "valid_memo (jp_memo p)" "0 < jp_page_size p"
  shows "drain p out = Some (pass_all p (drop (jp_cursor p) (jp_osm p)) (jp_used p) out)"
  using assms
proof (induction "length (jp_osm p) - jp_cursor p" arbitrary: p out rule: less_induct)
  case less
  show ?case
  proof (cases "jp_cursor p \<ge> length (jp_osm p)")
    case True
    then show ?thesis
      by (subst drain.simps) (simp add: NextPage_def pass_all_def FlushUnverified_def)
  next
    case False
    let ?n = "page_end p - jp_cursor p"
    let ?page = "take ?n (drop (jp_cursor p) (jp_osm p))"
    have e: "jp_cursor p < page_end p" "page_end p \<le> length (jp_osm p)"
      using False less.prems(2) by (auto simp: page_end_def)
    obtain used o2 where f: "fold (pass_one p) ?page (jp_used p, empty_outcome) = (used, o2)" by force
    obtain m where m: "valid_memo m" "NextPage p = (p\<lparr>jp_cursor := page_end p, jp_used := used, jp_memo := m\<rparr>, Some o2)"
      using page_fold_pass [of "p\<lparr>jp_cursor := page_end p\<rparr>" ?page empty_outcome] less.prems(1) False f
      by (auto simp: NextPage_def)
    let ?p = "p\<lparr>jp_cursor := page_end p, jp_used := used, jp_memo := m\<rparr>"
    have frame: "pass_one ?p = pass_one p" by (metis pass_one_frame)
    have "drain p out = drain ?p (plus_outcome out o2)"
      by (subst drain.simps) (simp add: m plus_outcome_def)
    also have "\<dots> = Some (pass_all ?p (drop (page_end p) (jp_osm p)) used (plus_outcome out o2))"
      using less.hyps [of ?p] m(1) less.prems(2) e by simp
    also have "pass_all ?p (drop (page_end p) (jp_osm p)) used (plus_outcome out o2)
        = pass_all p (?page @ drop (page_end p) (jp_osm p)) (jp_used p) (plus_outcome out empty_outcome)"
      by (simp only: pass_all_def frame fold_append comp_def pass_fold_plus f prod.case) simp
    also have "?page @ drop (page_end p) (jp_osm p) = drop (jp_cursor p) (jp_osm p)"
      using append_take_drop_id [of ?n "drop (jp_cursor p) (jp_osm p)"] e(1) by simp
    finally show ?thesis by simp
  qed
qed

lemma NewJoinPager_sel [simp]:
  "jp_memo (NewJoinPager osm yan cfg n) = Map.empty" "0 < jp_page_size (NewJoinPager osm yan cfg n)"
  "jp_cursor (NewJoinPager osm yan cfg n) = 0" "jp_osm (NewJoinPager osm yan cfg n) = osm"
  "jp_yandex (NewJoinPager osm yan cfg n) = yan" "jp_used (NewJoinPager osm yan cfg n) = replicate (length yan) False"
  "jp_cfg (NewJoinPager osm yan cfg n) = (if jc_ambiguity cfg = 0 then cfg\<lparr>jc_ambiguity := 5 / 100\<rparr> else cfg)"
  by (simp_all add: NewJoinPager_def)

lemma pass_one_page_size: "pass_one (p\<lparr>jp_page_size := n\<rparr>) = pass_one p"
proof -
  have "p\<lparr>jp_page_size := n, jp_used := v\<rparr> = p\<lparr>jp_used := v\<rparr>\<lparr>jp_page_size := n\<rparr>" for v by simp
  moreover have "pair_candidates (q\<lparr>jp_page_size := n\<rparr>) o1 = pair_candidates q o1" for q o1
    by (simp add: pair_candidates_def prefilter_def nearbyYandex_def allFreeYandex_def Let_def split: option.split)
  ultimately show ?thesis by (intro ext; simp only: pass_one_def; simp)
qed

lemma pass_all_page_size: "pass_all (NewJoinPager osm yan cfg n) = pass_all (NewJoinPager osm yan cfg m)"
proof -
  have "NewJoinPager osm yan cfg n = (NewJoinPager osm yan cfg m)\<lparr>jp_page_size := jp_page_size (NewJoinPager osm yan cfg n)\<rparr>"
    by (simp add: NewJoinPager_def)
  then have "pass_one (NewJoinPager osm yan cfg n) = pass_one (NewJoinPager osm yan cfg m)" by (metis pass_one_page_size)
  then show ?thesis by (intro ext) (simp add: pass_all_def)
qed

lemma drain_new:
  "drain (NewJoinPager osm yan cfg n) empty_outcome =
     Some (pass_all (NewJoinPager osm yan cfg n) osm (replicate (length yan) False) empty_outcome)"
  using drain_pass [of "NewJoinPager osm yan cfg n" empty_outcome] by (simp add: valid_memo_def)

definition pair_index_ok :: "JoinPager \<Rightarrow> bool" where
  "pair_index_ok p \<longleftrightarrow> (\<forall>c. set (jp_cells p c) \<subseteq> {..< length (jp_yandex p)})"

lemma fold_cells_bound:
  assumes "\<And>c. set (cells c) \<subseteq> {..< n}" "set is \<subseteq> {..< n}"
  shows "set (fold (\<lambda>i cells. cells(g i := cells (g i) @ [i])) is cells c) \<subseteq> {..< n}"
  using assms by (induction "is" arbitrary: cells) auto

lemma NewJoinPager_index: "set (jp_cells (NewJoinPager osm yan cfg n) c) \<subseteq> {..< length yan}"
  unfolding NewJoinPager_def JoinPager.select_convs by (rule fold_cells_bound) auto

lemma set_push_new: "set (push_new is out) = set is \<union> set out"
  by (induction "is" arbitrary: out) (auto simp: push_new_def)

lemma set_nearbyYandex: "set (nearbyYandex p lat lon) \<subseteq> (\<Union>c. set (jp_cells p c))"
  by (auto simp: nearbyYandex_def Let_def set_push_new)

lemma pair_candidates_bound:
  assumes "\<And>c. set (jp_cells p c) \<subseteq> {..< n}" "length (jp_used p) = n"
  shows "set (pair_candidates p o1) \<subseteq> {..< n}"
  using assms set_nearbyYandex [of p]
  by (fastforce simp: pair_candidates_def prefilter_def allFreeYandex_def free_indices_def split: option.splits if_splits)

lemma pass_one_verdict:
  assumes "length (fst st) = length yan" "p = NewJoinPager osm yan cfg n"
  shows "\<exists>v. verdict_ok yan (jp_cfg p) o1 (fst st) v \<and> pass_one p o1 st = settle yan o1 v st"
proof -
  let ?js = "pair_candidates (p\<lparr>jp_used := fst st\<rparr>) o1"
  have "set ?js \<subseteq> {..< length yan}"
    using assms NewJoinPager_index by (intro pair_candidates_bound) simp_all
  then have "set (filter (\<lambda>j. \<not> fst st ! j) ?js) \<subseteq> set (free_indices (fst st))"
    using assms(1) by (auto simp: free_indices_def)
  moreover have "jp_yandex p = yan" using assms(2) by simp
  ultimately show ?thesis
    unfolding pass_one_def Let_def by (intro exI conjI) (erule judge_ok, simp only:)
qed

lemma pass_all_ok:
  assumes "p = NewJoinPager osm yan cfg n"
  shows "outcome_ok osm yan (jp_cfg p) (pass_all p osm (replicate (length yan) False) empty_outcome)"
proof -
  have "join_inv osm yan (jp_cfg p) k st \<Longrightarrow> set os \<subseteq> set osm \<Longrightarrow> join_inv osm yan (jp_cfg p) (k + length os) (fold (pass_one p) os st)"
    for os k st
  proof (induction os arbitrary: k st)
    case (Cons o1 os)
    have "length (fst st) = length yan" using Cons.prems(1) by (simp add: join_inv_def)
    from pass_one_verdict [OF this assms] obtain v where
      "verdict_ok yan (jp_cfg p) o1 (fst st) v" "pass_one p o1 st = settle yan o1 v st" by blast
    then have "join_inv osm yan (jp_cfg p) (Suc k) (pass_one p o1 st)"
      using join_inv_settle Cons.prems by simp
    then show ?case using Cons.IH [of "Suc k"] Cons.prems(2) by simp
  qed simp
  from this [OF join_inv_start subset_refl] show ?thesis
    unfolding pass_all_def assms by (auto intro!: outcome_from_inv split: prod.split)
qed

text \<open>C21: The paged join ends, and pages and memo are invisible: for every two page sizes the outcome is the same, and
it accounts for all records as a join does.\<close>

theorem paging_is_invisible:
  "\<exists>out. drain (NewJoinPager osm yan cfg n) empty_outcome = Some out \<and>
     drain (NewJoinPager osm yan cfg m) empty_outcome = Some out \<and>
     outcome_ok osm yan (if jc_ambiguity cfg = 0 then cfg\<lparr>jc_ambiguity := 5 / 100\<rparr> else cfg) out"
  using pass_all_ok [OF refl, of osm yan cfg n] pass_all_page_size [of osm yan cfg n m]
  by (simp add: drain_new)

section \<open>Where the pages differ from the join\<close>

definition demo_record :: "real \<Rightarrow> real \<Rightarrow> string \<Rightarrow> AdaptedRecord" where
  "demo_record lat lon code = empty_record\<lparr>ar_lat := Some lat, ar_lon := Some lon,
     ar_ids := [\<lparr>ai_system = ''esr'', ai_code_type = ''esr_code'', ai_code = code\<rparr>]\<rparr>"

lemma demo_codes: "codesMatch (demo_record a b c) (demo_record d e c') \<longleftrightarrow> c = c' \<and> c \<noteq> ''''"
  by (auto simp: demo_record_def codesMatch_def codesEqual_def code_equal_def)

lemma demo_cells: "cellOf (2 / 5) 0 = (0, 0)" "cellOf (11 / 10) 0 = (2, 0)"
proof -
  have "\<lfloor>2 / 5 / (5 / 10) :: real\<rfloor> = 0" "\<lfloor>11 / 10 / (5 / 10) :: real\<rfloor> = 2" by (simp_all add: floor_eq_iff)
  then show "cellOf (2 / 5) 0 = (0, 0)" "cellOf (11 / 10) 0 = (2, 0)" by (simp_all add: cellOf_def)
qed

lemma demo_join_score: "c \<noteq> '''' \<Longrightarrow> JoinPairScore (demo_record a b c) (demo_record d e c) cfg = 1"
  by (simp add: JoinPairScore_def scorePairBody_def demo_codes)

text \<open>The paged join is not the join, although the code says so: a Yandex record with the same code as an OSM
record, 0.7 degrees away, is found by \<open>Join\<close> and missed by the pages, which look only into the neighbour
cells; the comment of the filter calls just such a pair legitimate.\<close>

theorem paged_join_misses_code:
  "let o1 = demo_record (2 / 5) 0 ''1''; y = demo_record (11 / 10) 0 ''1'' in
     map jr_enrichment (jo_canon (Join [o1] [y] DefaultJoinConfig)) = [Enriched] \<and>
     map_option (\<lambda>out. (map jr_enrichment (jo_canon out), jo_unverified out)) (joinPaged [o1] [y]) = Some ([IdentityOnly], [y])"
proof -
  let ?o = "demo_record (2 / 5) 0 ''1''" and ?y = "demo_record (11 / 10) 0 ''1''"
  let ?p = "NewJoinPager [?o] [?y] DefaultJoinConfig 100"
  have coords: "ar_lat ?o = Some (2 / 5)" "ar_lon ?o = Some 0" "ar_lat ?y = Some (11 / 10)" "ar_lon ?y = Some 0"
    by (simp_all add: demo_record_def)
  have "map jr_enrichment (jo_canon (Join [?o] [?y] DefaultJoinConfig)) = [Enriched]"
    by (simp add: Join_def join_one_def free_indices_def demo_join_score judge_def hardGuard_def demo_codes search_step_def
        no_search_def DefaultJoinConfig_def settle_def empty_outcome_def)
  moreover have cells: "jp_cells ?p = (\<lambda>_. [])((2, 0) := [0])"
    by (simp add: NewJoinPager_def record_cell_def coords demo_cells)
  have "pair_candidates (?p\<lparr>jp_used := u\<rparr>) ?o = []" for u
    by (simp add: pair_candidates_def prefilter_def coords nearbyYandex_def cells demo_cells push_new_def min_int32_def)
  then have "joinPaged [?o] [?y] = Some \<lparr>jo_canon = [\<lparr>jr_record = ?o, jr_score = 0, jr_enrichment = IdentityOnly\<rparr>],
      jo_unverified = [?y], jo_ambiguous = []\<rparr>"
    unfolding joinPaged_def drain_new
    by (simp add: pass_all_def pass_one_def judge_def no_search_def settle_def empty_outcome_def
        unused_def free_indices_def)
  ultimately show ?thesis by (simp add: Let_def)
qed

lemma arcsin_half_sin:
  assumes "0 \<le> x" "x \<le> pi / 2"
  shows "arcsin (sin x / 2) \<le> x / 2"
proof -
  have "sin x = 2 * sin (x / 2) * cos (x / 2)" using sin_double [of "x / 2"] by simp
  moreover have "0 \<le> sin (x / 2)" using assms by (intro sin_ge_zero) auto
  ultimately have "sin x / 2 \<le> sin (x / 2)" by (simp add: mult_left_le)
  moreover have "0 \<le> sin x" using assms by (intro sin_ge_zero) auto
  ultimately have "arcsin (sin x / 2) \<le> arcsin (sin (x / 2))" by (intro arcsin_le_arcsin) auto
  then show ?thesis using assms by (simp add: arcsin_sin)
qed

text \<open>The filter of the pages takes the cosine of the latitude for ten times too flat a parabola: at 60 degrees
north it is 0.945 instead of one half, and a record less than 1,500 metres away falls out of the window of
2,000 metres, where it would still count in the score.\<close>

theorem window_too_narrow:
  "let o1 = demo_record 60 0 ''1''; y = demo_record 60 (198 / 10000) ''2'' in
     cos (60 * pi / 180) = 1 / 2 \<and> 94 / 100 < cosApprox 60 \<and>
     record_distance o1 y = Some (haversineM 60 0 60 (198 / 10000)) \<and> haversineM 60 0 60 (198 / 10000) < 1500 \<and>
     \<not> in_window o1 y"
proof -
  have c: "cos (pi / 3) = 1 / 2" by (rule cos_60)
  let ?x = "198 / 10000 * pi / 180 / 2"
  have x: "0 \<le> ?x" "?x \<le> pi / 2" by simp_all
  have "haversineM 60 0 60 (198 / 10000) = 2 * 6371 * arcsin (sin ?x / 2) * 1000"
  proof -
    have s: "0 \<le> sin ?x" using x by (intro sin_ge_zero) auto
    have "haversine_h 60 0 60 (198 / 10000) = (sin ?x / 2)\<^sup>2"
      by (simp add: haversine_h_def c Let_def power2_eq_square)
    then show ?thesis using s unfolding haversineM_def Haversine_def coords.select_convs by (simp only: real_sqrt_abs)
  qed
  moreover have "arcsin (sin ?x / 2) \<le> ?x / 2" by (rule arcsin_half_sin [OF x])
  ultimately have "haversineM 60 0 60 (198 / 10000) < 1500"
    using pi_less_4 by simp
  then show ?thesis
    by (simp add: c cosApprox_def record_distance_def in_window_def demo_codes geoWindowM_def Let_def)
      (simp add: demo_record_def codesMatch_def codesEqual_def code_equal_def cosApprox_def geoWindowM_def)
qed

end
