(* ===== verification/StopArea_Correct.thy ===== *)
theory StopArea_Correct
  imports StopArea
begin

text \<open>
  The union-find structure: parents never point upwards, so the search for a root ends; halving paths keeps
  the roots; two indices have one root exactly when a chain of united pairs joins them. Hence the
  clusters are the connected components, and no identifier is lost by merging.
\<close>

section \<open>Roots\<close>

definition downward :: "parents \<Rightarrow> bool" where
  "downward p \<longleftrightarrow> (\<forall>x. p x \<le> x)"

function root_of :: "parents \<Rightarrow> nat \<Rightarrow> nat" where
  "root_of p x = (if p x < x then root_of p (p x) else x)"
  by auto
termination by (relation "measure snd") auto

declare root_of.simps [simp del]

lemma root_of_step: "downward p \<Longrightarrow> root_of p (p x) = root_of p x"
proof (cases "p x < x")
  case False
  moreover assume "downward p"
  ultimately have "p x = x" by (metis downward_def le_neq_implies_less)
  then show ?thesis by simp
qed (simp add: root_of.simps [of p x])

lemma root_of_idem [simp]: "root_of p (root_of p x) = root_of p x"
  by (induction p x rule: root_of.induct) (metis root_of.simps)

lemma root_of_le: "root_of p x \<le> x"
  by (induction p x rule: root_of.induct) (metis less_imp_le_nat nle_le order_trans root_of.simps)

lemma root_of_fixed: "downward p \<Longrightarrow> p (root_of p x) = root_of p x"
  by (induction p x rule: root_of.induct) (metis downward_def le_neq_implies_less root_of.simps)

lemma root_of_self: "p x = x \<Longrightarrow> root_of p x = x"
  by (simp add: root_of.simps)

lemma downward_halve: "downward p \<Longrightarrow> downward (p(x := p (p x)))"
  by (auto simp: downward_def intro: order_trans)

lemma root_of_halve:
  assumes "downward p"
  shows "root_of (p(x := p (p x))) y = root_of p y"
proof (induction y rule: less_induct)
  case (less y)
  define q where "q = p(x := p (p x))"
  have d: "downward q" unfolding q_def using assms by (rule downward_halve)
  have qy: "q y = (if y = x then p (p x) else p y)" by (simp add: q_def)
  have "root_of q y = root_of p y"
  proof (cases "q y < y")
    case True
    then have "root_of q y = root_of p (q y)" using less by (simp add: root_of.simps [of q y] flip: q_def)
    also have "\<dots> = root_of p y" using assms by (simp add: qy root_of_step)
    finally show ?thesis .
  next
    case False
    then have q: "q y = y" using d by (metis downward_def le_neq_implies_less)
    have "p y = y"
    proof (cases "y = x")
      case True
      have "p (p x) \<le> p x" "p x \<le> x" using assms by (simp_all add: downward_def)
      moreover have "p (p x) = x" using q [unfolded qy] True by simp
      ultimately show ?thesis using True by simp
    qed (use q in \<open>simp add: qy\<close>)
    then show ?thesis using q by (simp add: root_of_self)
  qed
  then show ?case unfolding q_def .
qed

lemma find_root_returns:
  assumes "downward p"
  shows "\<exists>q. find_root p x = Some (root_of p x, q) \<and> downward q \<and> root_of q = root_of p"
  using assms
proof (induction x arbitrary: p rule: less_induct)
  case (less x)
  show ?case
  proof (cases "p x = x")
    case True
    then show ?thesis using less.prems by (subst find_root.simps) (simp add: root_of_self)
  next
    case False
    define q where "q = p(x := p (p x))"
    have qx: "q x = p (p x)" by (simp add: q_def)
    have lt: "q x < x"
      using False less.prems by (metis downward_def qx le_neq_implies_less le_less_trans)
    have d: "downward q" and r: "root_of q = root_of p"
      unfolding q_def using less.prems downward_halve root_of_halve by (auto intro!: ext)
    have "root_of p (q x) = root_of p x" using less.prems by (simp add: qx root_of_step)
    moreover have "find_root p x = find_root q (q x)"
      using False by (subst find_root.simps) (simp add: q_def Let_def)
    ultimately show ?thesis using less.IH [OF lt d] r by metis
  qed
qed

lemma root_of_link:
  assumes "downward p" "p a = a" "p b = b" "a < b"
  shows "downward (p(b := a)) \<and> root_of (p(b := a)) y = (if root_of p y = b then a else root_of p y)"
proof -
  define q where "q = p(b := a)"
  have qs: "q b = a" "q a = a" "y \<noteq> b \<Longrightarrow> q y = p y" for y using assms by (auto simp: q_def)
  have d: "downward q" using assms by (auto simp: downward_def q_def)
  have "root_of q y = (if root_of p y = b then a else root_of p y)"
  proof (induction y rule: less_induct)
    case (less y)
    show ?case
    proof (cases "y = b")
      case True
      have "root_of q b = root_of q a" using root_of_step [OF d, of b] by (simp add: qs)
      then show ?thesis using True assms(3) by (simp add: root_of_self qs)
    next
      case False
      show ?thesis
      proof (cases "p y < y")
        case True
        have "root_of q y = root_of q (p y)" using root_of_step [OF d, of y] False by (simp add: qs)
        then show ?thesis using less [OF True] assms(1) by (simp add: root_of_step)
      next
        case nless: False
        then have "p y = y" using assms(1) by (metis downward_def le_neq_implies_less)
        then show ?thesis using False by (simp add: root_of_self qs)
      qed
    qed
  qed
  with d show ?thesis unfolding q_def by blast
qed

section \<open>Components\<close>

text \<open>The edges seen so far: each index is linked to its root by edges, and the ends of an edge have one root.\<close>

definition linked :: "(nat \<times> nat) set \<Rightarrow> (nat \<times> nat) set" where
  "linked E = (E \<union> E\<inverse>)\<^sup>*"

lemma linked_sym: "(x, y) \<in> linked E \<Longrightarrow> (y, x) \<in> linked E"
  unfolding linked_def by (metis converse_Un converse_converse rtrancl_converseD sup_commute)

lemma linked_trans: "(x, y) \<in> linked E \<Longrightarrow> (y, z) \<in> linked E \<Longrightarrow> (x, z) \<in> linked E"
  by (simp add: linked_def)

lemma linked_mono: "E \<subseteq> F \<Longrightarrow> linked E \<subseteq> linked F"
  unfolding linked_def by (rule rtrancl_mono) auto

lemma linked_edge: "(x, y) \<in> E \<Longrightarrow> (x, y) \<in> linked E"
  by (auto simp: linked_def)

definition components :: "(nat \<times> nat) set \<Rightarrow> parents \<Rightarrow> bool" where
  "components E p \<longleftrightarrow> downward p \<and> (\<forall>y. (y, root_of p y) \<in> linked E) \<and> (\<forall>(a, b) \<in> E. root_of p a = root_of p b)"

lemma components_iff:
  assumes "components E p"
  shows "root_of p x = root_of p y \<longleftrightarrow> (x, y) \<in> linked E"
proof
  assume "root_of p x = root_of p y"
  then show "(x, y) \<in> linked E" using assms unfolding components_def by (metis linked_sym linked_trans)
next
  assume "(x, y) \<in> linked E"
  then show "root_of p x = root_of p y"
    unfolding linked_def using assms by (induction rule: rtrancl_induct) (auto simp: components_def)
qed

lemma components_unite:
  assumes "components E p"
  shows "\<exists>q. unite i j p = Some q \<and> components (insert (i, j) E) q"
proof -
  have d: "downward p" using assms by (simp add: components_def)
  obtain q where q: "find_root p i = Some (root_of p i, q)" "downward q" "root_of q = root_of p"
    using find_root_returns [OF d] by blast
  obtain r where r: "find_root q j = Some (root_of p j, r)" "downward r" "root_of r = root_of p"
    using find_root_returns [OF q(2)] q(3) by metis
  define lo hi where "lo = min (root_of p i) (root_of p j)" and "hi = max (root_of p i) (root_of p j)"
  have u: "unite i j p = Some (if root_of p i = root_of p j then r else r(hi := lo))"
    using q r by (auto simp: unite_def lo_def hi_def)
  have sub: "linked E \<subseteq> linked (insert (i, j) E)" by (rule linked_mono) auto
  show ?thesis
  proof (cases "root_of p i = root_of p j")
    case True
    then show ?thesis using u assms r sub by (auto simp: components_def)
  next
    case False
    have fixed: "r lo = lo" "r hi = hi" "lo < hi"
      using root_of_fixed [OF r(2)] r(3) False by (auto simp: lo_def hi_def min_def max_def)
    have l: "downward (r(hi := lo))" "\<And>y. root_of (r(hi := lo)) y = (if root_of p y = hi then lo else root_of p y)"
      using root_of_link [OF r(2) fixed] r(3) by auto
    have "(i, j) \<in> linked (insert (i, j) E)" by (rule linked_edge) simp
    moreover have "(i, root_of p i) \<in> linked (insert (i, j) E)" "(j, root_of p j) \<in> linked (insert (i, j) E)"
      using assms sub by (auto simp: components_def)
    ultimately have "(root_of p i, root_of p j) \<in> linked (insert (i, j) E)"
      by (blast intro: linked_sym linked_trans)
    then have "(hi, lo) \<in> linked (insert (i, j) E)"
      by (simp add: lo_def hi_def min_def max_def linked_sym)
    moreover have "(y, root_of p y) \<in> linked (insert (i, j) E)" for y using assms sub by (auto simp: components_def)
    ultimately have "(y, root_of (r(hi := lo)) y) \<in> linked (insert (i, j) E)" for y
      unfolding l(2) by (cases "root_of p y = hi") (auto intro: linked_trans)
    moreover have "root_of (r(hi := lo)) a = root_of (r(hi := lo)) b" if "(a, b) \<in> insert (i, j) E" for a b
      using that assms unfolding l(2) by (auto simp: components_def lo_def hi_def min_def max_def)
    ultimately show ?thesis using u False l(1) by (auto simp: components_def)
  qed
qed

lemma components_start: "components {} (\<lambda>x. x)"
  by (simp add: components_def downward_def linked_def root_of.simps)

lemma unite_all:
  assumes "components E p"
  shows "\<exists>q. fold_option (unite_close records maxM) ps p = Some q \<and>
    components (E \<union> {(i, j). (i, j) \<in> set ps \<and> close records maxM i j}) q"
  using assms
proof (induction ps arbitrary: E p)
  case Nil
  then show ?case by simp
next
  case (Cons e ps)
  obtain i j where e: "e = (i, j)" by force
  obtain E' q where q: "unite_close records maxM e p = Some q" "components E' q"
    "E' = E \<union> {(i, j). (i, j) = e \<and> close records maxM i j}"
  proof (cases "close records maxM i j")
    case True
    with components_unite [OF Cons.prems, of i j] that show ?thesis by (fastforce simp: unite_close_def e)
  next
    case False
    with Cons.prems that show ?thesis by (fastforce simp: unite_close_def e)
  qed
  have "E' \<union> {(i, j). (i, j) \<in> set ps \<and> close records maxM i j} = E \<union> {(i, j). (i, j) \<in> set (e # ps) \<and> close records maxM i j}"
    using q(3) by auto
  then show ?case using Cons.IH [OF q(2)] q(1) by auto
qed

lemma by_root_all:
  assumes "downward p"
  shows "\<exists>q. fold_option by_root is (groups, p) = Some (fold (\<lambda>i. map_append (root_of p i) i) is groups, q)"
  using assms
proof (induction "is" arbitrary: groups p)
  case (Cons i "is")
  from find_root_returns [OF Cons.prems, of i] obtain q where
    q: "find_root p i = Some (root_of p i, q)" "downward q" "root_of q = root_of p" by blast
  then show ?case using Cons.IH [OF q(2)] by (simp add: by_root_def)
qed simp

section \<open>Clusters\<close>

lemma fst_group_by: "set (map fst (group_by key xs)) = key ` set xs" "distinct (map fst (group_by key xs))"
proof -
  have "set (map fst (fold (\<lambda>x. map_append (key x) x) xs m)) = key ` set xs \<union> set (map fst m) \<and>
    (distinct (map fst m) \<longrightarrow> distinct (map fst (fold (\<lambda>x. map_append (key x) x) xs m)))" for m
    by (induction xs arbitrary: m) (auto simp: map_append_def dom_update distinct_update)
  then show "set (map fst (group_by key xs)) = key ` set xs" "distinct (map fst (group_by key xs))"
    by (simp_all add: group_by_def)
qed

definition near_pairs :: "AdaptedRecord list \<Rightarrow> real \<Rightarrow> nat list \<Rightarrow> (nat \<times> nat) set" where
  "near_pairs records maxM idx = {(i, j). i \<in> set idx \<and> j \<in> set idx \<and> close records maxM i j}"

lemma close_sym: "close records maxM i j \<longleftrightarrow> close records maxM j i"
  by (simp add: close_def record_distance_def haversineM_def Haversine_sym split: option.split)

lemma set_index_pairs: "(i, j) \<in> set (index_pairs idx) \<longleftrightarrow> (\<exists>a b. a < b \<and> b < length idx \<and> i = idx ! a \<and> j = idx ! b)"
proof -
  have "(i, j) \<in> set (index_pairs idx) \<longleftrightarrow>
      (\<exists>a \<in> {0 ..< length idx}. \<exists>b \<in> {Suc a ..< length idx}. i = idx ! a \<and> j = idx ! b)"
    by (auto simp: index_pairs_def)
  also have "\<dots> \<longleftrightarrow> (\<exists>a b. a < b \<and> b < length idx \<and> i = idx ! a \<and> j = idx ! b)"
    unfolding Bex_def atLeastLessThan_iff by (intro ex_cong1) (auto simp: Suc_le_eq)
  finally show ?thesis .
qed

lemma linked_near_pairs:
  "linked {(i, j). (i, j) \<in> set (index_pairs idx) \<and> close records maxM i j} = linked (near_pairs records maxM idx)"
    (is "linked ?E = linked ?F")
proof
  show "linked ?E \<subseteq> linked ?F" by (rule linked_mono) (auto simp: near_pairs_def set_index_pairs)
  have "?F \<subseteq> linked ?E"
  proof
    fix e assume "e \<in> ?F"
    then obtain i j where e: "e = (i, j)" "i \<in> set idx" "j \<in> set idx" "close records maxM i j" by (auto simp: near_pairs_def)
    then obtain a b where ab: "i = idx ! a" "j = idx ! b" "a < length idx" "b < length idx" by (metis in_set_conv_nth)
    consider "a < b" | "b < a" | "a = b" by linarith
    then show "e \<in> linked ?E"
    proof cases
      case 1
      then have "(i, j) \<in> ?E" using e(4) ab by (auto simp: set_index_pairs)
      then show ?thesis unfolding e(1) by (rule linked_edge)
    next
      case 2
      then have "(j, i) \<in> ?E" using e(4) ab by (auto simp: set_index_pairs close_sym)
      then show ?thesis unfolding e(1) by (intro linked_sym [OF linked_edge])
    next
      case 3
      then show ?thesis using e(1) ab by (simp add: linked_def)
    qed
  qed
  then have "?F \<union> ?F\<inverse> \<subseteq> linked ?E" by (auto intro: linked_sym)
  then show "linked ?F \<subseteq> linked ?E" unfolding linked_def by (rule rtrancl_subset_rtrancl)
qed

lemma concat_groups:
  assumes "distinct rs" "set rs = key ` set xs"
  shows "mset (concat (map (\<lambda>r. filter (\<lambda>x. key x = r) xs) rs)) = mset xs"
proof -
  have "mset (concat (map (\<lambda>r. filter (\<lambda>x. key x = r) xs) rs)) = mset (filter (\<lambda>x. key x \<in> set rs) xs)"
    using assms(1)
  proof (induction rs)
    case (Cons r rs)
    have "mset (filter (\<lambda>x. key x = r) xs) + mset (filter (\<lambda>x. key x \<in> set rs) xs)
        = mset (filter (\<lambda>x. key x = r \<or> key x \<in> set rs) xs)"
      using Cons.prems by (induction xs) auto
    then show ?case using Cons by simp
  qed simp
  also have "filter (\<lambda>x. key x \<in> set rs) xs = xs" using assms(2) by (simp add: filter_id_conv)
  finally show ?thesis .
qed

lemma concat_sorted: "mset (concat (map (\<lambda>r. sort (g r)) rs)) = mset (concat (map g rs))"
  by (induction rs) simp_all

lemma mset_concat_image: "mset (concat xs) = sum_mset (image_mset mset (mset xs))"
  by (induction xs) simp_all

lemma map_snd_get:
  assumes "distinct (map fst m)"
  shows "map snd m = map (map_get m) (map fst m)"
proof -
  have "map_get m (fst p) = snd p" if "p \<in> set m" for p
    using that map_of_is_SomeI [OF assms, of "fst p" "snd p"] by (simp add: map_get_def)
  then show ?thesis by (simp add: comp_def)
qed

lemma concat_group_by: "mset (concat (map snd (group_by key xs))) = mset xs"
proof -
  have g: "map_get (group_by key xs) = (\<lambda>k. filter (\<lambda>x. key x = k) xs)" by (intro ext) simp
  show ?thesis
    unfolding map_snd_get [OF fst_group_by(2)] g by (rule concat_groups [OF fst_group_by(2) fst_group_by(1)])
qed

definition cluster_of :: "AdaptedRecord list \<Rightarrow> real \<Rightarrow> nat list \<Rightarrow> nat list \<Rightarrow> bool" where
  "cluster_of records maxM idx c \<longleftrightarrow> c \<noteq> [] \<and> sorted c \<and>
     list_all (\<lambda>i. set c = {j \<in> set idx. (i, j) \<in> linked (near_pairs records maxM idx)}) c"

lemma cluster_exists:
  "\<exists>cs. clusterByDistance records idx maxM = Some cs \<and> mset (concat cs) = mset idx \<and>
     list_all (cluster_of records maxM idx) cs \<and> sorted_wrt (\<lambda>c d. hd c \<le> hd d) cs"
proof -
  obtain p where p: "fold_option (unite_close records maxM) (index_pairs idx) (\<lambda>x. x) = Some p"
    "components {(i, j). (i, j) \<in> set (index_pairs idx) \<and> close records maxM i j} p"
    using unite_all [OF components_start] by fastforce
  let ?root = "root_of p"
  obtain q where q: "fold_option by_root idx ([], p) = Some (group_by ?root idx, q)"
    using by_root_all [of p idx "[]"] p(2) by (auto simp: components_def group_by_def)
  define rs where "rs = sort (map fst (group_by ?root idx))"
  define cs where "cs = map (\<lambda>r. sort (filter (\<lambda>i. ?root i = r) idx)) rs"
  have rs: "distinct rs" "set rs = ?root ` set idx" using fst_group_by [of ?root idx] by (simp_all add: rs_def)
  have run: "clusterByDistance records idx maxM = Some (sort_by (\<lambda>c d. hd c < hd d) cs)"
    by (simp add: clusterByDistance_def p q Let_def cs_def rs_def)
  have "cluster_of records maxM idx c" if mem: "c \<in> set cs" for c
  proof -
    obtain r where "r \<in> set rs" and c: "c = sort (filter (\<lambda>i. ?root i = r) idx)"
      using mem unfolding cs_def set_map by (elim imageE)
    then have r: "r \<in> ?root ` set idx" using rs(2) by simp
    have "set c = {j \<in> set idx. (i, j) \<in> linked (near_pairs records maxM idx)}" if "i \<in> set c" for i
    proof -
      have "?root i = r" using that c by simp
      then have "set c = {j \<in> set idx. ?root i = ?root j}" unfolding c by auto
      then show ?thesis unfolding components_iff [OF p(2)] linked_near_pairs .
    qed
    moreover have "set c \<noteq> {}" using r unfolding c by auto
    moreover have "sorted c" unfolding c by simp
    ultimately show ?thesis unfolding cluster_of_def list_all_iff by (metis set_empty)
  qed
  then have "list_all (cluster_of records maxM idx) (sort_by (\<lambda>c d. hd c < hd d) cs)"
    unfolding list_all_iff set_sort_by by blast
  moreover have "mset (concat cs) = mset idx" unfolding cs_def concat_sorted by (rule concat_groups [OF rs])
  then have "mset (concat (sort_by (\<lambda>c d. hd c < hd d) cs)) = mset idx"
    unfolding mset_concat_image mset_sort_by .
  moreover have "sorted_wrt (\<lambda>c d. hd c \<le> hd d) (sort_by (\<lambda>c d. hd c < hd d) cs)"
    using sorted_sort_by [of "\<lambda>c d. hd c < hd d" cs] by (simp add: weak_order_def not_less)
  ultimately show ?thesis using run by blast
qed

text \<open>C8: The clusters are the connected components: the search always ends, the clusters hold the given indices,
each as often as given, they are sorted, and two indices share a cluster exactly when a chain of stops no
farther apart than the limit leads from one to the other.\<close>

theorem clusters_are_components:
  "\<exists>cs. clusterByDistance records idx maxM = Some cs \<and> mset (concat cs) = mset idx \<and>
     list_all (cluster_of records maxM idx) cs \<and> sorted_wrt (\<lambda>c d. hd c \<le> hd d) cs"
  by (rule cluster_exists)

section \<open>Merging keeps identifiers\<close>

definition keys :: "AdaptedRecord \<Rightarrow> string set" where
  "keys r = id_key ` set (ar_ids r)"

lemma keys_add_id: "keys (add_id i r) = insert (id_key i) (keys r)"
  by (auto simp: keys_def add_id_def)

lemma keys_add_ids: "keys (fold add_id is r) = id_key ` set is \<union> keys r"
  by (induction "is" arbitrary: r) (auto simp: keys_add_id)

lemma keys_mergeInto: "keys (mergeInto a b) = keys a \<union> keys b"
proof -
  have t: "keys (merge_transport a b) = keys a"
    by (simp add: merge_transport_def Let_def withExtra_def keys_def)
  have c: "keys (r\<lparr>ar_lat := x, ar_lon := y\<rparr>) = keys r" for r x y by (simp add: keys_def)
  have "keys (mergeInto a b) = keys (fold add_id (ar_ids b) (merge_transport a b))"
    by (simp add: mergeInto_def Let_def c)
  then show ?thesis unfolding keys_add_ids t by (auto simp: keys_def)
qed

lemma keys_merge_all:
  assumes "idx \<noteq> []"
  shows "keys (merge_all records idx) = (\<Union>i \<in> set idx. keys (records ! i))"
proof -
  have "keys (foldl (\<lambda>base j. mergeInto base (records ! j)) r js) = keys r \<union> (\<Union>i \<in> set js. keys (records ! i))" for r js
    by (induction js arbitrary: r) (auto simp: keys_mergeInto)
  then show ?thesis using assms by (cases idx) (simp_all add: merge_all_def)
qed

definition all_keys :: "AdaptedRecord list \<Rightarrow> string set" where
  "all_keys rs = (\<Union>r \<in> set rs. keys r)"

lemma length_concat_ge: "list_all (\<lambda>c. c \<noteq> []) cs \<Longrightarrow> length cs \<le> length (concat cs)"
proof (induction cs)
  case (Cons c cs)
  then show ?case by (cases c) auto
qed simp

lemma collapse_group:
  "\<exists>rs. collapseNameGroup records idx = Some rs \<and> all_keys rs = (\<Union>i \<in> set idx. keys (records ! i)) \<and> length rs \<le> length idx"
proof -
  let ?geo = "filter (\<lambda>i. HasCoords (records ! i)) idx" and ?no = "filter (\<lambda>i. \<not> HasCoords (records ! i)) idx"
  obtain cs where cs: "clusterByDistance records ?geo collapseMaxM = Some cs" "mset (concat cs) = mset ?geo"
    "list_all (cluster_of records collapseMaxM ?geo) cs"
    using cluster_exists by blast
  have ne: "list_all (\<lambda>c. c \<noteq> []) cs" using cs(3) by (auto simp: list_all_iff cluster_of_def)
  have "all_keys (map (merge_all records) cs) = (\<Union>i \<in> set (concat cs). keys (records ! i))"
    using ne by (auto simp: all_keys_def list_all_iff keys_merge_all)
  also have "set (concat cs) = set ?geo" using cs(2) by (rule mset_eq_setD)
  finally have k: "all_keys (map (merge_all records) cs) = (\<Union>i \<in> set ?geo. keys (records ! i))" .
  let ?rs = "map (merge_all records) cs @ (if ?no = [] then [] else [merge_all records ?no])"
  have "all_keys ?rs = (\<Union>i \<in> set ?geo. keys (records ! i)) \<union> (\<Union>i \<in> set ?no. keys (records ! i))"
  proof (cases "?no = []")
    case True
    then show ?thesis using k by simp
  next
    case False
    have "all_keys (xs @ [y]) = all_keys xs \<union> keys y" for xs y by (auto simp: all_keys_def)
    then show ?thesis using False k keys_merge_all [OF False, of records] by simp
  qed
  also have "\<dots> = (\<Union>i \<in> set idx. keys (records ! i))" by auto
  finally have "all_keys ?rs = (\<Union>i \<in> set idx. keys (records ! i))" .
  moreover have "length cs \<le> length ?geo"
    using length_concat_ge [OF ne] cs(2) by (metis size_mset)
  then have "length ?rs \<le> length idx"
    using sum_length_filter_compl [of "\<lambda>i. HasCoords (records ! i)" idx] by (cases ?no) auto
  ultimately show ?thesis by (simp add: collapseNameGroup_def cs(1) Let_def)
qed

lemma collapse_groups:
  "\<exists>rs. fold_option (\<lambda>(_, idx) out. do { rs \<leftarrow> collapseNameGroup records idx; Some (out @ rs) }) gs out = Some rs \<and>
     all_keys rs = all_keys out \<union> (\<Union>(_, idx) \<in> set gs. \<Union>i \<in> set idx. keys (records ! i)) \<and>
     length rs \<le> length out + length (concat (map snd gs))"
proof (induction gs arbitrary: out)
  case (Cons g gs)
  obtain k idx where g: "g = (k, idx)" by force
  from collapse_group [of records idx] obtain rs where
    rs: "collapseNameGroup records idx = Some rs" "all_keys rs = (\<Union>i \<in> set idx. keys (records ! i))" "length rs \<le> length idx" by blast
  have a: "all_keys (out @ rs) = all_keys out \<union> all_keys rs" by (auto simp: all_keys_def)
  from Cons.IH [of "out @ rs"] show ?case by (auto simp: g rs(1,2) a intro: le_trans [OF _ add_mono [OF order_refl rs(3)]] dest: add_mono [OF rs(3)])
qed simp

text \<open>C29: Collapsing stop areas always ends and loses no identifier: the records that come out carry together exactly
the identifiers of the records that went in, and there are no more of them.\<close>

theorem collapse_keeps_identifiers:
  "\<exists>out. CollapseStopArea records = Some out \<and> all_keys out = all_keys records \<and> length out \<le> length records"
proof -
  obtain rs where rs: "fold_option (\<lambda>(_, idx) out. do { rs \<leftarrow> collapseNameGroup records idx; Some (out @ rs) })
      (name_groups records) [] = Some rs"
    "all_keys rs = all_keys [] \<union> (\<Union>(_, idx) \<in> set (name_groups records). \<Union>i \<in> set idx. keys (records ! i))"
    "length rs \<le> length ([] :: AdaptedRecord list) + length (concat (map snd (name_groups records)))"
    using collapse_groups [of records "name_groups records" "[]"] by (elim exE conjE)
  have m: "mset (concat (map snd (name_groups records))) = mset [0 ..< length records]"
    unfolding name_groups_def by (rule concat_group_by)
  have "(\<Union>(_, idx) \<in> set gs. \<Union>i \<in> set idx. keys (records ! i)) = (\<Union>i \<in> set (concat (map snd gs)). keys (records ! i))"
    for gs :: "(string \<times> nat list) list" by (induction gs) auto
  then have "all_keys rs = (\<Union>i \<in> set [0 ..< length records]. keys (records ! i))"
    using rs(2) unfolding mset_eq_setD [OF m, symmetric] by (simp add: all_keys_def)
  also have "\<dots> = (\<Union>r \<in> (!) records ` {0 ..< length records}. keys r)" by simp
  also have "(!) records ` {0 ..< length records} = set records" by (metis map_nth set_map set_upt)
  also have "(\<Union>r \<in> set records. keys r) = all_keys records" by (simp add: all_keys_def)
  finally have "all_keys rs = all_keys records" .
  moreover have "length rs \<le> length records" using rs(3) m by (metis diff_zero length_upt list.size(3) plus_nat.add_0 size_mset)
  moreover have "all_keys (sort_by lt rs) = all_keys rs" for lt by (simp add: all_keys_def)
  ultimately show ?thesis by (simp add: CollapseStopArea_def rs(1))
qed

end
