(* ===== verification/Interpolate.thy ===== *)
theory Interpolate
  imports Skeleton
begin

text \<open>
  Positions of stops that were not matched (\<open>skeleton/interpolate.go\<close>): between the matched stops around
  them, by the share of durations and distances or by the sequence, and the share of matched stops per region.
\<close>

section \<open>Interpolation\<close>

record SeqStop =
  sq_name :: string
  sq_seq :: int
  sq_lat :: real
  sq_lon :: real
  sq_matched :: bool
  sq_duration :: real
  sq_distance :: real

record Interpolated =
  in_lat :: real
  in_lon :: real
  in_confidence :: real
  in_origin :: string
  in_method :: string

definition stopWeight :: "SeqStop \<Rightarrow> real" where
  "stopWeight s = (if sq_duration s > 0 then sq_duration s else sq_distance s)"

definition hasWeights :: "SeqStop list \<Rightarrow> nat \<Rightarrow> nat \<Rightarrow> bool" where
  "hasWeights stops prev next1 \<longleftrightarrow>
     list_ex (\<lambda>i. sq_duration (stops ! i) > 0 \<or> sq_distance (stops ! i) > 0) [prev ..< Suc next1]"

definition weight_sum :: "SeqStop list \<Rightarrow> nat \<Rightarrow> nat \<Rightarrow> real" where
  "weight_sum stops a b = foldl (\<lambda>acc i. acc + stopWeight (stops ! i)) 0 [a ..< b]"

definition seqShare :: "SeqStop list \<Rightarrow> nat \<Rightarrow> nat \<Rightarrow> nat \<Rightarrow> real" where
  "seqShare stops prev idx next1 =
     (if hasWeights stops prev next1 \<and> weight_sum stops prev next1 > 0
      then (weight_sum stops prev idx + stopWeight (stops ! idx) / 2) / weight_sum stops prev next1
      else if int next1 - int prev \<le> 0 then 5 / 10
      else real_of_int (int idx - int prev) / real_of_int (int next1 - int prev))"

definition InterpolatePosition :: "SeqStop list \<Rightarrow> int \<Rightarrow> Interpolated option" where
  "InterpolatePosition stops i =
     (if i < 0 \<or> i \<ge> int (length stops) \<or> sq_matched (stops ! nat i) then None
      else (let idx = nat i in
        case (find (\<lambda>k. sq_matched (stops ! k)) (rev [0 ..< idx]), find (\<lambda>k. sq_matched (stops ! k)) [Suc idx ..< length stops]) of
          (Some prev, Some next1) \<Rightarrow>
            (let p = stops ! prev; n = stops ! next1;
                 share = seqShare stops prev idx next1;
                 legKm = haversineM (sq_lat p) (sq_lon p) (sq_lat n) (sq_lon n) / 1000;
                 weights = hasWeights stops prev next1;
                 conf = (if weights then 45 / 100 else 3 / 10)
             in Some \<lparr>in_lat = sq_lat p + (sq_lat n - sq_lat p) * share, in_lon = sq_lon p + (sq_lon n - sq_lon p) * share,
                  in_confidence = (if legKm > 50 then conf * (6 / 10) else conf), in_origin = ''seed'',
                  in_method = (if weights then ''duration_distance_share'' else ''seq_proportional'')\<rparr>)
        | _ \<Rightarrow> None))"

section \<open>Coverage\<close>

record Coverage =
  cv_region :: string
  cv_matched :: nat
  cv_total :: nat

definition Ratio :: "Coverage \<Rightarrow> real" where
  "Ratio c = (if cv_total c = 0 then 1 else real (cv_matched c) / real (cv_total c))"

definition count_stop :: "(SeqStop \<Rightarrow> string) \<Rightarrow> SeqStop \<Rightarrow> (string \<times> Coverage) list \<Rightarrow> (string \<times> Coverage) list" where
  "count_stop regionOf s m =
     (let r = regionOf s;
          c = (case map_of m r of Some c \<Rightarrow> c | None \<Rightarrow> \<lparr>cv_region = r, cv_matched = 0, cv_total = 0\<rparr>)
      in AList.update r (c\<lparr>cv_total := cv_total c + 1, cv_matched := (if sq_matched s then cv_matched c + 1 else cv_matched c)\<rparr>) m)"

definition CoverageByRegion :: "SeqStop list \<Rightarrow> (SeqStop \<Rightarrow> string) \<Rightarrow> Coverage list" where
  "CoverageByRegion stops regionOf = map snd (fold (count_stop regionOf) stops [])"

definition GatePass :: "Coverage list \<Rightarrow> real \<Rightarrow> bool \<times> string list" where
  "GatePass coverages gate =
     (let blocked = map cv_region (filter (\<lambda>c. Ratio c < gate) coverages) in (blocked = [], blocked))"

section \<open>Between the neighbours\<close>

lemma weight_sum_sum: "weight_sum stops a b = (\<Sum>i \<leftarrow> [a ..< b]. stopWeight (stops ! i))"
proof -
  have "foldl (\<lambda>acc i. acc + f i) x is = x + (\<Sum>i \<leftarrow> is. f i)" for f :: "nat \<Rightarrow> real" and x "is"
    by (induction "is" arbitrary: x) auto
  then show ?thesis by (simp add: weight_sum_def)
qed

lemma weight_sum_split: "a \<le> b \<Longrightarrow> b \<le> c \<Longrightarrow> weight_sum stops a c = weight_sum stops a b + weight_sum stops b c"
  using upt_add_eq_append [of a b "c - b"] by (simp add: weight_sum_sum)

definition nonneg_distances :: "SeqStop list \<Rightarrow> bool" where
  "nonneg_distances stops \<longleftrightarrow> list_all (\<lambda>s. 0 \<le> sq_distance s) stops"

lemma stopWeight_nonneg: "nonneg_distances stops \<Longrightarrow> i < length stops \<Longrightarrow> 0 \<le> stopWeight (stops ! i)"
  by (simp add: nonneg_distances_def list_all_length stopWeight_def)

lemma weight_sum_nonneg: "nonneg_distances stops \<Longrightarrow> b \<le> length stops \<Longrightarrow> 0 \<le> weight_sum stops a b"
  by (auto simp: weight_sum_sum intro!: sum_list_nonneg stopWeight_nonneg)

lemma seqShare_unit:
  assumes "nonneg_distances stops" "prev < idx" "idx < next1" "next1 < length stops"
  shows "0 \<le> seqShare stops prev idx next1 \<and> seqShare stops prev idx next1 \<le> 1"
proof (cases "hasWeights stops prev next1 \<and> weight_sum stops prev next1 > 0")
  case True
  have "weight_sum stops prev next1 = weight_sum stops prev idx + weight_sum stops idx next1"
    using assms by (intro weight_sum_split) auto
  also have "weight_sum stops idx next1 = weight_sum stops idx (Suc idx) + weight_sum stops (Suc idx) next1"
    using assms by (intro weight_sum_split) auto
  finally have w: "weight_sum stops prev next1 = weight_sum stops prev idx + stopWeight (stops ! idx) + weight_sum stops (Suc idx) next1"
    by (simp add: weight_sum_sum)
  have "0 \<le> weight_sum stops prev idx" "0 \<le> weight_sum stops (Suc idx) next1" "0 \<le> stopWeight (stops ! idx)"
    using assms by (auto intro: weight_sum_nonneg stopWeight_nonneg)
  then show ?thesis using True w by (simp add: seqShare_def divide_le_eq)
next
  case False
  then show ?thesis using assms(2,3) by (auto simp: seqShare_def divide_le_eq)
qed

lemma between_share:
  fixes a b t :: real
  assumes "0 \<le> t" "t \<le> 1"
  shows "min a b \<le> a + (b - a) * t \<and> a + (b - a) * t \<le> max a b"
proof -
  have e: "a + (b - a) * t = (1 - t) * a + t * b" by (simp add: algebra_simps)
  show ?thesis
    unfolding e using assms convex_bound_le [of a "max a b" b "1 - t" t] convex_bound_le [of "- a" "- min a b" "- b" "1 - t" t]
    by (auto simp: min_def max_def)
qed

lemma find_upt:
  assumes "find P [a ..< b] = Some k"
  shows "a \<le> k \<and> k < b \<and> P k \<and> list_all (\<lambda>j. \<not> P j) [a ..< k]"
proof -
  obtain n where n: "n < length [a ..< b]" "P ([a ..< b] ! n)" "k = [a ..< b] ! n" "\<forall>j < n. \<not> P ([a ..< b] ! j)"
    using assms by (auto simp: find_Some_iff)
  have "\<not> P j" if "a \<le> j" "j < k" for j
    using n(4) [rule_format, of "j - a"] that n(1,3) by simp
  then show ?thesis using n by (auto simp: list_all_iff)
qed

lemma find_rev_upt:
  assumes "find P (rev [0 ..< b]) = Some k"
  shows "k < b \<and> P k \<and> list_all (\<lambda>j. \<not> P j) [Suc k ..< b]"
  using assms by (induction b) (auto simp: less_Suc_eq split: if_splits)

lemma find_rev_None: "find P (rev [0 ..< b]) = None \<longleftrightarrow> list_all (\<lambda>j. \<not> P j) [0 ..< b]"
  by (auto simp: find_None_iff list_all_iff)

definition between :: "real \<Rightarrow> real \<Rightarrow> real \<Rightarrow> bool" where
  "between a x b \<longleftrightarrow> min a b \<le> x \<and> x \<le> max a b"

text \<open>A position is interpolated exactly for an unmatched stop with a matched one before and after it, and then,
if no distance is negative, both coordinates lie between those of the nearest matched stops on the two sides,
and the confidence is one of four values between 0.18 and 0.45.\<close>

theorem interpolated_between_neighbours:
  assumes "nonneg_distances stops"
  shows "case InterpolatePosition stops i of
      None \<Rightarrow> \<not> (0 \<le> i \<and> i < int (length stops) \<and> \<not> sq_matched (stops ! nat i) \<and>
        list_ex (\<lambda>k. sq_matched (stops ! k)) [0 ..< nat i] \<and> list_ex (\<lambda>k. sq_matched (stops ! k)) [Suc (nat i) ..< length stops])
    | Some r \<Rightarrow> list_ex (\<lambda>p. list_ex (\<lambda>n.
          list_all (\<lambda>k. sq_matched (stops ! k) = (k = p \<or> k = n)) [p ..< Suc n] \<and>
          between (sq_lat (stops ! p)) (in_lat r) (sq_lat (stops ! n)) \<and>
          between (sq_lon (stops ! p)) (in_lon r) (sq_lon (stops ! n))) [Suc (nat i) ..< length stops]) [0 ..< nat i] \<and>
        in_confidence r \<in> {18 / 100, 27 / 100, 3 / 10, 45 / 100}"
proof (cases "i < 0 \<or> i \<ge> int (length stops) \<or> sq_matched (stops ! nat i)")
  case True
  then show ?thesis by (auto simp: InterpolatePosition_def)
next
  case False
  define idx where "idx = nat i"
  have idx: "idx < length stops" "\<not> sq_matched (stops ! idx)" "0 \<le> i" "i < int (length stops)" using False by (auto simp: idx_def)
  let ?P = "\<lambda>k. sq_matched (stops ! k)"
  show ?thesis
  proof (cases "find ?P (rev [0 ..< idx])")
    case None
    then have "InterpolatePosition stops i = None" using False by (simp add: InterpolatePosition_def Let_def idx_def)
    then show ?thesis using None unfolding find_rev_None by (auto simp: idx_def list_all_iff list_ex_iff)
  next
    case p: (Some p)
    show ?thesis
    proof (cases "find ?P [Suc idx ..< length stops]")
      case None
      then have "InterpolatePosition stops i = None" using False p by (simp add: InterpolatePosition_def Let_def idx_def)
      then show ?thesis using None by (auto simp: idx_def find_None_iff list_ex_iff)
    next
      case n: (Some n)
      have pf: "p < idx" "?P p" "list_all (\<lambda>j. \<not> ?P j) [Suc p ..< idx]" using find_rev_upt [OF p] by auto
      have nf: "Suc idx \<le> n" "n < length stops" "?P n" "list_all (\<lambda>j. \<not> ?P j) [Suc idx ..< n]" using find_upt [OF n] by auto
      have share: "0 \<le> seqShare stops p idx n" "seqShare stops p idx n \<le> 1"
        using seqShare_unit [OF assms pf(1) _ nf(2)] nf(1) by auto
      obtain r where r: "InterpolatePosition stops i = Some r"
        "in_lat r = sq_lat (stops ! p) + (sq_lat (stops ! n) - sq_lat (stops ! p)) * seqShare stops p idx n"
        "in_lon r = sq_lon (stops ! p) + (sq_lon (stops ! n) - sq_lon (stops ! p)) * seqShare stops p idx n"
        "in_confidence r \<in> {18 / 100, 27 / 100, 3 / 10, 45 / 100}"
        using False p n by (simp add: InterpolatePosition_def Let_def idx_def)
      have "list_all (\<lambda>k. ?P k = (k = p \<or> k = n)) [p ..< Suc n]"
      proof -
        have "?P k = (k = p \<or> k = n)" if "p \<le> k" "k \<le> n" for k
        proof -
          consider "k = p" | "k = n" | "k = idx" | "Suc p \<le> k" "k < idx" | "Suc idx \<le> k" "k < n" using \<open>p \<le> k\<close> \<open>k \<le> n\<close> by linarith
          then show ?thesis using pf nf idx(2) by cases (auto simp: list_all_iff)
        qed
        then show ?thesis by (auto simp: list_all_iff)
      qed
      moreover have "between (sq_lat (stops ! p)) (in_lat r) (sq_lat (stops ! n))"
        "between (sq_lon (stops ! p)) (in_lon r) (sq_lon (stops ! n))"
        unfolding between_def r(2,3) using between_share [OF share] by simp_all
      ultimately have "list_ex (\<lambda>p. list_ex (\<lambda>n. list_all (\<lambda>k. ?P k = (k = p \<or> k = n)) [p ..< Suc n] \<and>
          between (sq_lat (stops ! p)) (in_lat r) (sq_lat (stops ! n)) \<and>
          between (sq_lon (stops ! p)) (in_lon r) (sq_lon (stops ! n))) [Suc idx ..< length stops]) [0 ..< idx]"
        using pf(1) nf(1,2) unfolding list_ex_iff by (intro bexI [of _ p] bexI [of _ n] conjI) simp_all
      then show ?thesis using r(1,4) unfolding idx_def by (simp only: option.case simp_thms)
    qed
  qed
qed

definition demo_stops :: "SeqStop list" where
  "demo_stops = map (\<lambda>(lat, m, d). \<lparr>sq_name = '''', sq_seq = 0, sq_lat = lat, sq_lon = 0, sq_matched = m, sq_duration = d, sq_distance = 0\<rparr>)
     [(0, True, 0), (0, False, 0), (0, True, 7)]"

lemma interpolated_between_neighbours_witness:
  "case InterpolatePosition demo_stops 1 of None \<Rightarrow> False | Some r \<Rightarrow> in_confidence r \<in> {18 / 100, 27 / 100, 3 / 10, 45 / 100}"
proof -
  have "nonneg_distances demo_stops" by (simp add: demo_stops_def nonneg_distances_def)
  note t = interpolated_between_neighbours [OF this, of 1]
  have ex: "list_ex (\<lambda>k. sq_matched (demo_stops ! k)) [0 ..< nat 1]" "list_ex (\<lambda>k. sq_matched (demo_stops ! k)) [Suc (nat 1) ..< length demo_stops]"
    "\<not> sq_matched (demo_stops ! nat 1)" "1 < int (length demo_stops)"
    by (simp_all add: demo_stops_def)
  show ?thesis
  proof (cases "InterpolatePosition demo_stops 1")
    case None
    then show ?thesis using t ex by simp
  next
    case (Some r)
    then show ?thesis using t by (simp only: option.case)
  qed
qed

text \<open>The label of an interpolated position can be wrong: if only the matched stop after it has a duration, the
position is taken from the sequence, but it is reported as a share of durations, with the higher confidence.\<close>

theorem sequence_labelled_as_duration:
  "map_option (\<lambda>r. (in_method r, in_confidence r)) (InterpolatePosition demo_stops 1) = Some (''duration_distance_share'', 45 / 100) \<and>
   weight_sum demo_stops 0 2 = 0 \<and> seqShare demo_stops 0 1 2 = 1 / 2"
  by (simp add: InterpolatePosition_def demo_stops_def hasWeights_def weight_sum_def stopWeight_def seqShare_def haversineM_def upt_rec)

section \<open>Coverage counts\<close>

lemma map_of_count:
  "map_of (fold (count_stop f) stops m) r = (case map_of m r of
      None \<Rightarrow> if filter (\<lambda>s. f s = r) stops = [] then None
        else Some \<lparr>cv_region = r, cv_matched = length (filter (\<lambda>s. f s = r \<and> sq_matched s) stops),
          cv_total = length (filter (\<lambda>s. f s = r) stops)\<rparr>
    | Some c \<Rightarrow> Some (c\<lparr>cv_matched := cv_matched c + length (filter (\<lambda>s. f s = r \<and> sq_matched s) stops),
          cv_total := cv_total c + length (filter (\<lambda>s. f s = r) stops)\<rparr>))"
  by (induction stops arbitrary: m) (simp_all add: count_stop_def Let_def split: option.split)

lemma distinct_count: "distinct (map fst m) \<Longrightarrow> distinct (map fst (fold (count_stop f) stops m))"
  by (induction stops arbitrary: m) (simp_all add: count_stop_def Let_def)

text \<open>Coverage counts every stop once: each region of the stops has one entry, with the number of its stops and of
its matched stops, and the gate passes exactly when every region with stops reaches the required share.\<close>

theorem coverage_counts:
  "let cs = CoverageByRegion stops regionOf in
     distinct (map cv_region cs) \<and> set (map cv_region cs) = regionOf ` set stops \<and>
     list_all (\<lambda>c. cv_total c = length (filter (\<lambda>s. regionOf s = cv_region c) stops) \<and>
       cv_matched c = length (filter (\<lambda>s. regionOf s = cv_region c \<and> sq_matched s) stops)) cs \<and>
     (fst (GatePass cs gate) \<longleftrightarrow> list_all (\<lambda>c. gate * real (cv_total c) \<le> real (cv_matched c)) cs)"
proof -
  let ?m = "fold (count_stop regionOf) stops []"
  have d: "distinct (map fst ?m)" by (rule distinct_count) simp
  have e: "c = \<lparr>cv_region = r, cv_matched = length (filter (\<lambda>s. regionOf s = r \<and> sq_matched s) stops),
      cv_total = length (filter (\<lambda>s. regionOf s = r) stops)\<rparr> \<and> filter (\<lambda>s. regionOf s = r) stops \<noteq> []"
    if "(r, c) \<in> set ?m" for r c
    using map_of_is_SomeI [OF d that] by (simp add: map_of_count split: if_splits)
  have fst: "map cv_region (map snd ?m) = map fst ?m" by (auto dest!: e)
  have keys: "fst ` set ?m = regionOf ` set stops"
  proof -
    have "r \<in> fst ` set ?m \<longleftrightarrow> r \<in> regionOf ` set stops" for r
      using map_of_count [of regionOf stops "[]" r] map_of_eq_None_iff [of ?m r]
      by (auto simp: filter_empty_conv split: if_splits)
    then show ?thesis by blast
  qed
  have counts: "list_all (\<lambda>c. cv_total c = length (filter (\<lambda>s. regionOf s = cv_region c) stops) \<and>
      cv_matched c = length (filter (\<lambda>s. regionOf s = cv_region c \<and> sq_matched s) stops)) (map snd ?m)"
    using e by (fastforce simp: list_all_iff)
  have pos: "0 < cv_total c" if "c \<in> set (map snd ?m)" for c
    using that e by fastforce
  then have "\<not> Ratio c < gate \<longleftrightarrow> gate * real (cv_total c) \<le> real (cv_matched c)" if "c \<in> set (map snd ?m)" for c
    using pos [OF that] by (simp add: Ratio_def not_less le_divide_eq)
  then have "fst (GatePass (map snd ?m) gate) \<longleftrightarrow> list_all (\<lambda>c. gate * real (cv_total c) \<le> real (cv_matched c)) (map snd ?m)"
    by (auto simp: GatePass_def Let_def filter_empty_conv list_all_iff)
  then show ?thesis
    unfolding CoverageByRegion_def Let_def fst using d keys counts by (simp only: set_map simp_thms)
qed

end
