(* ===== verification/TerminalStore.thy ===== *)
theory TerminalStore
  imports MemStore
begin

text \<open>
  Terminals, synchronisation runs, reviews, staged trips, the outbox and the audit log in the memory
  store (\<open>store/memory/store.go\<close>, \<open>store/memory/trips.go\<close>). A lookup that ranges over a map takes the
  first match in the order of that run.
\<close>

section \<open>Terminals\<close>

definition UpsertTerminal :: "TerminalRow \<Rightarrow> (string \<times> string) list \<Rightarrow> AdaptedIdentifier list \<Rightarrow> MemoryStore \<Rightarrow>
    MemoryStore \<times> int" where
  "UpsertTerminal r names identifiers m =
     (let (m, i) = (if te_id r = 0 then allocID m
            else (if te_id r \<ge> m_next_id m then m\<lparr>m_next_id := te_id r + 1\<rparr> else m, te_id r));
          r = r\<lparr>te_id := i, te_enrichment := (if te_enrichment r = '''' then ''identity_only'' else te_enrichment r)\<rparr>;
          m = m\<lparr>m_terminals := AList.update i r (m_terminals m)\<rparr>;
          m = (if identifiers = [] then m else m\<lparr>m_terminal_idents := AList.update i identifiers (m_terminal_idents m)\<rparr>)
      in (m\<lparr>m_terminal_names := (m_terminal_names m)(i := fold (\<lambda>(k, v). AList.update k v) names (m_terminal_names m i))\<rparr>, i))"

text \<open>The Russian name, or else the first one that the range over the names gives.\<close>

definition terminalNameByID :: "int \<Rightarrow> MemoryStore \<Rightarrow> string" where
  "terminalNameByID i m =
     (case map_of (m_terminal_names m i) ''ru'' of
        Some n \<Rightarrow> if n \<noteq> '''' then n else snd (hd (m_terminal_names m i))
      | None \<Rightarrow> (case m_terminal_names m i of [] \<Rightarrow> '''' | (_, v) # _ \<Rightarrow> v))"

record TerminalInfo =
  ti_id :: int
  ti_name :: string
  ti_lat :: real
  ti_lon :: real
  ti_locked :: bool
  ti_place :: "int option"

definition GetTerminal :: "int \<Rightarrow> MemoryStore \<Rightarrow> store_error + TerminalInfo" where
  "GetTerminal i m =
     (case map_of (m_terminals m) i of
        None \<Rightarrow> Inl NotFound
      | Some tr \<Rightarrow> Inr \<lparr>ti_id = i, ti_name = terminalNameByID i m, ti_lat = te_lat tr, ti_lon = te_lon tr,
          ti_locked = te_locked tr, ti_place = te_place tr\<rparr>)"

definition GetTerminalTags :: "int \<Rightarrow> MemoryStore \<Rightarrow> string \<rightharpoonup> string" where
  "GetTerminalTags i m = m_terminal_tags m i"

definition SetTerminalTag :: "int \<Rightarrow> string \<Rightarrow> string \<Rightarrow> MemoryStore \<Rightarrow> MemoryStore \<times> store_error option" where
  "SetTerminalTag i key value m =
     (if map_of (m_terminals m) i = None then (m, Some NotFound)
      else (m\<lparr>m_terminal_tags := (m_terminal_tags m)(i :=
              if value = '''' then (m_terminal_tags m i)(key := None) else (m_terminal_tags m i)(key \<mapsto> value))\<rparr>, None))"

definition UpsertTerminalAlias :: "TerminalAliasRow \<Rightarrow> MemoryStore \<Rightarrow> MemoryStore \<times> store_error option" where
  "UpsertTerminalAlias a m =
     (if map_of (m_terminals m) (al_terminal a) = None then (m, Some NotFound)
      else (m\<lparr>m_aliases := (m_aliases m)(al_terminal a :=
              AList.update (al_alias a @ nul @ al_lang a) a (m_aliases m (al_terminal a)))\<rparr>, None))"

definition attr_key :: "AttributeStateRow \<Rightarrow> string" where
  "attr_key a = as_entity_type a @ nul @ itoa (as_entity_id a) @ nul @ as_field a @ nul @ as_source a"

definition UpsertAttributeState :: "AttributeStateRow \<Rightarrow> MemoryStore \<Rightarrow> MemoryStore" where
  "UpsertAttributeState a m =
     (let a = a\<lparr>as_origin := (if as_origin a = '''' then ''live'' else as_origin a)\<rparr>
      in m\<lparr>m_attr_states := AList.update (attr_key a) a (m_attr_states m)\<rparr>)"

definition ListAttributeStates :: "string \<Rightarrow> int \<Rightarrow> MemoryStore \<Rightarrow> AttributeStateRow list" where
  "ListAttributeStates entityType entityID m =
     sort_by (\<lambda>a b. if as_field a \<noteq> as_field b then as_field a < as_field b else as_source a < as_source b)
       (filter (\<lambda>a. as_entity_type a = entityType \<and> as_entity_id a = entityID) (map snd (m_attr_states m)))"

definition provenance_key :: "string \<Rightarrow> int \<Rightarrow> string \<Rightarrow> string" where
  "provenance_key entityType entityID source = entityType @ nul @ itoa entityID @ nul @ source"

definition SaveProvenance :: "Provenance \<Rightarrow> MemoryStore \<Rightarrow> MemoryStore" where
  "SaveProvenance p m =
     (let observed = (if unix (pv_observed p) = 0 then unix (m_clock m) else unix (pv_observed p))
      in m\<lparr>m_provenance := AList.update (provenance_key (pv_entity_type p) (pv_entity_id p) (pv_source p))
            \<lparr>vo_source = pv_source p, vo_confidence = pv_confidence p, vo_observed = observed\<rparr> (m_provenance m)\<rparr>)"

section \<open>Terminals of the skeleton and the others\<close>

definition skeletonRunIDs :: "MemoryStore \<Rightarrow> int list" where
  "skeletonRunIDs m = map fst (filter (\<lambda>(_, r). sy_kind r = ''skeleton'') (m_sync_runs m))"

definition hasSkeletonState :: "int \<Rightarrow> int list \<Rightarrow> MemoryStore \<Rightarrow> bool" where
  "hasSkeletonState i skelRuns m \<longleftrightarrow>
     list_ex (\<lambda>a. as_entity_type a = ''terminal'' \<and> as_entity_id a = i \<and>
       (case as_run a of Some r \<Rightarrow> r \<in> set skelRuns | None \<Rightarrow> False)) (map snd (m_attr_states m))"

definition name_in :: "string \<Rightarrow> int \<Rightarrow> MemoryStore \<Rightarrow> string" where
  "name_in lang i m = (case map_of (m_terminal_names m i) lang of Some n \<Rightarrow> n | None \<Rightarrow> '''')"

definition idents_of :: "MemoryStore \<Rightarrow> int \<Rightarrow> AdaptedIdentifier list" where
  "idents_of m i = map_get (m_terminal_idents m) i"

definition legacy_row :: "MemoryStore \<Rightarrow> int \<times> TerminalRow \<Rightarrow> LegacyTerminalRow" where
  "legacy_row m = (\<lambda>(i, tr). \<lparr>lg_id = i, lg_name = name_in ''ru'' i m, lg_name_en = name_in ''en'' i m,
     lg_lat = te_lat tr, lg_lon = te_lon tr, lg_tz = te_tz tr, lg_ids = idents_of m i,
     lg_votes = map snd (filter (\<lambda>(key, _). has_prefix key (provenance_key ''terminal'' i '''')) (m_provenance m))\<rparr>)"

definition ListLegacyTerminals :: "MemoryStore \<Rightarrow> LegacyTerminalRow list" where
  "ListLegacyTerminals m =
     sort_by (\<lambda>a b. lg_id a < lg_id b)
       (map (legacy_row m) (filter (\<lambda>(i, _). \<not> hasSkeletonState i (skeletonRunIDs m) m) (m_terminals m)))"

definition skeleton_row :: "MemoryStore \<Rightarrow> int \<times> TerminalRow \<Rightarrow> SkeletonTerminalRow" where
  "skeleton_row m = (\<lambda>(i, tr). \<lparr>sk_id = i, sk_name = name_in ''ru'' i m, sk_lat = te_lat tr, sk_lon = te_lon tr,
     sk_settlement = (case m_terminal_tags m i ''settlement'' of Some s \<Rightarrow> s | None \<Rightarrow> ''''), sk_transport = '''',
     sk_ids = idents_of m i, sk_enrichment = te_enrichment tr\<rparr>)"

definition ListSkeletonTerminals :: "MemoryStore \<Rightarrow> SkeletonTerminalRow list" where
  "ListSkeletonTerminals m =
     sort_by (\<lambda>a b. sk_id a < sk_id b)
       (map (skeleton_row m) (filter (\<lambda>(i, _). hasSkeletonState i (skeletonRunIDs m) m) (m_terminals m)))"

section \<open>Codes of terminals\<close>

text \<open>The result is the other terminal that has the code, or 0.\<close>

definition AttachTerminalIdentifier :: "int \<Rightarrow> AdaptedIdentifier \<Rightarrow> MemoryStore \<Rightarrow> MemoryStore \<times> int" where
  "AttachTerminalIdentifier terminalID c m =
     (case find (\<lambda>(_, ids). list_ex (\<lambda>ex. ai_system ex = ai_system c \<and> ai_code ex = ai_code c) ids) (m_terminal_idents m) of
        Some (tid, _) \<Rightarrow> (m, if tid = terminalID then 0 else tid)
      | None \<Rightarrow> (m\<lparr>m_terminal_idents := map_append terminalID c (m_terminal_idents m)\<rparr>, 0))"

definition ListTerminalCodes :: "int \<Rightarrow> string \<Rightarrow> MemoryStore \<Rightarrow> AdaptedIdentifier list" where
  "ListTerminalCodes terminalID system m =
     filter (\<lambda>i. system = '''' \<or> ai_system i = system) (idents_of m terminalID)"

definition ListTerminalIDByCode :: "string \<Rightarrow> string \<Rightarrow> MemoryStore \<Rightarrow> int option" where
  "ListTerminalIDByCode system code m =
     map_option fst (find (\<lambda>(_, ids). list_ex (\<lambda>i. ai_system i = system \<and> ai_code i = code) ids) (m_terminal_idents m))"

section \<open>Synchronisation runs\<close>

definition CreateSyncRun :: "SyncRunRow \<Rightarrow> MemoryStore \<Rightarrow> MemoryStore \<times> int" where
  "CreateSyncRun r m =
     (let (m, i) = allocID m;
          r = r\<lparr>sy_id := i, sy_state := (if sy_state r = '''' then ''running'' else sy_state r)\<rparr>
      in (m\<lparr>m_sync_runs := AList.update i r (m_sync_runs m)\<rparr>, i))"

definition FinishSyncRun :: "int \<Rightarrow> string \<Rightarrow> string \<Rightarrow> MemoryStore \<Rightarrow> MemoryStore \<times> store_error option" where
  "FinishSyncRun i state summary m =
     (case map_of (m_sync_runs m) i of
        None \<Rightarrow> (m, Some NotFound)
      | Some r \<Rightarrow> (m\<lparr>m_sync_runs := AList.update i (r\<lparr>sy_state := state, sy_summary := summary\<rparr>) (m_sync_runs m)\<rparr>, None))"

definition chunk_matches :: "int \<Rightarrow> string \<Rightarrow> string \<Rightarrow> SyncChunkRow \<Rightarrow> bool" where
  "chunk_matches runID entity chunkKey c \<longleftrightarrow> ch_run c = runID \<and> ch_entity c = entity \<and> ch_key c = chunkKey"

definition EnsureSyncChunk :: "int \<Rightarrow> string \<Rightarrow> string \<Rightarrow> MemoryStore \<Rightarrow> MemoryStore \<times> int" where
  "EnsureSyncChunk runID entity chunkKey m =
     (case find (\<lambda>(_, c). chunk_matches runID entity chunkKey c) (m_sync_chunks m) of
        Some (i, _) \<Rightarrow> (m, i)
      | None \<Rightarrow>
          let (m, i) = allocID m
          in (m\<lparr>m_sync_chunks := AList.update i \<lparr>ch_id = i, ch_run = runID, ch_entity = entity, ch_key = chunkKey,
                ch_state = ''pending'', ch_plan_done = '''', ch_attempts = 0, ch_last_error = ''''\<rparr> (m_sync_chunks m)\<rparr>, i))"

definition GetSyncChunk :: "int \<Rightarrow> string \<Rightarrow> string \<Rightarrow> MemoryStore \<Rightarrow> SyncChunkRow option" where
  "GetSyncChunk runID entity chunkKey m = find (chunk_matches runID entity chunkKey) (map snd (m_sync_chunks m))"

definition CompleteSyncChunk :: "int \<Rightarrow> string \<Rightarrow> string \<Rightarrow> string \<Rightarrow> MemoryStore \<Rightarrow> MemoryStore \<times> store_error option" where
  "CompleteSyncChunk i planIDDone state lastError m =
     (case map_of (m_sync_chunks m) i of
        None \<Rightarrow> (m, Some NotFound)
      | Some c \<Rightarrow> (m\<lparr>m_sync_chunks := AList.update i (c\<lparr>ch_state := state, ch_plan_done := planIDDone,
            ch_last_error := lastError, ch_attempts := ch_attempts c + 1\<rparr>) (m_sync_chunks m)\<rparr>, None))"

section \<open>The review queue\<close>

definition same_review :: "ReviewQueueEntry \<Rightarrow> ReviewQueueRow \<Rightarrow> bool" where
  "same_review e r \<longleftrightarrow> rw_entity_type r = rq_entity_type e \<and> rw_entity_id r = rq_entity_id e \<and> rw_reason r = rq_reason e"

definition new_review :: "ReviewQueueEntry \<Rightarrow> gotime \<Rightarrow> ReviewQueueRow" where
  "new_review e now = \<lparr>rw_entity_type = rq_entity_type e, rw_entity_id = rq_entity_id e, rw_reason = rq_reason e,
     rw_score = rq_score e, rw_created = unix now, rw_fingerprint = rq_fingerprint e, rw_state = ''open'', rw_count = 1\<rparr>"

definition seen_again :: "ReviewQueueEntry \<Rightarrow> ReviewQueueRow \<Rightarrow> ReviewQueueRow" where
  "seen_again e r = r\<lparr>rw_score := rq_score e,
     rw_fingerprint := (if rq_fingerprint e \<noteq> '''' then rq_fingerprint e else rw_fingerprint r), rw_count := rw_count r + 1\<rparr>"

fun save_review :: "ReviewQueueEntry \<Rightarrow> gotime \<Rightarrow> ReviewQueueRow list \<Rightarrow> ReviewQueueRow list" where
  "save_review e now [] = [new_review e now]"
| "save_review e now (r # rs) = (if same_review e r then seen_again e r # rs else r # save_review e now rs)"

definition SaveReviewQueue :: "ReviewQueueEntry \<Rightarrow> MemoryStore \<Rightarrow> MemoryStore" where
  "SaveReviewQueue e m = m\<lparr>m_review := save_review e (m_clock m) (m_review m)\<rparr>"

definition ListReviewQueue :: "int \<Rightarrow> MemoryStore \<Rightarrow> ReviewQueueRow list" where
  "ListReviewQueue limit m =
     (let limit = (if limit \<le> 0 \<or> limit > int (length (m_review m)) then int (length (m_review m)) else limit)
      in take (nat limit) (m_review m))"

definition DeleteReviewQueue :: "string \<Rightarrow> int \<Rightarrow> string \<Rightarrow> MemoryStore \<Rightarrow> MemoryStore" where
  "DeleteReviewQueue entityType entityID reason m =
     m\<lparr>m_review := filter (\<lambda>r. \<not> (rw_entity_type r = entityType \<and> rw_entity_id r = entityID \<and>
       (reason = '''' \<or> rw_reason r = reason))) (m_review m)\<rparr>"

definition open_trip_review :: "string \<Rightarrow> ReviewQueueRow \<Rightarrow> bool" where
  "open_trip_review fingerprint r \<longleftrightarrow> rw_entity_type r = ''trip'' \<and> rw_fingerprint r = fingerprint \<and>
     (rw_state r = '''' \<or> rw_state r = ''open'')"

definition ResolveTripReviewsByFingerprint :: "string \<Rightarrow> MemoryStore \<Rightarrow> MemoryStore \<times> nat" where
  "ResolveTripReviewsByFingerprint fingerprint m =
     (m\<lparr>m_review := map (\<lambda>r. if open_trip_review fingerprint r then r\<lparr>rw_state := ''resolved''\<rparr> else r) (m_review m)\<rparr>,
      length (filter (open_trip_review fingerprint) (m_review m)))"

section \<open>Routes and trips of the registry\<close>

definition FindRouteID :: "string \<Rightarrow> string \<Rightarrow> MemoryStore \<Rightarrow> int option" where
  "FindRouteID source routeCode m =
     map_option fst (find (\<lambda>(_, r). ro_provider r = source \<and> ro_code r = routeCode) (m_routes m))"

definition now_label :: "MemoryStore \<Rightarrow> string" where
  "now_label m = rfc3339 0 (m_clock m)"

definition TombstoneRoute :: "string \<Rightarrow> string \<Rightarrow> MemoryStore \<Rightarrow> MemoryStore" where
  "TombstoneRoute source routeCode m =
     m\<lparr>m_routes := map (\<lambda>(i, r). (i, if ro_provider r = source \<and> ro_code r = routeCode
       then r\<lparr>ro_valid_to := Some (now_label m)\<rparr> else r)) (m_routes m)\<rparr>"

definition FindTrip :: "int \<Rightarrow> string \<Rightarrow> MemoryStore \<Rightarrow> TripRow option" where
  "FindTrip routeID tripCode m =
     map_option snd (find (\<lambda>(_, t). tp_route t = routeID \<and> tp_code t = tripCode) (m_trips m))"

definition TombstoneTrip :: "int \<Rightarrow> MemoryStore \<Rightarrow> MemoryStore \<times> store_error option" where
  "TombstoneTrip tripID m =
     (case map_of (m_trips m) tripID of
        None \<Rightarrow> (m, Some NotFound)
      | Some t \<Rightarrow> (m\<lparr>m_trips := AList.update tripID (t\<lparr>tp_valid_to := Some (now_label m)\<rparr>) (m_trips m)\<rparr>, None))"

definition DeleteStopTimes :: "int \<Rightarrow> MemoryStore \<Rightarrow> MemoryStore" where
  "DeleteStopTimes tripID m = m\<lparr>m_stop_times := filter (\<lambda>st. sr_trip st \<noteq> tripID) (m_stop_times m)\<rparr>"

definition AppendStopTimes :: "StopTimeRow list \<Rightarrow> MemoryStore \<Rightarrow> MemoryStore" where
  "AppendStopTimes rows m = m\<lparr>m_stop_times := m_stop_times m @ rows\<rparr>"

definition terminal_stop :: "int \<Rightarrow> int \<Rightarrow> real \<Rightarrow> real \<Rightarrow> string \<Rightarrow> StopRow" where
  "terminal_stop i terminalID lat lon name = \<lparr>so_id = i, so_terminal = terminalID, so_station = 0, so_provider = '''',
     so_code = '''', so_type = '''', so_transport = '''', so_name = name, so_raw = '''', so_lat = lat, so_lon = lon\<rparr>"

definition EnsureStopForTerminal :: "int \<Rightarrow> real \<Rightarrow> real \<Rightarrow> string \<Rightarrow> MemoryStore \<Rightarrow> MemoryStore \<times> (store_error + int)" where
  "EnsureStopForTerminal terminalID lat lon name m =
     (if map_of (m_terminals m) terminalID = None then (m, Inl NotFound)
      else (case find (\<lambda>(_, s). so_terminal s = terminalID) (m_stops m) of
          Some (i, _) \<Rightarrow> (m, Inr i)
        | None \<Rightarrow>
            let (m, i) = allocID m
            in (m\<lparr>m_stops := AList.update i (terminal_stop i terminalID lat lon name) (m_stops m)\<rparr>, Inr i)))"

definition UpsertTripSource :: "TripSourceRow \<Rightarrow> MemoryStore \<Rightarrow> MemoryStore" where
  "UpsertTripSource s m =
     m\<lparr>m_trip_sources := (m_trip_sources m)(ts_trip s := (m_trip_sources m (ts_trip s))(ts_source s \<mapsto> s))\<rparr>"

definition ListCanonTrips :: "string \<Rightarrow> MemoryStore \<Rightarrow> (string \<times> string list) list" where
  "ListCanonTrips source m =
     fold (\<lambda>t out.
         if tp_provider t \<noteq> source \<or> tp_valid_to t \<noteq> None then out
         else (case map_of (m_routes m) (tp_route t) of
             None \<Rightarrow> out
           | Some r \<Rightarrow> if ro_provider r \<noteq> source \<or> ro_valid_to r \<noteq> None then out
               else map_append (ro_code r) (ro_code r @ ''|'' @ tp_code t) out))
       (map snd (m_trips m)) []"

section \<open>Staged trips\<close>

definition stagingKey :: "string \<Rightarrow> string \<Rightarrow> string \<Rightarrow> string" where
  "stagingKey source routeCode tripCode = source @ nul @ routeCode @ nul @ tripCode"

definition UpsertStagingTrip :: "StagingTripRow \<Rightarrow> MemoryStore \<Rightarrow> MemoryStore \<times> int" where
  "UpsertStagingTrip s m =
     (let key = stagingKey (sw_source s) (sw_route s) (sw_trip s);
          s = (if sw_last_attempt s = zero_time then s\<lparr>sw_last_attempt := m_clock m\<rparr> else s)
      in case map_of (m_staging m) key of
           Some prev \<Rightarrow>
             (m\<lparr>m_staging := AList.update key (s\<lparr>sw_id := sw_id prev, sw_retry := sw_retry prev + 1\<rparr>) (m_staging m)\<rparr>, sw_id prev)
         | None \<Rightarrow>
             let (m, i) = allocID m
             in (m\<lparr>m_staging := AList.update key (s\<lparr>sw_id := i\<rparr>) (m_staging m)\<rparr>, i))"

definition ListStagingTrips :: "string \<Rightarrow> int \<Rightarrow> MemoryStore \<Rightarrow> StagingTripRow list" where
  "ListStagingTrips region limit m =
     (let out = sort_by (\<lambda>a b. if sw_route a \<noteq> sw_route b then sw_route a < sw_route b else sw_trip a < sw_trip b)
            (filter (\<lambda>s. \<not> (region \<noteq> '''' \<and> sw_region s \<noteq> region)) (map snd (m_staging m)))
      in if limit > 0 \<and> int (length out) > limit then take (nat limit) out else out)"

definition DeleteStagingTrip :: "string \<Rightarrow> string \<Rightarrow> string \<Rightarrow> MemoryStore \<Rightarrow> MemoryStore" where
  "DeleteStagingTrip source routeCode tripCode m =
     m\<lparr>m_staging := AList.delete (stagingKey source routeCode tripCode) (m_staging m)\<rparr>"

definition unfinished_state :: "string \<Rightarrow> bool" where
  "unfinished_state s \<longleftrightarrow> s \<in> {''incomplete_trip'', ''awaiting_times'', ''needs_review'', ''skeleton_gap''}"

definition stale :: "gotime \<Rightarrow> StagingTripRow \<Rightarrow> bool" where
  "stale cutoff s \<longleftrightarrow> unfinished_state (sw_state s) \<and>
     (if sw_last_attempt s = zero_time then 1 else sw_last_attempt s) < cutoff"

definition expire_row :: "gotime \<Rightarrow> StagingTripRow \<Rightarrow> StagingTripRow" where
  "expire_row cutoff s = (if stale cutoff s then s\<lparr>sw_state := ''expired''\<rparr> else s)"

definition ExpireStagingTripsOlderThan :: "gotime \<Rightarrow> MemoryStore \<Rightarrow> MemoryStore \<times> nat" where
  "ExpireStagingTripsOlderThan cutoff m =
     (m\<lparr>m_staging := map (\<lambda>(k, s). (k, expire_row cutoff s)) (m_staging m)\<rparr>,
      length (filter (stale cutoff) (map snd (m_staging m))))"

definition CountStagingByState :: "MemoryStore \<Rightarrow> (string \<times> nat) list" where
  "CountStagingByState m =
     fold (\<lambda>s out. AList.update (sw_state s) ((case map_of out (sw_state s) of Some n \<Rightarrow> n | None \<Rightarrow> 0) + 1) out)
       (map snd (m_staging m)) []"

section \<open>Outbox and audit log\<close>

definition PublishOutbox :: "string \<Rightarrow> string \<Rightarrow> string \<Rightarrow> string \<Rightarrow> MemoryStore \<Rightarrow> MemoryStore" where
  "PublishOutbox aggregate aggregateID event payload m =
     (let payload = (if payload = '''' then ''{}'' else payload); (m, i) = allocID m
      in m\<lparr>m_outbox := m_outbox m @ [\<lparr>ob_id = i, ob_aggregate = aggregate, ob_aggregate_id = aggregateID,
            ob_event = event, ob_payload = payload\<rparr>]\<rparr>)"

definition ListOutbox :: "int \<Rightarrow> MemoryStore \<Rightarrow> OutboxEvent list" where
  "ListOutbox limit m =
     (let out = sort_by (\<lambda>a b. ob_id a < ob_id b) (m_outbox m)
      in if limit > 0 \<and> int (length out) > limit then take (nat limit) out else out)"

definition DeleteOutbox :: "int \<Rightarrow> MemoryStore \<Rightarrow> MemoryStore" where
  "DeleteOutbox i m = m\<lparr>m_outbox := filter (\<lambda>e. ob_id e \<noteq> i) (m_outbox m)\<rparr>"

definition WriteAuditLog :: "int option \<Rightarrow> string \<Rightarrow> string \<Rightarrow> int option \<Rightarrow> string \<Rightarrow> MemoryStore \<Rightarrow> MemoryStore" where
  "WriteAuditLog userID action entityType entityID details m =
     (let (m, i) = allocID m
      in m\<lparr>m_audit := m_audit m @ [\<lparr>au_id = i, au_user = userID, au_action = action, au_entity_type = entityType,
            au_entity_id = entityID, au_at = unix (m_clock m), au_details = details\<rparr>]\<rparr>)"

definition ListAuditLogs :: "int \<Rightarrow> MemoryStore \<Rightarrow> AuditLogRow list" where
  "ListAuditLogs limit m =
     (let limit = (if limit \<le> 0 then 50 else limit)
      in take (nat limit) (sort_by (\<lambda>a b. au_at a > au_at b) (m_audit m)))"

end
