(* ===== verification/TerminalStore_Correct.thy ===== *)
theory TerminalStore_Correct
  imports TerminalStore
begin

text \<open>
  The laws of the tables of \<open>TerminalStore\<close>: the review queue refines a map from keys to rows, a
  code has one terminal, the listings of skeleton and legacy terminals divide the terminals, and staged
  trips expire once.
\<close>

section \<open>The review queue\<close>

type_synonym review_key = "string \<times> int \<times> string"

definition row_key :: "ReviewQueueRow \<Rightarrow> review_key" where
  "row_key r = (rw_entity_type r, rw_entity_id r, rw_reason r)"

definition entry_key :: "ReviewQueueEntry \<Rightarrow> review_key" where
  "entry_key e = (rq_entity_type e, rq_entity_id e, rq_reason e)"

datatype review_op =
    Detect ReviewQueueEntry
  | Resolve string
  | Discard string int string
  | ClockAt gotime

fun review_op_run :: "review_op \<Rightarrow> MemoryStore \<Rightarrow> MemoryStore" where
  "review_op_run (Detect e) m = SaveReviewQueue e m"
| "review_op_run (Resolve fp) m = fst (ResolveTripReviewsByFingerprint fp m)"
| "review_op_run (Discard t i reason) m = DeleteReviewQueue t i reason m"
| "review_op_run (ClockAt t) m = m\<lparr>m_clock := t\<rparr>"

text \<open>The specification: a clock and a map from keys to rows.\<close>

fun review_op_spec :: "review_op \<Rightarrow> gotime \<times> (review_key \<rightharpoonup> ReviewQueueRow) \<Rightarrow> gotime \<times> (review_key \<rightharpoonup> ReviewQueueRow)" where
  "review_op_spec (Detect e) (now, q) =
     (now, q(entry_key e \<mapsto> (case q (entry_key e) of None \<Rightarrow> new_review e now | Some r \<Rightarrow> seen_again e r)))"
| "review_op_spec (Resolve fp) (now, q) =
     (now, \<lambda>k. map_option (\<lambda>r. if open_trip_review fp r then r\<lparr>rw_state := ''resolved''\<rparr> else r) (q k))"
| "review_op_spec (Discard t i reason) (now, q) =
     (now, \<lambda>k. if fst k = t \<and> fst (snd k) = i \<and> (reason = '''' \<or> snd (snd k) = reason) then None else q k)"
| "review_op_spec (ClockAt t) (now, q) = (t, q)"

definition review_map :: "ReviewQueueRow list \<Rightarrow> review_key \<rightharpoonup> ReviewQueueRow" where
  "review_map rs = map_of (map (\<lambda>r. (row_key r, r)) rs)"

lemma same_review_key: "same_review e r \<longleftrightarrow> row_key r = entry_key e"
  by (auto simp: same_review_def row_key_def entry_key_def)

lemma row_key_simps [simp]:
  "row_key (seen_again e r) = row_key r" "row_key (new_review e now) = entry_key e" "row_key (r\<lparr>rw_state := s\<rparr>) = row_key r"
  by (simp_all add: row_key_def seen_again_def new_review_def entry_key_def)

lemma keys_save_review:
  "map row_key (save_review e now rs) = map row_key rs @ (if entry_key e \<in> row_key ` set rs then [] else [entry_key e])"
  by (induction rs) (auto simp: same_review_key)

lemma review_map_save:
  "review_map (save_review e now rs) k =
     ((review_map rs)(entry_key e \<mapsto> (case review_map rs (entry_key e) of None \<Rightarrow> new_review e now | Some r \<Rightarrow> seen_again e r))) k"
  by (induction rs) (auto simp: review_map_def same_review_key split: option.splits)

lemma review_map_map:
  assumes "\<And>r. row_key (f r) = row_key r"
  shows "review_map (map f rs) k = map_option f (review_map rs k)"
  using assms by (induction rs) (auto simp: review_map_def)

lemma review_map_filter:
  assumes "\<And>r. P r \<longleftrightarrow> Q (row_key r)"
  shows "review_map (filter P rs) k = (if Q k then review_map rs k else None)"
  using assms by (induction rs) (auto simp: review_map_def)

definition review_abs :: "MemoryStore \<Rightarrow> gotime \<times> (review_key \<rightharpoonup> ReviewQueueRow)" where
  "review_abs m = (m_clock m, review_map (m_review m))"

lemma review_op_refines: "review_abs (review_op_run opn m) = review_op_spec opn (review_abs m)"
proof (cases opn)
  case (Detect e)
  then show ?thesis by (simp add: review_abs_def SaveReviewQueue_def) (rule ext, simp add: review_map_save)
next
  case (Resolve fp)
  then show ?thesis
    by (simp add: review_abs_def ResolveTripReviewsByFingerprint_def) (rule ext, simp add: review_map_map)
next
  case (Discard t i reason)
  show ?thesis
    unfolding Discard review_op_run.simps review_op_spec.simps review_abs_def DeleteReviewQueue_def
    by (auto simp: fun_eq_iff row_key_def review_map_filter [where Q = "\<lambda>k. \<not> (fst k = t \<and> fst (snd k) = i \<and> (reason = '''' \<or> snd (snd k) = reason))"])
qed (simp add: review_abs_def)

lemma review_op_distinct:
  "distinct (map row_key (m_review m)) \<Longrightarrow> distinct (map row_key (m_review (review_op_run opn m)))"
  by (cases opn)
    (auto simp: SaveReviewQueue_def keys_save_review ResolveTripReviewsByFingerprint_def DeleteReviewQueue_def
      comp_def distinct_map_filter if_distrib cong: if_cong)

text \<open>C35: Whatever is detected, resolved and discarded in whatever order, the queue holds one row per entity and
reason, and its rows are those of the specification: a first detection opens a row, every later one counts, takes the
new score and the new fingerprint if there is one, a resolution closes the open rows of the trip.\<close>

theorem review_queue_refines:
  "let m = fold review_op_run ops (NewMemoryStore now off) in
   distinct (map row_key (m_review m)) \<and> review_abs m = fold review_op_spec ops (now, Map.empty)"
proof -
  have "distinct (map row_key (m_review m)) \<Longrightarrow> distinct (map row_key (m_review (fold review_op_run ops m)))" for m
    by (induction ops arbitrary: m) (auto simp: review_op_distinct)
  moreover have "review_abs (fold review_op_run ops m) = fold review_op_spec ops (review_abs m)" for m
    by (induction ops arbitrary: m) (auto simp: review_op_refines)
  ultimately show ?thesis
    by (simp add: Let_def NewMemoryStore_def review_abs_def review_map_def)
qed

text \<open>The part of a run that only detects and resolves.\<close>

definition resolved_keys :: "MemoryStore \<Rightarrow> review_key set" where
  "resolved_keys m = {row_key r | r. r \<in> set (m_review m) \<and> rw_state r = ''resolved''}"

lemma set_save_review:
  "r \<in> set rs \<Longrightarrow> \<exists>r' \<in> set (save_review e now rs). row_key r' = row_key r \<and> rw_state r' = rw_state r"
  by (induction rs) (auto simp: seen_again_def row_key_def)

text \<open>C36: A review that was resolved never opens again: however often the same problem is detected afterwards, with
whatever resolutions between, its row stays resolved, and a resolution finds no open row to close.\<close>

theorem resolved_review_stays_closed:
  "resolved_keys m \<subseteq> resolved_keys (fold review_op_run (map Detect es) m) \<and>
   resolved_keys m \<subseteq> resolved_keys (fold review_op_run (concat (map (\<lambda>(e, fp). [Detect e, Resolve fp]) steps)) m)"
proof -
  have d: "resolved_keys m \<subseteq> resolved_keys (SaveReviewQueue e m)" for e m
  proof
    fix k
    assume "k \<in> resolved_keys m"
    then obtain r where "r \<in> set (m_review m)" "rw_state r = ''resolved''" "k = row_key r" by (auto simp: resolved_keys_def)
    then show "k \<in> resolved_keys (SaveReviewQueue e m)"
      using set_save_review [of r "m_review m" e "m_clock m"] by (simp add: resolved_keys_def SaveReviewQueue_def) metis
  qed
  have r: "resolved_keys m \<subseteq> resolved_keys (fst (ResolveTripReviewsByFingerprint fp m))" for fp m
    by (force simp: resolved_keys_def ResolveTripReviewsByFingerprint_def open_trip_review_def)
  have "resolved_keys m \<subseteq> resolved_keys (fold review_op_run (map Detect es) m)" for m
  proof (induction es arbitrary: m)
    case (Cons e es)
    show ?case using d [of m e] Cons [of "SaveReviewQueue e m"] by auto
  qed simp
  moreover have "resolved_keys m \<subseteq> resolved_keys (fold review_op_run (concat (map (\<lambda>(e, fp). [Detect e, Resolve fp]) steps)) m)" for m
  proof (induction steps arbitrary: m)
    case (Cons a steps)
    obtain e fp where a: "a = (e, fp)" by (cases a)
    show ?case using d [of m e] r [of "SaveReviewQueue e m" fp] Cons [of "fst (ResolveTripReviewsByFingerprint fp (SaveReviewQueue e m))"]
      by (auto simp: a)
  qed simp
  ultimately show ?thesis by blast
qed

section \<open>Codes\<close>

lemma find_filter: "find P xs = (case filter P xs of [] \<Rightarrow> None | x # _ \<Rightarrow> Some x)"
  by (induction xs) auto

lemma keys_filter_update:
  assumes "case map_of xs k of Some w \<Rightarrow> P (k, w) = P (k, v) | None \<Rightarrow> \<not> P (k, v)"
  shows "map fst (filter P (AList.update k v xs)) = map fst (filter P xs)"
  using assms by (induction xs) (auto split: if_splits)

lemma keys_filter_update_only:
  assumes "filter P xs = []" "P (k, v)"
  shows "map fst (filter P (AList.update k v xs)) = [k]"
  using assms by (induction xs) (auto split: if_splits)

definition code_is :: "string \<Rightarrow> string \<Rightarrow> AdaptedIdentifier \<Rightarrow> bool" where
  "code_is system code i \<longleftrightarrow> ai_system i = system \<and> ai_code i = code"

definition owners :: "MemoryStore \<Rightarrow> string \<Rightarrow> string \<Rightarrow> int list" where
  "owners m system code = map fst (filter (\<lambda>(_, ids). list_ex (code_is system code) ids) (m_terminal_idents m))"

lemma attach_by_owner:
  "AttachTerminalIdentifier tid c m =
     (case owners m (ai_system c) (ai_code c) of
        [] \<Rightarrow> (m\<lparr>m_terminal_idents := map_append tid c (m_terminal_idents m)\<rparr>, 0)
      | t # _ \<Rightarrow> (m, if t = tid then 0 else t))"
  by (auto simp: AttachTerminalIdentifier_def owners_def find_filter code_is_def [abs_def] split: list.splits)

lemma owners_attach:
  "owners (fst (AttachTerminalIdentifier tid c m)) system code =
     (if code_is system code c \<and> owners m system code = [] then [tid] else owners m system code)"
proof (cases "owners m (ai_system c) (ai_code c)")
  case Nil
  have new: "list_ex (code_is system code) (ids @ [c]) \<longleftrightarrow> list_ex (code_is system code) ids \<or> code_is system code c" for ids
    by auto
  show ?thesis
  proof (cases "code_is system code c")
    case True
    then have e: "ai_system c = system" "ai_code c = code" by (simp_all add: code_is_def)
    have "filter (\<lambda>(_, ids). list_ex (code_is system code) ids) (m_terminal_idents m) = []"
      using Nil by (simp add: owners_def e)
    then show ?thesis
      unfolding attach_by_owner Nil using True Nil
      by (simp add: owners_def e map_append_def keys_filter_update_only new split: option.split)
  next
    case False
    then show ?thesis
      unfolding attach_by_owner Nil
      by (simp add: owners_def map_append_def) (rule keys_filter_update, simp add: new split: option.split)
  qed
qed (auto simp: attach_by_owner code_is_def)

definition asked_first :: "(int \<times> AdaptedIdentifier) list \<Rightarrow> string \<Rightarrow> string \<Rightarrow> int list" where
  "asked_first asks system code =
     (case find (\<lambda>(_, c). code_is system code c) asks of Some (t, _) \<Rightarrow> [t] | None \<Rightarrow> [])"

text \<open>Codes are given in the order they are asked for: however many terminals ask for a code, the first
keeps it and nobody else has it, and who asks later is told the name of the owner (nothing, if that is itself).\<close>

theorem code_goes_to_first:
  "let m = fold (\<lambda>(t, c) m. fst (AttachTerminalIdentifier t c m)) asks (NewMemoryStore now off) in
   owners m system code = asked_first asks system code \<and>
   (\<forall>t. snd (AttachTerminalIdentifier t \<lparr>ai_system = system, ai_code_type = ty, ai_code = code\<rparr> m) =
      (case asked_first asks system code of [owner] \<Rightarrow> if owner = t then 0 else owner | _ \<Rightarrow> 0))"
proof -
  have "owners (fold (\<lambda>(t, c) m. fst (AttachTerminalIdentifier t c m)) asks (NewMemoryStore now off)) system code =
      asked_first asks system code"
  proof (induction asks rule: rev_induct)
    case (snoc a asks)
    obtain t c where a: "a = (t, c)" by (cases a)
    have "find P (xs @ [x]) = (case find P xs of None \<Rightarrow> if P x then Some x else None | r \<Rightarrow> r)" for P and x :: "int \<times> AdaptedIdentifier" and xs
      by (induction xs) auto
    then show ?case using snoc by (auto simp: a owners_attach asked_first_def split: option.splits prod.splits)
  qed (simp add: owners_def NewMemoryStore_def asked_first_def)
  then show ?thesis
    by (simp add: Let_def attach_by_owner) (auto simp: asked_first_def split: option.splits)
qed

section \<open>Terminals of the skeleton and the others\<close>

text \<open>The two listings divide the terminals: every terminal is a row of exactly one of them, as often as it is in
the table, and the one of the skeleton lists those with a state from a run of the skeleton.\<close>

theorem listings_divide_terminals:
  "mset (map lg_id (ListLegacyTerminals m)) + mset (map sk_id (ListSkeletonTerminals m)) = mset (map fst (m_terminals m)) \<and>
   list_all (\<lambda>r. hasSkeletonState (sk_id r) (skeletonRunIDs m) m) (ListSkeletonTerminals m) \<and>
   list_all (\<lambda>r. \<not> hasSkeletonState (lg_id r) (skeletonRunIDs m) m) (ListLegacyTerminals m)"
proof -
  have ids: "lg_id (legacy_row m x) = fst x" "sk_id (skeleton_row m x) = fst x" for x
    by (simp_all add: legacy_row_def skeleton_row_def split_beta)
  have "image_mset fst (filter_mset P M) + image_mset fst (filter_mset (\<lambda>x. \<not> P x) M) = image_mset fst M"
    for P and M :: "(int \<times> TerminalRow) multiset"
    by (simp flip: image_mset_union multiset_partition)
  from this [of "\<lambda>x. \<not> hasSkeletonState (fst x) (skeletonRunIDs m) m" "mset (m_terminals m)"] show ?thesis
    by (auto simp: ListLegacyTerminals_def ListSkeletonTerminals_def list_all_iff ids split_beta multiset.map_comp comp_def)
qed

section \<open>Staged trips\<close>

lemma map_of_count_states:
  "map_of (fold (\<lambda>s out. AList.update (sw_state s) ((case map_of out (sw_state s) of Some n \<Rightarrow> n | None \<Rightarrow> 0) + 1) out) ss out) st =
     (if st \<in> sw_state ` set ss \<or> map_of out st \<noteq> None
      then Some ((case map_of out st of Some n \<Rightarrow> n | None \<Rightarrow> 0) + length (filter (\<lambda>s. sw_state s = st) ss)) else None)"
  by (induction ss arbitrary: out) (auto simp: update_conv' split: option.splits)

definition staged_in :: "string \<Rightarrow> MemoryStore \<Rightarrow> nat" where
  "staged_in state m = (case map_of (CountStagingByState m) state of Some n \<Rightarrow> n | None \<Rightarrow> 0)"

lemma staged_in_count: "staged_in state m = length (filter (\<lambda>s. sw_state s = state) (map snd (m_staging m)))"
  unfolding staged_in_def CountStagingByState_def map_of_count_states
  by (auto simp: filter_empty_conv)

text \<open>Expiring stale trips moves as many rows into the expired state as it reports, leaves rows that are finished
or fresh as they are, drops no row, and does nothing when it is repeated.\<close>

theorem expiry_exact:
  "case ExpireStagingTripsOlderThan cutoff m of (m', n) \<Rightarrow>
     staged_in ''expired'' m' = staged_in ''expired'' m + n \<and>
     m_staging m' = map (\<lambda>(k, s). (k, if stale cutoff s then s\<lparr>sw_state := ''expired''\<rparr> else s)) (m_staging m) \<and>
     \<not> list_ex (\<lambda>(_, s). stale cutoff s) (m_staging m') \<and>
     ExpireStagingTripsOlderThan cutoff m' = (m', 0)"
proof -
  have fresh: "\<not> stale cutoff (expire_row cutoff s)" "expire_row cutoff (expire_row cutoff s) = expire_row cutoff s" for s
    by (simp_all add: expire_row_def stale_def unfinished_state_def)
  let ?e = "\<lambda>(k, s). (k, expire_row cutoff s)"
  have n: "length (filter (\<lambda>s. sw_state s = ''expired'') (map snd (map ?e xs))) =
      length (filter (\<lambda>s. sw_state s = ''expired'') (map snd xs)) + length (filter (stale cutoff) (map snd xs))"
    for xs :: "(string \<times> StagingTripRow) list"
    by (induction xs) (auto simp: expire_row_def stale_def unfinished_state_def)
  have again: "map ?e (map ?e xs) = map ?e xs" "filter (stale cutoff) (map snd (map ?e xs)) = []"
      "\<not> list_ex (\<lambda>(_, s). stale cutoff s) (map ?e xs)" for xs :: "(string \<times> StagingTripRow) list"
    by (induction xs) (auto simp: fresh)
  have "map ?e xs = map (\<lambda>(k, s). (k, if stale cutoff s then s\<lparr>sw_state := ''expired''\<rparr> else s)) xs" for xs
    by (simp add: expire_row_def)
  then show ?thesis
    by (simp add: ExpireStagingTripsOlderThan_def staged_in_count n again del: map_map filter_map map_eq_conv length_filter_map)
qed

end
