(* ===== verification/Promote.thy ===== *)
theory Promote
  imports Skeleton Attach TerminalStore Json
begin

text \<open>
  Promotion of the joined skeleton into the store (\<open>sync/skeleton_promote.go\<close>): the outcome of a
  join is cut into chunks, and the records of a chunk become terminals with names, aliases, tags,
  attribute states and votes, or entries of the review queue. A transaction of the memory store runs its
  function on the store itself, so an error leaves behind what was written before it.
\<close>

section \<open>Sequences of fallible operations\<close>

fun run_all :: "('s \<Rightarrow> 's \<times> 'e option) list \<Rightarrow> 's \<Rightarrow> 's \<times> 'e option" where
  "run_all [] s = (s, None)"
| "run_all (f # fs) s = (case f s of (s, None) \<Rightarrow> run_all fs s | (s, Some e) \<Rightarrow> (s, Some e))"

definition skip :: "'s \<Rightarrow> 's \<times> 'e option" where
  "skip s = (s, None)"

datatype sync_error = StoreFailed store_error | ContextDone | RowsDiffer nat nat nat

section \<open>Chunks\<close>

record SkeletonChunk =
  sc_key :: string
  sc_canon :: "JoinedRecord list"
  sc_unverified :: "AdaptedRecord list"
  sc_ambiguous :: "JoinedRecord list"

record ChunkSummary =
  cs_key :: string
  cs_in :: nat
  cs_written :: nat
  cs_review :: nat
  cs_enriched :: nat

record RunSummary =
  rs_in :: nat
  rs_written :: nat
  rs_review :: nat
  rs_enriched :: nat
  rs_chunks :: nat
  rs_unmatched :: nat

definition recordRegion :: "AdaptedRecord \<Rightarrow> string" where
  "recordRegion r = extra r ''region''"

definition recordTransport :: "AdaptedRecord \<Rightarrow> string" where
  "recordTransport r = extra r ''transport_type''"

definition skeletonChunkLess :: "AdaptedRecord \<Rightarrow> AdaptedRecord \<Rightarrow> bool" where
  "skeletonChunkLess a b \<longleftrightarrow>
     (if recordRegion a \<noteq> recordRegion b then recordRegion a < recordRegion b
      else if recordTransport a \<noteq> recordTransport b then recordTransport a < recordTransport b
      else if PrimaryCode a \<noteq> PrimaryCode b then PrimaryCode a < PrimaryCode b
      else ar_name a < ar_name b)"

definition or_word :: "string \<Rightarrow> string \<Rightarrow> string" where
  "or_word s d = (if s = '''' then d else s)"

definition skeletonChunkKey :: "AdaptedRecord \<Rightarrow> AdaptedRecord \<Rightarrow> nat \<Rightarrow> string" where
  "skeletonChunkKey f l idx =
     ''terminals:'' @ or_word (recordRegion f) ''unknown'' @ '':'' @ or_word (recordTransport f) ''any'' @ '':'' @
     PrimaryCode f @ ''-'' @ PrimaryCode l @ '':'' @ itoa (int idx)"

definition review_chunk_key :: "string \<Rightarrow> AdaptedRecord \<Rightarrow> nat \<Rightarrow> string" where
  "review_chunk_key kind r idx = kind @ '':'' @ or_word (recordRegion r) ''unknown'' @ '':'' @ itoa (int idx)"

text \<open>\<open>for start := 0; start < len(xs); start += size\<close>\<close>

function parts_of :: "nat \<Rightarrow> 'a list \<Rightarrow> 'a list list" where
  "parts_of n xs = (if xs = [] \<or> n = 0 then [] else take n xs # parts_of n (drop n xs))"
  by pat_completeness auto
termination by (relation "measure (\<lambda>(n, xs). length xs)") auto

declare parts_of.simps [simp del]

definition chunk_size :: "int \<Rightarrow> nat" where
  "chunk_size n = nat (if n \<le> 0 \<or> n > 100 then 100 else n)"

definition add_chunks :: "('a list \<Rightarrow> nat \<Rightarrow> SkeletonChunk) \<Rightarrow> 'a list list \<Rightarrow> SkeletonChunk list \<Rightarrow> SkeletonChunk list" where
  "add_chunks f parts chunks = fold (\<lambda>part chunks. chunks @ [f part (length chunks)]) parts chunks"

definition canon_chunk :: "JoinedRecord list \<Rightarrow> nat \<Rightarrow> SkeletonChunk" where
  "canon_chunk part idx = \<lparr>sc_key = skeletonChunkKey (jr_record (hd part)) (jr_record (last part)) idx,
     sc_canon = part, sc_unverified = [], sc_ambiguous = []\<rparr>"

definition unverified_chunk :: "AdaptedRecord list \<Rightarrow> nat \<Rightarrow> SkeletonChunk" where
  "unverified_chunk part idx = \<lparr>sc_key = review_chunk_key ''review'' (hd part) idx,
     sc_canon = [], sc_unverified = part, sc_ambiguous = []\<rparr>"

definition ambiguous_chunk :: "JoinedRecord list \<Rightarrow> nat \<Rightarrow> SkeletonChunk" where
  "ambiguous_chunk part idx = \<lparr>sc_key = review_chunk_key ''ambiguous'' (jr_record (hd part)) idx,
     sc_canon = [], sc_unverified = [], sc_ambiguous = part\<rparr>"

definition ChunkSkeleton :: "JoinOutcome \<Rightarrow> int \<Rightarrow> SkeletonChunk list" where
  "ChunkSkeleton outcome pageSize =
     (let n = chunk_size pageSize;
          canon = sort_by (\<lambda>a b. skeletonChunkLess (jr_record a) (jr_record b)) (jo_canon outcome);
          unverified = sort_by skeletonChunkLess (jo_unverified outcome);
          ambiguous = sort_by (\<lambda>a b. skeletonChunkLess (jr_record a) (jr_record b)) (jo_ambiguous outcome)
      in add_chunks ambiguous_chunk (parts_of n ambiguous)
           (add_chunks unverified_chunk (parts_of n unverified)
             (add_chunks canon_chunk (parts_of n canon) [])))"

section \<open>Records of a chunk\<close>

definition fallbackCode :: "AdaptedRecord \<Rightarrow> string" where
  "fallbackCode r = or_word (PrimaryCode r) (ar_name r)"

definition externalFingerprint :: "AdaptedRecord \<Rightarrow> string" where
  "externalFingerprint r = ar_source r @ '':'' @ fallbackCode r"

definition terminal_review :: "string \<Rightarrow> AdaptedRecord \<Rightarrow> real \<Rightarrow> ReviewQueueEntry" where
  "terminal_review reason r score = \<lparr>rq_entity_type = ''terminal'',
     rq_entity_id = syntheticReviewID ''terminal'' reason (ar_source r) (fallbackCode r),
     rq_reason = reason, rq_score = score, rq_fingerprint = externalFingerprint r\<rparr>"

definition reviewUnverified :: "AdaptedRecord \<Rightarrow> MemoryStore \<Rightarrow> MemoryStore" where
  "reviewUnverified r m = SaveReviewQueue (terminal_review ''skeleton_unverified'' r 0) m"

definition geomWinnerSource :: "AdaptedRecord \<Rightarrow> string" where
  "geomWinnerSource r =
     (if list_ex (\<lambda>i. ai_system i = ''osm'') (ar_ids r) then ''osm''
      else if ar_source r \<noteq> '''' then ar_source r else ''osm'')"

definition provenanceSources :: "AdaptedRecord \<Rightarrow> bool \<Rightarrow> string list" where
  "provenanceSources r enriched =
     (let add = (\<lambda>s out. if s = '''' \<or> s \<in> set out then out else out @ [s]) in
      if enriched then add ''yandex'' (add ''osm'' [])
      else add (ar_source r) (fold (\<lambda>i. add (ai_system i)) (ar_ids r) []))"

definition trim_suffix :: "string \<Rightarrow> string \<Rightarrow> string" where
  "trim_suffix s p = (if has_suffix s p then take (length s - length p) s else s)"

definition yandexNameAddsContext :: "string \<Rightarrow> string \<Rightarrow> bool" where
  "yandexNameAddsContext yandexName osmName =
     (if yandexName = '''' \<or> osmName = '''' then False
      else (let y = to_lower (trim_space yandexName); o1 = to_lower (trim_space osmName) in
        if y = o1 \<or> \<not> has_suffix y o1 then False
        else trim_suffix (trim_suffix (trim_space (trim_suffix y o1)) '','') '' '' \<noteq> ''''))"

definition recordObjectType :: "AdaptedRecord \<Rightarrow> string" where
  "recordObjectType r = or_word (extra r ''station_type'') (extra r ''object_type'')"

definition splitTransport :: "string \<Rightarrow> string list" where
  "splitTransport s = (if s = '''' then [] else split_char (CHR ''+'') s)"

fun enrichment_string :: "EnrichmentStatus \<Rightarrow> string" where
  "enrichment_string IdentityOnly = ''identity_only''"
| "enrichment_string Enriched = ''enriched''"
| "enrichment_string Unverified = ''unverified''"

definition terminal_row :: "JoinedRecord \<Rightarrow> real \<Rightarrow> real \<Rightarrow> TerminalRow" where
  "terminal_row j la lo = (let r = jr_record j in
     \<lparr>te_id = 0, te_place = None, te_lat = la, te_lon = lo, te_tz = ar_tz r, te_validity_from = None, te_validity_to = None,
      te_valid_from = '''', te_valid_to = None, te_verified_at = None, te_locked = False, te_address = extra r ''address'',
      te_transport = splitTransport (recordTransport r), te_object_type = recordObjectType r,
      te_enrichment = enrichment_string (jr_enrichment j)\<rparr>)"

definition primary_name :: "AdaptedRecord \<Rightarrow> string" where
  "primary_name r =
     (let y = extra r ''yandex_title'' in if y \<noteq> '''' \<and> yandexNameAddsContext y (ar_name r) then y else ar_name r)"

definition names_of :: "AdaptedRecord \<Rightarrow> (string \<times> string) list" where
  "names_of r = (''ru'', primary_name r) # (if ar_name_en r \<noteq> '''' then [(''en'', ar_name_en r)] else [])"

definition alias_row :: "int \<Rightarrow> string \<Rightarrow> string \<Rightarrow> TerminalAliasRow" where
  "alias_row i alias source = \<lparr>al_terminal = i, al_alias = alias, al_lang = ''ru'', al_source = source, al_observed = 0\<rparr>"

definition attr_row :: "int \<Rightarrow> string \<Rightarrow> attr_value \<Rightarrow> string \<Rightarrow> real \<Rightarrow> int \<Rightarrow> AttributeStateRow" where
  "attr_row i field value source confidence runID = \<lparr>as_entity_type = ''terminal'', as_entity_id = i, as_field = field,
     as_value = value, as_source = source, as_confidence = confidence, as_origin = ''live'', as_actor = None, as_run = Some runID\<rparr>"

definition promoteJoined :: "int \<Rightarrow> JoinedRecord \<Rightarrow> MemoryStore \<Rightarrow> MemoryStore \<times> (sync_error + bool)" where
  "promoteJoined runID j m =
     (let r = jr_record j in
      case (ar_lat r, ar_lon r) of
        (Some la, Some lo) \<Rightarrow>
          (let nameRu = primary_name r;
               title = extra r ''yandex_title''; settlement = extra r ''settlement'';
               (m, i) = UpsertTerminal (terminal_row j la lo) (names_of r) (ar_ids r) m
           in case run_all
                [if title \<noteq> '''' then UpsertTerminalAlias (alias_row i title ''yandex'') else skip,
                 if nameRu \<noteq> ar_name r then UpsertTerminalAlias (alias_row i (ar_name r) ''osm'') else skip,
                 if settlement \<noteq> '''' then SetTerminalTag i ''settlement'' settlement else skip] m of
                (m, Some e) \<Rightarrow> (m, Inl (StoreFailed e))
              | (m, None) \<Rightarrow>
                  (let source = geomWinnerSource r;
                       m = UpsertAttributeState (attr_row i ''geom'' (AttrGeom la lo) source (jr_score j) runID) m;
                       m = UpsertAttributeState (attr_row i ''name_ru'' (AttrText nameRu) source (jr_score j) runID) m;
                       m = fold (\<lambda>src m. SaveProvenance \<lparr>pv_entity_type = ''terminal'', pv_entity_id = i, pv_source = src,
                              pv_confidence = jr_score j, pv_observed = m_clock m\<rparr> m)
                            (provenanceSources r (jr_enrichment j = Enriched)) m
                   in (m, Inr True)))
      | _ \<Rightarrow> (SaveReviewQueue (terminal_review ''low_confidence'' r (jr_score j)) m, Inr False))"

section \<open>A chunk\<close>

type_synonym promotion = "MemoryStore \<times> ChunkSummary"

definition promote_canon :: "int \<Rightarrow> JoinedRecord \<Rightarrow> promotion \<Rightarrow> promotion \<times> sync_error option" where
  "promote_canon runID j = (\<lambda>(m, s).
     case promoteJoined runID j m of
       (m, Inl e) \<Rightarrow> ((m, s), Some e)
     | (m, Inr written) \<Rightarrow>
         ((m, if written
              then s\<lparr>cs_written := cs_written s + 1,
                     cs_enriched := (if jr_enrichment j = Enriched then cs_enriched s + 1 else cs_enriched s)\<rparr>
              else s\<lparr>cs_review := cs_review s + 1\<rparr>), None))"

definition promote_unverified :: "int \<Rightarrow> AdaptedRecord \<Rightarrow> promotion \<Rightarrow> promotion \<times> sync_error option" where
  "promote_unverified runID r = (\<lambda>(m, s).
     if HasCoords r then
       (case promoteJoined runID \<lparr>jr_record = r, jr_score = 4 / 10, jr_enrichment = IdentityOnly\<rparr> m of
          (m, Inl e) \<Rightarrow> ((m, s), Some e)
        | (m, Inr written) \<Rightarrow> ((m, if written then s\<lparr>cs_written := cs_written s + 1\<rparr> else s), None))
     else ((reviewUnverified r m, s\<lparr>cs_review := cs_review s + 1\<rparr>), None))"

definition review_ambiguous :: "JoinedRecord \<Rightarrow> promotion \<Rightarrow> promotion \<times> sync_error option" where
  "review_ambiguous j = (\<lambda>(m, s).
     ((SaveReviewQueue (terminal_review ''duplicate_ambiguous'' (jr_record j) (jr_score j)) m,
       s\<lparr>cs_review := cs_review s + 1\<rparr>), None))"

text \<open>\<open>ctx i\<close>: the context is found cancelled before the \<open>i\<close>-th record.\<close>

fun each_record :: "(nat \<Rightarrow> bool) \<Rightarrow> nat \<Rightarrow> ('a \<Rightarrow> 's \<Rightarrow> 's \<times> sync_error option) \<Rightarrow> 'a list \<Rightarrow> 's \<Rightarrow> 's \<times> sync_error option" where
  "each_record ctx i f [] s = (s, None)"
| "each_record ctx i f (x # xs) s =
     (if ctx i then (s, Some ContextDone)
      else (case f x s of (s, Some e) \<Rightarrow> (s, Some e) | (s, None) \<Rightarrow> each_record ctx (Suc i) f xs s))"

definition chunk_records :: "SkeletonChunk \<Rightarrow> nat" where
  "chunk_records chunk = length (sc_canon chunk) + length (sc_unverified chunk) + length (sc_ambiguous chunk)"

definition PromoteSkeletonChunk :: "(nat \<Rightarrow> bool) \<Rightarrow> int \<Rightarrow> SkeletonChunk \<Rightarrow> MemoryStore \<Rightarrow> MemoryStore \<times> (sync_error + ChunkSummary)" where
  "PromoteSkeletonChunk ctx runID chunk m =
     (let s = \<lparr>cs_key = sc_key chunk, cs_in = chunk_records chunk, cs_written = 0, cs_review = 0, cs_enriched = 0\<rparr>
      in case run_all
           [each_record ctx 0 (promote_canon runID) (sc_canon chunk),
            each_record ctx (length (sc_canon chunk)) (promote_unverified runID) (sc_unverified chunk),
            each_record ctx (length (sc_canon chunk) + length (sc_unverified chunk)) review_ambiguous (sc_ambiguous chunk)] (m, s) of
           ((m, s), Some e) \<Rightarrow> (m, Inl e)
         | ((m, s), None) \<Rightarrow>
             if cs_in s \<noteq> cs_written s + cs_review s then (m, Inl (RowsDiffer (cs_in s) (cs_written s) (cs_review s)))
             else (m, Inr s))"

section \<open>Runs\<close>

definition new_run :: "string \<Rightarrow> string \<Rightarrow> string \<Rightarrow> string \<Rightarrow> SyncRunRow" where
  "new_run planID kind inputSHA tag = \<lparr>sy_id = 0, sy_plan = planID, sy_kind = kind, sy_sha = inputSHA, sy_tag = tag,
     sy_state = '''', sy_summary = ''''\<rparr>"

definition BeginSkeletonRun :: "string \<Rightarrow> string \<Rightarrow> string \<Rightarrow> MemoryStore \<Rightarrow> MemoryStore \<times> int" where
  "BeginSkeletonRun planID inputSHA tag m = CreateSyncRun (new_run planID ''skeleton'' inputSHA tag) m"

definition CheckRunBalance :: "RunSummary \<Rightarrow> sync_error option" where
  "CheckRunBalance s =
     (if rs_in s \<noteq> rs_written s + rs_review s then Some (RowsDiffer (rs_in s) (rs_written s) (rs_review s)) else None)"

definition summary_json :: "RunSummary \<Rightarrow> string" where
  "summary_json s = (let field = (\<lambda>name n. quoted name @ '':'' @ itoa (int n)) in
     ''{'' @ join '','' [field ''in'' (rs_in s), field ''written'' (rs_written s), field ''review'' (rs_review s),
       field ''enriched'' (rs_enriched s), field ''chunks'' (rs_chunks s), field ''unmatched'' (rs_unmatched s)] @ ''}'')"

definition FinishSkeletonRun :: "int \<Rightarrow> string \<Rightarrow> RunSummary \<Rightarrow> MemoryStore \<Rightarrow> MemoryStore \<times> sync_error option" where
  "FinishSkeletonRun runID state s m =
     (case CheckRunBalance s of
        Some e \<Rightarrow> (m, Some e)
      | None \<Rightarrow> (case FinishSyncRun runID state (summary_json s) m of (m, e) \<Rightarrow> (m, map_option StoreFailed e)))"

end
