(* ===== verification/Promote_Correct.thy ===== *)
theory Promote_Correct
  imports Promote
begin

text \<open>
  Chunks divide the outcome of a join and have distinct keys; the promotion of a chunk never fails
  and adds exactly the terminals of its located records.
\<close>

section \<open>Chunks\<close>

lemma parts_of_simps [simp]:
  "parts_of n [] = []" "n \<noteq> 0 \<Longrightarrow> xs \<noteq> [] \<Longrightarrow> parts_of n xs = take n xs # parts_of n (drop n xs)"
  by (simp_all add: parts_of.simps)

lemma concat_parts_of: "n \<noteq> 0 \<Longrightarrow> concat (parts_of n xs) = xs"
proof (induction n xs rule: parts_of.induct)
  case (1 n xs)
  then show ?case by (cases "xs = []") simp_all
qed

lemma parts_of_bounds: "n \<noteq> 0 \<Longrightarrow> p \<in> set (parts_of n xs) \<Longrightarrow> p \<noteq> [] \<and> length p \<le> n"
proof (induction n xs rule: parts_of.induct)
  case (1 n xs)
  then show ?case by (cases "xs = []") auto
qed

lemma add_chunks_eq: "add_chunks f parts cs = cs @ map2 f parts [length cs ..< length cs + length parts]"
proof (induction parts arbitrary: cs)
  case (Cons p parts)
  have "add_chunks f (p # parts) cs = add_chunks f parts (cs @ [f p (length cs)])" by (simp add: add_chunks_def)
  also have "\<dots> = cs @ map2 f (p # parts) (length cs # [Suc (length cs) ..< Suc (length cs) + length parts])"
    by (subst Cons) simp
  also have "length cs # [Suc (length cs) ..< Suc (length cs) + length parts] = [length cs ..< length cs + length (p # parts)]"
    by (simp add: upt_rec)
  finally show ?case .
qed (simp add: add_chunks_def)

lemma map_add_chunks:
  assumes "\<And>p i. g (f p i) = h p"
  shows "map g (add_chunks f parts cs) = map g cs @ map h parts"
proof -
  have "map g (map2 f parts ns) = map h parts" if "length ns = length parts" for ns
    using that assms by (induction parts ns rule: list_induct2') auto
  then show ?thesis by (simp add: add_chunks_eq del: map_map)
qed

lemma chunk_fields:
  "map sc_canon (add_chunks canon_chunk ps cs) = map sc_canon cs @ ps"
  "map sc_unverified (add_chunks canon_chunk ps cs) = map sc_unverified cs @ map (\<lambda>_. []) ps"
  "map sc_ambiguous (add_chunks canon_chunk ps cs) = map sc_ambiguous cs @ map (\<lambda>_. []) ps"
  "map sc_canon (add_chunks unverified_chunk qs cs) = map sc_canon cs @ map (\<lambda>_. []) qs"
  "map sc_unverified (add_chunks unverified_chunk qs cs) = map sc_unverified cs @ qs"
  "map sc_ambiguous (add_chunks unverified_chunk qs cs) = map sc_ambiguous cs @ map (\<lambda>_. []) qs"
  "map sc_canon (add_chunks ambiguous_chunk ps cs) = map sc_canon cs @ map (\<lambda>_. []) ps"
  "map sc_unverified (add_chunks ambiguous_chunk ps cs) = map sc_unverified cs @ map (\<lambda>_. []) ps"
  "map sc_ambiguous (add_chunks ambiguous_chunk ps cs) = map sc_ambiguous cs @ ps"
  by (rule map_add_chunks [THEN trans], simp add: canon_chunk_def unverified_chunk_def ambiguous_chunk_def, simp)+

lemma digit_chars: "digits_value acc s \<noteq> None \<Longrightarrow> c \<in> set s \<Longrightarrow> is_digit (byte c)"
  by (induction s arbitrary: acc) (auto split: if_splits)

lemma itoa_nat_digit: "c \<in> set (itoa (int n)) \<Longrightarrow> is_digit (byte c)"
  using digit_chars [of 0 "nat_digits n" c] by (simp add: itoa_def digits_value_nat_digits)

lemma no_colon_in_itoa: "CHR '':'' \<notin> set (itoa (int n))"
  using itoa_nat_digit [of "CHR '':''" n] by (auto simp: is_digit_def byte_def)

lemma split_last_unique:
  assumes "c \<notin> set u" "c \<notin> set v" "xs @ c # u = ys @ c # v"
  shows "u = v"
proof -
  have "takeWhile (\<lambda>x. x \<noteq> c) (rev (xs @ c # u)) = rev u" "takeWhile (\<lambda>x. x \<noteq> c) (rev (ys @ c # v)) = rev v"
    using assms(1,2) by (auto simp: takeWhile_append2 takeWhile_tail)
  then show ?thesis using assms(3) by (metis rev_rev_ident)
qed

definition numbered :: "string \<Rightarrow> nat \<Rightarrow> bool" where
  "numbered key i \<longleftrightarrow> (\<exists>p. key = p @ '':'' @ itoa (int i))"

lemma numbered_unique: "numbered key i \<Longrightarrow> numbered key j \<Longrightarrow> i = j"
  unfolding numbered_def using split_last_unique [of "CHR '':''"] no_colon_in_itoa
  by (metis append_Cons append_Nil itoa_inject of_nat_eq_iff)

lemma chunk_numbered:
  "numbered (sc_key (canon_chunk p1 i)) i" "numbered (sc_key (unverified_chunk p2 i)) i" "numbered (sc_key (ambiguous_chunk p3 i)) i"
  unfolding numbered_def canon_chunk_def unverified_chunk_def ambiguous_chunk_def skeletonChunkKey_def review_chunk_key_def
  by (auto intro: exI [of _ "''terminals:'' @ _"] exI simp flip: append_assoc)

lemma distinct_numbered:
  assumes "\<And>i. i < length cs \<Longrightarrow> numbered (sc_key (cs ! i)) i"
  shows "distinct (map sc_key cs)"
  unfolding distinct_conv_nth using assms numbered_unique by (metis length_map nth_map)

lemma numbered_add_chunks:
  assumes "\<And>i. i < length cs \<Longrightarrow> numbered (sc_key (cs ! i)) i" "\<And>p i. numbered (sc_key (f p i)) i" "i < length (add_chunks f parts cs)"
  shows "numbered (sc_key (add_chunks f parts cs ! i)) i"
  using assms by (auto simp: add_chunks_eq nth_append)

text \<open>C30: The chunks of an outcome hold each of its records once, with as many records in a chunk as asked for (at
most 100, at least one) and all of one kind, and their keys differ, so a chunk that is done is never taken for another.\<close>

theorem chunks_divide_outcome:
  "let cs = ChunkSkeleton outcome n in
   mset (concat (map sc_canon cs)) = mset (jo_canon outcome) \<and>
   mset (concat (map sc_unverified cs)) = mset (jo_unverified outcome) \<and>
   mset (concat (map sc_ambiguous cs)) = mset (jo_ambiguous outcome) \<and>
   distinct (map sc_key cs) \<and>
   list_all (\<lambda>c. 1 \<le> chunk_records c \<and> chunk_records c \<le> chunk_size n \<and> chunk_size n \<le> 100 \<and>
     chunk_records c \<in> {length (sc_canon c), length (sc_unverified c), length (sc_ambiguous c)}) cs"
proof -
  have n: "chunk_size n \<noteq> 0" "chunk_size n \<le> 100" by (auto simp: chunk_size_def)
  let ?c = "parts_of (chunk_size n) (sort_by (\<lambda>a b. skeletonChunkLess (jr_record a) (jr_record b)) (jo_canon outcome))"
  let ?u = "parts_of (chunk_size n) (sort_by skeletonChunkLess (jo_unverified outcome))"
  let ?a = "parts_of (chunk_size n) (sort_by (\<lambda>a b. skeletonChunkLess (jr_record a) (jr_record b)) (jo_ambiguous outcome))"
  let ?cs = "add_chunks ambiguous_chunk ?a (add_chunks unverified_chunk ?u (add_chunks canon_chunk ?c []))"
  have e: "ChunkSkeleton outcome n = ?cs" by (simp add: ChunkSkeleton_def Let_def)
  have none: "concat (map (\<lambda>_. []) xs) = []" for xs :: "'x list" by (induction xs) auto
  have "concat (map sc_canon ?cs) = concat ?c" "concat (map sc_unverified ?cs) = concat ?u" "concat (map sc_ambiguous ?cs) = concat ?a"
    by (simp_all add: chunk_fields none)
  moreover have "distinct (map sc_key ?cs)"
    by (intro distinct_numbered numbered_add_chunks) (simp_all add: chunk_numbered)
  moreover have "list_all (\<lambda>c. 1 \<le> chunk_records c \<and> chunk_records c \<le> chunk_size n \<and> chunk_size n \<le> 100 \<and>
     chunk_records c \<in> {length (sc_canon c), length (sc_unverified c), length (sc_ambiguous c)}) ?cs"
    using n(2)
    by (auto simp: add_chunks_eq list_all_iff chunk_records_def canon_chunk_def unverified_chunk_def ambiguous_chunk_def
        Suc_le_eq dest!: set_zip_leftD parts_of_bounds [OF n(1)])
  ultimately show ?thesis by (simp add: e concat_parts_of [OF n(1)] Let_def)
qed

section \<open>Promotion of a chunk\<close>

definition terminals_ok :: "MemoryStore \<Rightarrow> bool" where
  "terminals_ok m \<longleftrightarrow> 0 < m_next_id m \<and> list_all (\<lambda>(i, _). i < m_next_id m) (m_terminals m)"

definition located :: "JoinedRecord \<Rightarrow> (JoinedRecord \<times> real \<times> real) list" where
  "located j = (case (ar_lat (jr_record j), ar_lon (jr_record j)) of (Some la, Some lo) \<Rightarrow> [(j, la, lo)] | _ \<Rightarrow> [])"

definition unmatched :: "AdaptedRecord \<Rightarrow> JoinedRecord" where
  "unmatched r = \<lparr>jr_record = r, jr_score = 4 / 10, jr_enrichment = IdentityOnly\<rparr>"

fun new_terminals :: "int \<Rightarrow> (JoinedRecord \<times> real \<times> real) list \<Rightarrow> (int \<times> TerminalRow) list" where
  "new_terminals n [] = []"
| "new_terminals n ((j, la, lo) # xs) = (n, (terminal_row j la lo)\<lparr>te_id := n\<rparr>) # new_terminals (n + 1) xs"

definition has_state :: "int \<Rightarrow> MemoryStore \<Rightarrow> int \<Rightarrow> bool" where
  "has_state runID m i \<longleftrightarrow>
     (\<exists>a. (attr_key a, a) \<in> set (m_attr_states m) \<and> as_entity_type a = ''terminal'' \<and> as_entity_id a = i \<and> as_run a = Some runID)"

text \<open>What a promotion leaves of the store: the terminals grow by the given ones, each with a state of the run.\<close>

definition grown :: "int \<Rightarrow> MemoryStore \<Rightarrow> (JoinedRecord \<times> real \<times> real) list \<Rightarrow> MemoryStore \<Rightarrow> bool" where
  "grown runID m xs m' \<longleftrightarrow> terminals_ok m' \<and> m_terminals m' = m_terminals m @ new_terminals (m_next_id m) xs \<and>
     m_next_id m' = m_next_id m + int (length xs) \<and> m_sync_runs m' = m_sync_runs m \<and> m_sync_chunks m' = m_sync_chunks m \<and>
     (\<forall>i. i < m_next_id m \<and> has_state runID m i \<longrightarrow> has_state runID m' i) \<and>
     (\<forall>i. m_next_id m \<le> i \<and> i < m_next_id m' \<longrightarrow> has_state runID m' i)"

lemma new_terminals_append: "new_terminals n (xs @ ys) = new_terminals n xs @ new_terminals (n + int (length xs)) ys"
  by (induction n xs rule: new_terminals.induct) (auto simp: algebra_simps)

lemma grown_refl: "terminals_ok m \<Longrightarrow> grown runID m [] m"
  by (auto simp: grown_def)

lemma grown_trans: "grown runID m xs m1 \<Longrightarrow> grown runID m1 ys m2 \<Longrightarrow> grown runID m (xs @ ys) m2"
  by (auto simp: grown_def new_terminals_append) (metis add_increasing2 not_less of_nat_0_le_iff order_less_le_trans)+

lemma update_fresh: "k \<notin> fst ` set xs \<Longrightarrow> AList.update k v xs = xs @ [(k, v)]"
  by (induction xs) auto

lemma no_nul_in_itoa: "char_of (0::nat) \<notin> set (itoa i)"
proof -
  have "char_of (0::nat) \<notin> set (nat_digits n)" for n
    using digit_chars [of 0 "nat_digits n" "char_of (0::nat)"] by (auto simp: digits_value_nat_digits is_digit_def byte_def)
  moreover have "char_of (0::nat) \<noteq> CHR ''-''"
  proof
    assume "char_of (0::nat) = CHR ''-''"
    then have "byte (char_of (0::nat)) = byte (CHR ''-'')" by (rule arg_cong)
    then show False by (simp add: byte_def)
  qed
  ultimately show ?thesis by (auto simp: itoa_def)
qed

lemma split_first_unique: "c \<notin> set u \<Longrightarrow> c \<notin> set v \<Longrightarrow> u @ c # xs = v @ c # ys \<Longrightarrow> u = v"
proof (induction u arbitrary: v)
  case Nil
  then show ?case by (cases v) auto
next
  case (Cons a u)
  then show ?case by (cases v) auto
qed

lemma attr_key_entity:
  assumes "attr_key a = attr_key b" "as_entity_type a = as_entity_type b"
  shows "as_entity_id a = as_entity_id b"
  using assms split_first_unique [OF no_nul_in_itoa no_nul_in_itoa] by (auto simp: attr_key_def nul_def)

lemma set_update_other: "k' \<noteq> k \<Longrightarrow> (k', v') \<in> set (AList.update k v xs) \<longleftrightarrow> (k', v') \<in> set xs"
  by (induction xs) auto

lemma set_update_same: "(k, v) \<in> set (AList.update k v xs)"
  by (induction xs) auto

lemma has_state_update:
  assumes "as_origin b \<noteq> ''''" "as_entity_type b = ''terminal''"
  shows "has_state runID m i \<Longrightarrow> i \<noteq> as_entity_id b \<Longrightarrow> has_state runID (UpsertAttributeState b m) i"
    and "as_run b = Some runID \<Longrightarrow> has_state runID (UpsertAttributeState b m) (as_entity_id b)"
proof -
  have e: "UpsertAttributeState b m = m\<lparr>m_attr_states := AList.update (attr_key b) b (m_attr_states m)\<rparr>"
    using assms(1) by (simp add: UpsertAttributeState_def Let_def)
  show "as_run b = Some runID \<Longrightarrow> has_state runID (UpsertAttributeState b m) (as_entity_id b)"
    unfolding has_state_def e using assms set_update_same by fastforce
  assume h: "has_state runID m i" "i \<noteq> as_entity_id b"
  then obtain a where a: "(attr_key a, a) \<in> set (m_attr_states m)" "as_entity_type a = ''terminal''" "as_entity_id a = i" "as_run a = Some runID"
    by (auto simp: has_state_def)
  then have "attr_key a \<noteq> attr_key b" using attr_key_entity [of a b] assms(2) h(2) by auto
  then have "(attr_key a, a) \<in> set (m_attr_states (UpsertAttributeState b m))"
    using a(1) set_update_other [of "attr_key a" "attr_key b" a b "m_attr_states m"] by (simp add: e)
  then show "has_state runID (UpsertAttributeState b m) i" using a unfolding has_state_def by blast
qed

lemma fold_provenance:
  "fold (\<lambda>src m. SaveProvenance (f src m) m) srcs m = m\<lparr>m_provenance := m_provenance (fold (\<lambda>src m. SaveProvenance (f src m) m) srcs m)\<rparr>"
proof (induction srcs arbitrary: m)
  case (Cons src srcs)
  show ?case by (simp, subst Cons) (simp add: SaveProvenance_def Let_def)
qed simp

definition same_tables :: "MemoryStore \<Rightarrow> MemoryStore \<Rightarrow> bool" where
  "same_tables m m' \<longleftrightarrow> m_terminals m' = m_terminals m \<and> m_next_id m' = m_next_id m \<and> m_sync_runs m' = m_sync_runs m \<and>
     m_sync_chunks m' = m_sync_chunks m \<and> m_attr_states m' = m_attr_states m"

lemma same_tables_trans: "same_tables m m' \<Longrightarrow> same_tables m' m'' \<Longrightarrow> same_tables m m''"
  by (simp add: same_tables_def)

lemma same_tables_grown: "same_tables m m' \<Longrightarrow> grown runID m0 xs m \<Longrightarrow> grown runID m0 xs m'"
proof -
  assume s: "same_tables m m'"
  then have "terminals_ok m' = terminals_ok m" "has_state runID m' = has_state runID m"
    by (simp_all add: same_tables_def terminals_ok_def has_state_def fun_eq_iff)
  then show "grown runID m0 xs m \<Longrightarrow> grown runID m0 xs m'" using s by (simp add: grown_def same_tables_def)
qed

lemma same_tables_ops:
  "same_tables m (SaveReviewQueue e m)"
  "same_tables m (fold (\<lambda>src m. SaveProvenance (f src m) m) srcs m)"
  by (simp add: same_tables_def SaveReviewQueue_def) (subst fold_provenance, simp add: same_tables_def)

text \<open>The statements on a terminal that exists do not fail.\<close>

lemma statements_succeed:
  assumes "map_of (m_terminals m) i \<noteq> None"
  shows "\<exists>m'. run_all
      [if b1 then UpsertTerminalAlias (alias_row i s1 t1) else skip,
       if b2 then UpsertTerminalAlias (alias_row i s2 t2) else skip,
       if b3 then SetTerminalTag i k v else skip] m = (m', None) \<and> same_tables m m'"
  using assms by (auto simp: UpsertTerminalAlias_def SetTerminalTag_def alias_row_def skip_def same_tables_def)

lemma terminals_ok_fresh: "terminals_ok m \<Longrightarrow> m_next_id m \<notin> fst ` set (m_terminals m)"
  by (fastforce simp: terminals_ok_def list_all_iff)

lemma enrichment_string_nonempty [simp]: "enrichment_string e \<noteq> ''''"
  by (cases e) auto

lemma upsert_new_terminal:
  assumes "terminals_ok m"
  shows "\<exists>m'. UpsertTerminal (terminal_row j la lo) names ids m = (m', m_next_id m) \<and>
     m_terminals m' = m_terminals m @ new_terminals (m_next_id m) [(j, la, lo)] \<and> m_next_id m' = m_next_id m + 1 \<and>
     m_sync_runs m' = m_sync_runs m \<and> m_sync_chunks m' = m_sync_chunks m \<and> m_attr_states m' = m_attr_states m \<and> terminals_ok m' \<and>
     map_of (m_terminals m') (m_next_id m) \<noteq> None"
  using assms terminals_ok_fresh [OF assms]
  by (auto simp: UpsertTerminal_def allocID_def Let_def terminal_row_def update_fresh terminals_ok_def list_all_iff map_of_eq_None_iff)

lemma promoteJoined_ok:
  assumes "terminals_ok m"
  shows "\<exists>m'. promoteJoined runID j m = (m', Inr (located j \<noteq> [])) \<and> grown runID m (located j) m'"
proof (cases "located j")
  case Nil
  then have "promoteJoined runID j m = (SaveReviewQueue (terminal_review ''low_confidence'' (jr_record j) (jr_score j)) m, Inr False)"
    by (auto simp: located_def promoteJoined_def split: option.splits)
  then show ?thesis
    using Nil assms same_tables_grown [OF same_tables_ops(1) grown_refl] by auto
next
  case (Cons x xs)
  then obtain la lo where c: "ar_lat (jr_record j) = Some la" "ar_lon (jr_record j) = Some lo" and l: "located j = [(j, la, lo)]"
    by (auto simp: located_def split: option.splits)
  let ?r = "jr_record j" and ?i = "m_next_id m"
  obtain m1 where m1: "UpsertTerminal (terminal_row j la lo) (names_of ?r) (ar_ids ?r) m = (m1, ?i)"
      "m_terminals m1 = m_terminals m @ new_terminals ?i [(j, la, lo)]" "m_next_id m1 = ?i + 1"
      "m_sync_runs m1 = m_sync_runs m" "m_sync_chunks m1 = m_sync_chunks m" "m_attr_states m1 = m_attr_states m" "terminals_ok m1" "map_of (m_terminals m1) ?i \<noteq> None"
    using upsert_new_terminal [OF assms] by blast
  obtain m2 where m2: "run_all
      [if extra ?r ''yandex_title'' \<noteq> '''' then UpsertTerminalAlias (alias_row ?i (extra ?r ''yandex_title'') ''yandex'') else skip,
       if primary_name ?r \<noteq> ar_name ?r then UpsertTerminalAlias (alias_row ?i (ar_name ?r) ''osm'') else skip,
       if extra ?r ''settlement'' \<noteq> '''' then SetTerminalTag ?i ''settlement'' (extra ?r ''settlement'') else skip] m1 = (m2, None)"
      "same_tables m1 m2"
    using statements_succeed [OF m1(8)] by blast
  let ?g = "attr_row ?i ''geom'' (AttrGeom la lo) (geomWinnerSource ?r) (jr_score j) runID"
  let ?n = "attr_row ?i ''name_ru'' (AttrText (primary_name ?r)) (geomWinnerSource ?r) (jr_score j) runID"
  let ?m3 = "UpsertAttributeState ?n (UpsertAttributeState ?g m2)"
  have a: "as_origin (attr_row k f v s c q) \<noteq> ''''" "as_entity_type (attr_row k f v s c q) = ''terminal''"
      "as_entity_id (attr_row k f v s c q) = k" "as_run (attr_row k f v s c q) = Some q" for k f v s c q
    by (simp_all add: attr_row_def)
  have "has_state runID ?m3 ?i"
    using has_state_update(2) [of ?n runID] by (simp add: a)
  moreover have "has_state runID ?m3 i" if "i < ?i" "has_state runID m i" for i
  proof -
    have "has_state runID m2 i" using that m1(6) m2(2) by (simp add: has_state_def same_tables_def)
    then show ?thesis using that has_state_update(1) [of ?g runID _ i] has_state_update(1) [of ?n runID _ i] by (simp add: a)
  qed
  moreover have "m_terminals ?m3 = m_terminals m1" "m_next_id ?m3 = m_next_id m1" "m_sync_runs ?m3 = m_sync_runs m1"
      "m_sync_chunks ?m3 = m_sync_chunks m1"
    using m2(2) by (simp_all add: UpsertAttributeState_def Let_def same_tables_def)
  ultimately have g: "grown runID m [(j, la, lo)] ?m3"
    using m1 by (auto simp: grown_def terminals_ok_def dest: order_antisym)
  have "promoteJoined runID j m =
      (fold (\<lambda>src m. SaveProvenance \<lparr>pv_entity_type = ''terminal'', pv_entity_id = ?i, pv_source = src,
          pv_confidence = jr_score j, pv_observed = m_clock m\<rparr> m) (provenanceSources ?r (jr_enrichment j = Enriched)) ?m3, Inr True)"
    using m1(1) m2(1) by (simp add: promoteJoined_def c Let_def)
  then show ?thesis
    using same_tables_grown [OF same_tables_ops(2) g] by (auto simp: l)
qed

text \<open>What the loop over one kind of records does to the store and the summary.\<close>

definition counted :: "int \<Rightarrow> promotion \<Rightarrow> (JoinedRecord \<times> real \<times> real) list \<Rightarrow> nat \<Rightarrow> promotion \<times> sync_error option \<Rightarrow> bool" where
  "counted runID st xs n r \<longleftrightarrow> (case (st, r) of ((m, s), ((m', s'), e)) \<Rightarrow>
     e = None \<and> grown runID m xs m' \<and> cs_key s' = cs_key s \<and> cs_in s' = cs_in s \<and> cs_written s' = cs_written s + length xs \<and>
     cs_written s' + cs_review s' = cs_written s + cs_review s + n)"

lemma counted_trans:
  "counted runID st xs n (st1, None) \<Longrightarrow> counted runID st1 ys k r \<Longrightarrow> counted runID st (xs @ ys) (n + k) r"
  by (auto simp: counted_def split_beta intro: grown_trans)

lemma counted_ok: "counted runID st xs n (st1, e) \<Longrightarrow> e = None \<and> terminals_ok (fst st1)"
  by (auto simp: counted_def grown_def split: prod.splits)

lemma each_counted:
  assumes "\<And>x st. terminals_ok (fst st) \<Longrightarrow> counted runID st (g x) 1 (f x st)"
  shows "terminals_ok (fst st) \<Longrightarrow> counted runID st (concat (map g xs)) (length xs) (each_record (\<lambda>_. False) i f xs st)"
proof (induction xs arbitrary: st i)
  case Nil
  then show ?case by (auto simp: counted_def grown_refl split: prod.splits)
next
  case (Cons x xs)
  obtain st1 e where f: "f x st = (st1, e)" by (cases "f x st")
  have c: "counted runID st (g x) 1 (st1, e)" using assms [OF Cons.prems, of x] by (simp add: f)
  then have e: "e = None" "terminals_ok (fst st1)" using counted_ok by blast+
  show ?case using counted_trans [OF c [unfolded e] Cons.IH [OF e(2), of "Suc i"]] by (simp add: f e)
qed

lemma canon_counted: "terminals_ok (fst st) \<Longrightarrow> counted runID st (located j) 1 (promote_canon runID j st)"
  using promoteJoined_ok [of "fst st" runID j]
  by (auto simp: promote_canon_def counted_def located_def split: prod.splits option.splits)

lemma HasCoords_located: "HasCoords r \<longleftrightarrow> located (unmatched r) \<noteq> []"
  by (auto simp: HasCoords_def located_def unmatched_def split: option.splits)

lemma promote_unverified_eq:
  "promote_unverified runID r = (\<lambda>(m, s).
     if located (unmatched r) \<noteq> [] then
       (case promoteJoined runID (unmatched r) m of
          (m, Inl e) \<Rightarrow> ((m, s), Some e)
        | (m, Inr written) \<Rightarrow> ((m, if written then s\<lparr>cs_written := cs_written s + 1\<rparr> else s), None))
     else ((reviewUnverified r m, s\<lparr>cs_review := cs_review s + 1\<rparr>), None))"
  by (simp only: promote_unverified_def HasCoords_located unmatched_def)

lemma located_length: "located j = [] \<or> length (located j) = 1"
  by (auto simp: located_def split: option.splits)

lemma unverified_counted: "terminals_ok (fst st) \<Longrightarrow> counted runID st (located (unmatched r)) 1 (promote_unverified runID r st)"
  using promoteJoined_ok [of "fst st" runID "unmatched r"] same_tables_grown [OF same_tables_ops(1) grown_refl, of "fst st"]
    located_length [of "unmatched r"]
  by (cases "located (unmatched r) = []")
    (auto simp: promote_unverified_eq counted_def reviewUnverified_def split: prod.splits)

lemma ambiguous_counted: "terminals_ok (fst st) \<Longrightarrow> counted runID st [] 1 (review_ambiguous j st)"
  using same_tables_grown [OF same_tables_ops(1) grown_refl, of "fst st"]
  by (auto simp: review_ambiguous_def counted_def split: prod.splits)

definition chunk_terminals :: "SkeletonChunk \<Rightarrow> (JoinedRecord \<times> real \<times> real) list" where
  "chunk_terminals chunk = concat (map located (sc_canon chunk @ map unmatched (sc_unverified chunk)))"

lemma chunk_counted:
  assumes "terminals_ok m"
  shows "case PromoteSkeletonChunk (\<lambda>_. False) runID chunk m of
      (m', Inl _) \<Rightarrow> False
    | (m', Inr s) \<Rightarrow> cs_key s = sc_key chunk \<and> cs_in s = chunk_records chunk \<and> cs_written s + cs_review s = cs_in s \<and>
        cs_written s = length (chunk_terminals chunk) \<and> grown runID m (chunk_terminals chunk) m'"
proof -
  let ?s = "\<lparr>cs_key = sc_key chunk, cs_in = chunk_records chunk, cs_written = 0, cs_review = 0, cs_enriched = 0\<rparr>"
  obtain st1 e1 where r1: "each_record (\<lambda>_. False) 0 (promote_canon runID) (sc_canon chunk) (m, ?s) = (st1, e1)" by fastforce
  have c1: "counted runID (m, ?s) (concat (map located (sc_canon chunk))) (length (sc_canon chunk)) (st1, e1)"
    unfolding r1 [symmetric] using assms by (intro each_counted canon_counted) simp_all
  then have e1: "e1 = None" "terminals_ok (fst st1)" using counted_ok by blast+
  obtain st2 e2 where r2: "each_record (\<lambda>_. False) (length (sc_canon chunk)) (promote_unverified runID) (sc_unverified chunk) st1 = (st2, e2)"
    by fastforce
  have c2: "counted runID st1 (concat (map (\<lambda>r. located (unmatched r)) (sc_unverified chunk))) (length (sc_unverified chunk)) (st2, e2)"
    unfolding r2 [symmetric] using e1(2) by (intro each_counted unverified_counted)
  then have e2: "e2 = None" "terminals_ok (fst st2)" using counted_ok by blast+
  let ?k = "length (sc_canon chunk) + length (sc_unverified chunk)"
  obtain st3 e3 where r3: "each_record (\<lambda>_. False) ?k review_ambiguous (sc_ambiguous chunk) st2 = (st3, e3)" by fastforce
  have c3: "counted runID st2 (concat (map (\<lambda>_. []) (sc_ambiguous chunk))) (length (sc_ambiguous chunk)) (st3, e3)"
    unfolding r3 [symmetric] using e2(2) by (intro each_counted ambiguous_counted)
  then have e3: "e3 = None" using counted_ok by blast
  have none: "concat (map (\<lambda>_. []) xs) = []" for xs :: "'x list" by (induction xs) auto
  have "counted runID (m, ?s) (chunk_terminals chunk) (chunk_records chunk) (st3, None)"
    using counted_trans [OF counted_trans [OF c1 [unfolded e1(1)] c2 [unfolded e2(1)]] c3 [unfolded e3]]
    by (simp add: chunk_terminals_def chunk_records_def comp_def none)
  moreover have "run_all
      [each_record (\<lambda>_. False) 0 (promote_canon runID) (sc_canon chunk),
       each_record (\<lambda>_. False) (length (sc_canon chunk)) (promote_unverified runID) (sc_unverified chunk),
       each_record (\<lambda>_. False) ?k review_ambiguous (sc_ambiguous chunk)] (m, ?s) = (st3, None)"
    by (simp add: r1 e1(1) r2 e2(1) r3 e3)
  ultimately show ?thesis
    by (cases st3) (simp add: PromoteSkeletonChunk_def Let_def counted_def)
qed

lemma hasSkeletonState_has: "has_state runID m i \<Longrightarrow> hasSkeletonState i [runID] m"
  by (force simp: has_state_def hasSkeletonState_def list_ex_iff)

text \<open>C19: Promoting a chunk never fails while its context lives: its rows balance, exactly its records with both
coordinates become new terminals, in order and under identifiers never used, each of which counts as a terminal of
the run from then on, and no terminal that was there is changed or lost.\<close>

theorem promote_chunk_exact:
  assumes "terminals_ok m"
  shows "case PromoteSkeletonChunk (\<lambda>_. False) runID chunk m of
      (m', Inl _) \<Rightarrow> False
    | (m', Inr s) \<Rightarrow>
        cs_in s = chunk_records chunk \<and> cs_written s + cs_review s = cs_in s \<and> cs_written s = length (chunk_terminals chunk) \<and>
        m_terminals m' = m_terminals m @ new_terminals (m_next_id m) (chunk_terminals chunk) \<and>
        list_all (\<lambda>(i, _). hasSkeletonState i [runID] m') (new_terminals (m_next_id m) (chunk_terminals chunk)) \<and>
        terminals_ok m'"
proof -
  have ids: "(i, t) \<in> set (new_terminals n xs) \<Longrightarrow> n \<le> i \<and> i < n + int (length xs)" for i t n xs
    by (induction n xs rule: new_terminals.induct) force+
  have "list_all (\<lambda>(i, _). hasSkeletonState i [runID] m') (new_terminals (m_next_id m) xs)" if "grown runID m xs m'" for m' xs
    using that ids by (fastforce simp: grown_def list_all_iff intro: hasSkeletonState_has)
  then show ?thesis
    using chunk_counted [OF assms, of chunk runID] by (auto simp: grown_def split: prod.splits sum.splits)
qed

definition demo_joined :: JoinedRecord where
  "demo_joined = \<lparr>jr_record = empty_record\<lparr>ar_name := ''A'', ar_lat := Some 55, ar_lon := Some 86\<rparr>, jr_score = 1, jr_enrichment = Enriched\<rparr>"

definition demo_chunk :: SkeletonChunk where
  "demo_chunk = \<lparr>sc_key = ''k'', sc_canon = [demo_joined], sc_unverified = [empty_record], sc_ambiguous = []\<rparr>"

lemma demo_chunk_terminals: "chunk_terminals demo_chunk = [(demo_joined, 55, 86)]" "chunk_records demo_chunk = 2"
  by (simp_all add: chunk_terminals_def chunk_records_def demo_chunk_def demo_joined_def located_def unmatched_def empty_record_def)

lemma new_store_ok: "terminals_ok (NewMemoryStore now off)"
  by (simp add: terminals_ok_def NewMemoryStore_def)

lemma promote_chunk_exact_witness:
  "case PromoteSkeletonChunk (\<lambda>_. False) 7 demo_chunk (NewMemoryStore 0 0) of
      (m', Inl _) \<Rightarrow> False
    | (m', Inr s) \<Rightarrow> cs_in s = 2 \<and> cs_written s = 1 \<and> cs_review s = 1 \<and>
        m_terminals m' = [(1, (terminal_row demo_joined 55 86)\<lparr>te_id := 1\<rparr>)] \<and> hasSkeletonState 1 [7] m'"
  using promote_chunk_exact [OF new_store_ok [of 0 0], where runID = 7 and chunk = demo_chunk]
  by (auto simp: demo_chunk_terminals NewMemoryStore_def split: prod.splits sum.splits)

end
