(* ===== verification/SkeletonRun.thy ===== *)
theory SkeletonRun
  imports Promote_Correct
begin

text \<open>
  A run of \<open>cmd/skeleton-sync\<close>: the loop over the chunks, with the log of finished chunks that a later process
  reads to go on where this one stopped (flag \<open>-run\<close>). The loop is a sequence of small steps, one for
  each call on the store or the log, and a process may stop before and after each of them. The one call that makes
  many writes is \<open>PromoteSkeletonChunk\<close>; a context cancelled within it leaves the first of its writes, unless
  the transaction of the store undoes them (\<open>rc_undo\<close>: \<open>store/postgres\<close> does, \<open>store/memory\<close>
  does not). A process loses its totals when it stops. The log outlives it; the store does when it is a database, and
  a store in memory is made anew by the next process. The log is the list of its decoded lines. Plans are compared by
  \<open>sync/planid.go\<close>. Each process of a run reads the same inputs, so it computes the same outcome and cuts it
  into the same chunks.
\<close>

section \<open>The log\<close>

record opsLine =
  ol_run :: int
  ol_key :: string
  ol_in :: nat
  ol_written :: nat
  ol_review :: nat
  ol_enriched :: nat
  ol_state :: string

definition chunkOps :: "ChunkSummary \<Rightarrow> opsLine" where
  "chunkOps s = \<lparr>ol_run = 0, ol_key = cs_key s, ol_in = cs_in s, ol_written = cs_written s, ol_review = cs_review s,
     ol_enriched = cs_enriched s, ol_state = ''done''\<rparr>"

definition appendOps :: "int \<Rightarrow> ChunkSummary \<Rightarrow> opsLine list \<Rightarrow> opsLine list" where
  "appendOps runID s lines = lines @ [(chunkOps s)\<lparr>ol_run := runID\<rparr>]"

definition readOpsSummaries :: "opsLine list \<Rightarrow> string \<rightharpoonup> opsLine" where
  "readOpsSummaries lines = fold (\<lambda>o1 out. if ol_state o1 = ''done'' then out(ol_key o1 \<mapsto> o1) else out) lines Map.empty"

definition accumulate :: "RunSummary \<Rightarrow> opsLine \<Rightarrow> RunSummary" where
  "accumulate t o1 = t\<lparr>rs_written := rs_written t + ol_written o1, rs_review := rs_review t + ol_review o1,
     rs_enriched := rs_enriched t + ol_enriched o1\<rparr>"

definition ChunkFresh :: "string \<Rightarrow> string \<Rightarrow> bool" where
  "ChunkFresh planIDDone planID \<longleftrightarrow> planIDDone \<noteq> '''' \<and> planIDDone = planID"

section \<open>The loop\<close>

datatype run_phase = AtChunk | Ensured int | Promoting int | Promoted int ChunkSummary | Completed ChunkSummary
  | Logged ChunkSummary | Stopped sync_error

record run_config =
  rc_run :: int
  rc_plan :: string
  rc_chunks :: "SkeletonChunk list"
  rc_error_text :: "sync_error \<Rightarrow> string" \<comment> \<open>\<open>err.Error()\<close>\<close>
  rc_undo :: bool \<comment> \<open>\<open>WithTx\<close> undoes what a failed transaction wrote\<close>

record loop_state =
  ru_store :: MemoryStore
  ru_log :: "opsLine list"
  ru_recovered :: "string \<rightharpoonup> opsLine"
  ru_total :: RunSummary
  ru_pending :: "SkeletonChunk list"
  ru_phase :: run_phase

definition new_total :: "run_config \<Rightarrow> RunSummary" where
  "new_total cfg = \<lparr>rs_in = 0, rs_written = 0, rs_review = 0, rs_enriched = 0, rs_chunks = length (rc_chunks cfg), rs_unmatched = 0\<rparr>"

text \<open>A process that starts, with the store and the log it finds; one that resumes a run over the store \<open>m\<close>.\<close>

definition start_run :: "run_config \<Rightarrow> MemoryStore \<Rightarrow> opsLine list \<Rightarrow> loop_state" where
  "start_run cfg m lines = \<lparr>ru_store = m, ru_log = lines, ru_recovered = readOpsSummaries lines, ru_total = new_total cfg,
     ru_pending = rc_chunks cfg, ru_phase = AtChunk\<rparr>"

definition restart :: "run_config \<Rightarrow> MemoryStore \<Rightarrow> loop_state \<Rightarrow> loop_state" where
  "restart cfg m s = start_run cfg m (ru_log s)"

definition next_chunk :: "opsLine \<Rightarrow> loop_state \<Rightarrow> loop_state" where
  "next_chunk o1 s = s\<lparr>ru_total := accumulate (ru_total s) o1, ru_pending := tl (ru_pending s), ru_phase := AtChunk\<rparr>"

text \<open>The line of the log to go by, when the store agrees that the chunk is done for this plan.\<close>

definition fresh_line :: "run_config \<Rightarrow> SkeletonChunk \<Rightarrow> (string \<rightharpoonup> opsLine) \<Rightarrow> MemoryStore \<Rightarrow> opsLine option" where
  "fresh_line cfg ch recovered m =
     (case (recovered (sc_key ch), GetSyncChunk (rc_run cfg) ''terminal'' (sc_key ch) m) of
        (Some prev, Some c) \<Rightarrow> if ch_state c = ''done'' \<and> ChunkFresh (ch_plan_done c) (rc_plan cfg) then Some prev else None
      | _ \<Rightarrow> None)"

definition at_chunk :: "run_config \<Rightarrow> (nat \<Rightarrow> bool) \<Rightarrow> SkeletonChunk \<Rightarrow> loop_state \<Rightarrow> loop_state" where
  "at_chunk cfg ctx ch s =
     (if ctx 0 then s\<lparr>ru_phase := Stopped ContextDone\<rparr>
      else (case EnsureSyncChunk (rc_run cfg) ''terminal'' (sc_key ch) (ru_store s) of
              (m, chunkID) \<Rightarrow> s\<lparr>ru_store := m, ru_phase := Ensured chunkID\<rparr>))"

definition skip_or_promote :: "run_config \<Rightarrow> int \<Rightarrow> SkeletonChunk \<Rightarrow> loop_state \<Rightarrow> loop_state" where
  "skip_or_promote cfg chunkID ch s =
     (case fresh_line cfg ch (ru_recovered s) (ru_store s) of
        Some prev \<Rightarrow> next_chunk prev s
      | None \<Rightarrow> s\<lparr>ru_phase := Promoting chunkID\<rparr>)"

definition promote_chunk :: "run_config \<Rightarrow> (nat \<Rightarrow> bool) \<Rightarrow> int \<Rightarrow> SkeletonChunk \<Rightarrow> loop_state \<Rightarrow> loop_state" where
  "promote_chunk cfg ctx chunkID ch s =
     (case PromoteSkeletonChunk ctx (rc_run cfg) ch (ru_store s) of
        (m, Inl e) \<Rightarrow>
          (let m = (if rc_undo cfg then ru_store s else m) in
           s\<lparr>ru_store := fst (CompleteSyncChunk chunkID (rc_plan cfg) ''dead'' (rc_error_text cfg e) m), ru_phase := Stopped e\<rparr>)
      | (m, Inr su) \<Rightarrow> s\<lparr>ru_store := m, ru_phase := Promoted chunkID su\<rparr>)"

definition complete_promoted :: "run_config \<Rightarrow> int \<Rightarrow> ChunkSummary \<Rightarrow> loop_state \<Rightarrow> loop_state" where
  "complete_promoted cfg chunkID su s =
     (case CompleteSyncChunk chunkID (rc_plan cfg) ''done'' '''' (ru_store s) of
        (m, Some e) \<Rightarrow> s\<lparr>ru_store := m, ru_phase := Stopped (StoreFailed e)\<rparr>
      | (m, None) \<Rightarrow> s\<lparr>ru_store := m, ru_phase := Completed su\<rparr>)"

text \<open>\<open>ctx i\<close>: the context is found cancelled at the \<open>i\<close>-th time the step looks at it.\<close>

definition run_step :: "run_config \<Rightarrow> (nat \<Rightarrow> bool) \<Rightarrow> loop_state \<Rightarrow> loop_state" where
  "run_step cfg ctx s =
     (case ru_pending s of
        [] \<Rightarrow> s
      | ch # _ \<Rightarrow>
          (case ru_phase s of
             AtChunk \<Rightarrow> at_chunk cfg ctx ch s
           | Ensured chunkID \<Rightarrow> skip_or_promote cfg chunkID ch s
           | Promoting chunkID \<Rightarrow> promote_chunk cfg ctx chunkID ch s
           | Promoted chunkID su \<Rightarrow> complete_promoted cfg chunkID su s
           | Completed su \<Rightarrow> s\<lparr>ru_log := appendOps (rc_run cfg) su (ru_log s), ru_phase := Logged su\<rparr>
           | Logged su \<Rightarrow> next_chunk (chunkOps su) s
           | Stopped e \<Rightarrow> s))"

definition run_done :: "loop_state \<Rightarrow> bool" where
  "run_done s \<longleftrightarrow> ru_phase s = AtChunk \<and> ru_pending s = []"

definition outcome_records :: "JoinOutcome \<Rightarrow> nat" where
  "outcome_records outcome = length (jo_canon outcome) + length (jo_unverified outcome) + length (jo_ambiguous outcome)"

definition final_total :: "JoinOutcome \<Rightarrow> loop_state \<Rightarrow> RunSummary" where
  "final_total outcome s = (ru_total s)\<lparr>rs_in := outcome_records outcome, rs_unmatched := rs_review (ru_total s)\<rparr>"

text \<open>What other work on a store that outlives a process leaves of it: its terminals and its chunks.\<close>

definition kept :: "MemoryStore \<Rightarrow> MemoryStore \<Rightarrow> bool" where
  "kept m m' \<longleftrightarrow> terminals_ok m' \<and> set (m_terminals m) \<subseteq> set (m_terminals m') \<and> m_sync_chunks m' = m_sync_chunks m"

text \<open>
  The states of a run that is stopped and resumed any number of times: each step under a context of its own, and
  from every state, also one in the middle of a chunk, a new process over the store as it is or over a new one.
\<close>

inductive run_reached :: "run_config \<Rightarrow> MemoryStore \<Rightarrow> loop_state \<Rightarrow> bool" for cfg m0 where
  start: "run_reached cfg m0 (start_run cfg m0 [])"
| step: "run_reached cfg m0 s \<Longrightarrow> run_reached cfg m0 (run_step cfg ctx s)"
| resumed: "run_reached cfg m0 s \<Longrightarrow> kept (ru_store s) m \<Longrightarrow> run_reached cfg m0 (restart cfg m s)"
| remade: "run_reached cfg m0 s \<Longrightarrow> run_reached cfg m0 (restart cfg (NewMemoryStore now off) s)"

section \<open>A promotion under a context that may be cancelled\<close>

lemma each_cancelled:
  assumes "\<And>x st. terminals_ok (fst st) \<Longrightarrow> counted runID st (g x) 1 (f x st)"
  shows "terminals_ok (fst st) \<Longrightarrow> each_record ctx i f xs st = (st', e) \<Longrightarrow>
    terminals_ok (fst st') \<and> (\<exists>ys. grown runID (fst st) ys (fst st')) \<and>
    (case e of None \<Rightarrow> each_record (\<lambda>_. False) i f xs st = (st', None) | Some e1 \<Rightarrow> e1 = ContextDone)"
proof (induction xs arbitrary: st i)
  case Nil
  then show ?case using grown_refl by auto
next
  case (Cons x xs)
  show ?case
  proof (cases "ctx i")
    case True
    then show ?thesis using Cons.prems grown_refl by auto
  next
    case False
    obtain st1 e1 where f: "f x st = (st1, e1)" by (cases "f x st")
    have c: "counted runID st (g x) 1 (st1, e1)" using assms [OF Cons.prems(1), of x] by (simp add: f)
    then have e1: "e1 = None" "terminals_ok (fst st1)" using counted_ok by blast+
    have g: "grown runID (fst st) (g x) (fst st1)" using c by (auto simp: counted_def split: prod.splits)
    have "each_record ctx (Suc i) f xs st1 = (st', e)" using Cons.prems(2) False by (simp add: f e1)
    then show ?thesis using Cons.IH [OF e1(2)] grown_trans [OF g] by (fastforce simp: f e1 split: option.splits)
  qed
qed

lemma promotion_cancelled:
  assumes ok: "terminals_ok m" and p: "PromoteSkeletonChunk ctx runID ch m = (m', r)"
  shows "case r of Inr su \<Rightarrow> PromoteSkeletonChunk (\<lambda>_. False) runID ch m = (m', Inr su)
    | Inl e \<Rightarrow> e = ContextDone \<and> (\<exists>ys. grown runID m ys m')"
proof -
  let ?s = "\<lparr>cs_key = sc_key ch, cs_in = chunk_records ch, cs_written = 0, cs_review = 0, cs_enriched = 0\<rparr>"
  let ?k = "length (sc_canon ch) + length (sc_unverified ch)"
  obtain st1 e1 where r1: "each_record ctx 0 (promote_canon runID) (sc_canon ch) (m, ?s) = (st1, e1)" by fastforce
  note c1 = each_cancelled [of runID located, OF canon_counted _ r1]
  obtain st2 e2 where r2: "each_record ctx (length (sc_canon ch)) (promote_unverified runID) (sc_unverified ch) st1 = (st2, e2)" by fastforce
  note c2 = each_cancelled [of runID "\<lambda>r. located (unmatched r)", OF unverified_counted _ r2]
  obtain st3 e3 where r3: "each_record ctx ?k review_ambiguous (sc_ambiguous ch) st2 = (st3, e3)" by fastforce
  note c3 = each_cancelled [of runID "\<lambda>_. []", OF ambiguous_counted _ r3]
  obtain ys1 where g1: "grown runID m ys1 (fst st1)" "terminals_ok (fst st1)" using c1 ok by auto
  obtain ys2 where g2: "grown runID m ys2 (fst st2)" "terminals_ok (fst st2)" using c2 g1 grown_trans by blast
  obtain ys3 where g3: "grown runID m ys3 (fst st3)" using c3 g2 grown_trans by blast
  consider a where "e1 = Some a" | a where "e1 = None" "e2 = Some a" | a where "e1 = None" "e2 = None" "e3 = Some a"
    | "e1 = None" "e2 = None" "e3 = None" by (cases e1; cases e2; cases e3) auto
  then show ?thesis
  proof cases
    case 1
    then have "a = ContextDone" using c1 ok by simp
    then show ?thesis using p g1(1) 1 by (cases st1) (auto simp: PromoteSkeletonChunk_def Let_def r1)
  next
    case 2
    then have "a = ContextDone" using c2 g1 by simp
    then show ?thesis using p g2(1) 2 by (cases st2) (auto simp: PromoteSkeletonChunk_def Let_def r1 r2)
  next
    case 3
    then have "a = ContextDone" using c3 g2 by simp
    then show ?thesis using p g3 3 by (cases st3) (auto simp: PromoteSkeletonChunk_def Let_def r1 r2 r3)
  next
    case 4
    then have "PromoteSkeletonChunk (\<lambda>_. False) runID ch m = (m', r)"
      using p c1 ok c2 g1 c3 g2 by (simp add: PromoteSkeletonChunk_def Let_def r1 r2 r3)
    then show ?thesis using chunk_counted [OF ok, of ch runID] by (cases r) auto
  qed
qed

section \<open>Invariant\<close>

definition stored :: "MemoryStore \<Rightarrow> SkeletonChunk \<Rightarrow> bool" where
  "stored m ch \<longleftrightarrow> (\<exists>n. set (new_terminals n (chunk_terminals ch)) \<subseteq> set (m_terminals m))"

definition line_ok :: "run_config \<Rightarrow> opsLine \<Rightarrow> bool" where
  "line_ok cfg o1 \<longleftrightarrow> (\<exists>ch \<in> set (rc_chunks cfg). ol_key o1 = sc_key ch \<and> ol_written o1 + ol_review o1 = chunk_records ch)"

definition sum_ok :: "MemoryStore \<Rightarrow> SkeletonChunk \<Rightarrow> ChunkSummary \<Rightarrow> bool" where
  "sum_ok m ch s \<longleftrightarrow> cs_key s = sc_key ch \<and> cs_written s + cs_review s = chunk_records ch \<and> stored m ch"

text \<open>The row under which a chunk is completed is a row of that chunk.\<close>

definition row_of :: "run_config \<Rightarrow> SkeletonChunk \<Rightarrow> int \<Rightarrow> MemoryStore \<Rightarrow> bool" where
  "row_of cfg ch i m \<longleftrightarrow> (\<exists>c. map_of (m_sync_chunks m) i = Some c \<and> chunk_matches (rc_run cfg) ''terminal'' (sc_key ch) c)"

definition phase_ok :: "run_config \<Rightarrow> loop_state \<Rightarrow> bool" where
  "phase_ok cfg s \<longleftrightarrow> (case ru_phase s of
      AtChunk \<Rightarrow> True
    | Ensured i \<Rightarrow> ru_pending s \<noteq> [] \<and> row_of cfg (hd (ru_pending s)) i (ru_store s)
    | Promoting i \<Rightarrow> ru_pending s \<noteq> [] \<and> row_of cfg (hd (ru_pending s)) i (ru_store s)
    | Promoted i su \<Rightarrow> ru_pending s \<noteq> [] \<and> row_of cfg (hd (ru_pending s)) i (ru_store s) \<and>
        sum_ok (ru_store s) (hd (ru_pending s)) su
    | Completed su \<Rightarrow> ru_pending s \<noteq> [] \<and> sum_ok (ru_store s) (hd (ru_pending s)) su
    | Logged su \<Rightarrow> ru_pending s \<noteq> [] \<and> sum_ok (ru_store s) (hd (ru_pending s)) su
    | Stopped e \<Rightarrow> e = ContextDone)"

definition chunk_sum :: "SkeletonChunk list \<Rightarrow> nat" where
  "chunk_sum cs = sum_list (map chunk_records cs)"

text \<open>A chunk that the log and the store both call finished is stored.\<close>

definition finished_ok :: "run_config \<Rightarrow> opsLine list \<Rightarrow> MemoryStore \<Rightarrow> bool" where
  "finished_ok cfg lines m \<longleftrightarrow> (\<forall>ch i c. (\<exists>o1 \<in> set lines. ol_key o1 = sc_key ch) \<and> ch \<in> set (rc_chunks cfg) \<and>
     (i, c) \<in> set (m_sync_chunks m) \<and> chunk_matches (rc_run cfg) ''terminal'' (sc_key ch) c \<and> ch_state c = ''done'' \<longrightarrow> stored m ch)"

definition store_ok :: "run_config \<Rightarrow> opsLine list \<Rightarrow> MemoryStore \<Rightarrow> bool" where
  "store_ok cfg lines m \<longleftrightarrow> terminals_ok m \<and> distinct (map fst (m_sync_chunks m)) \<and> finished_ok cfg lines m"

definition run_inv :: "run_config \<Rightarrow> loop_state \<Rightarrow> bool" where
  "run_inv cfg s \<longleftrightarrow> store_ok cfg (ru_log s) (ru_store s) \<and>
     (\<forall>o1 \<in> set (ru_log s). line_ok cfg o1) \<and>
     (\<forall>k o1. ru_recovered s k = Some o1 \<longrightarrow> ol_key o1 = k \<and> o1 \<in> set (ru_log s)) \<and>
     (\<exists>past. rc_chunks cfg = past @ ru_pending s \<and> (\<forall>ch \<in> set past. stored (ru_store s) ch) \<and>
        rs_written (ru_total s) + rs_review (ru_total s) = chunk_sum past) \<and>
     phase_ok cfg s"

lemma stored_mono: "set (m_terminals m) \<subseteq> set (m_terminals m') \<Longrightarrow> stored m ch \<Longrightarrow> stored m' ch"
  by (fastforce simp: stored_def)

lemma recovered_from_log: "readOpsSummaries lines k = Some o1 \<Longrightarrow> o1 \<in> set lines \<and> ol_key o1 = k"
proof (induction lines rule: rev_induct)
  case (snoc a lines)
  have "readOpsSummaries (lines @ [a]) =
      (if ol_state a = ''done'' then (readOpsSummaries lines)(ol_key a \<mapsto> a) else readOpsSummaries lines)"
    by (simp add: readOpsSummaries_def)
  then show ?case using snoc by (auto split: if_splits)
qed (simp add: readOpsSummaries_def)

lemma set_update_subset: "set (AList.update k v xs) \<subseteq> insert (k, v) (set xs)"
  by (induction xs) auto

lemma ensured_chunk:
  assumes "distinct (map fst (m_sync_chunks m))" "EnsureSyncChunk r e k m = (m', i)"
  shows "m_terminals m' = m_terminals m" "m_next_id m \<le> m_next_id m'" "distinct (map fst (m_sync_chunks m'))"
    "\<exists>c. map_of (m_sync_chunks m') i = Some c \<and> chunk_matches r e k c"
    "(j, c) \<in> set (m_sync_chunks m') \<Longrightarrow> (j, c) \<in> set (m_sync_chunks m) \<or> ch_state c = ''pending''"
proof -
  show "m_terminals m' = m_terminals m" "m_next_id m \<le> m_next_id m'" "distinct (map fst (m_sync_chunks m'))"
    using assms by (auto simp: EnsureSyncChunk_def allocID_def distinct_update split: option.splits)
  show "\<exists>c. map_of (m_sync_chunks m') i = Some c \<and> chunk_matches r e k c"
  proof (cases "find (\<lambda>(_, c). chunk_matches r e k c) (m_sync_chunks m)")
    case None
    then show ?thesis using assms(2) by (auto simp: EnsureSyncChunk_def allocID_def update_conv' chunk_matches_def)
  next
    case (Some p)
    then have "p \<in> set (m_sync_chunks m)" "chunk_matches r e k (snd p)" by (auto simp: find_Some_iff split_beta)
    moreover from this(1) have "map_of (m_sync_chunks m) (fst p) = Some (snd p)" using assms(1) by simp
    ultimately show ?thesis using Some assms(2) by (auto simp: EnsureSyncChunk_def split_beta)
  qed
  show "(j, c) \<in> set (m_sync_chunks m') \<Longrightarrow> (j, c) \<in> set (m_sync_chunks m) \<or> ch_state c = ''pending''"
    using assms(2) set_update_subset by (fastforce simp: EnsureSyncChunk_def allocID_def split: option.splits)
qed

lemma complete_known:
  "map_of (m_sync_chunks m) k = Some c \<Longrightarrow> CompleteSyncChunk k p st e m =
     (m\<lparr>m_sync_chunks := AList.update k (c\<lparr>ch_state := st, ch_plan_done := p, ch_last_error := e, ch_attempts := ch_attempts c + 1\<rparr>) (m_sync_chunks m)\<rparr>, None)"
  by (simp add: CompleteSyncChunk_def)

lemma terminals_ok_mono: "terminals_ok m \<Longrightarrow> m_terminals m' = m_terminals m \<Longrightarrow> m_next_id m \<le> m_next_id m' \<Longrightarrow> terminals_ok m'"
  by (fastforce simp: terminals_ok_def list_all_iff)

lemma chunk_sum_snoc: "chunk_sum (cs @ [c]) = chunk_sum cs + chunk_records c"
  by (simp add: chunk_sum_def)

text \<open>
  What a step may do to the store: keep the terminals, and change rows of chunks only to ones that are not done or
  that belong to a chunk stored by then.
\<close>

lemma store_ok_change:
  assumes d: "distinct (map sc_key (rc_chunks cfg))" and s: "store_ok cfg lines m"
    and "terminals_ok m'" and t: "set (m_terminals m) \<subseteq> set (m_terminals m')" and "distinct (map fst (m_sync_chunks m'))"
    and r: "\<And>i c. (i, c) \<in> set (m_sync_chunks m') \<Longrightarrow> (i, c) \<in> set (m_sync_chunks m) \<or> ch_state c \<noteq> ''done'' \<or>
      (\<exists>ch \<in> set (rc_chunks cfg). chunk_matches (rc_run cfg) ''terminal'' (sc_key ch) c \<and> stored m' ch)"
  shows "store_ok cfg lines m'"
proof -
  have "finished_ok cfg lines m'"
    unfolding finished_ok_def
  proof (intro allI impI, elim conjE)
    fix ch i c
    assume a: "\<exists>o1 \<in> set lines. ol_key o1 = sc_key ch" "ch \<in> set (rc_chunks cfg)" "(i, c) \<in> set (m_sync_chunks m')"
      "chunk_matches (rc_run cfg) ''terminal'' (sc_key ch) c" "ch_state c = ''done''"
    have "ch' = ch" if "ch' \<in> set (rc_chunks cfg)" "chunk_matches (rc_run cfg) ''terminal'' (sc_key ch') c" for ch'
      using that a(2,4) d by (auto simp: chunk_matches_def distinct_map dest: inj_onD)
    moreover have "stored m' ch" if "(i, c) \<in> set (m_sync_chunks m)"
      using s a that stored_mono [OF t] unfolding store_ok_def finished_ok_def by blast
    ultimately show "stored m' ch" using r [OF a(3)] a(5) by blast
  qed
  then show ?thesis using assms(3,5) by (simp add: store_ok_def)
qed

lemma run_inv_change:
  assumes "run_inv cfg s" "store_ok cfg (ru_log s) m" "set (m_terminals (ru_store s)) \<subseteq> set (m_terminals m)"
    "phase_ok cfg (s\<lparr>ru_store := m, ru_phase := p\<rparr>)"
  shows "run_inv cfg (s\<lparr>ru_store := m, ru_phase := p\<rparr>)"
  using assms stored_mono [OF assms(3)] unfolding run_inv_def by auto

lemma run_inv_stop: "run_inv cfg s \<Longrightarrow> run_inv cfg (s\<lparr>ru_phase := Stopped ContextDone\<rparr>)"
  by (simp add: run_inv_def phase_ok_def)

lemma pending_chunk: "run_inv cfg s \<Longrightarrow> ru_pending s = ch # rest \<Longrightarrow> ch \<in> set (rc_chunks cfg)"
  by (auto simp: run_inv_def)

text \<open>Going to the next chunk by a line that is right for this one.\<close>

lemma run_inv_next:
  assumes "run_inv cfg s" "ru_pending s = ch # rest" "ol_written o1 + ol_review o1 = chunk_records ch" "stored (ru_store s) ch"
  shows "run_inv cfg (next_chunk o1 s)"
proof -
  obtain past where p: "rc_chunks cfg = past @ ru_pending s" "\<forall>ch \<in> set past. stored (ru_store s) ch"
      "rs_written (ru_total s) + rs_review (ru_total s) = chunk_sum past"
    using assms(1) by (auto simp: run_inv_def)
  then have "rc_chunks cfg = (past @ [ch]) @ rest" "\<forall>c \<in> set (past @ [ch]). stored (ru_store s) c"
      "rs_written (accumulate (ru_total s) o1) + rs_review (accumulate (ru_total s) o1) = chunk_sum (past @ [ch])"
    using assms by (simp_all add: accumulate_def chunk_sum_snoc)
  then show ?thesis using assms(1,2) unfolding run_inv_def next_chunk_def phase_ok_def by (auto intro!: exI [of _ "past @ [ch]"])
qed

section \<open>Each step keeps it\<close>

lemma at_chunk_inv:
  assumes d: "distinct (map sc_key (rc_chunks cfg))" and i: "run_inv cfg s" and p: "ru_pending s = ch # rest" "ru_phase s = AtChunk"
  shows "run_inv cfg (at_chunk cfg ctx ch s)"
proof (cases "ctx 0")
  case True
  then show ?thesis using run_inv_stop [OF i] by (simp add: at_chunk_def)
next
  case False
  obtain m k where e: "EnsureSyncChunk (rc_run cfg) ''terminal'' (sc_key ch) (ru_store s) = (m, k)" by fastforce
  have s: "store_ok cfg (ru_log s) (ru_store s)" using i by (simp add: run_inv_def)
  then have ds: "distinct (map fst (m_sync_chunks (ru_store s)))" by (simp add: store_ok_def)
  note en = ensured_chunk [OF ds e]
  have "terminals_ok m" using s terminals_ok_mono [OF _ en(1,2)] by (simp add: store_ok_def)
  moreover have "(i, c) \<in> set (m_sync_chunks (ru_store s)) \<or> ch_state c \<noteq> ''done''" if "(i, c) \<in> set (m_sync_chunks m)" for i c
    using en(5) [OF that] by auto
  ultimately have "store_ok cfg (ru_log s) m"
    by (intro store_ok_change [OF d s _ _ en(3)]) (auto simp: en(1))
  moreover have "phase_ok cfg (s\<lparr>ru_store := m, ru_phase := Ensured k\<rparr>)"
    using en(4) p by (simp add: phase_ok_def row_of_def)
  ultimately show ?thesis using run_inv_change [OF i] en(1) False by (simp add: at_chunk_def e)
qed

lemma fresh_line_stored:
  assumes d: "distinct (map sc_key (rc_chunks cfg))" and i: "run_inv cfg s" and ch: "ch \<in> set (rc_chunks cfg)"
    and f: "fresh_line cfg ch (ru_recovered s) (ru_store s) = Some prev"
  shows "ol_written prev + ol_review prev = chunk_records ch \<and> stored (ru_store s) ch"
proof -
  obtain c where r: "ru_recovered s (sc_key ch) = Some prev" and g: "GetSyncChunk (rc_run cfg) ''terminal'' (sc_key ch) (ru_store s) = Some c"
      and c: "ch_state c = ''done''"
    using f by (auto simp: fresh_line_def split: option.splits if_splits)
  have l: "prev \<in> set (ru_log s)" "ol_key prev = sc_key ch" "line_ok cfg prev" using i r by (auto simp: run_inv_def)
  then obtain ch' where "ch' \<in> set (rc_chunks cfg)" "ol_key prev = sc_key ch'" "ol_written prev + ol_review prev = chunk_records ch'"
    by (auto simp: line_ok_def)
  then have "ol_written prev + ol_review prev = chunk_records ch" using l(2) ch d by (auto simp: distinct_map dest: inj_onD)
  moreover have "c \<in> snd ` set (m_sync_chunks (ru_store s))" "chunk_matches (rc_run cfg) ''terminal'' (sc_key ch) c"
    using g by (auto simp: GetSyncChunk_def find_Some_iff simp flip: set_map) (metis length_map nth_map nth_mem)
  then have "stored (ru_store s) ch"
    using i l(1,2) ch c unfolding run_inv_def store_ok_def finished_ok_def by fastforce
  ultimately show ?thesis by blast
qed

lemma skip_or_promote_inv:
  assumes "distinct (map sc_key (rc_chunks cfg))" and i: "run_inv cfg s" and p: "ru_pending s = ch # rest" "ru_phase s = Ensured k"
  shows "run_inv cfg (skip_or_promote cfg k ch s)"
proof (cases "fresh_line cfg ch (ru_recovered s) (ru_store s)")
  case None
  have "phase_ok cfg (s\<lparr>ru_phase := Promoting k\<rparr>)" using i p by (simp add: run_inv_def phase_ok_def)
  then have "run_inv cfg (s\<lparr>ru_phase := Promoting k\<rparr>)" using i by (simp add: run_inv_def)
  then show ?thesis using None by (simp add: skip_or_promote_def)
next
  case (Some prev)
  then show ?thesis
    using fresh_line_stored [OF assms(1) i pending_chunk [OF i p(1)] Some] run_inv_next [OF i p(1)] by (simp add: skip_or_promote_def)
qed

lemma completed_store:
  assumes d: "distinct (map sc_key (rc_chunks cfg))" and s: "store_ok cfg lines m" and r: "row_of cfg ch k m"
    and ch: "ch \<in> set (rc_chunks cfg)" and st: "st = ''done'' \<Longrightarrow> stored m ch"
  shows "\<exists>m'. CompleteSyncChunk k p st e m = (m', None) \<and> m_terminals m' = m_terminals m \<and> store_ok cfg lines m'"
proof -
  obtain c where c: "map_of (m_sync_chunks m) k = Some c" "chunk_matches (rc_run cfg) ''terminal'' (sc_key ch) c"
    using r by (auto simp: row_of_def)
  let ?c = "c\<lparr>ch_state := st, ch_plan_done := p, ch_last_error := e, ch_attempts := ch_attempts c + 1\<rparr>"
  let ?m = "m\<lparr>m_sync_chunks := AList.update k ?c (m_sync_chunks m)\<rparr>"
  have "store_ok cfg lines ?m"
  proof (rule store_ok_change [OF d s])
    show "terminals_ok ?m" "distinct (map fst (m_sync_chunks ?m))"
      using s by (simp_all add: store_ok_def terminals_ok_def distinct_update)
    have "chunk_matches (rc_run cfg) ''terminal'' (sc_key ch) ?c" using c(2) by (simp add: chunk_matches_def)
    moreover have "stored ?m = stored m" by (simp add: stored_def fun_eq_iff)
    moreover fix j c'
    assume "(j, c') \<in> set (m_sync_chunks ?m)"
    then have "(j, c') \<in> set (m_sync_chunks m) \<or> c' = ?c" using set_update_subset by fastforce
    ultimately show "(j, c') \<in> set (m_sync_chunks m) \<or> ch_state c' \<noteq> ''done'' \<or>
        (\<exists>ch \<in> set (rc_chunks cfg). chunk_matches (rc_run cfg) ''terminal'' (sc_key ch) c' \<and> stored ?m ch)"
      using st ch by auto
  qed simp
  then show ?thesis using complete_known [OF c(1)] by simp
qed

lemma promote_chunk_inv:
  assumes d: "distinct (map sc_key (rc_chunks cfg))" and i: "run_inv cfg s" and p: "ru_pending s = ch # rest" "ru_phase s = Promoting k"
  shows "run_inv cfg (promote_chunk cfg ctx k ch s) \<and>
    (ctx = (\<lambda>_. False) \<longrightarrow> (\<exists>m su. promote_chunk cfg ctx k ch s = s\<lparr>ru_store := m, ru_phase := Promoted k su\<rparr>))"
proof -
  have s: "store_ok cfg (ru_log s) (ru_store s)" and row: "row_of cfg ch k (ru_store s)"
    using i p by (simp_all add: run_inv_def phase_ok_def)
  then have ok: "terminals_ok (ru_store s)" by (simp add: store_ok_def)
  obtain m r where pr: "PromoteSkeletonChunk ctx (rc_run cfg) ch (ru_store s) = (m, r)" by fastforce
  have grow: "store_ok cfg (ru_log s) m' \<and> row_of cfg ch k m' \<and> set (m_terminals (ru_store s)) \<subseteq> set (m_terminals m')"
    if "grown (rc_run cfg) (ru_store s) ys m'" for ys m'
  proof -
    have g: "terminals_ok m'" "set (m_terminals (ru_store s)) \<subseteq> set (m_terminals m')" "m_sync_chunks m' = m_sync_chunks (ru_store s)"
      using that by (auto simp: grown_def)
    have "store_ok cfg (ru_log s) m'" using s by (intro store_ok_change [OF d s g(1,2)]) (simp_all add: g(3) store_ok_def)
    then show ?thesis using g row by (simp add: row_of_def)
  qed
  show ?thesis
  proof (cases r)
    case (Inl e)
    obtain ys where e: "e = ContextDone" and g: "grown (rc_run cfg) (ru_store s) ys m"
      using promotion_cancelled [OF ok pr] Inl by auto
    let ?m = "if rc_undo cfg then ru_store s else m"
    have m: "store_ok cfg (ru_log s) ?m" "row_of cfg ch k ?m" "set (m_terminals (ru_store s)) \<subseteq> set (m_terminals ?m)"
      using grow [OF g] s row by simp_all
    obtain m' where m': "CompleteSyncChunk k (rc_plan cfg) ''dead'' (rc_error_text cfg e) ?m = (m', None)"
        "m_terminals m' = m_terminals ?m" "store_ok cfg (ru_log s) m'"
      using completed_store [OF d m(1,2) pending_chunk [OF i p(1)], of "''dead''"] by auto
    have "run_inv cfg (s\<lparr>ru_store := m', ru_phase := Stopped ContextDone\<rparr>)"
      using m(3) m'(2) by (intro run_inv_change [OF i m'(3)]) (simp_all add: phase_ok_def)
    moreover have "ctx \<noteq> (\<lambda>_. False)" using chunk_counted [OF ok, of ch "rc_run cfg"] pr Inl by auto
    ultimately show ?thesis using pr Inl e m'(1) by (simp add: promote_chunk_def)
  next
    case (Inr su)
    have "PromoteSkeletonChunk (\<lambda>_. False) (rc_run cfg) ch (ru_store s) = (m, Inr su)"
      using promotion_cancelled [OF ok pr] Inr by simp
    then have c: "cs_key su = sc_key ch" "cs_written su + cs_review su = chunk_records ch"
        and g: "grown (rc_run cfg) (ru_store s) (chunk_terminals ch) m"
      using chunk_counted [OF ok, of ch "rc_run cfg"] by (auto split: prod.splits sum.splits)
    have "stored m ch" using g by (auto simp: stored_def grown_def)
    then have "phase_ok cfg (s\<lparr>ru_store := m, ru_phase := Promoted k su\<rparr>)"
      using c p grow [OF g] by (simp add: phase_ok_def sum_ok_def)
    moreover have "promote_chunk cfg ctx k ch s = s\<lparr>ru_store := m, ru_phase := Promoted k su\<rparr>" by (simp add: promote_chunk_def pr Inr)
    ultimately show ?thesis using run_inv_change [OF i] grow [OF g] by metis
  qed
qed

lemma complete_promoted_inv:
  assumes d: "distinct (map sc_key (rc_chunks cfg))" and i: "run_inv cfg s" and p: "ru_pending s = ch # rest" "ru_phase s = Promoted k su"
  shows "run_inv cfg (complete_promoted cfg k su s) \<and>
    (\<exists>m. complete_promoted cfg k su s = s\<lparr>ru_store := m, ru_phase := Completed su\<rparr>)"
proof -
  have s: "store_ok cfg (ru_log s) (ru_store s)" "row_of cfg ch k (ru_store s)" "sum_ok (ru_store s) ch su"
    using i p by (simp_all add: run_inv_def phase_ok_def)
  then obtain m' where m': "CompleteSyncChunk k (rc_plan cfg) ''done'' '''' (ru_store s) = (m', None)"
      "m_terminals m' = m_terminals (ru_store s)" "store_ok cfg (ru_log s) m'"
    using completed_store [OF d s(1,2) pending_chunk [OF i p(1)], of "''done''"] by (auto simp: sum_ok_def)
  have "phase_ok cfg (s\<lparr>ru_store := m', ru_phase := Completed su\<rparr>)"
    using s(3) p m'(2) by (simp add: phase_ok_def sum_ok_def stored_def)
  moreover have "complete_promoted cfg k su s = s\<lparr>ru_store := m', ru_phase := Completed su\<rparr>" by (simp add: complete_promoted_def m'(1))
  ultimately show ?thesis using run_inv_change [OF i m'(3)] m'(2) by (metis order_refl)
qed

lemma log_inv:
  assumes i: "run_inv cfg s" and p: "ru_pending s = ch # rest" "ru_phase s = Completed su" and d: "distinct (map sc_key (rc_chunks cfg))"
  shows "run_inv cfg (s\<lparr>ru_log := appendOps (rc_run cfg) su (ru_log s), ru_phase := Logged su\<rparr>)"
proof -
  have su: "sum_ok (ru_store s) ch su" using i p by (simp add: run_inv_def phase_ok_def)
  let ?o = "(chunkOps su)\<lparr>ol_run := rc_run cfg\<rparr>"
  have "line_ok cfg ?o" "ol_key ?o = sc_key ch"
    using su pending_chunk [OF i p(1)] by (auto simp: line_ok_def sum_ok_def chunkOps_def)
  moreover have "ch' = ch" if "ch' \<in> set (rc_chunks cfg)" "sc_key ch = sc_key ch'" for ch'
    using that pending_chunk [OF i p(1)] d by (auto simp: distinct_map dest: inj_onD)
  then have "finished_ok cfg (ru_log s @ [?o]) (ru_store s)"
    using i su unfolding run_inv_def store_ok_def finished_ok_def sum_ok_def by (fastforce simp: chunkOps_def)
  moreover have "phase_ok cfg (s\<lparr>ru_log := ru_log s @ [?o], ru_phase := Logged su\<rparr>)" using su p by (simp add: phase_ok_def)
  ultimately show ?thesis using i unfolding run_inv_def store_ok_def appendOps_def by simp
qed

definition steps_left :: "loop_state \<Rightarrow> nat" where
  "steps_left s = 6 * length (ru_pending s) -
     (case ru_phase s of AtChunk \<Rightarrow> 0 | Ensured _ \<Rightarrow> 1 | Promoting _ \<Rightarrow> 2 | Promoted _ _ \<Rightarrow> 3 | Completed _ \<Rightarrow> 4
      | Logged _ \<Rightarrow> 5 | Stopped _ \<Rightarrow> 0)"

definition alive :: "loop_state \<Rightarrow> bool" where
  "alive s \<longleftrightarrow> (case ru_phase s of Stopped _ \<Rightarrow> False | _ \<Rightarrow> True)"

lemma run_step_inv:
  assumes d: "distinct (map sc_key (rc_chunks cfg))" and i: "run_inv cfg s"
  shows "run_inv cfg (run_step cfg ctx s) \<and>
    (ctx = (\<lambda>_. False) \<and> alive s \<and> \<not> run_done s \<longrightarrow> alive (run_step cfg ctx s) \<and> steps_left (run_step cfg ctx s) < steps_left s)"
proof (cases "ru_pending s")
  case Nil
  then have "\<not> alive s \<or> run_done s" using i by (auto simp: run_inv_def phase_ok_def alive_def run_done_def split: run_phase.splits)
  then show ?thesis using i Nil by (auto simp: run_step_def)
next
  case p: (Cons ch rest)
  show ?thesis
  proof (cases "ru_phase s")
    case AtChunk
    then show ?thesis using at_chunk_inv [OF d i p]
      by (auto simp: run_step_def p at_chunk_def steps_left_def alive_def split: prod.splits)
  next
    case (Ensured k)
    then show ?thesis using skip_or_promote_inv [OF d i p]
      by (auto simp: run_step_def p skip_or_promote_def next_chunk_def steps_left_def alive_def split: option.splits)
  next
    case (Promoting k)
    then show ?thesis using promote_chunk_inv [OF d i p, of k ctx] by (auto simp: run_step_def p steps_left_def alive_def)
  next
    case (Promoted k su)
    then show ?thesis using complete_promoted_inv [OF d i p] by (auto simp: run_step_def p steps_left_def alive_def)
  next
    case (Completed su)
    then show ?thesis using log_inv [OF i p _ d] by (simp add: run_step_def p steps_left_def alive_def)
  next
    case (Logged su)
    then have "sum_ok (ru_store s) ch su" using i p by (simp add: run_inv_def phase_ok_def)
    then have "run_inv cfg (next_chunk (chunkOps su) s)" using run_inv_next [OF i p] by (simp add: sum_ok_def chunkOps_def)
    then show ?thesis using Logged by (simp add: run_step_def p steps_left_def next_chunk_def alive_def)
  next
    case (Stopped e)
    then show ?thesis using i by (simp add: run_step_def p alive_def)
  qed
qed

lemma run_inv_log: "run_inv cfg s \<Longrightarrow> store_ok cfg (ru_log s) (ru_store s) \<and> (\<forall>o1 \<in> set (ru_log s). line_ok cfg o1)"
  unfolding run_inv_def by blast

lemma start_inv:
  assumes "store_ok cfg lines m" "\<forall>o1 \<in> set lines. line_ok cfg o1"
  shows "run_inv cfg (start_run cfg m lines)"
  using assms recovered_from_log unfolding run_inv_def start_run_def phase_ok_def
  by (fastforce simp: new_total_def chunk_sum_def)

lemma reached_inv:
  assumes d: "distinct (map sc_key (rc_chunks cfg))" and "terminals_ok m0" "distinct (map fst (m_sync_chunks m0))" "run_reached cfg m0 s"
  shows "run_inv cfg s"
  using assms(4)
proof (induction rule: run_reached.induct)
  case start
  show ?case using assms(2,3) by (intro start_inv) (simp_all add: store_ok_def finished_ok_def)
next
  case (step s ctx)
  then show ?case using run_step_inv [OF d] by blast
next
  case (resumed s m)
  have s: "store_ok cfg (ru_log s) (ru_store s)" "\<forall>o1 \<in> set (ru_log s). line_ok cfg o1" using run_inv_log [OF resumed.IH] by blast+
  then have "store_ok cfg (ru_log s) m"
    using resumed.hyps(2) by (intro store_ok_change [OF d s(1)]) (simp_all add: store_ok_def kept_def)
  then show ?case using s(2) unfolding restart_def by (rule start_inv)
next
  case (remade s now off)
  have "store_ok cfg (ru_log s) (NewMemoryStore now off)"
    by (simp add: store_ok_def finished_ok_def NewMemoryStore_def terminals_ok_def)
  then show ?case using run_inv_log [OF remade.IH] unfolding restart_def by (blast intro: start_inv)
qed

lemma run_finishes:
  assumes "distinct (map sc_key (rc_chunks cfg))"
  shows "run_inv cfg s \<Longrightarrow> alive s \<Longrightarrow> steps_left s \<le> n \<Longrightarrow>
    run_done ((run_step cfg (\<lambda>_. False) ^^ n) s) \<and> run_inv cfg ((run_step cfg (\<lambda>_. False) ^^ n) s)"
proof (induction n arbitrary: s)
  case 0
  then show ?case
    by (cases "ru_pending s") (auto simp: run_done_def steps_left_def alive_def run_inv_def phase_ok_def split: run_phase.splits)
next
  case (Suc n)
  show ?case
  proof (cases "run_done s")
    case True
    then have "run_step cfg (\<lambda>_. False) s = s" by (simp add: run_done_def run_step_def)
    moreover have "steps_left s \<le> n" using True by (simp add: run_done_def steps_left_def)
    ultimately show ?thesis using Suc.IH [OF Suc.prems(1,2)] by (simp add: funpow_swap1)
  next
    case False
    then have "run_inv cfg (run_step cfg (\<lambda>_. False) s)" "alive (run_step cfg (\<lambda>_. False) s)" "steps_left (run_step cfg (\<lambda>_. False) s) \<le> n"
      using run_step_inv [OF assms Suc.prems(1), of "\<lambda>_. False"] Suc.prems(2,3) by auto
    then show ?thesis using Suc.IH by (simp add: funpow_swap1)
  qed
qed

section \<open>Theorems\<close>

text \<open>The run over the chunks of a join.\<close>

definition run_of :: "int \<Rightarrow> string \<Rightarrow> (sync_error \<Rightarrow> string) \<Rightarrow> bool \<Rightarrow> JoinOutcome \<Rightarrow> int \<Rightarrow> run_config" where
  "run_of runID planID text undo outcome n =
     \<lparr>rc_run = runID, rc_plan = planID, rc_chunks = ChunkSkeleton outcome n, rc_error_text = text, rc_undo = undo\<rparr>"

lemma run_of_distinct: "distinct (map sc_key (rc_chunks (run_of runID planID text undo outcome n)))"
  using chunks_divide_outcome [of outcome n] by (simp add: run_of_def Let_def)

lemma chunk_sum_outcome: "chunk_sum (ChunkSkeleton outcome n) = outcome_records outcome"
proof -
  have c: "chunk_sum cs = length (concat (map sc_canon cs)) + length (concat (map sc_unverified cs)) + length (concat (map sc_ambiguous cs))" for cs
    by (induction cs) (simp_all add: chunk_sum_def chunk_records_def)
  show ?thesis
    using chunks_divide_outcome [of outcome n] unfolding c outcome_records_def Let_def by (metis size_mset)
qed

definition outcome_terminals :: "JoinOutcome \<Rightarrow> (JoinedRecord \<times> real \<times> real) list" where
  "outcome_terminals outcome = concat (map located (jo_canon outcome @ map unmatched (jo_unverified outcome)))"

lemma chunk_of_terminal:
  assumes "x \<in> set (outcome_terminals outcome)"
  shows "\<exists>ch \<in> set (ChunkSkeleton outcome n). x \<in> set (chunk_terminals ch)"
proof -
  let ?cs = "ChunkSkeleton outcome n"
  have "set (concat (map sc_canon ?cs)) = set (jo_canon outcome)" "set (concat (map sc_unverified ?cs)) = set (jo_unverified outcome)"
    using chunks_divide_outcome [of outcome n] unfolding Let_def by (metis mset_eq_setD)+
  then show ?thesis using assms by (fastforce simp: outcome_terminals_def chunk_terminals_def)
qed

lemma new_terminals_row:
  "(j, la, lo) \<in> set xs \<Longrightarrow> \<exists>i. (i, (terminal_row j la lo)\<lparr>te_id := i\<rparr>) \<in> set (new_terminals n xs)"
  by (induction n xs rule: new_terminals.induct) auto

text \<open>C20: However often a run is stopped and resumed - between any two calls of its loop, or cancelled within a
promotion, the store kept for the next process or made anew - no process of it fails but by being cancelled, and one
that is left to itself ends within six steps per chunk it has left: then its totals balance with the records of the
join and each located record of the join has a terminal.\<close>

theorem resumed_run_completes:
  assumes "terminals_ok m0" "distinct (map fst (m_sync_chunks m0))" "run_reached (run_of runID planID text undo outcome n) m0 s"
  shows "case ru_phase s of
      Stopped e \<Rightarrow> e = ContextDone
    | _ \<Rightarrow> let s' = (run_step (run_of runID planID text undo outcome n) (\<lambda>_. False) ^^ (6 * length (ru_pending s))) s in
        run_done s' \<and> CheckRunBalance (final_total outcome s') = None \<and>
        list_all (\<lambda>(j, la, lo). \<exists>i. (i, (terminal_row j la lo)\<lparr>te_id := i\<rparr>) \<in> set (m_terminals (ru_store s')))
          (outcome_terminals outcome)"
proof (cases "alive s")
  case False
  then show ?thesis using reached_inv [OF run_of_distinct assms] by (auto simp: alive_def run_inv_def phase_ok_def split: run_phase.splits)
next
  case True
  let ?cfg = "run_of runID planID text undo outcome n"
  let ?s' = "(run_step ?cfg (\<lambda>_. False) ^^ (6 * length (ru_pending s))) s"
  have "run_inv ?cfg s" using reached_inv [OF run_of_distinct assms] .
  moreover have "steps_left s \<le> 6 * length (ru_pending s)" by (simp add: steps_left_def)
  ultimately have d: "run_done ?s'" and i: "run_inv ?cfg ?s'" using run_finishes [OF run_of_distinct _ True] by blast+
  then have b: "rs_written (ru_total ?s') + rs_review (ru_total ?s') = chunk_sum (ChunkSkeleton outcome n)"
      and st: "\<forall>ch \<in> set (ChunkSkeleton outcome n). stored (ru_store ?s') ch"
    by (auto simp: run_inv_def run_done_def run_of_def)
  have "CheckRunBalance (final_total outcome ?s') = None"
    using b by (simp add: CheckRunBalance_def final_total_def chunk_sum_outcome)
  moreover have "\<exists>i. (i, (terminal_row j la lo)\<lparr>te_id := i\<rparr>) \<in> set (m_terminals (ru_store ?s'))"
    if "(j, la, lo) \<in> set (outcome_terminals outcome)" for j la lo
    using chunk_of_terminal [OF that, of n] st new_terminals_row unfolding stored_def by blast
  ultimately show ?thesis using d True by (auto simp: Let_def list_all_iff alive_def split: run_phase.splits)
qed

text \<open>A process that goes on to the end of a chunk from the moment it reaches it.\<close>

lemma promote_steps:
  assumes "ru_phase s = AtChunk" "ru_pending s = ch # rest" "terminals_ok (ru_store s)" "ru_recovered s (sc_key ch) = None"
    and d: "distinct (map fst (m_sync_chunks (ru_store s)))"
    and e: "EnsureSyncChunk (rc_run cfg) ''terminal'' (sc_key ch) (ru_store s) = (m, k)"
  shows "\<exists>m' su. (run_step cfg (\<lambda>_. False) ^^ 3) s = s\<lparr>ru_store := m', ru_phase := Promoted k su\<rparr> \<and>
     grown (rc_run cfg) m (chunk_terminals ch) m' \<and> cs_written su = length (chunk_terminals ch)"
proof -
  have "terminals_ok m" using ensured_chunk(1,2) [OF d e] terminals_ok_mono [OF assms(3)] by simp
  then obtain m' su where p: "PromoteSkeletonChunk (\<lambda>_. False) (rc_run cfg) ch m = (m', Inr su)"
      "cs_written su = length (chunk_terminals ch)" "grown (rc_run cfg) m (chunk_terminals ch) m'"
    using chunk_counted [of m ch "rc_run cfg"] by (auto split: prod.splits sum.splits)
  have "(run_step cfg (\<lambda>_. False) ^^ 3) s = s\<lparr>ru_store := m', ru_phase := Promoted k su\<rparr>"
    using assms p(1)
    by (simp add: numeral_3_eq_3 run_step_def at_chunk_def skip_or_promote_def fresh_line_def promote_chunk_def)
  then show ?thesis using p(2,3) by blast
qed

text \<open>C37: A chunk is done in the store before its line is written to the log, and only both together count: if the
process stops between the two and the store outlives it, the resumed run promotes the chunk again, every terminal of
it is in the store twice, and the totals of the run still speak of each once.\<close>

theorem lost_line_doubles_terminals:
  "let cfg = \<lparr>rc_run = r, rc_plan = plan, rc_chunks = [ch], rc_error_text = text, rc_undo = undo\<rparr>; ts = chunk_terminals ch;
       stopped = (run_step cfg (\<lambda>_. False) ^^ 4) (start_run cfg (NewMemoryStore now off) []);
       s = (run_step cfg (\<lambda>_. False) ^^ 6) (restart cfg (ru_store stopped) stopped) in
   run_done s \<and> rs_written (ru_total s) = length ts \<and>
   m_terminals (ru_store s) = new_terminals 2 ts @ new_terminals (2 + int (length ts)) ts"
proof -
  let ?cfg = "\<lparr>rc_run = r, rc_plan = plan, rc_chunks = [ch], rc_error_text = text, rc_undo = undo\<rparr>"
  let ?step = "run_step ?cfg (\<lambda>_. False)"
  let ?ts = "chunk_terminals ch"
  let ?c = "\<lparr>ch_id = 1, ch_run = r, ch_entity = ''terminal'', ch_key = sc_key ch, ch_state = ''pending'',
    ch_plan_done = '''', ch_attempts = 0, ch_last_error = ''''\<rparr>"
  let ?s0 = "start_run ?cfg (NewMemoryStore now off) []"
  obtain m1 where e1: "EnsureSyncChunk r ''terminal'' (sc_key ch) (NewMemoryStore now off) = (m1, 1)"
      and m1: "m_terminals m1 = []" "m_next_id m1 = 2" "m_sync_chunks m1 = [(1, ?c)]"
    by (simp add: EnsureSyncChunk_def NewMemoryStore_def allocID_def)
  have "terminals_ok (NewMemoryStore now off)" "m_sync_chunks (NewMemoryStore now off) = []"
    by (simp_all add: terminals_ok_def NewMemoryStore_def)
  then obtain m2 su where s1: "(?step ^^ 3) ?s0 = ?s0\<lparr>ru_store := m2, ru_phase := Promoted 1 su\<rparr>" "cs_written su = length ?ts"
      and g: "grown r m1 ?ts m2"
    using promote_steps [of ?s0 ch "[]" ?cfg m1 1] e1 by (auto simp: start_run_def readOpsSummaries_def)
  then have m2: "m_sync_chunks m2 = [(1, ?c)]" "m_terminals m2 = new_terminals 2 ?ts" "m_next_id m2 = 2 + int (length ?ts)" "terminals_ok m2"
    using m1 by (simp_all add: grown_def)
  let ?d = "?c\<lparr>ch_state := ''done'', ch_plan_done := plan, ch_last_error := '''', ch_attempts := 0 + 1\<rparr>"
  let ?m3 = "m2\<lparr>m_sync_chunks := [(1, ?d)]\<rparr>"
  have four: "(?step ^^ 4) x = ?step ((?step ^^ 3) x)" for x by (simp add: eval_nat_numeral)
  have "(?step ^^ 4) ?s0 = ?s0\<lparr>ru_store := ?m3, ru_phase := Completed su\<rparr>"
    unfolding four s1(1) by (simp add: run_step_def complete_promoted_def complete_known m2 start_run_def)
  then have re: "restart ?cfg (ru_store ((?step ^^ 4) ?s0)) ((?step ^^ 4) ?s0) = start_run ?cfg ?m3 []"
    by (simp add: restart_def start_run_def)
  let ?r0 = "start_run ?cfg ?m3 []"
  have e3: "EnsureSyncChunk r ''terminal'' (sc_key ch) ?m3 = (?m3, 1)"
    by (simp add: EnsureSyncChunk_def chunk_matches_def)
  have "terminals_ok ?m3" using m2(4) by (simp add: terminals_ok_def)
  then obtain m4 su' where s4: "(?step ^^ 3) ?r0 = ?r0\<lparr>ru_store := m4, ru_phase := Promoted 1 su'\<rparr>"
      "cs_written su' = length ?ts" and g4: "grown r ?m3 ?ts m4"
    using promote_steps [of ?r0 ch "[]" ?cfg ?m3 1] e3 by (auto simp: start_run_def readOpsSummaries_def)
  then have m4: "m_terminals m4 = new_terminals 2 ?ts @ new_terminals (2 + int (length ?ts)) ?ts" "m_sync_chunks m4 = [(1, ?d)]"
    using m2 by (simp_all add: grown_def)
  have six: "(?step ^^ 6) x = ?step (?step (?step ((?step ^^ 3) x)))" for x by (simp add: eval_nat_numeral)
  have "run_done ((?step ^^ 6) ?r0) \<and> rs_written (ru_total ((?step ^^ 6) ?r0)) = length ?ts \<and>
      m_terminals (ru_store ((?step ^^ 6) ?r0)) = m_terminals m4"
    unfolding six s4(1)
    by (simp add: run_step_def complete_promoted_def complete_known m4(2) start_run_def next_chunk_def run_done_def
        accumulate_def chunkOps_def new_total_def s4(2))
  then show ?thesis unfolding Let_def re m4(1) by blast
qed

definition demo_outcome :: JoinOutcome where
  "demo_outcome = \<lparr>jo_canon = [demo_joined], jo_unverified = [empty_record\<lparr>ar_name := ''B''\<rparr>], jo_ambiguous = []\<rparr>"

lemma demo_outcome_terminals: "outcome_terminals demo_outcome = [(demo_joined, 55, 86)]"
  by (simp add: outcome_terminals_def demo_outcome_def demo_joined_def located_def unmatched_def empty_record_def)

text \<open>A process that dies after it has made the row of the first chunk, and one that goes on with a new store.\<close>

lemma resumed_run_completes_witness:
  "let cfg = run_of 7 ''p'' (\<lambda>_. '''') False demo_outcome 100;
       s = restart cfg (NewMemoryStore 9 0) (run_step cfg (\<lambda>_. False) (start_run cfg (NewMemoryStore 0 0) []));
       s' = (run_step cfg (\<lambda>_. False) ^^ (6 * length (ru_pending s))) s in
   CheckRunBalance (final_total demo_outcome s') = None \<and>
   (\<exists>i. (i, (terminal_row demo_joined 55 86)\<lparr>te_id := i\<rparr>) \<in> set (m_terminals (ru_store s')))"
proof -
  let ?cfg = "run_of 7 ''p'' (\<lambda>_. '''') False demo_outcome 100"
  let ?s = "restart ?cfg (NewMemoryStore 9 0) (run_step ?cfg (\<lambda>_. False) (start_run ?cfg (NewMemoryStore 0 0) []))"
  have r: "run_reached ?cfg (NewMemoryStore 0 0) ?s" by (intro run_reached.intros)
  have d: "distinct (map fst (m_sync_chunks (NewMemoryStore 0 0)))" by (simp add: NewMemoryStore_def)
  have "ru_phase ?s = AtChunk" by (simp add: restart_def start_run_def)
  then show ?thesis using resumed_run_completes [OF new_store_ok d r] by (simp add: Let_def demo_outcome_terminals)
qed

end
