(* ===== verification/TripsPersist.thy ===== *)
theory TripsPersist
  imports Promote Timetable
begin

text \<open>
  Writing the report of an attachment into the store (\<open>sync/trips_promote.go\<close>): each promoted trip
  becomes a route, a trip and its stop times and leaves the staging table and the review queue, each staged trip
  becomes a row of the staging table, trips that are gone get a date of expiry; and the events of new
  terminals. The memory store keeps neither services nor regions of routes, so the two calls that save them
  have no part here. A transaction of the memory store runs its function on the store itself.
\<close>

section \<open>Keys and fields\<close>

record PersistSummary =
  ps_routes :: nat
  ps_trips :: nat
  ps_stop_times :: nat
  ps_staged :: nat
  ps_skeleton_gap :: nat
  ps_tombstoned :: nat
  ps_reviews :: nat
  ps_reviews_resolved :: nat
  ps_dead :: nat
  ps_restricted :: nat
  ps_codes :: nat
  ps_code_clash :: nat
  ps_mid_gaps :: nat

definition empty_persist :: PersistSummary where
  "empty_persist = \<lparr>ps_routes = 0, ps_trips = 0, ps_stop_times = 0, ps_staged = 0, ps_skeleton_gap = 0, ps_tombstoned = 0,
     ps_reviews = 0, ps_reviews_resolved = 0, ps_dead = 0, ps_restricted = 0, ps_codes = 0, ps_code_clash = 0, ps_mid_gaps = 0\<rparr>"

text \<open>What follows the last bar, or everything when there is none.\<close>

definition SplitTripNK :: "string \<Rightarrow> string" where
  "SplitTripNK tripNK = rev (takeWhile (\<lambda>c. c \<noteq> CHR ''|'') (rev tripNK))"

definition DirectionIDOf :: "string \<Rightarrow> int option" where
  "DirectionIDOf direction =
     (let d = to_lower (trim_space direction) in
      if d = ''forward'' then Some 0 else if d = ''backward'' then Some 1 else None)"

definition baseSource :: "string \<Rightarrow> string" where
  "baseSource winner = takeWhile (\<lambda>c. c \<noteq> CHR '':'') winner"

definition tripDurationS :: "MatchedStopTime list \<Rightarrow> int option" where
  "tripDurationS ms =
     (if length ms < 2 then None
      else (let d = mt_dep (last ms) - mt_arr (hd ms) in if d < 0 then None else Some d))"

definition regionOfRouteReg :: "string \<Rightarrow> string" where
  "regionOfRouteReg routeReg = (if length routeReg \<ge> 2 then take 2 routeReg else '''')"

definition ident_key :: "AdaptedIdentifier \<Rightarrow> string" where
  "ident_key c = ai_system c @ nul @ ai_code_type c @ nul @ ai_code c"

definition ident_fingerprint :: "AdaptedIdentifier \<Rightarrow> string" where
  "ident_fingerprint c = ai_system c @ '':'' @ ai_code_type c @ '':'' @ ai_code c"

text \<open>The codes that the trips of a report give a terminal.\<close>

definition run_codes :: "PromotableTrip list \<Rightarrow> int \<Rightarrow> string list" where
  "run_codes promoted terminal =
     concat (map (\<lambda>p. concat (map (\<lambda>m. if mt_terminal m = terminal then map ident_key (mt_codes m) else [])
       (pt_stop_times p))) promoted)"

section \<open>A promoted trip\<close>

record promotedCounts =
  pc_routes :: nat
  pc_stop_times :: nat
  pc_restricted :: bool
  pc_codes :: nat
  pc_code_clash :: nat
  pc_reviews_resolved :: nat

type_synonym trip_writing = "MemoryStore \<times> promotedCounts"

definition carrier_row :: "string \<Rightarrow> PromotableTrip \<Rightarrow> CarrierRow" where
  "carrier_row source p = \<lparr>ca_id = 0, ca_provider = source, ca_name = pt_carrier p, ca_code = pt_carrier_inn p,
     ca_inn = pt_carrier_inn p, ca_address = '''', ca_iata = '''', ca_icao = '''', ca_sirena = ''''\<rparr>"

definition trip_carrier :: "string \<Rightarrow> PromotableTrip \<Rightarrow> MemoryStore \<Rightarrow> MemoryStore \<times> int" where
  "trip_carrier source p m =
     (if pt_carrier_inn p \<noteq> '''' \<or> pt_carrier p \<noteq> '''' then UpsertCarrier (carrier_row source p) m else (m, 0))"

definition route_row :: "string \<Rightarrow> int \<Rightarrow> PromotableTrip \<Rightarrow> RouteRow" where
  "route_row source carrier p = \<lparr>ro_id = 0, ro_provider = source, ro_carrier = carrier, ro_code = pt_route_nk p,
     ro_short = pt_route_reg p, ro_long = pt_route_reg p, ro_mode = ''bus'', ro_uid = '''', ro_ord = 0, ro_valid_to = None\<rparr>"

definition trip_row :: "string \<Rightarrow> int \<Rightarrow> PromotableTrip \<Rightarrow> TripRow" where
  "trip_row source route p = \<lparr>tp_id = 0, tp_route = route, tp_provider = source, tp_code = SplitTripNK (pt_trip_nk p),
     tp_direction = pt_direction p, tp_direction_id = DirectionIDOf (pt_direction p), tp_days = FormatWeekdays (pt_weekdays p),
     tp_frequency = 0, tp_period = pt_winner_period p, tp_service = pt_service p,
     tp_duration = tripDurationS (pt_stop_times p), tp_distance = None, tp_method = None, tp_valid_to = None\<rparr>"

definition stop_time_row :: "int \<Rightarrow> int \<Rightarrow> MatchedStopTime \<Rightarrow> StopTimeRow" where
  "stop_time_row trip stop ms = \<lparr>sr_trip = trip, sr_stop = stop, sr_seq = mt_seq ms, sr_arr = mt_arr ms, sr_dep = mt_dep ms,
     sr_pickup = 0, sr_dropoff = 0, sr_dwell = 0, sr_provisional = mt_provisional ms,
     sr_score = (if mt_score ms > 0 then Some (mt_score ms) else None), sr_method = mt_method ms\<rparr>"

definition trip_source_row :: "int \<Rightarrow> PromotableTrip \<Rightarrow> TripSourceRow" where
  "trip_source_row trip p = \<lparr>ts_trip = trip, ts_source = baseSource (pt_winner_source p), ts_price = None, ts_currency = None,
     ts_url = None, ts_duration = tripDurationS (pt_stop_times p), ts_distance = None, ts_method = None\<rparr>"

definition write_stop_time :: "int \<Rightarrow> MatchedStopTime \<Rightarrow> trip_writing \<Rightarrow> trip_writing \<times> sync_error option" where
  "write_stop_time trip ms = (\<lambda>(m, c).
     case EnsureStopForTerminal (mt_terminal ms) 0 0 '''' m of
       (m, Inl e) \<Rightarrow> ((m, c), Some (StoreFailed e))
     | (m, Inr stop) \<Rightarrow>
         ((UpsertStopTime (stop_time_row trip stop ms) m, c\<lparr>pc_stop_times := pc_stop_times c + 1\<rparr>), None))"

definition possible_merge :: "int \<Rightarrow> AdaptedIdentifier \<Rightarrow> ReviewQueueEntry" where
  "possible_merge terminal code = \<lparr>rq_entity_type = ''terminal'', rq_entity_id = terminal, rq_reason = ''possible_merge'',
     rq_score = 0, rq_fingerprint = ident_fingerprint code\<rparr>"

definition clash :: "int \<Rightarrow> AdaptedIdentifier \<Rightarrow> trip_writing \<Rightarrow> trip_writing" where
  "clash terminal code = (\<lambda>(m, c).
     (SaveReviewQueue (possible_merge terminal code) m, c\<lparr>pc_code_clash := pc_code_clash c + 1\<rparr>))"

definition attach_code :: "int \<Rightarrow> AdaptedIdentifier \<Rightarrow> trip_writing \<times> string list \<Rightarrow> trip_writing \<times> string list" where
  "attach_code terminal code = (\<lambda>((m, c), attached).
     case AttachTerminalIdentifier terminal code m of
       (m, owner) \<Rightarrow>
         if owner \<noteq> 0 then (clash terminal code (m, c), attached)
         else ((m, c\<lparr>pc_codes := pc_codes c + 1\<rparr>), attached @ [ident_key code]))"

text \<open>The codes of a stop are attached to its terminal; a code of the same system that the terminal has from elsewhere
is a sign that two terminals are one.\<close>

definition write_codes :: "(int \<Rightarrow> string list) \<Rightarrow> MatchedStopTime \<Rightarrow> trip_writing \<Rightarrow> trip_writing \<times> sync_error option" where
  "write_codes runCodes ms = (\<lambda>(m, c).
     case SetTerminalTag (mt_terminal ms) ''intercity'' ''1'' m of
       (m, Some e) \<Rightarrow> ((m, c), Some (StoreFailed e))
     | (m, None) \<Rightarrow>
         (let ((m, c), attached) = fold (attach_code (mt_terminal ms)) (mt_codes ms) ((m, c), []);
              existing = (if mt_codes ms = [] then []
                else ListTerminalCodes (mt_terminal ms) (ai_system (hd (mt_codes ms))) m);
              strange = filter (\<lambda>ex. ident_key ex \<notin> set attached \<and> ident_key ex \<notin> set (runCodes (mt_terminal ms))) existing
          in (fold (clash (mt_terminal ms)) strange (m, c), None)))"

definition persistPromotedTrip :: "string \<Rightarrow> (int \<Rightarrow> string list) \<Rightarrow> PromotableTrip \<Rightarrow> MemoryStore \<Rightarrow>
    trip_writing \<times> sync_error option" where
  "persistPromotedTrip source runCodes p m =
     (let (m, carrier) = trip_carrier source p m;
          (m, route) = UpsertRoute (route_row source carrier p) m;
          (m, trip) = UpsertTrip (trip_row source route p) m;
          m = DeleteStopTimes trip m;
          c = \<lparr>pc_routes = 1, pc_stop_times = 0, pc_restricted = False, pc_codes = 0, pc_code_clash = 0, pc_reviews_resolved = 0\<rparr>
      in case each_record (\<lambda>_. False) 0 (write_stop_time trip) (pt_stop_times p) (m, c) of
           (w, Some e) \<Rightarrow> (w, Some e)
         | ((m, c), None) \<Rightarrow>
             (case each_record (\<lambda>_. False) 0 (write_codes runCodes) (pt_stop_times p) (UpsertTripSource (trip_source_row trip p) m, c) of
                (w, Some e) \<Rightarrow> (w, Some e)
              | ((m, c), None) \<Rightarrow>
                  (let m = DeleteStagingTrip source (pt_route_nk p) (SplitTripNK (pt_trip_nk p)) m;
                       (m, n) = ResolveTripReviewsByFingerprint (source @ '':'' @ pt_route_nk p @ ''|'' @ pt_trip_nk p) m
                   in ((m, c\<lparr>pc_reviews_resolved := n, pc_restricted := FormatWeekdays (pt_weekdays p) \<noteq> ''''\<rparr>), None))))"

section \<open>A staged trip\<close>

definition staging_row :: "string \<Rightarrow> StagedTrip \<Rightarrow> StagingTripRow" where
  "staging_row source s =
     (let region = regionOfRouteReg (sg_route_reg s);
          region = (if region = '''' then regionOfRouteReg (sg_route_nk s) else region)
      in \<lparr>sw_id = 0, sw_source = source, sw_route = sg_route_nk s, sw_trip = SplitTripNK (sg_trip_nk s),
          sw_synthetic = sg_synthetic_key s,
          sw_raw = Some \<lparr>rr_route_reg = sg_route_reg s, rr_direction = sg_direction s, rr_service = sg_service s, rr_run = sg_run s,
            rr_carrier = sg_carrier s, rr_carrier_inn = sg_carrier_inn s, rr_weekdays = sg_weekdays s, rr_reason = sg_reason s\<rparr>,
          sw_region = region, sw_transport = ''bus'', sw_state = sg_state s, sw_matched = sg_matched s,
          sw_unmatched = sg_unmatched s, sw_retry = 0, sw_last_attempt = zero_time\<rparr>)"

definition persistStagedTrip :: "string \<Rightarrow> StagedTrip \<Rightarrow> MemoryStore \<Rightarrow> MemoryStore" where
  "persistStagedTrip source s m = fst (UpsertStagingTrip (staging_row source s) m)"

section \<open>A report\<close>

datatype persist_error = ChurnFrozen | WritingFailed sync_error | RowsLost nat nat nat nat

type_synonym report_writing = "MemoryStore \<times> PersistSummary"

definition write_promoted :: "string \<Rightarrow> (int \<Rightarrow> string list) \<Rightarrow> PromotableTrip \<Rightarrow> report_writing \<Rightarrow> report_writing \<times> sync_error option" where
  "write_promoted source runCodes p = (\<lambda>(m, s).
     case persistPromotedTrip source runCodes p m of
       ((m, n), Some e) \<Rightarrow> ((m, s), Some e)
     | ((m, n), None) \<Rightarrow>
         ((m, s\<lparr>ps_routes := ps_routes s + pc_routes n, ps_trips := ps_trips s + 1,
                ps_stop_times := ps_stop_times s + pc_stop_times n,
                ps_restricted := (if pc_restricted n then ps_restricted s + 1 else ps_restricted s),
                ps_codes := ps_codes s + pc_codes n, ps_code_clash := ps_code_clash s + pc_code_clash n,
                ps_reviews_resolved := ps_reviews_resolved s + pc_reviews_resolved n\<rparr>), None))"

definition write_staged :: "string \<Rightarrow> StagedTrip \<Rightarrow> report_writing \<Rightarrow> report_writing \<times> sync_error option" where
  "write_staged source sg = (\<lambda>(m, s).
     ((persistStagedTrip source sg m,
       s\<lparr>ps_staged := ps_staged s + 1,
         ps_skeleton_gap := (if sg_state sg = ''skeleton_gap'' then ps_skeleton_gap s + 1 else ps_skeleton_gap s)\<rparr>), None))"

definition write_review :: "ReviewQueueEntry \<Rightarrow> report_writing \<Rightarrow> report_writing \<times> sync_error option" where
  "write_review r = (\<lambda>(m, s). ((SaveReviewQueue r m, s\<lparr>ps_reviews := ps_reviews s + 1\<rparr>), None))"

definition write_tombstone :: "string \<Rightarrow> TombstonedTrip \<Rightarrow> report_writing \<Rightarrow> report_writing \<times> sync_error option" where
  "write_tombstone source t = (\<lambda>(m, s).
     case FindRouteID source (tb_route_nk t) m of
       None \<Rightarrow> ((m, s), None)
     | Some route \<Rightarrow>
         (case FindTrip route (SplitTripNK (tb_trip_nk t)) m of
            None \<Rightarrow> ((m, s), None)
          | Some trip \<Rightarrow>
              (case TombstoneTrip (tp_id trip) m of
                 (m, Some e) \<Rightarrow> ((m, s), Some (StoreFailed e))
               | (m, None) \<Rightarrow> ((m, s\<lparr>ps_tombstoned := ps_tombstoned s + 1\<rparr>), None))))"

text \<open>\<open>ctx i\<close>: the context is found cancelled when it is asked for the \<open>i\<close>-th time.\<close>

definition PersistAttachReport :: "(nat \<Rightarrow> bool) \<Rightarrow> AttachReport \<Rightarrow> string \<Rightarrow> MemoryStore \<Rightarrow> report_writing \<times> persist_error option" where
  "PersistAttachReport ctx rep source m =
     (if ar_alert rep then ((m, empty_persist), Some ChurnFrozen)
      else
        (let source = (if source = '''' then ''mintrans'' else source);
             s = empty_persist\<lparr>ps_dead := length (ar_dead rep), ps_mid_gaps := ar_mid_gaps rep\<rparr>;
             np = length (ar_promoted rep); ns = length (ar_staged rep)
         in case run_all
              [each_record ctx 0 (write_promoted source (run_codes (ar_promoted rep))) (ar_promoted rep),
               each_record ctx np (write_staged source) (ar_staged rep),
               each_record (\<lambda>_. False) 0 write_review (ar_reviews rep),
               each_record ctx (np + ns) (write_tombstone source) (ar_tombstoned rep)] (m, s) of
              (w, Some e) \<Rightarrow> (w, Some (WritingFailed e))
            | (w, None) \<Rightarrow>
                if ar_in rep \<noteq> np + ns + length (ar_dead rep) then (w, Some (RowsLost (ar_in rep) np ns (length (ar_dead rep))))
                else (w, None)))"

section \<open>Events of new terminals\<close>

text \<open>The region that the payload of an event names; a payload that cannot be decoded names none.\<close>

definition payload_region :: "string \<Rightarrow> string" where
  "payload_region payload =
     (case unmarshal_map payload of
        Some ms \<Rightarrow> (case json_member ''region'' ms of Some (JStr r) \<Rightarrow> r | _ \<Rightarrow> '''')
      | None \<Rightarrow> '''')"

definition terminal_created :: "OutboxEvent \<Rightarrow> bool" where
  "terminal_created e \<longleftrightarrow> ob_aggregate e = ''terminal'' \<and> ob_event e = ''terminal.created''"

definition event_regions :: "OutboxEvent list \<Rightarrow> string list" where
  "event_regions events = sort_by (<) (remdups (filter (\<lambda>r. r \<noteq> '''') (map (\<lambda>e. payload_region (ob_payload e)) events)))"

text \<open>Each region once, then the events are deleted; an error of the handler leaves them for the next time.\<close>

definition ConsumeTerminalCreated :: "(string \<Rightarrow> MemoryStore \<Rightarrow> MemoryStore \<times> 'e option) \<Rightarrow> MemoryStore \<Rightarrow> MemoryStore \<times> ('e + nat)" where
  "ConsumeTerminalCreated handle m =
     (let events = filter terminal_created (ListOutbox 100 m) in
      if events = [] then (m, Inr 0)
      else (case run_all (map handle (event_regions events)) m of
          (m, Some e) \<Rightarrow> (m, Inl e)
        | (m, None) \<Rightarrow> (fold (\<lambda>e. DeleteOutbox (ob_id e)) events m, Inr (length events))))"

end
