(* ===== verification/TripsGeo.thy ===== *)
theory TripsGeo
  imports Attach StopNames
begin

text \<open>
  Coordinates for the stops of trips that have none (\<open>sync/trips_georesolve.go\<close>): those of the terminal that
  the name and the settlement of a stop point to. The code changes the stops in place; here the
  trips are returned with their stops filled. The map from settlements to terminals is ranged over, so it
  is an association list.
\<close>

section \<open>Signals\<close>

definition ru_aeroport :: string where
  "ru_aeroport = utf8 [1072, 1101, 1088, 1086, 1087, 1086, 1088, 1090]"

definition stopTypeSignalMatch :: "string \<Rightarrow> string \<Rightarrow> bool" where
  "stopTypeSignalMatch stopType terminalName =
     (let n = to_lower terminalName in
      if stopType = StopTypeHub then contains n ru_avtovokzal \<or> contains n ru_avtostantsiya
      else if stopType = StopTypeAirport then contains n ru_aeroport
      else False)"

definition ru_tts :: string where
  "ru_tts = utf8 [1090, 1094]"

definition contrastWords :: "string list" where
  "contrastWords = [utf8 [1083, 1077, 1090, 1085, 1080, 1081], utf8 [1083, 1077, 1090, 1085, 1080, 1081, 32, 1072, 1074, 1090, 1086, 1074, 1086, 1082, 1079, 1072, 1083], utf8 [1078, 47, 1076],
     utf8 [1078, 1077, 1083, 1077, 1079, 1085, 1086, 1076, 1086, 1088, 1086, 1078, 1085], ru_aeroport, ru_tts @ '' '', ru_tts @ [char_of (34::nat)],
     utf8 [1090, 1094, 171], utf8 [1102, 1075, 1086, 45, 1079, 1072, 1087, 1072, 1076, 1085], utf8 [1088, 1077, 1095, 1085, 1086, 1081], utf8 [1074, 1086, 1089, 1090, 1086, 1095, 1085],
     utf8 [1079, 1072, 1087, 1072, 1076, 1085], utf8 [1089, 1077, 1074, 1077, 1088, 1085], utf8 [1087, 1088, 1080, 1074, 1086, 1082, 1079, 1072, 1083, 1100, 1085], utf8 [1083, 1077, 1090, 1085, 1080, 1081]]"

definition hasContrastWord :: "string \<Rightarrow> string \<Rightarrow> bool" where
  "hasContrastWord stopName terminalName =
     (let s = to_lower stopName; n = to_lower terminalName in list_ex (\<lambda>w. contains n w \<and> \<not> contains s w) contrastWords)"

section \<open>One stop\<close>

definition resolve_score :: "FlatStop \<Rightarrow> string \<Rightarrow> AttachTerminal \<Rightarrow> real option" where
  "resolve_score s settle t =
     (let score = Similarity (fs_name s) (at_name t) in
      if score < 6 / 10 then None
      else if settle \<noteq> '''' \<and> at_settlement t \<noteq> '''' \<and> \<not> SameSettlement settle (at_settlement t) then None
      else (let score = (if stopTypeSignalMatch (InferStopType (fs_name s)) (at_name t) then score + 25 / 100 else score)
            in Some (if hasContrastWord (fs_name s) (at_name t) then score - 25 / 100 else score)))"

text \<open>The best terminal so far with its score, and the second score. Scores start at 0.\<close>

record resolve_state =
  re_best :: "AttachTerminal option"
  re_score :: real
  re_second :: real

definition resolve_step :: "FlatStop \<Rightarrow> string \<Rightarrow> AttachTerminal \<Rightarrow> resolve_state \<Rightarrow> resolve_state" where
  "resolve_step s settle t st =
     (case resolve_score s settle t of
        None \<Rightarrow> st
      | Some score \<Rightarrow>
          if score > re_score st then \<lparr>re_best = Some t, re_score = score, re_second = re_score st\<rparr>
          else if score > re_second st then st\<lparr>re_second := score\<rparr> else st)"

definition resolve_pool :: "string \<Rightarrow> (string \<times> nat list) list \<Rightarrow> nat list \<Rightarrow> nat list" where
  "resolve_pool settle bySettlement noSettle =
     (let pool = (if settle = '''' then []
            else concat (map snd (filter (\<lambda>(core, _). SameSettlement settle core) bySettlement)))
      in if pool = [] then noSettle else pool)"

definition resolveOne :: "FlatStop \<Rightarrow> AttachTerminal list \<Rightarrow> (string \<times> nat list) list \<Rightarrow> nat list \<Rightarrow> (real \<times> real) option" where
  "resolveOne s terms bySettlement noSettle =
     (let settle = ExtractSettlement (fs_name s);
          pool = resolve_pool settle bySettlement noSettle;
          st = fold (\<lambda>i. resolve_step s settle (terms ! i)) pool \<lparr>re_best = None, re_score = 0, re_second = 0\<rparr>
      in case re_best st of
           None \<Rightarrow> None
         | Some t \<Rightarrow>
             if re_score st < 6 / 10 then None
             else if length pool > 1 \<and> re_score st - re_second st < 15 / 100 \<and> re_second st \<ge> 6 / 10 then None
             else (case (at_lat t, at_lon t) of (Some la, Some lo) \<Rightarrow> Some (la, lo) | _ \<Rightarrow> None))"

section \<open>The stops of all trips\<close>

definition settlement_index :: "AttachTerminal list \<Rightarrow> (string \<times> nat list) list \<times> nat list" where
  "settlement_index terms =
     fold (\<lambda>(i, t) (by, none). let s = Core (at_settlement t) in
         if s \<noteq> '''' then (map_append s i by, none) else (by, none @ [i]))
       (zip [0 ..< length terms] terms) ([], [])"

definition resolve_stop :: "AttachTerminal list \<Rightarrow> FlatStop \<Rightarrow> FlatStop" where
  "resolve_stop terms s =
     (if fs_lat s \<noteq> None \<and> fs_lon s \<noteq> None then s
      else (case settlement_index terms of
          (by, none) \<Rightarrow>
            (case resolveOne s terms by none of
               Some (la, lo) \<Rightarrow> s\<lparr>fs_lat := Some la, fs_lon := Some lo\<rparr>
             | None \<Rightarrow> s)))"

definition ResolveStopCoords :: "FlatTrip list \<Rightarrow> AttachTerminal list \<Rightarrow> FlatTrip list" where
  "ResolveStopCoords trips terms =
     (if terms = [] then trips
      else map (\<lambda>ft. ft\<lparr>ft_stops := map (resolve_stop terms) (ft_stops ft)\<rparr>) trips)"

text \<open>The counts that the caller logs: stops that were filled, and stops that had no coordinates.\<close>

definition unplaced :: "FlatTrip list \<Rightarrow> nat" where
  "unplaced trips = length (filter (\<lambda>s. fs_lat s = None \<or> fs_lon s = None) (concat (map ft_stops trips)))"

definition resolve_counts :: "FlatTrip list \<Rightarrow> AttachTerminal list \<Rightarrow> nat \<times> nat" where
  "resolve_counts trips terms =
     (if terms = [] then (0, 0)
      else (unplaced trips - unplaced (ResolveStopCoords trips terms), unplaced trips))"

section \<open>No dependence on the order of the map\<close>

text \<open>The two best scores of the terminals seen so far.\<close>

definition top_two :: "(AttachTerminal \<times> real) multiset \<Rightarrow> resolve_state \<Rightarrow> bool" where
  "top_two M st \<longleftrightarrow>
     (case re_best st of
        None \<Rightarrow> re_score st = 0 \<and> re_second st = 0 \<and> (\<forall>(t, v) \<in># M. v \<le> 0)
      | Some t \<Rightarrow> 0 < re_score st \<and> 0 \<le> re_second st \<and> re_second st \<le> re_score st \<and>
          (\<exists>N. M = add_mset (t, re_score st) N \<and> (\<forall>(u, v) \<in># N. v \<le> re_second st) \<and>
             (re_second st = 0 \<or> (\<exists>u. (u, re_second st) \<in># N))))"

definition scored :: "FlatStop \<Rightarrow> string \<Rightarrow> AttachTerminal \<Rightarrow> (AttachTerminal \<times> real) multiset" where
  "scored s settle t = (case resolve_score s settle t of None \<Rightarrow> {#} | Some v \<Rightarrow> {#(t, v)#})"

lemma top_two_step:
  assumes "top_two M st"
  shows "top_two (M + scored s settle t) (resolve_step s settle t st)"
proof (cases "resolve_score s settle t")
  case None
  then show ?thesis using assms by (simp add: scored_def resolve_step_def)
next
  case (Some v)
  have all: "w \<le> re_score st" if "(u, w) \<in># M" for u w
    using assms that by (fastforce simp: top_two_def split: option.splits)
  show ?thesis
  proof (cases "v > re_score st")
    case True
    have "0 \<le> re_score st" "re_score st = 0 \<or> (\<exists>u. (u, re_score st) \<in># M)"
      using assms by (auto simp: top_two_def split: option.splits)
    then show ?thesis using Some True all by (auto simp: scored_def resolve_step_def top_two_def)
  next
    case False
    show ?thesis
    proof (cases "re_best st")
      case None
      then show ?thesis using assms Some False by (auto simp: scored_def resolve_step_def top_two_def)
    next
      case (Some b)
      obtain N where N: "M = add_mset (b, re_score st) N" "\<forall>(u, v) \<in># N. v \<le> re_second st"
          "re_second st = 0 \<or> (\<exists>u. (u, re_second st) \<in># N)" "0 < re_score st" "0 \<le> re_second st" "re_second st \<le> re_score st"
        using assms Some by (auto simp: top_two_def)
      have "M + scored s settle t = add_mset (b, re_score st) (add_mset (t, v) N)"
        using \<open>resolve_score s settle t = Some v\<close> N(1) by (simp add: scored_def)
      then show ?thesis
        using False Some N(2-6) \<open>resolve_score s settle t = Some v\<close>
        by (cases "v > re_second st") (fastforce simp: resolve_step_def top_two_def)+
    qed
  qed
qed

lemma top_two_fold:
  "top_two M st \<Longrightarrow> top_two (M + (\<Sum>t \<in># mset ts. scored s settle t)) (fold (resolve_step s settle) ts st)"
proof (induction ts arbitrary: M st)
  case (Cons t ts)
  then show ?case using Cons.IH [OF top_two_step [OF Cons.prems, of s settle t]] by (simp add: add.assoc)
qed simp

lemma top_two_unique:
  assumes "top_two M st" "top_two M st'"
  shows "re_score st = re_score st'" "re_second st = re_second st'"
    and "re_best st = re_best st' \<or> (re_second st = re_score st \<and> 2 \<le> size M)"
proof -
  have "re_score st = re_score st' \<and> re_second st = re_second st' \<and>
      (re_best st = re_best st' \<or> (re_second st = re_score st \<and> 2 \<le> size M))"
  proof (cases "re_best st"; cases "re_best st'")
    fix b b' assume b: "re_best st = Some b" "re_best st' = Some b'"
    obtain N where N: "M = add_mset (b, re_score st) N" "\<forall>(u, v) \<in># N. v \<le> re_second st"
        "re_second st = 0 \<or> (\<exists>u. (u, re_second st) \<in># N)" "0 \<le> re_second st" "re_second st \<le> re_score st"
      using assms(1) b by (auto simp: top_two_def)
    obtain N' where N': "M = add_mset (b', re_score st') N'" "\<forall>(u, v) \<in># N'. v \<le> re_second st'"
        "re_second st' = 0 \<or> (\<exists>u. (u, re_second st') \<in># N')" "0 \<le> re_second st'" "re_second st' \<le> re_score st'"
      using assms(2) b by (auto simp: top_two_def)
    show ?thesis
    proof (cases "(b, re_score st) = (b', re_score st')")
      case True
      then have "N = N'" using N(1) N'(1) by simp
      then have "re_second st = re_second st'" using N(2-4) N'(2-4) by fastforce
      then show ?thesis using True b by simp
    next
      case False
      moreover have "add_mset (b, re_score st) N = add_mset (b', re_score st') N'" using N(1) N'(1) by simp
      ultimately obtain K where K: "N = add_mset (b', re_score st') K" "N' = add_mset (b, re_score st) K"
        unfolding add_eq_conv_ex by blast
      then have "re_score st' \<le> re_second st" "re_score st \<le> re_second st'" using N(2) N'(2) by auto
      then show ?thesis using N(1,5) N'(5) K(1) by simp
    qed
  qed (use assms in \<open>auto simp: top_two_def\<close>)
  then show "re_score st = re_score st'" "re_second st = re_second st'"
    "re_best st = re_best st' \<or> (re_second st = re_score st \<and> 2 \<le> size M)" by blast+
qed

lemma scored_size: "size (\<Sum>t \<in># mset ts. scored s settle t) \<le> length ts"
proof (induction ts)
  case (Cons t ts)
  have "size (scored s settle t) \<le> 1" by (simp add: scored_def split: option.split)
  then show ?case using Cons by simp
qed simp

lemma pool_or:
  assumes "mset xs = mset ys"
  shows "mset (if (if c then [] else xs) = [] then zs else if c then [] else xs) =
    mset (if (if c then [] else ys) = [] then zs else if c then [] else ys)"
  using assms by (cases xs; cases ys) auto

lemma resolve_pool_perm:
  assumes "mset by = mset by'"
  shows "mset (resolve_pool settle by none) = mset (resolve_pool settle by' none)"
proof -
  have "mset (concat (map snd (filter P by))) = mset (concat (map snd (filter P by')))" for P
    by (simp only: mset_concat sum_mset_sum_list [symmetric] mset_map mset_filter assms)
  note pool = this [of "\<lambda>(core, _). SameSettlement settle core"]
  show ?thesis unfolding resolve_pool_def Let_def by (rule pool_or [OF pool])
qed

lemma resolveOne_no_margin:
  assumes "re_second (fold (\<lambda>i. resolve_step s (ExtractSettlement (fs_name s)) (terms ! i))
        (resolve_pool (ExtractSettlement (fs_name s)) bys none) \<lparr>re_best = None, re_score = 0, re_second = 0\<rparr>) =
      re_score (fold (\<lambda>i. resolve_step s (ExtractSettlement (fs_name s)) (terms ! i))
        (resolve_pool (ExtractSettlement (fs_name s)) bys none) \<lparr>re_best = None, re_score = 0, re_second = 0\<rparr>)"
    and "1 < length (resolve_pool (ExtractSettlement (fs_name s)) bys none)"
  shows "resolveOne s terms bys none = None"
  using assms unfolding resolveOne_def Let_def by (simp split: option.split)

text \<open>C32: The code ranges over the settlements in an order that changes from run to run and keeps the first terminal of
the best score, yet the result does not depend on that order: where the first of equals would decide, there
is no margin, and the stop stays without coordinates.\<close>

theorem resolve_order_free:
  assumes "mset by = mset by'"
  shows "resolveOne s terms by none = resolveOne s terms by' none"
proof -
  define settle where "settle = ExtractSettlement (fs_name s)"
  let ?start = "\<lparr>re_best = None, re_score = 0, re_second = 0\<rparr>"
  let ?run = "\<lambda>pool. fold (\<lambda>i. resolve_step s settle (terms ! i)) pool ?start"
  let ?p = "resolve_pool settle by none" and ?q = "resolve_pool settle by' none"
  have run: "?run pool = fold (resolve_step s settle) (map ((!) terms) pool) ?start" for pool by (simp add: fold_map comp_def)
  have start: "top_two {#} ?start" by (simp add: top_two_def)
  let ?M = "\<lambda>pool. \<Sum>t \<in># mset (map ((!) terms) pool). scored s settle t"
  have pq: "mset ?p = mset ?q" by (rule resolve_pool_perm [OF assms])
  then have M: "?M ?p = ?M ?q" and len: "length ?p = length ?q" by (simp, metis size_mset)
  have "top_two (?M ?p) (?run ?p)" "top_two (?M ?p) (?run ?q)"
    using top_two_fold [OF start, of s settle "map ((!) terms) ?p"] top_two_fold [OF start, of s settle "map ((!) terms) ?q"]
    unfolding run M by simp_all
  note u = top_two_unique [OF this]
  have size: "size (?M ?p) \<le> length ?p" using scored_size [of s settle "map ((!) terms) ?p"] by simp
  show ?thesis
  proof (cases "re_best (?run ?p) = re_best (?run ?q)")
    case True
    then have same: "?run ?p = ?run ?q" using u(1,2) by simp
    show ?thesis unfolding resolveOne_def Let_def settle_def [symmetric] same len by (rule refl)
  next
    case False
    then have p: "re_second (?run ?p) = re_score (?run ?p)" "length ?p > 1" using u(3) size by auto
    then have q: "re_second (?run ?q) = re_score (?run ?q)" "length ?q > 1" using u(1,2) len by simp_all
    have "resolveOne s terms by none = None"
      by (rule resolveOne_no_margin) (use p in \<open>simp_all only: settle_def\<close>)
    moreover have "resolveOne s terms by' none = None"
      by (rule resolveOne_no_margin) (use q in \<open>simp_all only: settle_def\<close>)
    ultimately show ?thesis by simp
  qed
qed

section \<open>No coordinates of another place\<close>

lemma resolve_score_some:
  "resolve_score s settle t = Some v \<Longrightarrow> 6 / 10 \<le> Similarity (fs_name s) (at_name t) \<and>
     (settle = '''' \<or> at_settlement t = '''' \<or> SameSettlement settle (at_settlement t))"
  by (auto simp: resolve_score_def Let_def split: if_splits)

lemma resolve_fold_best:
  assumes "re_best (fold (resolve_step s settle) ts st) = Some t" "re_best st = None"
  shows "t \<in> set ts \<and> resolve_score s settle t \<noteq> None"
proof -
  have "re_best (fold (resolve_step s settle) ts st) = Some t \<Longrightarrow>
      re_best st = Some t \<or> (t \<in> set ts \<and> resolve_score s settle t \<noteq> None)" for st
    by (induction ts arbitrary: st) (fastforce simp: resolve_step_def split: option.splits if_splits)+
  then show ?thesis using assms by fastforce
qed

lemma update_entries: "(k', v') \<in> set (AList.update k v m) \<Longrightarrow> (k', v') = (k, v) \<or> (k', v') \<in> set m"
  by (induction m) (auto split: if_splits)

definition in_range :: "nat \<Rightarrow> (string \<times> nat list) list \<times> nat list \<Rightarrow> bool" where
  "in_range n acc \<longleftrightarrow> (\<forall>(k, is) \<in> set (fst acc). \<forall>i \<in> set is. i < n) \<and> (\<forall>i \<in> set (snd acc). i < n)"

lemma in_range_append: "in_range n (bys, none) \<Longrightarrow> i < n \<Longrightarrow> in_range n (map_append k i bys, none)"
  by (fastforce simp: in_range_def map_append_def dest!: update_entries dest: map_of_SomeD split: option.splits)

lemma settlement_index_range: "in_range (length terms) (settlement_index terms)"
proof -
  let ?f = "\<lambda>(i, t) (by, none). let s = Core (at_settlement t) in
      if s \<noteq> '''' then (map_append s i by, none) else (by, none @ [i])"
  have "in_range n (fold ?f xs acc)" if "in_range n acc" "\<forall>(i, t) \<in> set xs. i < n" for n and xs :: "(nat \<times> AttachTerminal) list" and acc
    using that
  proof (induction xs arbitrary: acc)
    case (Cons x xs)
    obtain i t bys none where x: "x = (i, t)" "acc = (bys, none)" by (metis surj_pair)
    then have "in_range n (?f x acc)" using Cons.prems in_range_append [of n bys none i]
      by (auto simp: Let_def) (auto simp: in_range_def)
    then show ?case using Cons by simp
  qed simp
  note all = this
  have "in_range (length terms) ([], [])" by (simp add: in_range_def)
  moreover have "\<forall>(i, t) \<in> set (zip [0 ..< length terms] terms). i < length terms" by (auto dest: set_zip_leftD)
  ultimately show ?thesis unfolding settlement_index_def by (rule all)
qed

lemma resolve_pool_range: "in_range n (bys, none) \<Longrightarrow> i \<in> set (resolve_pool settle bys none) \<Longrightarrow> i < n"
  by (fastforce simp: resolve_pool_def Let_def in_range_def split: if_splits)

text \<open>A stop is only ever given the coordinates of a registry terminal whose name is similar to its own and
whose settlement, where both are known, is the settlement that the name of the stop gives; a stop with
coordinates keeps them.\<close>

theorem resolved_from_terminal:
  assumes "resolve_stop terms s \<noteq> s"
  shows "\<exists>t la lo. t \<in> set terms \<and> at_lat t = Some la \<and> at_lon t = Some lo \<and> resolve_stop terms s = s\<lparr>fs_lat := Some la, fs_lon := Some lo\<rparr> \<and>
    (fs_lat s = None \<or> fs_lon s = None) \<and> 6 / 10 \<le> Similarity (fs_name s) (at_name t) \<and>
    (ExtractSettlement (fs_name s) = '''' \<or> at_settlement t = '''' \<or> SameSettlement (ExtractSettlement (fs_name s)) (at_settlement t))"
proof -
  let ?settle = "ExtractSettlement (fs_name s)"
  obtain bys none where idx: "settlement_index terms = (bys, none)" by force
  obtain la lo where r: "resolveOne s terms bys none = Some (la, lo)" "fs_lat s = None \<or> fs_lon s = None"
      "resolve_stop terms s = s\<lparr>fs_lat := Some la, fs_lon := Some lo\<rparr>"
    using assms by (auto simp: resolve_stop_def idx split: if_splits option.splits)
  let ?ts = "map ((!) terms) (resolve_pool ?settle bys none)"
  obtain t where t: "re_best (fold (resolve_step s ?settle) ?ts \<lparr>re_best = None, re_score = 0, re_second = 0\<rparr>) = Some t"
      "at_lat t = Some la" "at_lon t = Some lo"
    using r(1) unfolding resolveOne_def Let_def
    by (auto simp: fold_map comp_def split: option.splits if_splits)
  note best = resolve_fold_best [OF t(1), simplified]
  have "t \<in> set terms"
    using best resolve_pool_range [OF settlement_index_range [of terms, unfolded idx]] by auto
  moreover obtain v where "resolve_score s ?settle t = Some v" using best by auto
  ultimately show ?thesis using t r resolve_score_some by blast
qed


definition demo_site :: AttachTerminal where
  "demo_site = \<lparr>at_id = 7, at_name = ''A'', at_lat = Some 55, at_lon = Some 73, at_settlement = '''', at_transport = '''',
     at_source = '''', at_codes = [], at_finalized = False\<rparr>"

definition demo_unplaced :: FlatStop where
  "demo_unplaced = \<lparr>fs_stop = ''1'', fs_name = ''A'', fs_region = '''', fs_op = ''1'', fs_lat = None, fs_lon = None,
     fs_arr = None, fs_dep = None\<rparr>"

lemma resolve_order_free_witness:
  "resolveOne demo_unplaced [demo_site, demo_site, demo_site] [(''a'', [0]), (''b'', [1, 2])] [2] =
    resolveOne demo_unplaced [demo_site, demo_site, demo_site] [(''b'', [1, 2]), (''a'', [0])] [2]"
  by (rule resolve_order_free) simp

lemma core_empty: "Core '''' = ''''"
  by (simp add: Core_def Normalize_def to_lower_def trim_space_def trim_runes_def replace_all_def Fields_def Let_def)

lemma demo_resolved: "resolve_stop [demo_site] demo_unplaced = demo_unplaced\<lparr>fs_lat := Some 55, fs_lon := Some 73\<rparr>"
  using similarity_unit [of "''A''" "''A''"]
  by (simp add: resolve_stop_def settlement_index_def resolveOne_def resolve_pool_def resolve_step_def resolve_score_def
      demo_site_def demo_unplaced_def core_empty Let_def)

lemma resolved_from_terminal_witness:
  "\<exists>t la lo. t \<in> {demo_site} \<and> at_lat t = Some la \<and> resolve_stop [demo_site] demo_unplaced = demo_unplaced\<lparr>fs_lat := Some la, fs_lon := Some lo\<rparr>"
proof -
  have "resolve_stop [demo_site] demo_unplaced \<noteq> demo_unplaced"
    unfolding demo_resolved by (simp add: demo_unplaced_def)
  from resolved_from_terminal [OF this] show ?thesis by auto
qed

end
