(* ===== verification/RegionGate.thy ===== *)
theory RegionGate
  imports Attach Skeleton Interpolate TerminalStore
begin

text \<open>
  How much of each region the skeleton covers, and the regions that a run must wait for
  (\<open>sync/coverage.go\<close>, \<open>sync/coverage_attach.go\<close>). The two measures share their loop and differ in how a stop
  is matched.
\<close>

record RegistryStop =
  gs_name :: string
  gs_region :: string
  gs_settlement :: string
  gs_op :: string
  gs_lat :: "real option"
  gs_lon :: "real option"

record RegionCoverage =
  rg_region :: string
  rg_matched :: nat
  rg_total :: nat

definition region_ratio :: "RegionCoverage \<Rightarrow> real" where
  "region_ratio c = (if rg_total c = 0 then 1 else real (rg_matched c) / real (rg_total c))"

text \<open>The counts of a region are made when its first stop is met.\<close>

definition count_region :: "(RegistryStop \<Rightarrow> bool) \<Rightarrow> RegistryStop \<Rightarrow> (string \<times> RegionCoverage) list \<Rightarrow> (string \<times> RegionCoverage) list" where
  "count_region matched stop byRegion =
     (let c = (case map_of byRegion (gs_region stop) of
            Some c \<Rightarrow> c
          | None \<Rightarrow> \<lparr>rg_region = gs_region stop, rg_matched = 0, rg_total = 0\<rparr>);
          c = c\<lparr>rg_total := rg_total c + 1\<rparr>
      in AList.update (gs_region stop) (if matched stop then c\<lparr>rg_matched := rg_matched c + 1\<rparr> else c) byRegion)"

definition cover_regions :: "(RegistryStop \<Rightarrow> bool) \<Rightarrow> RegistryStop list \<Rightarrow> RegionCoverage list" where
  "cover_regions matched stops =
     sort_by (\<lambda>a b. rg_region a < rg_region b) (map snd (fold (count_region matched) stops []))"

definition best_score :: "('c \<Rightarrow> real) \<Rightarrow> 'c list \<Rightarrow> real" where
  "best_score score cands = fold (\<lambda>c best. if score c > best then score c else best) cands 0"

section \<open>Against the terminals of an attachment\<close>

definition attach_score :: "string \<Rightarrow> (DensityClass \<Rightarrow> Params) \<Rightarrow> (string \<Rightarrow> DensityClass) \<Rightarrow> RegistryStop \<Rightarrow> PairItem \<Rightarrow> real" where
  "attach_score source paramsFor classFor stop cand =
     (let item = PairItemFromStop (gs_name stop) (gs_lat stop) (gs_lon stop) (gs_settlement stop) source (StopCodes source (gs_op stop));
          cls = classFor (gs_region stop)
      in ps_value (ScorePair item cand cls (paramsFor cls)))"

definition MeasureAttachCoverage :: "RegistryStop list \<Rightarrow> AttachTerminal list \<Rightarrow> real \<Rightarrow> (DensityClass \<Rightarrow> Params) \<Rightarrow>
    (string \<Rightarrow> DensityClass) option \<Rightarrow> string \<Rightarrow> RegionCoverage list" where
  "MeasureAttachCoverage stops terms softThreshold paramsFor classFor source =
     (let classFor = (case classFor of Some f \<Rightarrow> f | None \<Rightarrow> (\<lambda>_. DensityUrban));
          source = (if source = '''' then ''mintrans'' else source);
          cands = map PairItemFromTerminal terms
      in cover_regions (\<lambda>stop. best_score (attach_score source paramsFor classFor stop) cands \<ge> softThreshold) stops)"

definition GatePassRegions :: "RegionCoverage list \<Rightarrow> real \<Rightarrow> bool \<times> string list" where
  "GatePassRegions cov gate =
     (let blocked = sort_by (<) (map rg_region (filter (\<lambda>c. region_ratio c < gate) cov)) in (blocked = [], blocked))"

section \<open>Against the rows of the skeleton\<close>

definition stopAdapted :: "RegistryStop \<Rightarrow> AdaptedRecord" where
  "stopAdapted s =
     (let r = empty_record\<lparr>ar_kind := AdaptedTerminal, ar_name := gs_name s, ar_source := ''mintrans''\<rparr>;
          r = (case (gs_lat s, gs_lon s) of (Some la, Some lo) \<Rightarrow> r\<lparr>ar_lat := Some la, ar_lon := Some lo\<rparr> | _ \<Rightarrow> r)
      in if gs_settlement s \<noteq> '''' then withExtra r ''settlement'' (gs_settlement s) else r)"

definition skeletonTerminalAdapted :: "SkeletonTerminalRow \<Rightarrow> AdaptedRecord" where
  "skeletonTerminalAdapted s =
     (let r = empty_record\<lparr>ar_kind := AdaptedTerminal, ar_name := sk_name s, ar_lat := Some (sk_lat s), ar_lon := Some (sk_lon s), ar_source := ''osm'',
            ar_ids := sk_ids s\<rparr>
      in if sk_settlement s \<noteq> '''' then withExtra r ''settlement'' (sk_settlement s) else r)"

definition coverageMatched :: "AdaptedRecord \<Rightarrow> AdaptedRecord list \<Rightarrow> real \<Rightarrow> JoinConfig \<Rightarrow> bool" where
  "coverageMatched stop skeletons softThreshold cfg \<longleftrightarrow>
     best_score (\<lambda>s. JoinPairScore stop s cfg) skeletons \<ge> softThreshold"

definition MeasureCoverage :: "RegistryStop list \<Rightarrow> SkeletonTerminalRow list \<Rightarrow> real \<Rightarrow> JoinConfig \<Rightarrow> RegionCoverage list" where
  "MeasureCoverage stops skeletons softThreshold cfg =
     cover_regions (\<lambda>stop. coverageMatched (stopAdapted stop) (map skeletonTerminalAdapted skeletons) softThreshold cfg) stops"

definition ToSkeletonCoverages :: "RegionCoverage list \<Rightarrow> Coverage list" where
  "ToSkeletonCoverages cov = map (\<lambda>c. \<lparr>cv_region = rg_region c, cv_matched = rg_matched c, cv_total = rg_total c\<rparr>) cov"

end
