(* ===== verification/TripsRun.thy ===== *)
theory TripsRun
  imports TripsPersist TripsGeo RegionGate
begin

text \<open>
  A run of the trip synchronisation (\<open>sync/trips_run.go\<close>): it waits until the skeleton covers every region,
  leaves out the routes of the regions that it does not cover, attaches the trips of the others and
  writes the report. While it waits others may change the store: \<open>env i\<close> is the store, with its clock, at the
  \<open>i\<close>-th look. From the last look on nobody else writes. A run that waits for ever is \<open>None\<close>.
\<close>

section \<open>Configuration and summary\<close>

record TripsRunConfig =
  tc_source :: string
  tc_trust_route :: bool
  tc_churn :: real
  tc_max_speed :: real
  tc_gate :: real
  tc_soft :: real
  tc_margin :: real
  tc_wait :: duration
  tc_poll :: duration
  tc_force :: bool
  tc_dry :: bool
  tc_regions :: "string list"
  tc_flatten :: FlattenStats
  tc_plan :: string
  tc_sha :: string
  tc_tag :: string
  tc_params :: "(DensityClass \<Rightarrow> Params) option"
  tc_class :: "(string \<Rightarrow> DensityClass) option"

record RouteOps =
  op_in :: nat
  op_promoted :: nat
  op_staged :: nat
  op_dead :: nat

record TripsRunSummary =
  tu_flatten :: FlattenStats
  tu_coverage :: "RegionCoverage list"
  tu_gate_pass :: bool
  tu_blocked :: "string list"
  tu_forced :: bool
  tu_routes :: int
  tu_skipped :: "string list"
  tu_by_route :: "(string \<times> RouteOps) list"
  tu_waited :: bool
  tu_persist :: PersistSummary
  tu_full_rate :: real

definition new_summary :: "TripsRunConfig \<Rightarrow> TripsRunSummary" where
  "new_summary cfg = \<lparr>tu_flatten = tc_flatten cfg, tu_coverage = [], tu_gate_pass = False, tu_blocked = [], tu_forced = False,
     tu_routes = 0, tu_skipped = [], tu_by_route = [], tu_waited = False, tu_persist = empty_persist, tu_full_rate = 0\<rparr>"

definition route_ops :: "(RouteOps \<Rightarrow> RouteOps) \<Rightarrow> string \<Rightarrow> (string \<times> RouteOps) list \<Rightarrow> (string \<times> RouteOps) list" where
  "route_ops f route out =
     (let o1 = (case map_of out route of Some o1 \<Rightarrow> o1 | None \<Rightarrow> \<lparr>op_in = 0, op_promoted = 0, op_staged = 0, op_dead = 0\<rparr>)
      in AList.update route (f (o1\<lparr>op_in := op_in o1 + 1\<rparr>)) out)"

definition SummarizeByRoute :: "AttachReport \<Rightarrow> (string \<times> RouteOps) list" where
  "SummarizeByRoute rep =
     (let out = fold (\<lambda>p. route_ops (\<lambda>o1. o1\<lparr>op_promoted := op_promoted o1 + 1\<rparr>) (pt_route_nk p)) (ar_promoted rep) [];
          out = fold (\<lambda>s. route_ops (\<lambda>o1. o1\<lparr>op_staged := op_staged o1 + 1\<rparr>) (sg_route_nk s)) (ar_staged rep) out
      in fold (\<lambda>d. route_ops (\<lambda>o1. o1\<lparr>op_dead := op_dead o1 + 1\<rparr>) (dd_route_nk d)) (ar_dead rep) out)"

section \<open>Terminals, stops and regions\<close>

text \<open>The source of a terminal: OSM, unless the first of its identifiers is of another system and none after it of OSM.\<close>

fun terminal_source :: "string \<Rightarrow> AdaptedIdentifier list \<Rightarrow> string" where
  "terminal_source source [] = source"
| "terminal_source source (i # ids) =
     (if ai_system i = ''osm'' then ''osm''
      else terminal_source (if source = ''osm'' then ai_system i else source) ids)"

definition attach_terminal :: "SkeletonTerminalRow \<Rightarrow> AttachTerminal" where
  "attach_terminal r =
     \<lparr>at_id = sk_id r, at_name = sk_name r,
      at_lat = (if sk_lat r \<noteq> 0 \<or> sk_lon r \<noteq> 0 then Some (sk_lat r) else None),
      at_lon = (if sk_lat r \<noteq> 0 \<or> sk_lon r \<noteq> 0 then Some (sk_lon r) else None),
      at_settlement = sk_settlement r, at_transport = sk_transport r, at_source = terminal_source ''osm'' (sk_ids r),
      at_codes = sk_ids r, at_finalized = (sk_enrichment r = ''enriched'')\<rparr>"

definition SkeletonRowToAttachTerminals :: "SkeletonTerminalRow list \<Rightarrow> AttachTerminal list" where
  "SkeletonRowToAttachTerminals rows = map attach_terminal rows"

definition registry_stop :: "FlatStop \<Rightarrow> RegistryStop" where
  "registry_stop s = \<lparr>gs_name = fs_name s, gs_region = fs_region s, gs_settlement = ExtractSettlement (fs_name s), gs_op = fs_op s,
     gs_lat = fs_lat s, gs_lon = fs_lon s\<rparr>"

text \<open>Each stop once, as its first trip has it.\<close>

definition RegistryStopsFromFlatTrips :: "FlatTrip list \<Rightarrow> RegistryStop list" where
  "RegistryStopsFromFlatTrips trips =
     snd (fold (\<lambda>s (seen, out). if fs_stop s \<in> set seen then (seen, out) else (fs_stop s # seen, out @ [registry_stop s]))
       (concat (map ft_stops trips)) ([], []))"

text \<open>The regions of the routes; a route none of whose stops has a region is not in the map.\<close>

definition RouteRegions :: "FlatTrip list \<Rightarrow> (string \<times> string list) list" where
  "RouteRegions trips =
     map (\<lambda>(route, regs). (route, sort_by (<) (remdups regs)))
       (fold (\<lambda>ft. fold (map_append (ft_route ft)) (filter (\<lambda>r. r \<noteq> '''') (map fs_region (ft_stops ft)))) trips [])"

definition in_regions :: "string list \<Rightarrow> FlatTrip list \<Rightarrow> FlatTrip list" where
  "in_regions regions trips =
     (if regions = [] then trips else filter (\<lambda>ft. list_ex (\<lambda>s. fs_region s \<in> set regions) (ft_stops ft)) trips)"

section \<open>Waiting for the gate\<close>

record gate_look =
  gl_store :: MemoryStore
  gl_terms :: "AttachTerminal list"
  gl_coverage :: "RegionCoverage list"
  gl_pass :: bool
  gl_blocked :: "string list"

definition look :: "TripsRunConfig \<Rightarrow> string \<Rightarrow> (DensityClass \<Rightarrow> Params) \<Rightarrow> FlatTrip list \<Rightarrow> MemoryStore \<Rightarrow> gate_look" where
  "look cfg source params filtered m =
     (let terms = SkeletonRowToAttachTerminals (ListSkeletonTerminals m);
          cov = MeasureAttachCoverage (RegistryStopsFromFlatTrips filtered) terms (tc_soft cfg) params (tc_class cfg) source;
          (pass, blocked) = GatePassRegions cov (tc_gate cfg)
      in \<lparr>gl_store = m, gl_terms = terms, gl_coverage = cov, gl_pass = pass, gl_blocked = blocked\<rparr>)"

text \<open>The last look, the number of looks before it, and whether the context ended the wait; \<open>done i\<close> says
that it does after the \<open>i\<close>-th look.\<close>

partial_function (option) wait_gate :: "(nat \<Rightarrow> gate_look) \<Rightarrow> bool \<Rightarrow> gotime \<Rightarrow> (nat \<Rightarrow> bool) \<Rightarrow> nat \<Rightarrow> (gate_look \<times> nat \<times> bool) option" where
  "wait_gate looks force deadline done i =
     (if gl_pass (looks i) \<or> force \<or> m_clock (gl_store (looks i)) > deadline then Some (looks i, i, False)
      else if done i then Some (looks i, i, True)
      else wait_gate looks force deadline done (i + 1))"

section \<open>A run\<close>

datatype run_error = NoScoring | WaitCancelled | AttachFailed attach_error | PersistFailed persist_error

definition route_open :: "bool \<Rightarrow> string list \<Rightarrow> string list \<Rightarrow> bool" where
  "route_open force blocked regs \<longleftrightarrow> (if force then True else \<not> list_ex (\<lambda>r. r \<in> set blocked) regs)"

definition attachable :: "bool \<Rightarrow> string list \<Rightarrow> FlatTrip list \<Rightarrow> FlatTrip list" where
  "attachable force blocked trips =
     filter (\<lambda>ft. case map_of (RouteRegions trips) (ft_route ft) of Some regs \<Rightarrow> route_open force blocked regs | None \<Rightarrow> False) trips"

definition skipped_routes :: "bool \<Rightarrow> string list \<Rightarrow> FlatTrip list \<Rightarrow> string list" where
  "skipped_routes force blocked trips =
     sort_by (<) (map fst (filter (\<lambda>(_, regs). \<not> route_open force blocked regs) (RouteRegions trips)))"

definition run_source :: "TripsRunConfig \<Rightarrow> string" where
  "run_source cfg = (if tc_source cfg = '''' then ''mintrans'' else tc_source cfg)"

definition run_input :: "TripsRunConfig \<Rightarrow> (DensityClass \<Rightarrow> Params) \<Rightarrow> gate_look \<Rightarrow> FlatTrip list \<Rightarrow> AttachInput" where
  "run_input cfg params lk filtered =
     \<lparr>in_trips = attachable (tc_force cfg) (gl_blocked lk) (ResolveStopCoords filtered (gl_terms lk)), in_terminals = gl_terms lk,
      in_prev = ListCanonTrips (run_source cfg) (gl_store lk), in_trust_route = tc_trust_route cfg, in_source = run_source cfg,
      in_churn = tc_churn cfg, in_max_speed = tc_max_speed cfg, in_params = Some params,
      in_class = Some (case tc_class cfg of Some f \<Rightarrow> f | None \<Rightarrow> (\<lambda>_. DensityUrban))\<rparr>"

definition attach_and_write :: "(nat \<Rightarrow> string option) \<Rightarrow> (nat \<Rightarrow> bool) \<Rightarrow> TripsRunConfig \<Rightarrow> AttachInput \<Rightarrow> TripsRunSummary \<Rightarrow>
    MemoryStore \<Rightarrow> MemoryStore \<times> TripsRunSummary \<times> run_error option" where
  "attach_and_write actx pctx cfg inp su m =
     (case AttachTrips actx inp of
        (rep, Some e) \<Rightarrow> (m, su, Some (AttachFailed e))
      | (rep, None) \<Rightarrow>
          (let su = su\<lparr>tu_by_route := SummarizeByRoute rep,
                 tu_full_rate := (if ar_in rep > 0 then real (length (ar_promoted rep)) / real (ar_in rep) else 1)\<rparr>
           in if tc_dry cfg then (m, su, None)
              else (case PersistAttachReport pctx rep (in_source inp) m of
                  ((m, ps), Some e) \<Rightarrow> (m, su, Some (PersistFailed e))
                | ((m, ps), None) \<Rightarrow> (m, su\<lparr>tu_persist := ps\<rparr>, None))))"

definition RunTripsSync :: "(nat \<Rightarrow> string option) \<Rightarrow> (nat \<Rightarrow> bool) \<Rightarrow> (nat \<Rightarrow> bool) \<Rightarrow> gotime \<Rightarrow> (nat \<Rightarrow> MemoryStore) \<Rightarrow> FlatTrip list \<Rightarrow>
    TripsRunConfig \<Rightarrow> (MemoryStore \<times> TripsRunSummary \<times> run_error option) option" where
  "RunTripsSync actx pctx done start env trips cfg =
     (case tc_params cfg of
        None \<Rightarrow> Some (env 0, new_summary cfg, Some NoScoring)
      | Some params \<Rightarrow>
          (let filtered = in_regions (tc_regions cfg) trips in
           case wait_gate (\<lambda>i. look cfg (run_source cfg) params filtered (env i)) (tc_force cfg) (start + tc_wait cfg) done 0 of
             None \<Rightarrow> None
           | Some (lk, i, cancelled) \<Rightarrow>
               (let su = (new_summary cfg)\<lparr>tu_coverage := gl_coverage lk, tu_blocked := gl_blocked lk, tu_gate_pass := gl_pass lk\<rparr> in
                if cancelled then Some (gl_store lk, su, Some WaitCancelled)
                else
                  (let inp = run_input cfg params lk filtered;
                       placed = ResolveStopCoords filtered (gl_terms lk);
                       skipped = skipped_routes (tc_force cfg) (gl_blocked lk) placed;
                       su = su\<lparr>tu_waited := 0 < i, tu_forced := tc_force cfg, tu_skipped := skipped,
                         tu_routes := int (length (RouteRegions placed)) - int (length skipped)\<rparr>
                   in Some (attach_and_write actx pctx cfg inp su (gl_store lk))))))"

definition BeginTripsRun :: "string \<Rightarrow> string \<Rightarrow> string \<Rightarrow> MemoryStore \<Rightarrow> MemoryStore \<times> int" where
  "BeginTripsRun planID inputSHA tag m = CreateSyncRun (new_run planID ''trips_attach'' inputSHA tag) m"

end
