(* ===== verification/TripsPersist_Correct.thy ===== *)
theory TripsPersist_Correct
  imports TripsPersist Promote_Correct
begin

text \<open>
  What writing a report does to the trips that the store publishes for a source, that is, to
  \<open>ListCanonTrips\<close>: promoted trips are added, trips that are gone are taken away, nothing else changes,
  and no statement on the way can fail.
\<close>

section \<open>Keys of trips\<close>

definition no_bar :: "string \<Rightarrow> bool" where
  "no_bar s \<longleftrightarrow> CHR ''|'' \<notin> set s"

text \<open>A trip key that is made of its route and a code without a bar.\<close>

definition nk_ok :: "string \<Rightarrow> string \<Rightarrow> bool" where
  "nk_ok route trip \<longleftrightarrow> trip = route @ ''|'' @ SplitTripNK trip"

lemma no_bar_split: "no_bar (SplitTripNK s)"
  by (auto simp: no_bar_def SplitTripNK_def dest: set_takeWhileD)

lemma split_key: "no_bar c \<Longrightarrow> SplitTripNK (route @ ''|'' @ c) = c"
proof -
  assume "no_bar c"
  then have t: "takeWhile (\<lambda>x. x \<noteq> CHR ''|'') (rev c) = rev c" by (auto simp: no_bar_def takeWhile_eq_all_conv)
  show ?thesis by (simp add: SplitTripNK_def takeWhile_tail) (simp add: takeWhile_append t)
qed

lemma nk_okD: "nk_ok route trip \<Longrightarrow> route @ ''|'' @ SplitTripNK trip = trip"
  unfolding nk_ok_def by (rule sym)

lemma nk_okI: "no_bar c \<Longrightarrow> nk_ok route (route @ ''|'' @ c)"
  by (simp add: nk_ok_def split_key del: append_Cons)

lemma key_unique: "no_bar c \<Longrightarrow> no_bar d \<Longrightarrow> r @ ''|'' @ c = s @ ''|'' @ d \<longleftrightarrow> r = s \<and> c = d"
  using split_last_unique [of "CHR ''|''" c d r s] by (auto simp: no_bar_def)

section \<open>The published trips\<close>

definition published :: "string \<Rightarrow> MemoryStore \<Rightarrow> string set" where
  "published source m = set (concat (map snd (ListCanonTrips source m)))"

text \<open>A trip that is published under the code of a route.\<close>

definition routed :: "string \<Rightarrow> (int \<rightharpoonup> RouteRow) \<Rightarrow> TripRow \<Rightarrow> string \<Rightarrow> bool" where
  "routed source R t code \<longleftrightarrow> tp_provider t = source \<and> tp_valid_to t = None \<and>
     (\<exists>r. R (tp_route t) = Some r \<and> ro_provider r = source \<and> ro_valid_to r = None \<and> ro_code r = code)"

definition live_rows :: "string \<Rightarrow> (int \<rightharpoonup> RouteRow) \<Rightarrow> (int \<rightharpoonup> TripRow) \<Rightarrow> (string \<times> string) set" where
  "live_rows source R T = {(k, c). \<exists>i t. T i = Some t \<and> tp_code t = c \<and> routed source R t k}"

definition live :: "string \<Rightarrow> MemoryStore \<Rightarrow> (string \<times> string) set" where
  "live source m = live_rows source (map_of (m_routes m)) (map_of (m_trips m))"

definition canon_step :: "string \<Rightarrow> MemoryStore \<Rightarrow> TripRow \<Rightarrow> (string \<times> string list) list \<Rightarrow> (string \<times> string list) list" where
  "canon_step source m t out =
     (if tp_provider t \<noteq> source \<or> tp_valid_to t \<noteq> None then out
      else (case map_of (m_routes m) (tp_route t) of
          None \<Rightarrow> out
        | Some r \<Rightarrow> if ro_provider r \<noteq> source \<or> ro_valid_to r \<noteq> None then out
            else map_append (ro_code r) (ro_code r @ ''|'' @ tp_code t) out))"

lemma canon_step_get:
  "set (map_get (canon_step source m t out) k) = set (map_get out k) \<union> (if routed source (map_of (m_routes m)) t k then {k @ ''|'' @ tp_code t} else {})"
  "distinct (map fst (canon_step source m t out)) = distinct (map fst out)"
  by (auto simp: canon_step_def routed_def split: option.split)

lemma canon_get:
  "set (map_get (fold (canon_step source m) ts out) k) =
     set (map_get out k) \<union> {k @ ''|'' @ tp_code t | t. t \<in> set ts \<and> routed source (map_of (m_routes m)) t k}"
  "distinct (map fst (fold (canon_step source m) ts out)) = distinct (map fst out)"
  by (induction ts arbitrary: out) (auto simp: canon_step_get split: if_splits)

lemma ListCanonTrips_fold: "ListCanonTrips source m = fold (canon_step source m) (map snd (m_trips m)) []"
  by (simp add: ListCanonTrips_def canon_step_def [abs_def])

lemma map_get_entries: "distinct (map fst al) \<Longrightarrow> (k, xs) \<in> set al \<Longrightarrow> x \<in> set xs \<Longrightarrow> x \<in> set (map_get al k)"
  by (simp add: map_get_entry)

text \<open>The entries of the list, route by route.\<close>

lemma canon_entries:
  assumes "distinct (map fst (m_trips m))"
  shows "(\<exists>xs. (k, xs) \<in> set (ListCanonTrips source m) \<and> x \<in> set xs) \<longleftrightarrow> (\<exists>c. (k, c) \<in> live source m \<and> x = k @ ''|'' @ c)"
proof -
  let ?al = "ListCanonTrips source m"
  have d: "distinct (map fst ?al)" unfolding ListCanonTrips_fold by (simp add: canon_get)
  have g: "set (map_get ?al k) = {k @ ''|'' @ tp_code t | t. t \<in> snd ` set (m_trips m) \<and> routed source (map_of (m_routes m)) t k}"
    unfolding ListCanonTrips_fold canon_get by (simp add: map_get_def)
  have row: "t \<in> snd ` set (m_trips m) \<longleftrightarrow> (\<exists>i. map_of (m_trips m) i = Some t)" for t
    using assms by (force simp: map_of_eq_Some_iff)
  have "(\<exists>xs. (k, xs) \<in> set ?al \<and> x \<in> set xs) \<longleftrightarrow> x \<in> set (map_get ?al k)"
    using map_get_entries [OF d, of k _ x] map_get_nonempty [of x ?al k] by metis
  also have "\<dots> \<longleftrightarrow> (\<exists>c. (k, c) \<in> live source m \<and> x = k @ ''|'' @ c)"
    unfolding g live_def live_rows_def row mem_Collect_eq case_prod_conv by blast
  finally show ?thesis .
qed

lemma published_live:
  assumes "distinct (map fst (m_trips m))"
  shows "published source m = (\<lambda>(r, c). r @ ''|'' @ c) ` live source m"
proof -
  have "published source m = {x. \<exists>k xs. (k, xs) \<in> set (ListCanonTrips source m) \<and> x \<in> set xs}"
    by (force simp: published_def)
  also have "\<dots> = {x. \<exists>k c. (k, c) \<in> live source m \<and> x = k @ ''|'' @ c}" using canon_entries [OF assms] by auto
  finally show ?thesis by (auto simp: image_def) force
qed

text \<open>The tables as the code keeps them: identifiers below the next one, one route per provider and code, one
trip per route and code, and no route of the source that has expired (the code has no call that expires one).\<close>

definition rows_ok :: "string \<Rightarrow> int \<Rightarrow> (int \<rightharpoonup> RouteRow) \<Rightarrow> (int \<rightharpoonup> TripRow) \<Rightarrow> bool" where
  "rows_ok source n R T \<longleftrightarrow> 0 < n \<and>
     (\<forall>i r. R i = Some r \<longrightarrow> i < n \<and> (ro_provider r = source \<longrightarrow> ro_valid_to r = None)) \<and>
     (\<forall>i j r s. R i = Some r \<and> R j = Some s \<and> ro_provider r = ro_provider s \<and> ro_code r = ro_code s \<longrightarrow> i = j) \<and>
     (\<forall>i t. T i = Some t \<longrightarrow> i < n \<and> tp_route t < n \<and> tp_id t = i \<and> (tp_provider t = source \<longrightarrow> no_bar (tp_code t))) \<and>
     (\<forall>i j t u. T i = Some t \<and> T j = Some u \<and> tp_route t = tp_route u \<and> tp_code t = tp_code u \<longrightarrow> i = j)"

definition canon_ok :: "string \<Rightarrow> MemoryStore \<Rightarrow> bool" where
  "canon_ok source m \<longleftrightarrow> distinct (map fst (m_routes m)) \<and> distinct (map fst (m_trips m)) \<and>
     rows_ok source (m_next_id m) (map_of (m_routes m)) (map_of (m_trips m))"

lemma rows_okD:
  assumes "rows_ok source n R T"
  shows "0 < n"
    and "R i = Some r \<Longrightarrow> i < n"
    and "R i = Some r \<Longrightarrow> ro_provider r = source \<Longrightarrow> ro_valid_to r = None"
    and "R i = Some r \<Longrightarrow> R j = Some s \<Longrightarrow> ro_provider r = ro_provider s \<Longrightarrow> ro_code r = ro_code s \<Longrightarrow> i = j"
    and "T i = Some t \<Longrightarrow> i < n \<and> tp_route t < n \<and> tp_id t = i"
    and "T i = Some t \<Longrightarrow> tp_provider t = source \<Longrightarrow> no_bar (tp_code t)"
    and "T i = Some t \<Longrightarrow> T j = Some u \<Longrightarrow> tp_route t = tp_route u \<Longrightarrow> tp_code t = tp_code u \<Longrightarrow> i = j"
  using assms unfolding rows_ok_def by blast+

lemma rows_ok_next: "rows_ok source n R T \<Longrightarrow> n \<le> n' \<Longrightarrow> rows_ok source n' R T"
  unfolding rows_ok_def by (elim conjE, intro conjI) (fastforce | blast)+

lemma canon_okD:
  assumes "canon_ok source m"
  shows "distinct (map fst (m_routes m))" "distinct (map fst (m_trips m))"
    and "rows_ok source (m_next_id m) (map_of (m_routes m)) (map_of (m_trips m))"
  using assms unfolding canon_ok_def by blast+

text \<open>A route that is written anew or again, and a trip likewise.\<close>

lemma rows_ok_route:
  assumes "rows_ok source n R T" "ro_provider r = source" "ro_valid_to r = None" "i < n'" "n \<le> n'"
    and "\<And>j e. R j = Some e \<Longrightarrow> ro_provider e = ro_provider r \<Longrightarrow> ro_code e = ro_code r \<Longrightarrow> j = i"
    and "case R i of Some e \<Rightarrow> ro_provider e = source \<and> ro_code e = ro_code r | None \<Rightarrow> i = n"
  shows "rows_ok source n' (R(i \<mapsto> r)) T \<and> live_rows source (R(i \<mapsto> r)) T = live_rows source R T"
proof
  have up: "R j = Some e \<Longrightarrow> j < n'" for j e using rows_okD(2) [OF assms(1)] assms(5) by fastforce
  show "rows_ok source n' (R(i \<mapsto> r)) T"
    unfolding rows_ok_def
  proof (intro conjI)
    show "\<forall>j k q s. (R(i \<mapsto> r)) j = Some q \<and> (R(i \<mapsto> r)) k = Some s \<and> ro_provider q = ro_provider s \<and> ro_code q = ro_code s \<longrightarrow> j = k"
      using rows_okD(4) [OF assms(1)] assms(6) by (auto split: if_splits)
    show "\<forall>j q. (R(i \<mapsto> r)) j = Some q \<longrightarrow> j < n' \<and> (ro_provider q = source \<longrightarrow> ro_valid_to q = None)"
      using rows_okD(3) [OF assms(1)] up assms(3,4) by (auto split: if_splits)
  qed (use assms(1) rows_ok_next [OF assms(1,5)] in \<open>simp_all add: rows_ok_def\<close>)
  have "routed source (R(i \<mapsto> r)) t k \<longleftrightarrow> routed source R t k" if "T j = Some t" for j t k
    using assms(2,3,7) rows_okD(3) [OF assms(1), of i] rows_okD(5) [OF assms(1) that]
    unfolding routed_def by (auto split: option.splits)
  then show "live_rows source (R(i \<mapsto> r)) T = live_rows source R T" unfolding live_rows_def by blast
qed

lemma rows_ok_trip:
  assumes "rows_ok source n R T" "tp_id t = i" "tp_provider t = source" "tp_valid_to t = None" "no_bar (tp_code t)" "i < n'" "n \<le> n'"
    and "\<And>j e. T j = Some e \<Longrightarrow> tp_route e = tp_route t \<Longrightarrow> tp_code e = tp_code t \<Longrightarrow> j = i"
    and "case T i of Some e \<Rightarrow> tp_route e = tp_route t \<and> tp_code e = tp_code t | None \<Rightarrow> True"
    and "R (tp_route t) = Some r" "ro_provider r = source"
  shows "rows_ok source n' R (T(i \<mapsto> t)) \<and> live_rows source R (T(i \<mapsto> t)) = insert (ro_code r, tp_code t) (live_rows source R T)"
proof
  have up: "T j = Some e \<Longrightarrow> j < n' \<and> tp_route e < n'" for j e using rows_okD(5) [OF assms(1)] assms(7) by fastforce
  show "rows_ok source n' R (T(i \<mapsto> t))"
    unfolding rows_ok_def
  proof (intro conjI)
    show "\<forall>j k q s. (T(i \<mapsto> t)) j = Some q \<and> (T(i \<mapsto> t)) k = Some s \<and> tp_route q = tp_route s \<and> tp_code q = tp_code s \<longrightarrow> j = k"
      using rows_okD(7) [OF assms(1)] assms(8) by (auto split: if_splits)
    show "\<forall>j q. (T(i \<mapsto> t)) j = Some q \<longrightarrow> j < n' \<and> tp_route q < n' \<and> tp_id q = j \<and> (tp_provider q = source \<longrightarrow> no_bar (tp_code q))"
      using rows_okD(5,6) [OF assms(1)] up assms(2,5,6,7) rows_okD(2) [OF assms(1,10)] by (auto split: if_splits)
  qed (use assms(1) rows_ok_next [OF assms(1,7)] in \<open>simp_all add: rows_ok_def\<close>)
  have new: "routed source R t k \<longleftrightarrow> k = ro_code r" for k
    using assms(3,4,10,11) rows_okD(3) [OF assms(1,10,11)] unfolding routed_def by auto
  have old: "k = ro_code r" if "T i = Some e" "routed source R e k" for e k
    using that assms(9,10) unfolding routed_def by auto
  show "live_rows source R (T(i \<mapsto> t)) = insert (ro_code r, tp_code t) (live_rows source R T)"
  proof (intro set_eqI iffI; clarify)
    fix k c assume "(k, c) \<in> live_rows source R (T(i \<mapsto> t))" "(k, c) \<notin> live_rows source R T"
    then show "k = ro_code r \<and> c = tp_code t" using new unfolding live_rows_def by (auto split: if_splits)
  next
    fix k c assume "(k, c) \<in> insert (ro_code r, tp_code t) (live_rows source R T)"
    then consider "k = ro_code r" "c = tp_code t" | j q where "T j = Some q" "tp_code q = c" "routed source R q k"
      unfolding live_rows_def by blast
    then show "(k, c) \<in> live_rows source R (T(i \<mapsto> t))"
    proof cases
      case 1
      then have "(T(i \<mapsto> t)) i = Some t \<and> tp_code t = c \<and> routed source R t k" by (simp add: new)
      then show ?thesis unfolding live_rows_def by blast
    next
      case (2 j q)
      show ?thesis
      proof (cases "j = i")
        case True
        then have "(T(i \<mapsto> t)) i = Some t \<and> tp_code t = c \<and> routed source R t k" using 2 old assms(9) by (simp add: new)
        then show ?thesis unfolding live_rows_def by blast
      next
        case False
        then have "(T(i \<mapsto> t)) j = Some q" using 2 by simp
        then show ?thesis using 2 unfolding live_rows_def by blast
      qed
    qed
  qed
qed

lemma rows_ok_expire:
  assumes "rows_ok source n R T" "T i = Some t" "R (tp_route t) = Some r" "ro_provider r = source"
  shows "rows_ok source n R (T(i \<mapsto> t\<lparr>tp_valid_to := Some d\<rparr>)) \<and>
    live_rows source R (T(i \<mapsto> t\<lparr>tp_valid_to := Some d\<rparr>)) = live_rows source R T - {(ro_code r, tp_code t)}"
proof
  let ?T = "T(i \<mapsto> t\<lparr>tp_valid_to := Some d\<rparr>)"
  show "rows_ok source n R ?T"
    unfolding rows_ok_def
  proof (intro conjI)
    show "\<forall>j k q s. ?T j = Some q \<and> ?T k = Some s \<and> tp_route q = tp_route s \<and> tp_code q = tp_code s \<longrightarrow> j = k"
      using rows_okD(7) [OF assms(1)] assms(2) by (auto split: if_splits)
    show "\<forall>j q. ?T j = Some q \<longrightarrow> j < n \<and> tp_route q < n \<and> tp_id q = j \<and> (tp_provider q = source \<longrightarrow> no_bar (tp_code q))"
      using rows_okD(5,6) [OF assms(1)] assms(2) by (auto split: if_splits)
  qed (use assms(1) in \<open>simp_all add: rows_ok_def\<close>)
  have other: "j = i" if q: "T j = Some q" "routed source R q (ro_code r)" "tp_code q = tp_code t" for j q
  proof -
    obtain s where s: "R (tp_route q) = Some s" "ro_provider s = source" "ro_code s = ro_code r" using q(2) unfolding routed_def by blast
    have "tp_route q = tp_route t" using rows_okD(4) [OF assms(1) s(1) assms(3)] s assms(4) by simp
    then show ?thesis using rows_okD(7) [OF assms(1) q(1) assms(2)] q(3) by simp
  qed
  have dead: "\<not> routed source R (t\<lparr>tp_valid_to := Some d\<rparr>) k" for k by (simp add: routed_def)
  have own: "k = ro_code r" if "routed source R t k" for k using that assms(3) unfolding routed_def by simp
  show "live_rows source R ?T = live_rows source R T - {(ro_code r, tp_code t)}"
  proof (intro set_eqI iffI; clarify)
    fix k c assume "(k, c) \<in> live_rows source R ?T"
    then obtain j q where x: "?T j = Some q" "tp_code q = c" "routed source R q k" unfolding live_rows_def by blast
    then have j: "j \<noteq> i" "T j = Some q" using dead by (auto split: if_splits)
    then have "(k, c) \<noteq> (ro_code r, tp_code t)" using other [OF j(2)] x by auto
    then show "(k, c) \<in> live_rows source R T - {(ro_code r, tp_code t)}" using x j unfolding live_rows_def by blast
  next
    fix k c assume m: "(k, c) \<in> live_rows source R T" "(k, c) \<notin> live_rows source R ?T"
    then obtain j q where x: "T j = Some q" "tp_code q = c" "routed source R q k" unfolding live_rows_def by blast
    have "j = i"
    proof (rule ccontr)
      assume "j \<noteq> i"
      then have "?T j = Some q" using x by simp
      then show False using m(2) x unfolding live_rows_def by blast
    qed
    then show "k = ro_code r \<and> c = tp_code t" using x own assms(2) by simp
  qed
qed

lemma find_row:
  assumes "distinct (map fst rows)"
  shows "find (\<lambda>(_, e). P e) rows = Some (i, e) \<Longrightarrow> map_of rows i = Some e \<and> P e"
    and "find (\<lambda>(_, e). P e) rows = None \<Longrightarrow> map_of rows j = Some e' \<Longrightarrow> \<not> P e'"
  using assms by (auto simp: find_Some_iff find_None_iff dest: map_of_SomeD) (metis nth_mem)

section \<open>Statements that leave the trips alone\<close>

definition frame :: "MemoryStore \<Rightarrow> MemoryStore \<Rightarrow> bool" where
  "frame m m' \<longleftrightarrow> m_routes m' = m_routes m \<and> m_trips m' = m_trips m \<and> m_terminals m' = m_terminals m \<and> m_next_id m \<le> m_next_id m'"

lemma frame_refl [simp]: "frame m m"
  by (simp add: frame_def)

lemma frame_trans [trans]: "frame m m' \<Longrightarrow> frame m' m'' \<Longrightarrow> frame m m''"
  by (auto simp: frame_def)

lemma frame_ok: "frame m m' \<Longrightarrow> canon_ok source m \<Longrightarrow> canon_ok source m' \<and> live source m' = live source m"
  unfolding frame_def canon_ok_def live_def using rows_ok_next by metis

lemma frame_terminal: "frame m m' \<Longrightarrow> map_of (m_terminals m') = map_of (m_terminals m)"
  by (simp add: frame_def)

lemma frame_ops [simp]:
  "frame m (SaveReviewQueue e m)" "frame m (fst (UpsertCarrier cr m))" "frame m (DeleteStopTimes i m)"
  "frame m (UpsertStopTime st m)" "frame m (UpsertTripSource ts m)" "frame m (fst (AttachTerminalIdentifier i c m))"
  "frame m (DeleteStagingTrip a b tc m)" "frame m (fst (ResolveTripReviewsByFingerprint fp m))" "frame m (persistStagedTrip source s m)"
  "frame m (fst (EnsureStopForTerminal i la lo name m))" "frame m (fst (SetTerminalTag i key v m))"
  by (auto simp: frame_def SaveReviewQueue_def UpsertCarrier_def row_id_def allocID_def DeleteStopTimes_def UpsertStopTime_def Let_def
      UpsertTripSource_def AttachTerminalIdentifier_def DeleteStagingTrip_def ResolveTripReviewsByFingerprint_def
      persistStagedTrip_def UpsertStagingTrip_def EnsureStopForTerminal_def SetTerminalTag_def split: option.split prod.split)

lemma each_record_ok:
  assumes "\<And>x s. x \<in> set xs \<Longrightarrow> P s \<Longrightarrow> \<exists>s'. f x s = (s', None) \<and> P s'" "P s"
  shows "\<exists>s'. each_record (\<lambda>_. False) i f xs s = (s', None) \<and> P s'"
  using assms
proof (induction xs arbitrary: i s)
  case (Cons x xs)
  obtain s' where s': "f x s = (s', None)" "P s'" using Cons.prems by fastforce
  then show ?case using Cons.IH [of s' "Suc i"] Cons.prems(1) by simp
qed simp

section \<open>Routes and trips\<close>

text \<open>The route of a promoted trip: the one with its provider and code, or a new one.\<close>

lemma next_row_free: "rows_ok source n R T \<Longrightarrow> R n = None \<and> T n = None"
  using rows_okD(2,5) by (metis less_irrefl not_Some_eq)

lemma UpsertRoute_ok:
  assumes "canon_ok source m" "ro_id r = 0" "ro_provider r = source" "ro_valid_to r = None"
  shows "\<exists>m' i. UpsertRoute r m = (m', i) \<and> canon_ok source m' \<and> live source m' = live source m \<and>
     map_of (m_routes m') i = Some (r\<lparr>ro_id := i\<rparr>) \<and> m_terminals m' = m_terminals m"
proof -
  note ok = canon_okD [OF assms(1)]
  define i where "i = (case find (\<lambda>(_, e). ro_provider e = ro_provider r \<and> ro_code e = ro_code r) (m_routes m) of
    Some (i, _) \<Rightarrow> i | None \<Rightarrow> m_next_id m)"
  define n where "n = (if i = m_next_id m then i + 1 else m_next_id m)"
  let ?r = "r\<lparr>ro_id := i\<rparr>"
  have u: "UpsertRoute r m = (m\<lparr>m_next_id := n, m_routes := AList.update i ?r (m_routes m)\<rparr>, i) \<and>
      (case map_of (m_routes m) i of Some e \<Rightarrow> ro_provider e = source \<and> ro_code e = ro_code ?r | None \<Rightarrow> i = m_next_id m) \<and>
      (\<forall>j e. map_of (m_routes m) j = Some e \<longrightarrow> ro_provider e = ro_provider ?r \<longrightarrow> ro_code e = ro_code ?r \<longrightarrow> j = i)"
  proof (cases "find (\<lambda>(_, e). ro_provider e = ro_provider r \<and> ro_code e = ro_code r) (m_routes m)")
    case None
    then have "i = m_next_id m" "n = i + 1" by (simp_all add: i_def n_def)
    then show ?thesis
      using None assms(2) find_row(2) [OF ok(1) None] next_row_free [OF ok(3)] by (simp add: UpsertRoute_def row_id_def allocID_def)
  next
    case (Some p)
    then obtain e where p: "p = (i, e)" by (cases p) (simp add: i_def)
    note e = find_row(1) [OF ok(1) Some [unfolded p]]
    then have "n = m_next_id m" using rows_okD(2) [OF ok(3)] by (fastforce simp: n_def)
    then show ?thesis
      using e Some assms(3) rows_okD(4) [OF ok(3)] by (auto simp: UpsertRoute_def p)
  qed
  have "i < n" "m_next_id m \<le> n"
    using u rows_okD(2) [OF ok(3), of i] by (auto simp: n_def split: option.splits)
  then have "rows_ok source n ((map_of (m_routes m))(i \<mapsto> ?r)) (map_of (m_trips m)) \<and>
      live_rows source ((map_of (m_routes m))(i \<mapsto> ?r)) (map_of (m_trips m)) = live source m"
    unfolding live_def using u assms(3,4) by (intro rows_ok_route [OF ok(3)]) auto
  then show ?thesis using u ok(1,2) by (simp add: canon_ok_def live_def)
qed

lemma UpsertTrip_ok:
  assumes "canon_ok source m" "tp_id t = 0" "tp_provider t = source" "tp_valid_to t = None" "no_bar (tp_code t)"
    and "map_of (m_routes m) (tp_route t) = Some r" "ro_provider r = source"
  shows "\<exists>m' i. UpsertTrip t m = (m', i) \<and> canon_ok source m' \<and>
     live source m' = insert (ro_code r, tp_code t) (live source m) \<and> m_terminals m' = m_terminals m"
proof -
  note ok = canon_okD [OF assms(1)]
  define i where "i = (case find (\<lambda>(_, e). tp_route e = tp_route t \<and> tp_code e = tp_code t) (m_trips m) of
    Some (i, _) \<Rightarrow> i | None \<Rightarrow> m_next_id m)"
  define n where "n = (if i = m_next_id m then i + 1 else m_next_id m)"
  let ?t = "t\<lparr>tp_id := i\<rparr>"
  have u: "UpsertTrip t m = (m\<lparr>m_next_id := n, m_trips := AList.update i ?t (m_trips m)\<rparr>, i) \<and>
      (case map_of (m_trips m) i of Some e \<Rightarrow> tp_route e = tp_route ?t \<and> tp_code e = tp_code ?t | None \<Rightarrow> True) \<and>
      (\<forall>j e. map_of (m_trips m) j = Some e \<longrightarrow> tp_route e = tp_route ?t \<longrightarrow> tp_code e = tp_code ?t \<longrightarrow> j = i) \<and> i \<le> m_next_id m"
  proof (cases "find (\<lambda>(_, e). tp_route e = tp_route t \<and> tp_code e = tp_code t) (m_trips m)")
    case None
    then have "i = m_next_id m" "n = i + 1" by (simp_all add: i_def n_def)
    then show ?thesis
      using None assms(2) find_row(2) [OF ok(2) None] next_row_free [OF ok(3)] by (simp add: UpsertTrip_def row_id_def allocID_def)
  next
    case (Some p)
    then obtain e where p: "p = (i, e)" by (cases p) (simp add: i_def)
    note e = find_row(1) [OF ok(2) Some [unfolded p]]
    then have "i < m_next_id m" using rows_okD(5) [OF ok(3)] by blast
    then show ?thesis
      using e Some rows_okD(7) [OF ok(3)] by (auto simp: UpsertTrip_def p n_def)
  qed
  then have "i < n" "m_next_id m \<le> n" by (auto simp: n_def)
  then have "rows_ok source n (map_of (m_routes m)) ((map_of (m_trips m))(i \<mapsto> ?t)) \<and>
      live_rows source (map_of (m_routes m)) ((map_of (m_trips m))(i \<mapsto> ?t)) = insert (ro_code r, tp_code ?t) (live source m)"
    unfolding live_def using u assms(3-7) by (intro rows_ok_trip [OF ok(3)]) auto
  then show ?thesis using u ok(1,2) by (simp add: canon_ok_def live_def)
qed

lemma write_tombstone_ok:
  assumes "canon_ok source m" "nk_ok (tb_route_nk t) (tb_trip_nk t)"
  shows "\<exists>m' s'. write_tombstone source t (m, s) = ((m', s'), None) \<and> canon_ok source m' \<and> frame (m\<lparr>m_trips := m_trips m'\<rparr>) m' \<and>
     live source m' = live source m - {(tb_route_nk t, SplitTripNK (tb_trip_nk t))} \<and>
     ps_trips s' = ps_trips s \<and> ps_stop_times s' = ps_stop_times s \<and> ps_staged s' = ps_staged s \<and> ps_reviews s' = ps_reviews s"
proof -
  note ok = canon_okD [OF assms(1)]
  have gone: "(tb_route_nk t, SplitTripNK (tb_trip_nk t)) \<notin> live source m"
    if "\<And>i j r e. \<lbrakk>map_of (m_routes m) i = Some r; ro_provider r = source; ro_code r = tb_route_nk t; map_of (m_trips m) j = Some e;
          tp_route e = i; tp_code e = SplitTripNK (tb_trip_nk t)\<rbrakk> \<Longrightarrow> False"
    using that unfolding live_def live_rows_def routed_def mem_Collect_eq case_prod_conv by blast
  show ?thesis
  proof (cases "find (\<lambda>(_, r). ro_provider r = source \<and> ro_code r = tb_route_nk t) (m_routes m)")
    case None
    then show ?thesis using assms(1) gone find_row(2) [OF ok(1) None] by (auto simp: write_tombstone_def FindRouteID_def frame_def)
  next
    case (Some p)
    then obtain i r where p: "p = (i, r)" by force
    note r = find_row(1) [OF ok(1) Some [unfolded p]]
    show ?thesis
    proof (cases "find (\<lambda>(_, e). tp_route e = i \<and> tp_code e = SplitTripNK (tb_trip_nk t)) (m_trips m)")
      case None
      have "(tb_route_nk t, SplitTripNK (tb_trip_nk t)) \<notin> live source m"
        using find_row(2) [OF ok(2) None] rows_okD(4) [OF ok(3)] r by (intro gone) metis
      then show ?thesis using assms(1) Some None by (auto simp: write_tombstone_def FindRouteID_def FindTrip_def p frame_def)
    next
      case (Some q)
      then obtain j e where q: "q = (j, e)" by force
      note e = find_row(1) [OF ok(2) Some [unfolded q]]
      then have j: "tp_id e = j" using rows_okD(5) [OF ok(3)] by blast
      let ?m = "m\<lparr>m_trips := AList.update j (e\<lparr>tp_valid_to := Some (now_label m)\<rparr>) (m_trips m)\<rparr>"
      have "rows_ok source (m_next_id m) (map_of (m_routes m)) ((map_of (m_trips m))(j \<mapsto> e\<lparr>tp_valid_to := Some (now_label m)\<rparr>)) \<and>
          live_rows source (map_of (m_routes m)) ((map_of (m_trips m))(j \<mapsto> e\<lparr>tp_valid_to := Some (now_label m)\<rparr>)) =
            live source m - {(ro_code r, tp_code e)}"
        unfolding live_def using e r by (intro rows_ok_expire [OF ok(3)]) auto
      moreover have "write_tombstone source t (m, s) = ((?m, s\<lparr>ps_tombstoned := ps_tombstoned s + 1\<rparr>), None)"
        using \<open>find (\<lambda>(_, r). ro_provider r = source \<and> ro_code r = tb_route_nk t) (m_routes m) = Some p\<close> Some e
        by (simp add: write_tombstone_def FindRouteID_def FindTrip_def TombstoneTrip_def p q j)
      ultimately show ?thesis using ok(1,2) e r by (simp add: canon_ok_def live_def frame_def)
    qed
  qed
qed

section \<open>A promoted trip\<close>

lemma EnsureStop_ok: "map_of (m_terminals m) i \<noteq> None \<Longrightarrow> \<exists>m' stop. EnsureStopForTerminal i la lo name m = (m', Inr stop)"
  by (auto simp: EnsureStopForTerminal_def allocID_def Let_def split: option.split prod.split)

lemma write_stop_times_ok:
  assumes "\<forall>ms \<in> set xs. map_of (m_terminals (fst w)) (mt_terminal ms) \<noteq> None"
  shows "\<exists>w'. each_record (\<lambda>_. False) i (write_stop_time trip) xs w = (w', None) \<and> frame (fst w) (fst w') \<and>
    pc_stop_times (snd w') = pc_stop_times (snd w) + length xs \<and> pc_routes (snd w') = pc_routes (snd w)"
  using assms
proof (induction xs arbitrary: i w)
  case (Cons ms xs)
  obtain m c where w: "w = (m, c)" by force
  obtain m1 stop where e: "EnsureStopForTerminal (mt_terminal ms) 0 0 '''' m = (m1, Inr stop)"
    using EnsureStop_ok Cons.prems unfolding w by fastforce
  have f: "frame m m1" using frame_ops(10) [of m "mt_terminal ms" 0 0 "''''"] e by simp
  let ?w = "(UpsertStopTime (stop_time_row trip stop ms) m1, c\<lparr>pc_stop_times := pc_stop_times c + 1\<rparr>)"
  have f': "frame m (fst ?w)" using f frame_ops(4) frame_trans by fastforce
  then have "\<forall>ms \<in> set xs. map_of (m_terminals (fst ?w)) (mt_terminal ms) \<noteq> None"
    using Cons.prems by (simp add: frame_terminal w)
  from Cons.IH [OF this, of "Suc i"] obtain w' where w': "each_record (\<lambda>_. False) (Suc i) (write_stop_time trip) xs ?w = (w', None)"
      "frame (fst ?w) (fst w')" "pc_stop_times (snd w') = pc_stop_times c + 1 + length xs" "pc_routes (snd w') = pc_routes c"
    by auto
  moreover have "each_record (\<lambda>_. False) i (write_stop_time trip) (ms # xs) w = (w', None)"
    using w'(1) by (simp add: write_stop_time_def w e)
  ultimately show ?case using frame_trans [OF f'] by (simp add: w)
qed simp

definition only_codes :: "MemoryStore \<Rightarrow> promotedCounts \<Rightarrow> trip_writing \<Rightarrow> bool" where
  "only_codes m c w \<longleftrightarrow> frame m (fst w) \<and> pc_stop_times (snd w) = pc_stop_times c \<and> pc_routes (snd w) = pc_routes c"

lemma only_codes_clash: "only_codes m c w \<Longrightarrow> only_codes m c (clash terminal code w)"
  using frame_trans [OF _ frame_ops(1)] by (auto simp: only_codes_def clash_def split: prod.split)

lemma only_codes_attach: "only_codes m c (fst wa) \<Longrightarrow> only_codes m c (fst (attach_code terminal code wa))"
proof -
  assume o: "only_codes m c (fst wa)"
  obtain m1 c1 att where wa: "wa = ((m1, c1), att)" by (metis prod.exhaust)
  obtain m2 owner where a: "AttachTerminalIdentifier terminal code m1 = (m2, owner)" by force
  then have "frame m1 m2" using frame_ops(6) [of m1 terminal code] by simp
  then have "only_codes m c (m2, c1)" "only_codes m c (m2, c1\<lparr>pc_codes := pc_codes c1 + 1\<rparr>)"
    using o frame_trans by (auto simp: only_codes_def wa)
  then show ?thesis using only_codes_clash by (simp add: attach_code_def wa a)
qed

lemma write_codes_ok:
  assumes "only_codes m c w" "map_of (m_terminals m) (mt_terminal ms) \<noteq> None"
  shows "\<exists>w'. write_codes rc ms w = (w', None) \<and> only_codes m c w'"
proof -
  obtain m1 c1 where w: "w = (m1, c1)" by force
  have "map_of (m_terminals m1) (mt_terminal ms) \<noteq> None"
    using assms frame_terminal [of m m1] by (simp add: only_codes_def w)
  then obtain m2 where t: "SetTerminalTag (mt_terminal ms) ''intercity'' ''1'' m1 = (m2, None)"
    by (auto simp: SetTerminalTag_def)
  have "frame m1 m2" using frame_ops(11) [of m1 "mt_terminal ms" "''intercity''" "''1''"] t by simp
  then have o: "only_codes m c (m2, c1)" using assms(1) frame_trans by (auto simp: only_codes_def w)
  let ?wa = "fold (attach_code (mt_terminal ms)) (mt_codes ms) ((m2, c1), [])"
  have a: "only_codes m c (fst ?wa)"
    by (rule fold_keeps [where P = "\<lambda>wa. only_codes m c (fst wa)"]) (simp_all add: o only_codes_attach)
  have "only_codes m c (fold (clash (mt_terminal ms)) xs (fst ?wa))" for xs
    by (rule fold_keeps) (simp_all add: a only_codes_clash)
  moreover obtain m3 c3 att where wa: "?wa = ((m3, c3), att)" by (metis prod.exhaust)
  ultimately have o3: "only_codes m c (fold (clash (mt_terminal ms)) xs (m3, c3))" for xs by simp
  show ?thesis unfolding write_codes_def w prod.case t option.case wa Let_def using o3 by blast
qed

lemma trip_carrier_frame: "frame m (fst (trip_carrier source p m))"
  by (simp add: trip_carrier_def)

lemma persistPromotedTrip_ok:
  assumes "canon_ok source m" "\<forall>ms \<in> set (pt_stop_times p). map_of (m_terminals m) (mt_terminal ms) \<noteq> None"
  shows "\<exists>m' n. persistPromotedTrip source rc p m = ((m', n), None) \<and> canon_ok source m' \<and>
     live source m' = insert (pt_route_nk p, SplitTripNK (pt_trip_nk p)) (live source m) \<and> m_terminals m' = m_terminals m \<and>
     pc_routes n = 1 \<and> pc_stop_times n = length (pt_stop_times p)"
proof -
  obtain m1 carrier where m1: "trip_carrier source p m = (m1, carrier)" by force
  then have f1: "frame m m1" using trip_carrier_frame [of m source p] by simp
  note ok1 = frame_ok [OF f1 assms(1)]
  have r: "ro_id (route_row source carrier p) = 0" "ro_provider (route_row source carrier p) = source"
      "ro_valid_to (route_row source carrier p) = None" "ro_code (route_row source carrier p) = pt_route_nk p"
    by (simp_all add: route_row_def)
  obtain m2 route where m2: "UpsertRoute (route_row source carrier p) m1 = (m2, route)" "canon_ok source m2" "live source m2 = live source m1"
      "map_of (m_routes m2) route = Some ((route_row source carrier p)\<lparr>ro_id := route\<rparr>)" "m_terminals m2 = m_terminals m1"
    using UpsertRoute_ok [OF conjunct1 [OF ok1] r(1-3)] by blast
  have t: "tp_id (trip_row source route p) = 0" "tp_provider (trip_row source route p) = source" "tp_valid_to (trip_row source route p) = None"
      "no_bar (tp_code (trip_row source route p))" "tp_route (trip_row source route p) = route" "tp_code (trip_row source route p) = SplitTripNK (pt_trip_nk p)"
    by (simp_all add: trip_row_def no_bar_split)
  obtain m3 trip where m3: "UpsertTrip (trip_row source route p) m2 = (m3, trip)" "canon_ok source m3"
      "live source m3 = insert (pt_route_nk p, SplitTripNK (pt_trip_nk p)) (live source m2)" "m_terminals m3 = m_terminals m2"
    using UpsertTrip_ok [OF m2(2) t(1-4), of "(route_row source carrier p)\<lparr>ro_id := route\<rparr>"] m2(4) r t by auto
  have tm: "m_terminals m3 = m_terminals m" using m3(4) m2(5) f1 by (simp add: frame_def)
  let ?c = "\<lparr>pc_routes = 1, pc_stop_times = 0, pc_restricted = False, pc_codes = 0, pc_code_clash = 0, pc_reviews_resolved = 0\<rparr>"
  let ?m4 = "DeleteStopTimes trip m3"
  have "\<forall>ms \<in> set (pt_stop_times p). map_of (m_terminals (fst (?m4, ?c))) (mt_terminal ms) \<noteq> None"
    using assms(2) tm frame_terminal [OF frame_ops(3)] by simp
  from write_stop_times_ok [OF this, of 0 trip] obtain m5 c5 where w5: "each_record (\<lambda>_. False) 0 (write_stop_time trip) (pt_stop_times p) (?m4, ?c) = ((m5, c5), None)"
      "frame ?m4 m5" "pc_stop_times c5 = length (pt_stop_times p)" "pc_routes c5 = 1"
    by auto
  let ?m6 = "UpsertTripSource (trip_source_row trip p) m5"
  have f6: "frame m3 ?m6" using frame_trans [OF frame_ops(3) frame_trans [OF w5(2) frame_ops(5)]] .
  have "\<exists>w. each_record (\<lambda>_. False) 0 (write_codes rc) (pt_stop_times p) (?m6, c5) = (w, None) \<and> only_codes ?m6 c5 w"
    using assms(2) tm frame_terminal [OF f6] by (intro each_record_ok write_codes_ok) (simp_all add: only_codes_def)
  then obtain m7 c7 where w7: "each_record (\<lambda>_. False) 0 (write_codes rc) (pt_stop_times p) (?m6, c5) = ((m7, c7), None)"
      "only_codes ?m6 c5 (m7, c7)"
    by auto
  let ?m8 = "DeleteStagingTrip source (pt_route_nk p) (SplitTripNK (pt_trip_nk p)) m7"
  obtain m9 n where m9: "ResolveTripReviewsByFingerprint (source @ '':'' @ pt_route_nk p @ ''|'' @ pt_trip_nk p) ?m8 = (m9, n)" by force
  then have "frame ?m8 m9" using frame_ops(8) [of ?m8 "source @ '':'' @ pt_route_nk p @ ''|'' @ pt_trip_nk p"] by simp
  then have f9: "frame m3 m9"
    using frame_trans [OF f6] frame_trans [OF _ frame_ops(7)] frame_trans w7(2) unfolding only_codes_def fst_conv by blast
  have e: "persistPromotedTrip source rc p m =
      ((m9, c7\<lparr>pc_reviews_resolved := n, pc_restricted := FormatWeekdays (pt_weekdays p) \<noteq> ''''\<rparr>), None)"
    unfolding persistPromotedTrip_def Let_def m1 prod.case m2(1) m3(1) w5(1) w7(1) m9 option.case by (rule refl)
  have "m_terminals m9 = m_terminals m" using f9 tm by (simp add: frame_def)
  moreover have "live source m9 = insert (pt_route_nk p, SplitTripNK (pt_trip_nk p)) (live source m)" "canon_ok source m9"
    using frame_ok [OF f9 m3(2)] m3(3) m2(3) ok1 by simp_all
  ultimately show ?thesis using e w5(3,4) w7(2) by (simp add: only_codes_def)
qed

section \<open>A report\<close>

definition promoted_key :: "PromotableTrip \<Rightarrow> string \<times> string" where
  "promoted_key p = (pt_route_nk p, SplitTripNK (pt_trip_nk p))"

definition gone_key :: "TombstonedTrip \<Rightarrow> string \<times> string" where
  "gone_key t = (tb_route_nk t, SplitTripNK (tb_trip_nk t))"

lemma write_promoted_ok:
  assumes "canon_ok source (fst w)" "\<forall>p \<in> set ps. \<forall>ms \<in> set (pt_stop_times p). map_of (m_terminals (fst w)) (mt_terminal ms) \<noteq> None"
  shows "\<exists>w'. each_record (\<lambda>_. False) i (write_promoted source rc) ps w = (w', None) \<and> canon_ok source (fst w') \<and>
    live source (fst w') = live source (fst w) \<union> promoted_key ` set ps \<and> m_terminals (fst w') = m_terminals (fst w) \<and>
    ps_trips (snd w') = ps_trips (snd w) + length ps \<and>
    ps_stop_times (snd w') = ps_stop_times (snd w) + sum_list (map (\<lambda>p. length (pt_stop_times p)) ps) \<and>
    ps_staged (snd w') = ps_staged (snd w) \<and> ps_reviews (snd w') = ps_reviews (snd w)"
  using assms
proof (induction ps arbitrary: i w)
  case (Cons p ps)
  obtain m s where w: "w = (m, s)" by force
  obtain m' n where p: "persistPromotedTrip source rc p m = ((m', n), None)" "canon_ok source m'"
      "live source m' = insert (promoted_key p) (live source m)" "m_terminals m' = m_terminals m"
      "pc_stop_times n = length (pt_stop_times p)"
    using persistPromotedTrip_ok [of source m p rc] Cons.prems by (auto simp: w promoted_key_def)
  obtain s' where s': "write_promoted source rc p w = ((m', s'), None)" "ps_trips s' = ps_trips s + 1"
      "ps_stop_times s' = ps_stop_times s + length (pt_stop_times p)" "ps_staged s' = ps_staged s" "ps_reviews s' = ps_reviews s"
    by (simp add: write_promoted_def w p(1,5))
  have "\<forall>p \<in> set ps. \<forall>ms \<in> set (pt_stop_times p). map_of (m_terminals (fst (m', s'))) (mt_terminal ms) \<noteq> None"
    using Cons.prems(2) by (simp add: w p(4))
  from Cons.IH [OF _ this, of "Suc i"] p(2) obtain w' where "each_record (\<lambda>_. False) (Suc i) (write_promoted source rc) ps (m', s') = (w', None)"
      "canon_ok source (fst w')" "live source (fst w') = live source m' \<union> promoted_key ` set ps" "m_terminals (fst w') = m_terminals m'"
      "ps_trips (snd w') = ps_trips s' + length ps" "ps_stop_times (snd w') = ps_stop_times s' + sum_list (map (\<lambda>p. length (pt_stop_times p)) ps)"
      "ps_staged (snd w') = ps_staged s'" "ps_reviews (snd w') = ps_reviews s'"
    by auto
  then show ?case using s' p(3,4) by (simp add: w insert_commute)
qed simp

lemma write_staged_ok:
  assumes "canon_ok source (fst w)"
  shows "\<exists>w'. each_record (\<lambda>_. False) i (write_staged source') ss w = (w', None) \<and> canon_ok source (fst w') \<and>
    live source (fst w') = live source (fst w) \<and> ps_trips (snd w') = ps_trips (snd w) \<and> ps_stop_times (snd w') = ps_stop_times (snd w) \<and>
    ps_staged (snd w') = ps_staged (snd w) + length ss \<and> ps_reviews (snd w') = ps_reviews (snd w)"
  using assms
proof (induction ss arbitrary: i w)
  case (Cons x ss)
  obtain m s where w: "w = (m, s)" by force
  have "canon_ok source (persistStagedTrip source' x m)" "live source (persistStagedTrip source' x m) = live source m"
    using frame_ok [OF frame_ops(9)] Cons.prems by (simp_all add: w)
  with Cons.IH [of "fst (write_staged source' x w)" "Suc i"] show ?case by (auto simp: write_staged_def w)
qed simp

lemma write_review_ok:
  assumes "canon_ok source (fst w)"
  shows "\<exists>w'. each_record (\<lambda>_. False) i write_review rs w = (w', None) \<and> canon_ok source (fst w') \<and>
    live source (fst w') = live source (fst w) \<and> ps_trips (snd w') = ps_trips (snd w) \<and> ps_stop_times (snd w') = ps_stop_times (snd w) \<and>
    ps_staged (snd w') = ps_staged (snd w) \<and> ps_reviews (snd w') = ps_reviews (snd w) + length rs"
  using assms
proof (induction rs arbitrary: i w)
  case (Cons x rs)
  obtain m s where w: "w = (m, s)" by force
  have "canon_ok source (SaveReviewQueue x m)" "live source (SaveReviewQueue x m) = live source m"
    using frame_ok [OF frame_ops(1)] Cons.prems by (simp_all add: w)
  with Cons.IH [of "fst (write_review x w)" "Suc i"] show ?case by (auto simp: write_review_def w)
qed simp

lemma write_tombstones_ok:
  assumes "canon_ok source (fst w)" "\<forall>t \<in> set ts. nk_ok (tb_route_nk t) (tb_trip_nk t)"
  shows "\<exists>w'. each_record (\<lambda>_. False) i (write_tombstone source) ts w = (w', None) \<and> canon_ok source (fst w') \<and>
    live source (fst w') = live source (fst w) - gone_key ` set ts \<and> ps_trips (snd w') = ps_trips (snd w) \<and>
    ps_stop_times (snd w') = ps_stop_times (snd w) \<and> ps_staged (snd w') = ps_staged (snd w) \<and> ps_reviews (snd w') = ps_reviews (snd w)"
  using assms
proof (induction ts arbitrary: i w)
  case (Cons t ts)
  obtain m s where w: "w = (m, s)" by force
  obtain m' s' where t: "write_tombstone source t (m, s) = ((m', s'), None)" "canon_ok source m'"
      "live source m' = live source m - {gone_key t}" "ps_trips s' = ps_trips s" "ps_stop_times s' = ps_stop_times s"
      "ps_staged s' = ps_staged s" "ps_reviews s' = ps_reviews s"
    using write_tombstone_ok [of source m t s] Cons.prems by (auto simp: w gone_key_def)
  have c: "canon_ok source (fst (m', s'))" "\<forall>t \<in> set ts. nk_ok (tb_route_nk t) (tb_trip_nk t)"
    using t(2) Cons.prems(2) by simp_all
  from Cons.IH [OF c, of "Suc i"] obtain w' where
      "each_record (\<lambda>_. False) (Suc i) (write_tombstone source) ts (m', s') = (w', None)" "canon_ok source (fst w')"
      "live source (fst w') = live source m' - gone_key ` set ts" "ps_trips (snd w') = ps_trips s'"
      "ps_stop_times (snd w') = ps_stop_times s'" "ps_staged (snd w') = ps_staged s'" "ps_reviews (snd w') = ps_reviews s'"
    unfolding fst_conv snd_conv by blast
  then show ?case using t by (auto simp: w)
qed simp

text \<open>The published trips as keys.\<close>

lemma live_codes: "canon_ok source m \<Longrightarrow> (r, c) \<in> live source m \<Longrightarrow> no_bar c"
  using rows_okD(6) [OF canon_okD(3)] unfolding live_def live_rows_def routed_def by blast

definition bar_key :: "string \<times> string \<Rightarrow> string" where
  "bar_key = (\<lambda>(r, c). r @ ''|'' @ c)"

lemma published_bar: "canon_ok source m \<Longrightarrow> published source m = bar_key ` live source m"
  using published_live [OF canon_okD(2)] by (simp add: bar_key_def)

lemma bar_key_inj: "inj_on bar_key {(r, c). no_bar c}"
  unfolding inj_on_def bar_key_def using key_unique by auto

text \<open>What a report must be for its writing: keys made of a route and a code, and terminals that the store has.\<close>

definition report_ok :: "MemoryStore \<Rightarrow> AttachReport \<Rightarrow> bool" where
  "report_ok m rep \<longleftrightarrow>
     (\<forall>p \<in> set (ar_promoted rep). nk_ok (pt_route_nk p) (pt_trip_nk p) \<and>
        (\<forall>ms \<in> set (pt_stop_times p). map_of (m_terminals m) (mt_terminal ms) \<noteq> None)) \<and>
     (\<forall>t \<in> set (ar_tombstoned rep). nk_ok (tb_route_nk t) (tb_trip_nk t))"

lemma report_live:
  assumes "canon_ok source m" "source \<noteq> ''''" "\<not> ar_alert rep" "report_ok m rep"
  shows "\<exists>m' s e. PersistAttachReport (\<lambda>_. False) rep source m = ((m', s), e) \<and> canon_ok source m' \<and>
    live source m' = live source m \<union> promoted_key ` set (ar_promoted rep) - gone_key ` set (ar_tombstoned rep) \<and>
    ps_trips s = length (ar_promoted rep) \<and> ps_stop_times s = sum_list (map (\<lambda>p. length (pt_stop_times p)) (ar_promoted rep)) \<and>
    ps_staged s = length (ar_staged rep) \<and> ps_reviews s = length (ar_reviews rep) \<and>
    (e = None \<longleftrightarrow> ar_in rep = length (ar_promoted rep) + length (ar_staged rep) + length (ar_dead rep))"
proof -
  let ?s = "empty_persist\<lparr>ps_dead := length (ar_dead rep), ps_mid_gaps := ar_mid_gaps rep\<rparr>"
  let ?np = "length (ar_promoted rep)" and ?ns = "length (ar_staged rep)"
  have z: "ps_trips ?s = 0" "ps_stop_times ?s = 0" "ps_staged ?s = 0" "ps_reviews ?s = 0" by (simp_all add: empty_persist_def)
  obtain w1 where w1: "each_record (\<lambda>_. False) 0 (write_promoted source (run_codes (ar_promoted rep))) (ar_promoted rep) (m, ?s) = (w1, None)"
      "canon_ok source (fst w1)" "live source (fst w1) = live source m \<union> promoted_key ` set (ar_promoted rep)"
      "ps_trips (snd w1) = ?np" "ps_stop_times (snd w1) = sum_list (map (\<lambda>p. length (pt_stop_times p)) (ar_promoted rep))"
      "ps_staged (snd w1) = 0" "ps_reviews (snd w1) = 0"
    using write_promoted_ok [of source "(m, ?s)" "ar_promoted rep" 0 "run_codes (ar_promoted rep)"] assms(1,4) z
    unfolding report_ok_def fst_conv snd_conv by auto
  obtain w2 where w2: "each_record (\<lambda>_. False) ?np (write_staged source) (ar_staged rep) w1 = (w2, None)"
      "canon_ok source (fst w2)" "live source (fst w2) = live source (fst w1)" "ps_trips (snd w2) = ps_trips (snd w1)"
      "ps_stop_times (snd w2) = ps_stop_times (snd w1)" "ps_staged (snd w2) = ps_staged (snd w1) + ?ns" "ps_reviews (snd w2) = ps_reviews (snd w1)"
    using write_staged_ok [OF w1(2), of ?np source "ar_staged rep"] by blast
  obtain w3 where w3: "each_record (\<lambda>_. False) 0 write_review (ar_reviews rep) w2 = (w3, None)"
      "canon_ok source (fst w3)" "live source (fst w3) = live source (fst w2)" "ps_trips (snd w3) = ps_trips (snd w2)"
      "ps_stop_times (snd w3) = ps_stop_times (snd w2)" "ps_staged (snd w3) = ps_staged (snd w2)"
      "ps_reviews (snd w3) = ps_reviews (snd w2) + length (ar_reviews rep)"
    using write_review_ok [OF w2(2), of 0 "ar_reviews rep"] by blast
  obtain w4 where w4: "each_record (\<lambda>_. False) (?np + ?ns) (write_tombstone source) (ar_tombstoned rep) w3 = (w4, None)"
      "canon_ok source (fst w4)" "live source (fst w4) = live source (fst w3) - gone_key ` set (ar_tombstoned rep)"
      "ps_trips (snd w4) = ps_trips (snd w3)" "ps_stop_times (snd w4) = ps_stop_times (snd w3)"
      "ps_staged (snd w4) = ps_staged (snd w3)" "ps_reviews (snd w4) = ps_reviews (snd w3)"
    using write_tombstones_ok [OF w3(2), of "ar_tombstoned rep" "?np + ?ns"] assms(4) unfolding report_ok_def by blast
  obtain m' s where w: "w4 = (m', s)" by force
  have e: "PersistAttachReport (\<lambda>_. False) rep source m = ((m', s),
      if ar_in rep \<noteq> ?np + ?ns + length (ar_dead rep) then Some (RowsLost (ar_in rep) ?np ?ns (length (ar_dead rep))) else None)"
    using assms(2,3) by (simp add: PersistAttachReport_def w1(1) w2(1) w3(1) w4(1) Let_def w)
  show ?thesis
    unfolding e prod.inject using w1 w2 w3 w4 by (intro exI conjI) (rule refl | simp add: w)+
qed

section \<open>Writing that is cancelled\<close>

text \<open>A loop whose context is cancelled has treated a first part of its records, as the loop over that part does.\<close>

lemma each_record_cut:
  assumes "each_record (\<lambda>_. False) i f xs w = (u, None)"
  shows "\<exists>k \<le> length xs. \<exists>v. each_record (\<lambda>_. False) i f (take k xs) w = (v, None) \<and>
    each_record ctx j f xs w = (v, if k = length xs then None else Some ContextDone) \<and> (k \<noteq> length xs \<longrightarrow> (\<exists>n. ctx n))"
  using assms
proof (induction xs arbitrary: i j w)
  case (Cons x xs)
  obtain w1 where w1: "f x w = (w1, None)" "each_record (\<lambda>_. False) (Suc i) f xs w1 = (u, None)"
    using Cons.prems by (auto split: prod.splits option.splits)
  show ?case
  proof (cases "ctx j")
    case False
    obtain k v where "k \<le> length xs" "each_record (\<lambda>_. False) (Suc i) f (take k xs) w1 = (v, None)"
        "each_record ctx (Suc j) f xs w1 = (v, if k = length xs then None else Some ContextDone)" "k \<noteq> length xs \<longrightarrow> (\<exists>n. ctx n)"
      using Cons.IH [OF w1(2), of "Suc j"] by blast
    then show ?thesis using False w1(1) by (intro exI [of _ "Suc k"] conjI exI [of _ v]) simp_all
  next
    case True
    then show ?thesis by (intro exI [of _ 0] conjI exI [of _ w]) auto
  qed
qed simp

lemma report_cut_live:
  assumes "canon_ok source m" "source \<noteq> ''''" "\<not> ar_alert rep" "report_ok m rep"
    and sum: "ar_in rep = length (ar_promoted rep) + length (ar_staged rep) + length (ar_dead rep)"
  shows "\<exists>m' s e k j. PersistAttachReport ctx rep source m = ((m', s), e) \<and> canon_ok source m' \<and>
    live source m' = live source m \<union> promoted_key ` set (take k (ar_promoted rep)) - gone_key ` set (take j (ar_tombstoned rep)) \<and>
    (j = 0 \<or> length (ar_promoted rep) \<le> k) \<and>
    (if e = None then length (ar_promoted rep) \<le> k \<and> length (ar_tombstoned rep) \<le> j \<and> ps_trips s = length (ar_promoted rep)
     else e = Some (WritingFailed ContextDone) \<and> (\<exists>n. ctx n))"
proof -
  let ?s = "empty_persist\<lparr>ps_dead := length (ar_dead rep), ps_mid_gaps := ar_mid_gaps rep\<rparr>"
  let ?np = "length (ar_promoted rep)" and ?ns = "length (ar_staged rep)" and ?rc = "run_codes (ar_promoted rep)"
  have p: "PersistAttachReport ctx rep source m = (case run_all
              [each_record ctx 0 (write_promoted source ?rc) (ar_promoted rep),
               each_record ctx ?np (write_staged source) (ar_staged rep),
               each_record (\<lambda>_. False) 0 write_review (ar_reviews rep),
               each_record ctx (?np + ?ns) (write_tombstone source) (ar_tombstoned rep)] (m, ?s) of
              (w, Some e) \<Rightarrow> (w, Some (WritingFailed e)) | (w, None) \<Rightarrow> (w, None))"
    using assms(2,3) sum by (simp add: PersistAttachReport_def Let_def split: prod.split option.split)
  have c0: "canon_ok source (fst (m, ?s))" and t0: "ps_trips (snd (m, ?s)) = 0" using assms(1) by (simp_all add: empty_persist_def)
  have trm: "\<forall>p \<in> set ps. \<forall>ms \<in> set (pt_stop_times p). map_of (m_terminals (fst (m, ?s))) (mt_terminal ms) \<noteq> None"
    if "set ps \<subseteq> set (ar_promoted rep)" for ps
    using assms(4) that unfolding report_ok_def fst_conv by blast
  obtain u1 where "each_record (\<lambda>_. False) 0 (write_promoted source ?rc) (ar_promoted rep) (m, ?s) = (u1, None)"
    using write_promoted_ok [OF c0 trm [OF subset_refl], where i = 0 and rc = ?rc] by blast
  from each_record_cut [OF this, of ctx 0] obtain k w1 where k: "k \<le> ?np"
      "each_record (\<lambda>_. False) 0 (write_promoted source ?rc) (take k (ar_promoted rep)) (m, ?s) = (w1, None)"
      "each_record ctx 0 (write_promoted source ?rc) (ar_promoted rep) (m, ?s) = (w1, if k = ?np then None else Some ContextDone)"
      "k \<noteq> ?np \<longrightarrow> (\<exists>n. ctx n)" by blast
  have w1: "canon_ok source (fst w1)" "live source (fst w1) = live source m \<union> promoted_key ` set (take k (ar_promoted rep))"
      "ps_trips (snd w1) = k"
    using write_promoted_ok [OF c0 trm [OF set_take_subset [of k]], where i = 0 and rc = ?rc] k(1,2) t0 by simp_all
  show ?thesis
  proof (cases "k = ?np")
    case False
    then show ?thesis
      unfolding p run_all.simps k(3) using w1 k(4)
      by (intro exI [of _ "fst w1"] exI [of _ "snd w1"] exI [of _ "Some (WritingFailed ContextDone)"] exI [of _ k] exI [of _ 0]) simp
  next
    case True
    obtain u2 where "each_record (\<lambda>_. False) 0 (write_staged source) (ar_staged rep) w1 = (u2, None)"
      using write_staged_ok [OF w1(1), where i = 0 and source' = source and ss = "ar_staged rep"] by blast
    from each_record_cut [OF this, of ctx ?np] obtain l w2 where l: "each_record (\<lambda>_. False) 0 (write_staged source) (take l (ar_staged rep)) w1 = (w2, None)"
        "each_record ctx ?np (write_staged source) (ar_staged rep) w1 = (w2, if l = ?ns then None else Some ContextDone)"
        "l \<noteq> ?ns \<longrightarrow> (\<exists>n. ctx n)" by blast
    have w2: "canon_ok source (fst w2)" "live source (fst w2) = live source (fst w1)" "ps_trips (snd w2) = k"
      using write_staged_ok [OF w1(1), where i = 0 and source' = source and ss = "take l (ar_staged rep)"] l(1) w1(3) by simp_all
    show ?thesis
    proof (cases "l = ?ns")
      case False
      then show ?thesis
        unfolding p run_all.simps k(3) using True l w1 w2
        by (intro exI [of _ "fst w2"] exI [of _ "snd w2"] exI [of _ "Some (WritingFailed ContextDone)"] exI [of _ k] exI [of _ 0]) simp
    next
      case ns: True
      obtain w3 where w3: "each_record (\<lambda>_. False) 0 write_review (ar_reviews rep) w2 = (w3, None)"
          "canon_ok source (fst w3)" "live source (fst w3) = live source (fst w2)" "ps_trips (snd w3) = k"
        using write_review_ok [OF w2(1), where i = 0 and rs = "ar_reviews rep"] w2(3) by auto
      have gone: "\<forall>t \<in> set ts. nk_ok (tb_route_nk t) (tb_trip_nk t)" if "set ts \<subseteq> set (ar_tombstoned rep)" for ts
        using assms(4) that by (auto simp: report_ok_def)
      obtain u4 where "each_record (\<lambda>_. False) 0 (write_tombstone source) (ar_tombstoned rep) w3 = (u4, None)"
        using write_tombstones_ok [OF w3(2) gone [OF subset_refl], where i = 0] by blast
      from each_record_cut [OF this, of ctx "?np + ?ns"] obtain j w4 where j:
          "each_record (\<lambda>_. False) 0 (write_tombstone source) (take j (ar_tombstoned rep)) w3 = (w4, None)"
          "each_record ctx (?np + ?ns) (write_tombstone source) (ar_tombstoned rep) w3 =
             (w4, if j = length (ar_tombstoned rep) then None else Some ContextDone)"
          "j \<noteq> length (ar_tombstoned rep) \<longrightarrow> (\<exists>n. ctx n)" by blast
      have w4: "canon_ok source (fst w4)" "live source (fst w4) = live source (fst w3) - gone_key ` set (take j (ar_tombstoned rep))"
          "ps_trips (snd w4) = k"
        using write_tombstones_ok [OF w3(2) gone [OF set_take_subset [of j]], where i = 0] j(1) w3(4) by simp_all
      show ?thesis
        unfolding p run_all.simps k(3) using True ns l j w1 w2 w3 w4
        by (intro exI [of _ "fst w4"] exI [of _ "snd w4"]
            exI [of _ "if j = length (ar_tombstoned rep) then None else Some (WritingFailed ContextDone)"] exI [of _ k] exI [of _ j]) simp
    qed
  qed
qed

lemma live_published:
  assumes "canon_ok source m" "canon_ok source m'" "report_ok m rep"
    and sub: "set ps \<subseteq> set (ar_promoted rep)" "set ts \<subseteq> set (ar_tombstoned rep)"
    and l: "live source m' = live source m \<union> promoted_key ` set ps - gone_key ` set ts"
  shows "published source m' = published source m \<union> set (map pt_trip_nk ps) - set (map tb_trip_nk ts)"
proof -
  let ?B = "{(r, c). no_bar c}"
  have "bar_key (promoted_key p) = pt_trip_nk p" if "p \<in> set ps" for p
    unfolding bar_key_def promoted_key_def prod.case using assms(3) that sub(1) by (intro nk_okD) (auto simp: report_ok_def)
  moreover have "bar_key (gone_key t) = tb_trip_nk t" if "t \<in> set ts" for t
    unfolding bar_key_def gone_key_def prod.case using assms(3) that sub(2) by (intro nk_okD) (auto simp: report_ok_def)
  ultimately have keys: "bar_key ` promoted_key ` set ps = pt_trip_nk ` set ps" "bar_key ` gone_key ` set ts = tb_trip_nk ` set ts"
    unfolding image_image by (simp_all cong: image_cong)
  have s: "live source m \<union> promoted_key ` set ps \<subseteq> ?B" "gone_key ` set ts \<subseteq> ?B"
    using live_codes [OF assms(1)] no_bar_split by (auto simp: promoted_key_def gone_key_def)
  have "published source m' = bar_key ` (live source m \<union> promoted_key ` set ps) - bar_key ` gone_key ` set ts"
    unfolding published_bar [OF assms(2)] l
    by (rule inj_on_image_set_diff [OF bar_key_inj _ s(2)]) (rule order_trans [OF Diff_subset s(1)])
  then show ?thesis unfolding set_map published_bar [OF assms(1)] image_Un keys .
qed

lemma report_cut_published:
  assumes "canon_ok source m" "source \<noteq> ''''" "\<not> ar_alert rep" "report_ok m rep"
    and "ar_in rep = length (ar_promoted rep) + length (ar_staged rep) + length (ar_dead rep)"
  obtains m' s e k j where "PersistAttachReport ctx rep source m = ((m', s), e)"
    "published source m' = published source m \<union> set (map pt_trip_nk (take k (ar_promoted rep))) - set (map tb_trip_nk (take j (ar_tombstoned rep)))"
    "j = 0 \<or> length (ar_promoted rep) \<le> k"
    "if e = None then length (ar_promoted rep) \<le> k \<and> length (ar_tombstoned rep) \<le> j \<and> ps_trips s = length (ar_promoted rep)
     else e = Some (WritingFailed ContextDone) \<and> (\<exists>n. ctx n)"
proof -
  obtain m' s e k j where r: "PersistAttachReport ctx rep source m = ((m', s), e)" "canon_ok source m'"
      "live source m' = live source m \<union> promoted_key ` set (take k (ar_promoted rep)) - gone_key ` set (take j (ar_tombstoned rep))"
      "j = 0 \<or> length (ar_promoted rep) \<le> k"
      "if e = None then length (ar_promoted rep) \<le> k \<and> length (ar_tombstoned rep) \<le> j \<and> ps_trips s = length (ar_promoted rep)
       else e = Some (WritingFailed ContextDone) \<and> (\<exists>n. ctx n)"
    using report_cut_live [OF assms] by blast
  show thesis
    by (rule that [OF r(1) live_published [OF assms(1) r(2) assms(4) set_take_subset set_take_subset r(3)] r(4,5)])
qed

lemma report_published:
  assumes "canon_ok source m" "source \<noteq> ''''" "\<not> ar_alert rep" "report_ok m rep"
  shows "case PersistAttachReport (\<lambda>_. False) rep source m of ((m', s), e) \<Rightarrow>
    published source m' =
      published source m \<union> set (map pt_trip_nk (ar_promoted rep)) - set (map tb_trip_nk (ar_tombstoned rep)) \<and>
    ps_trips s = length (ar_promoted rep) \<and> ps_stop_times s = sum_list (map (\<lambda>p. length (pt_stop_times p)) (ar_promoted rep)) \<and>
    ps_staged s = length (ar_staged rep) \<and> ps_reviews s = length (ar_reviews rep) \<and> canon_ok source m' \<and>
    (e = None \<longleftrightarrow> ar_in rep = length (ar_promoted rep) + length (ar_staged rep) + length (ar_dead rep))"
proof -
  obtain m' s e where r: "PersistAttachReport (\<lambda>_. False) rep source m = ((m', s), e)" "canon_ok source m'"
      "live source m' = live source m \<union> promoted_key ` set (ar_promoted rep) - gone_key ` set (ar_tombstoned rep)"
      "ps_trips s = length (ar_promoted rep)" "ps_stop_times s = sum_list (map (\<lambda>p. length (pt_stop_times p)) (ar_promoted rep))"
      "ps_staged s = length (ar_staged rep)" "ps_reviews s = length (ar_reviews rep)"
      "e = None \<longleftrightarrow> ar_in rep = length (ar_promoted rep) + length (ar_staged rep) + length (ar_dead rep)"
    using report_live [OF assms] by blast
  from live_published [OF assms(1) r(2) assms(4) subset_refl subset_refl r(3)] show ?thesis
    unfolding r(1) prod.case using r(2,4-8) by blast
qed

text \<open>C11: Writing a report, unless it is cancelled, never fails halfway: if its trips stop at terminals of the store, then afterwards the
source publishes exactly the trips it published before and the promoted ones, less those that are reported gone;
trips, stop times, staged trips and reviews are counted as written, and the only error is a report that does
not add up.\<close>

theorem persist_publishes:
  assumes "canon_ok source m" "source \<noteq> ''''" "\<not> ar_alert rep" "report_ok m rep"
  shows "case PersistAttachReport (\<lambda>_. False) rep source m of ((m', s), e) \<Rightarrow>
    set (concat (map snd (ListCanonTrips source m'))) =
      set (concat (map snd (ListCanonTrips source m))) \<union> set (map pt_trip_nk (ar_promoted rep)) - set (map tb_trip_nk (ar_tombstoned rep)) \<and>
    ps_trips s = length (ar_promoted rep) \<and> ps_stop_times s = sum_list (map (\<lambda>p. length (pt_stop_times p)) (ar_promoted rep)) \<and>
    ps_staged s = length (ar_staged rep) \<and> ps_reviews s = length (ar_reviews rep) \<and> canon_ok source m' \<and>
    (e = None \<longleftrightarrow> ar_in rep = length (ar_promoted rep) + length (ar_staged rep) + length (ar_dead rep))"
  using report_published [OF assms] unfolding published_def .

section \<open>A report with one trip new and one gone\<close>

definition demo_ride :: "string \<Rightarrow> PromotableTrip" where
  "demo_ride direction = \<lparr>pt_route_nk = ''r'', pt_trip_nk = ''r|'' @ direction @ '':1:0'', pt_route_reg = ''42'', pt_direction = direction,
     pt_service = 1, pt_run = 0, pt_synthetic_key = True, pt_winner_source = ''mintrans:p'', pt_winner_period = ''p'', pt_weekdays = [],
     pt_carrier = '''', pt_carrier_inn = '''',
     pt_stop_times = [\<lparr>mt_seq = 0, mt_terminal = 1, mt_stop = ''s'', mt_arr = 0, mt_dep = 0, mt_codes = [], mt_provisional = False,
       mt_score = 1, mt_method = ''code''\<rparr>],
     pt_route_synthetic = False\<rparr>"

definition demo_store :: MemoryStore where
  "demo_store = (NewMemoryStore 0 0)\<lparr>m_next_id := 4, m_terminals := [(1, (terminal_row demo_joined 55 86)\<lparr>te_id := 1\<rparr>)],
     m_routes := [(2, (route_row ''mintrans'' 0 (demo_ride ''a''))\<lparr>ro_id := 2\<rparr>)],
     m_trips := [(3, (trip_row ''mintrans'' 2 (demo_ride ''a''))\<lparr>tp_id := 3\<rparr>)]\<rparr>"

lemma demo_ride_sel [simp]:
  "pt_route_nk (demo_ride d) = ''r''" "pt_trip_nk (demo_ride d) = ''r|'' @ d @ '':1:0''"
  by (simp_all add: demo_ride_def)

lemma demo_store_sel [simp]:
  "m_next_id demo_store = 4" "m_routes demo_store = [(2, (route_row ''mintrans'' 0 (demo_ride ''a''))\<lparr>ro_id := 2\<rparr>)]"
  "m_trips demo_store = [(3, (trip_row ''mintrans'' 2 (demo_ride ''a''))\<lparr>tp_id := 3\<rparr>)]"
  "m_terminals demo_store = [(1, (terminal_row demo_joined 55 86)\<lparr>te_id := 1\<rparr>)]" "m_attr_states demo_store = []"
  "m_sync_runs demo_store = []" "m_clock demo_store = 0"
  by (simp_all add: demo_store_def NewMemoryStore_def)

lemma demo_split: "SplitTripNK ''r|a:1:0'' = ''a:1:0''" "SplitTripNK ''r|b:1:0'' = ''b:1:0''"
  by (simp_all add: SplitTripNK_def)

lemma demo_keys: "nk_ok ''r'' ''r|a:1:0''" "nk_ok ''r'' ''r|b:1:0''"
  by (simp_all add: nk_ok_def demo_split)

lemma demo_store_ok: "canon_ok ''mintrans'' demo_store"
  by (simp add: canon_ok_def rows_ok_def route_row_def trip_row_def no_bar_split)

lemma demo_published: "ListCanonTrips ''mintrans'' demo_store = [(''r'', [''r|a:1:0''])]"
  by (simp add: ListCanonTrips_def route_row_def trip_row_def demo_split map_append_def)

lemma persist_publishes_witness:
  "case PersistAttachReport (\<lambda>_. False) (empty_report\<lparr>ar_in := 1, ar_promoted := [demo_ride ''b''],
       ar_tombstoned := [\<lparr>tb_route_nk = ''r'', tb_trip_nk = ''r|a:1:0''\<rparr>]\<rparr>) ''mintrans'' demo_store of ((m', s), e) \<Rightarrow>
     e = None \<and> set (concat (map snd (ListCanonTrips ''mintrans'' m'))) = {''r|b:1:0''} \<and> ps_stop_times s = 1"
proof -
  let ?rep = "empty_report\<lparr>ar_in := 1, ar_promoted := [demo_ride ''b''], ar_tombstoned := [\<lparr>tb_route_nk = ''r'', tb_trip_nk = ''r|a:1:0''\<rparr>]\<rparr>"
  have ok: "report_ok demo_store ?rep"
    by (simp add: report_ok_def demo_keys) (simp add: demo_ride_def)
  obtain m' s e where r: "PersistAttachReport (\<lambda>_. False) ?rep ''mintrans'' demo_store = ((m', s), e)" by (metis prod.exhaust)
  have "\<not> ar_alert ?rep" by (simp add: empty_report_def)
  then have p: "set (concat (map snd (ListCanonTrips ''mintrans'' m'))) =
        set (concat (map snd [(''r'', [''r|a:1:0''])])) \<union> set (map pt_trip_nk (ar_promoted ?rep)) - set (map tb_trip_nk (ar_tombstoned ?rep))"
      "ps_stop_times s = sum_list (map (\<lambda>p. length (pt_stop_times p)) (ar_promoted ?rep))"
      "e = None \<longleftrightarrow> ar_in ?rep = length (ar_promoted ?rep) + length (ar_staged ?rep) + length (ar_dead ?rep)"
    using persist_publishes [OF demo_store_ok _ _ ok, unfolded r prod.case demo_published] by blast+
  have "set (concat (map snd (ListCanonTrips ''mintrans'' m'))) = {''r|b:1:0''}" unfolding p(1) by auto
  moreover have "ps_stop_times s = 1" unfolding p(2) by (simp add: demo_ride_def)
  moreover have "e = None" unfolding p(3) by (simp add: empty_report_def)
  ultimately show ?thesis unfolding r by simp
qed

end
