(* ===== verification/TripsRun_Correct.thy ===== *)
theory TripsRun_Correct
  imports TripsRun TripsPersist_Correct Attach_Correct
begin

text \<open>
  Runs of the trip synchronisation: the wait for the gate ends, a run that fails has written nothing, and a run
  that succeeds leaves published exactly the trips that it promoted itself.
\<close>

section \<open>What an attachment reports\<close>

lemma list_all_sorted [simp]: "list_all P (sort_by lt xs) = list_all P xs"
  by (simp add: list_all_iff)

definition promoted_from :: "AttachInput \<Rightarrow> PromotableTrip \<Rightarrow> bool" where
  "promoted_from inp p \<longleftrightarrow>
     (\<exists>ft \<in> set (in_trips inp). pt_route_nk p = route_key inp ft \<and> pt_trip_nk p = trip_key (route_key inp ft) ft)"

definition from_trips :: "AttachInput \<Rightarrow> attach_state \<Rightarrow> bool" where
  "from_trips inp st \<longleftrightarrow> (\<forall>p \<in> set (ar_promoted (fst st)). promoted_from inp p)"

lemma from_trips_steps [simp]:
  "from_trips inp (stage s st) = from_trips inp st" "from_trips inp (bury d st) = from_trips inp st"
  "from_trips inp (review r st) = from_trips inp st"
  by (simp_all add: from_trips_def stage_def bury_def review_def split: prod.split)

lemma from_trips_trip:
  assumes "from_trips inp st" "ft \<in> set (in_trips inp)"
  shows "from_trips inp (attach_trip inp cfg mindex ft st)"
proof -
  have m: "from_trips inp (attach_matched inp cfg (route_key inp ft) (trip_key (route_key inp ft) ft) ft ms us st)" for ms us
  proof -
    obtain rep current where st: "st = (rep, current)" by force
    have gaps: "from_trips inp (if us \<noteq> [] then rep\<lparr>ar_mid_gaps := a, ar_gapped := b\<rparr> else rep, current) = from_trips inp (rep, current)" for a b
      by (simp add: from_trips_def)
    have new: "promoted_from inp (promotable inp cfg (route_key inp ft) (trip_key (route_key inp ft) ft) ft ms')" for ms'
      using assms(2) by (auto simp: promoted_from_def promotable_def)
    show ?thesis
      using assms(1) unfolding st attach_matched_def Let_def prod.case
      by (simp add: gaps split: option.split) (auto simp: from_trips_def new)
  qed
  show ?thesis using assms(1) by (simp add: attach_trip_def Let_def m split: prod.split)
qed

lemma promoted_from_trips: "\<forall>p \<in> set (ar_promoted (fst (AttachTrips ctx inp))). promoted_from inp p"
proof (cases rule: AttachTrips_cases [of inp ctx])
  case none
  then show ?thesis by (simp add: empty_report_def)
next
  case (run params rep current e)
  have "from_trips inp (rep, current)"
    using attach_loop_inv [where I = "from_trips inp" and ctx = ctx and i = 0 and
        step = "attach_trip inp (attach_defaults inp params) (buildMatchIndex (in_terminals inp))" and
        st = "(empty_report\<lparr>ar_in := length (in_trips inp)\<rparr>, [])" and fts = "in_trips inp"] run(2)
    by (simp add: from_trips_trip) (simp add: from_trips_def empty_report_def)
  then show ?thesis using AttachTrips_run [OF run] by (cases e) (simp_all add: from_trips_def Let_def)
qed

text \<open>A trip that is reported gone was published before, under its route.\<close>

lemma fold_update_from:
  "set (fold (\<lambda>(k, v). AList.update k v) ps al) \<subseteq> set ps \<union> set al"
proof (induction ps arbitrary: al)
  case (Cons p ps)
  have "set (AList.update (fst p) (snd p) al) \<subseteq> insert p (set al)" by (induction al) auto
  then show ?case using Cons.IH [of "AList.update (fst p) (snd p) al"] by (auto simp: split_beta)
qed simp

lemma tombstoned_eq:
  "ar_tombstoned (tombstone prev current th rep) = sort_by (\<lambda>a b. tb_trip_nk a < tb_trip_nk b) (ar_tombstoned rep @
     map (\<lambda>(t, route). \<lparr>tb_route_nk = route, tb_trip_nk = t\<rparr>) (filter (\<lambda>(t, _). map_of current t = None) (prev_set prev)))"
  by (simp add: tombstone_def Let_def prev_set_def prev_pairs_def)

lemma gone_from_prev:
  "AttachTrips ctx inp = (rep, None) \<Longrightarrow> t \<in> set (ar_tombstoned rep) \<Longrightarrow> (tb_trip_nk t, tb_route_nk t) \<in> set (prev_pairs (in_prev inp))"
proof (cases rule: AttachTrips_cases [of inp ctx])
  case (run params rep' current e)
  assume a: "AttachTrips ctx inp = (rep, None)" "t \<in> set (ar_tombstoned rep)"
  then have e: "e = None" "rep = settled inp (attach_defaults inp params) rep' current"
    using AttachTrips_run [OF run] by (auto simp: Let_def split: option.splits)
  have "current_ok (rep', current)"
    using attach_loop_inv [where I = current_ok and ctx = ctx and i = 0 and fts = "in_trips inp" and
        step = "attach_trip inp (attach_defaults inp params) (buildMatchIndex (in_terminals inp))" and
        st = "(empty_report\<lparr>ar_in := length (in_trips inp)\<rparr>, [])"] run(2)
    by (simp add: current_ok_trip) (simp add: current_ok_def empty_report_def)
  then have "ar_tombstoned rep' = []" by (simp add: current_ok_def)
  then have "(tb_trip_nk t, tb_route_nk t) \<in> set (prev_set (in_prev inp))"
    using a(2) unfolding e(2) settled_def by (auto simp: tombstoned_eq)
  then show ?thesis using fold_update_from [of "prev_pairs (in_prev inp)" "[]"] by (auto simp: prev_set_def)
qed simp

section \<open>Waiting\<close>

declare wait_gate.simps [code]

lemma wait_gate_result: "wait_gate looks force deadline quit i = Some r \<Longrightarrow> fst r = looks (fst (snd r))"
  by (rule wait_gate.raw_induct [where P = "\<lambda>looks force deadline quit i r. fst r = looks (fst (snd r))"]) (auto split: if_splits)

lemma wait_gate_ends:
  assumes "\<And>i. m_clock (gl_store (looks (i + 1))) \<ge> m_clock (gl_store (looks i)) + 1"
  shows "wait_gate looks force deadline quit i \<noteq> None"
proof (induction "nat (deadline + 1 - m_clock (gl_store (looks i)))" arbitrary: i rule: less_induct)
  case less
  show ?case
  proof (cases "m_clock (gl_store (looks i)) > deadline")
    case False
    have "nat (deadline + 1 - m_clock (gl_store (looks (i + 1)))) < nat (deadline + 1 - m_clock (gl_store (looks i)))"
      using assms [of i] False by linarith
    from less [OF this] show ?thesis by (subst wait_gate.simps) (auto simp del: not_None_eq)
  qed (subst wait_gate.simps, simp del: not_None_eq)
qed

text \<open>C24: The wait for the gate ends: whatever happens to the store meanwhile, if the clock advances between two
looks at it, the run returns.\<close>

theorem run_returns:
  assumes "\<And>i. m_clock (env (i + 1)) > m_clock (env i)"
  shows "RunTripsSync actx pctx quit start env trips cfg \<noteq> None"
proof (cases "tc_params cfg")
  case (Some params)
  let ?looks = "\<lambda>i. look cfg (run_source cfg) params (in_regions (tc_regions cfg) trips) (env i)"
  have "wait_gate ?looks (tc_force cfg) (start + tc_wait cfg) quit 0 \<noteq> None"
    using assms by (intro wait_gate_ends) (simp add: look_def Let_def split_beta add1_zle_eq)
  then obtain lk i c where "wait_gate ?looks (tc_force cfg) (start + tc_wait cfg) quit 0 = Some (lk, i, c)" by auto
  then show ?thesis by (simp add: RunTripsSync_def Some Let_def del: not_None_eq)
qed (simp add: RunTripsSync_def)

section \<open>What is published\<close>

lemma look_store [simp]: "gl_store (look cfg source params filtered m) = m"
  "gl_terms (look cfg source params filtered m) = SkeletonRowToAttachTerminals (ListSkeletonTerminals m)"
  by (simp_all add: look_def Let_def split: prod.split)

text \<open>The terminals that a run matches are terminals of the store.\<close>

lemma listed_terminals: "at_id ` set (SkeletonRowToAttachTerminals (ListSkeletonTerminals m)) \<subseteq> fst ` set (m_terminals m)"
  by (auto simp: SkeletonRowToAttachTerminals_def ListSkeletonTerminals_def attach_terminal_def skeleton_row_def image_iff)
    force

text \<open>The keys that a run makes have no bar in their last part, unless the direction of a trip has one.\<close>

lemma itoa_no_bar: "CHR ''|'' \<notin> set (itoa i)"
proof -
  have "CHR ''|'' \<notin> set (nat_digits n)" for n
    using digit_chars [of 0 "nat_digits n" "CHR ''|''"] by (auto simp: digits_value_nat_digits is_digit_def byte_def)
  then show ?thesis by (auto simp: itoa_def)
qed

lemma trip_key_ok: "no_bar (ft_direction ft) \<Longrightarrow> nk_ok route (trip_key route ft)"
  unfolding trip_key_def by (rule nk_okI) (simp add: no_bar_def itoa_no_bar)

lemma attached_trip:
  assumes "ft \<in> set (in_trips (run_input cfg params lk (in_regions regions trips)))"
  shows "\<exists>ft' \<in> set trips. ft_direction ft = ft_direction ft'"
  using assms by (auto simp: run_input_def attachable_def ResolveStopCoords_def in_regions_def split: if_splits)

lemma attach_done:
  assumes "AttachTrips ctx inp = (rep, None)"
  shows "\<not> ar_alert rep" "ar_in rep = length (ar_promoted rep) + length (ar_staged rep) + length (ar_dead rep)"
    "set (map tb_trip_nk (ar_tombstoned rep)) = set (concat (map snd (in_prev inp))) - set (map pt_trip_nk (ar_promoted rep))"
proof -
  show "\<not> ar_alert rep" "set (map tb_trip_nk (ar_tombstoned rep)) = set (concat (map snd (in_prev inp))) - set (map pt_trip_nk (ar_promoted rep))"
    using tombstones_exact [of inp ctx] unfolding assms by auto
  show "ar_in rep = length (ar_promoted rep) + length (ar_staged rep) + length (ar_dead rep)"
  proof (cases rule: AttachTrips_cases [of inp ctx])
    case (run params rep' current e)
    then show ?thesis using assms AttachTrips_run [OF run] by (auto simp: Let_def split: option.splits if_splits)
  qed (use assms in simp)
qed

lemma prev_nk_ok:
  assumes "canon_ok source m" "(trip, route) \<in> set (prev_pairs (ListCanonTrips source m))"
  shows "nk_ok route trip"
proof -
  have "\<exists>xs. (route, xs) \<in> set (ListCanonTrips source m) \<and> trip \<in> set xs" using assms(2) by (auto simp: prev_pairs_def)
  then obtain c where "(route, c) \<in> live source m" "trip = route @ ''|'' @ c" using canon_entries [OF canon_okD(2) [OF assms(1)]] by blast
  then show ?thesis using live_codes [OF assms(1)] nk_okI by blast
qed

text \<open>The report of a run can be written to the store that it was made from.\<close>

lemma run_report_ok:
  assumes "canon_ok (run_source cfg) m" "list_all (\<lambda>ft. no_bar (ft_direction ft)) trips" "gl_store lk = m"
    "gl_terms lk = SkeletonRowToAttachTerminals (ListSkeletonTerminals m)"
    and rep: "AttachTrips ctx (run_input cfg params lk (in_regions regions trips)) = (rep, None)"
  shows "report_ok m rep"
proof -
  let ?inp = "run_input cfg params lk (in_regions regions trips)"
  have inp: "in_prev ?inp = ListCanonTrips (run_source cfg) m" "in_terminals ?inp = gl_terms lk" by (simp_all add: run_input_def assms(3))
  have "nk_ok (pt_route_nk p) (pt_trip_nk p)" if "p \<in> set (ar_promoted rep)" for p
  proof -
    have "promoted_from ?inp p" using promoted_from_trips [of ctx ?inp] rep that by auto
    then obtain ft where ft: "ft \<in> set (in_trips ?inp)" "pt_route_nk p = route_key ?inp ft" "pt_trip_nk p = trip_key (route_key ?inp ft) ft"
      by (auto simp: promoted_from_def)
    have "no_bar (ft_direction ft)" using attached_trip [OF ft(1)] assms(2) by (auto simp: list_all_iff)
    then show ?thesis unfolding ft(2,3) by (rule trip_key_ok)
  qed
  moreover have "map_of (m_terminals m) (mt_terminal ms) \<noteq> None" if "p \<in> set (ar_promoted rep)" "ms \<in> set (pt_stop_times p)" for p ms
  proof -
    have "mt_terminal ms \<in> at_id ` set (gl_terms lk)"
      using promoted_sound_report [of ?inp ctx] rep that inp(2) by (auto simp: list_all_iff sound_times_def)
    then show ?thesis using listed_terminals [of m] unfolding assms(4) map_of_eq_None_iff by blast
  qed
  moreover have "nk_ok (tb_route_nk t) (tb_trip_nk t)" if "t \<in> set (ar_tombstoned rep)" for t
    using gone_from_prev [OF rep that] prev_nk_ok [OF assms(1)] by (simp add: inp(1))
  ultimately show ?thesis by (simp add: report_ok_def)
qed

lemma run_source_nonempty [simp]: "run_source cfg \<noteq> ''''"
  by (simp add: run_source_def)

text \<open>C10: A run of the trips that returns without an error leaves the source publishing exactly the
trips that it promoted itself. So a trip that was published before and that the run did not attach, because its
stops lie in other regions than the chosen ones, because a region of its route is blocked or because none of
its stops has a region, is no longer published. A run that fails has written nothing, with one exception: when its context is
cancelled while it writes, a first part of the report is in the store, the promoted trips before those that are
gone.\<close>

theorem run_publishes_exactly:
  assumes "tc_params cfg = Some params" "\<not> tc_dry cfg" "\<And>i. canon_ok (run_source cfg) (env i)"
    and "list_all (\<lambda>ft. no_bar (ft_direction ft)) trips"
  shows "case RunTripsSync actx pctx quit start env trips cfg of
      None \<Rightarrow> True
    | Some (m', su, e) \<Rightarrow>
        (\<exists>i. let filtered = in_regions (tc_regions cfg) trips;
               inp = run_input cfg params (look cfg (run_source cfg) params filtered (env i)) filtered;
               promoted = ar_promoted (fst (AttachTrips actx inp)); gone = ar_tombstoned (fst (AttachTrips actx inp));
               before = set (concat (map snd (ListCanonTrips (run_source cfg) (env i))));
               after = set (concat (map snd (ListCanonTrips (run_source cfg) m'))) in
           (case e of
              None \<Rightarrow> after = set (map pt_trip_nk promoted) \<and>
                set (map pt_trip_nk promoted) \<subseteq> set (map (\<lambda>ft. trip_key (route_key inp ft) ft) (in_trips inp)) \<and>
                ps_trips (tu_persist su) = length promoted
            | Some (PersistFailed e) \<Rightarrow> e = WritingFailed ContextDone \<and> (\<exists>n. pctx n) \<and>
                (\<exists>k j. (j = 0 \<or> length promoted \<le> k) \<and>
                   after = before \<union> set (map pt_trip_nk (take k promoted)) - set (map tb_trip_nk (take j gone)))
            | Some _ \<Rightarrow> m' = env i))"
proof -
  let ?filtered = "in_regions (tc_regions cfg) trips"
  let ?looks = "\<lambda>i. look cfg (run_source cfg) params ?filtered (env i)"
  show ?thesis
  proof (cases "wait_gate ?looks (tc_force cfg) (start + tc_wait cfg) quit 0")
    case (Some w)
    obtain lk i c where w: "w = (lk, i, c)" by (metis prod.exhaust)
    have lk: "lk = ?looks i" using wait_gate_result [OF Some] by (simp add: w)
    let ?inp = "run_input cfg params lk ?filtered"
    obtain rep e where a: "AttachTrips actx ?inp = (rep, e)" by force
    have st: "gl_store lk = env i" by (simp add: lk)
    have "\<exists>X su. RunTripsSync actx pctx quit start env trips cfg =
        (if c then Some (env i, X, Some WaitCancelled) else Some (attach_and_write actx pctx cfg ?inp su (env i)))"
      unfolding RunTripsSync_def assms(1) option.case Let_def Some w prod.case st by (intro exI) (rule refl)
    then obtain X su where run: "RunTripsSync actx pctx quit start env trips cfg =
        (if c then Some (env i, X, Some WaitCancelled) else Some (attach_and_write actx pctx cfg ?inp su (env i)))"
      by blast
    show ?thesis
    proof (cases "c \<or> e \<noteq> None")
      case True
      then have "\<exists>su' e'. RunTripsSync actx pctx quit start env trips cfg = Some (env i, su', Some e') \<and> (\<forall>x. e' \<noteq> PersistFailed x)"
        unfolding run by (cases c) (auto simp: attach_and_write_def a)
      then obtain su' e' where "RunTripsSync actx pctx quit start env trips cfg = Some (env i, su', Some e')" "\<forall>x. e' \<noteq> PersistFailed x"
        by blast
      then show ?thesis by (auto simp: Let_def intro!: exI [of _ i] split: run_error.split)
    next
      case False
      then have e: "\<not> c" "e = None" by simp_all
      note rep = a [unfolded e(2)]
      note ok = run_report_ok [OF assms(3) [of i] assms(4) _ _ rep, simplified lk look_store]
      have src: "in_source ?inp = run_source cfg" "in_prev ?inp = ListCanonTrips (run_source cfg) (env i)"
        by (simp_all add: run_input_def lk)
      obtain m' s f k j where p: "PersistAttachReport pctx rep (run_source cfg) (env i) = ((m', s), f)"
          "published (run_source cfg) m' = published (run_source cfg) (env i) \<union> set (map pt_trip_nk (take k (ar_promoted rep))) -
             set (map tb_trip_nk (take j (ar_tombstoned rep)))"
          "j = 0 \<or> length (ar_promoted rep) \<le> k"
          "if f = None then length (ar_promoted rep) \<le> k \<and> length (ar_tombstoned rep) \<le> j \<and> ps_trips s = length (ar_promoted rep)
           else f = Some (WritingFailed ContextDone) \<and> (\<exists>n. pctx n)"
        by (rule report_cut_published [OF assms(3) run_source_nonempty attach_done(1) [OF rep] ok [OF refl refl] attach_done(2) [OF rep]])
      have rep': "fst (AttachTrips actx (run_input cfg params (look cfg (run_source cfg) params ?filtered (env i)) ?filtered)) = rep"
        using rep by (simp add: lk)
      show ?thesis
      proof (cases f)
        case None
        have "published (run_source cfg) m' = set (map pt_trip_nk (ar_promoted rep))"
          using p(4) unfolding p(2) None by (simp add: attach_done(3) [OF rep, unfolded set_map] src) (auto simp: published_def)
        moreover have "set (map pt_trip_nk (ar_promoted rep)) \<subseteq> set (map (\<lambda>ft. trip_key (route_key ?inp ft) ft) (in_trips ?inp))"
          using promoted_from_trips [of actx ?inp] a by (auto simp: promoted_from_def)
        moreover have "\<exists>su'. RunTripsSync actx pctx quit start env trips cfg = Some (m', su', None) \<and> tu_persist su' = s"
          unfolding run using e assms(2) p(1) by (simp add: attach_and_write_def a Let_def src None)
        ultimately show ?thesis using p(4) None rep' unfolding published_def lk by (auto simp: Let_def intro!: exI [of _ i])
      next
        case (Some x)
        have "\<exists>su'. RunTripsSync actx pctx quit start env trips cfg = Some (m', su', Some (PersistFailed x))"
          unfolding run using e assms(2) p(1) by (simp add: attach_and_write_def a Let_def src Some)
        then obtain su' where r: "RunTripsSync actx pctx quit start env trips cfg = Some (m', su', Some (PersistFailed x))" by blast
        have x: "x = WritingFailed ContextDone" "\<exists>n. pctx n" using p(4) by (simp_all add: Some)
        show ?thesis
          unfolding r option.case prod.case run_error.case Let_def
          by (rule exI [of _ i], unfold rep') (use x p(2,3) in \<open>unfold published_def, blast\<close>)
      qed
    qed
  qed (simp add: RunTripsSync_def assms(1) Let_def)
qed

section \<open>A run of another region\<close>

definition demo_far_trip :: FlatTrip where
  "demo_far_trip = \<lparr>ft_route = ''r'', ft_direction = ''a'', ft_service = 1, ft_run = 0, ft_period = ''p'', ft_carrier = '''', ft_carrier_inn = '''',
     ft_from = '''', ft_to = '''', ft_stops = [\<lparr>fs_stop = ''s'', fs_name = ''A'', fs_region = ''42'', fs_op = '''', fs_lat = None, fs_lon = None,
       fs_arr = None, fs_dep = None\<rparr>], ft_untimed = [], ft_frequency_only = False, ft_weekdays = []\<rparr>"

definition demo_run :: TripsRunConfig where
  "demo_run = \<lparr>tc_source = '''', tc_trust_route = True, tc_churn = 1, tc_max_speed = 0, tc_gate = 9 / 10, tc_soft = 6 / 10, tc_margin = 0,
     tc_wait = 0, tc_poll = 0, tc_force = False, tc_dry = False, tc_regions = [''54''],
     tc_flatten = \<lparr>fl_schedules = 0, fl_runs = 0, fl_trips = 0, fl_frequency_only = 0, fl_dropped = 0, fl_restricted = 0, fl_parity = 0\<rparr>,
     tc_plan = '''', tc_sha = '''', tc_tag = '''', tc_params = Some (\<lambda>_. ScorePair.demo_params), tc_class = None\<rparr>"

lemma demo_run_sel [simp]: "tc_params demo_run = Some (\<lambda>_. ScorePair.demo_params)" "tc_dry demo_run = False" "run_source demo_run = ''mintrans''"
  "tc_regions demo_run = [''54'']" "tc_force demo_run = False" "tc_churn demo_run = 1"
  by (simp_all add: demo_run_def run_source_def)

lemma demo_filtered: "in_regions [''54''] [demo_far_trip] = []"
  by (simp add: in_regions_def demo_far_trip_def)

lemma demo_look: "look demo_run ''mintrans'' params [] demo_store =
   \<lparr>gl_store = demo_store, gl_terms = [], gl_coverage = [], gl_pass = True, gl_blocked = []\<rparr>"
  by (simp add: look_def ListSkeletonTerminals_def hasSkeletonState_def SkeletonRowToAttachTerminals_def MeasureAttachCoverage_def
      RegistryStopsFromFlatTrips_def cover_regions_def GatePassRegions_def)

lemma demo_run_input: "in_trips (run_input demo_run params lk []) = []" "in_source (run_input demo_run params lk fs) = ''mintrans''"
  by (simp_all add: run_input_def attachable_def ResolveStopCoords_def)

lemma demo_attach:
  "AttachTrips ctx (run_input demo_run params (look demo_run ''mintrans'' params [] demo_store) []) =
     (empty_report\<lparr>ar_tombstoned := [\<lparr>tb_route_nk = ''r'', tb_trip_nk = ''r|a:1:0''\<rparr>], ar_churn := 1, ar_disappearance := 1\<rparr>, None)"
  by (simp add: AttachTrips_def demo_run_input demo_look run_input_def demo_published attachable_def ResolveStopCoords_def attach_defaults_def
      empty_report_def tombstone_def Let_def)

lemma demo_persist:
  "\<exists>m' s. PersistAttachReport (\<lambda>_. False) (empty_report\<lparr>ar_tombstoned := [\<lparr>tb_route_nk = ''r'', tb_trip_nk = ''r|a:1:0''\<rparr>],
     ar_churn := 1, ar_disappearance := 1\<rparr>) ''mintrans'' demo_store = ((m', s), None)"
  using report_live [OF demo_store_ok, of "empty_report\<lparr>ar_tombstoned := [\<lparr>tb_route_nk = ''r'', tb_trip_nk = ''r|a:1:0''\<rparr>],
     ar_churn := 1, ar_disappearance := 1\<rparr>"]
  by (auto simp: report_ok_def demo_keys empty_report_def)

lemma run_publishes_exactly_witness:
  "set (concat (map snd (ListCanonTrips ''mintrans'' demo_store))) = {''r|a:1:0''} \<and>
   (case RunTripsSync (\<lambda>_. None) (\<lambda>_. False) (\<lambda>_. False) 0 (\<lambda>_. demo_store) [demo_far_trip] demo_run of
      Some (m', su, None) \<Rightarrow> set (concat (map snd (ListCanonTrips ''mintrans'' m'))) = {} | _ \<Rightarrow> False)"
proof -
  let ?run = "RunTripsSync (\<lambda>_. None) (\<lambda>_. False) (\<lambda>_. False) 0 (\<lambda>_. demo_store) [demo_far_trip] demo_run"
  have "\<exists>m' su. ?run = Some (m', su, None)"
    using demo_persist
    by (auto simp: RunTripsSync_def demo_filtered wait_gate.simps demo_look attach_and_write_def demo_attach [unfolded demo_look]
        demo_run_input Let_def)
  then obtain m' su where run: "?run = Some (m', su, None)" by blast
  have "list_all (\<lambda>ft. no_bar (ft_direction ft)) [demo_far_trip]" by (simp add: demo_far_trip_def no_bar_def)
  from run_publishes_exactly [of demo_run, OF _ _ _ this, where params = "\<lambda>_. ScorePair.demo_params" and env = "\<lambda>_. demo_store" and
      actx = "\<lambda>_. None" and pctx = "\<lambda>_. False" and quit = "\<lambda>_. False" and start = 0]
  have "set (concat (map snd (ListCanonTrips ''mintrans'' m'))) = {}"
    using demo_store_ok unfolding run by (simp add: demo_filtered demo_run_input Let_def)
  then show ?thesis using run by (simp add: demo_published)
qed

lemma run_returns_witness:
  "RunTripsSync (\<lambda>_. None) (\<lambda>_. False) (\<lambda>_. False) 0 (\<lambda>i. demo_store\<lparr>m_clock := int i\<rparr>) [demo_far_trip] demo_run \<noteq> None"
  by (rule run_returns) simp

end
