(* ===== verification/JsonText.thy ===== *)
theory JsonText
  imports Json
begin

text \<open>
  The encoder of \<open>encoding/json\<close> for the documents that the code writes: objects whose members are strings and
  integers, with the escapes of \<open>json.Marshal\<close> (quotation mark, backslash, control characters,
  the characters that HTML treats apart, the two line separators, bytes that are not UTF-8), and that
  the decoder reads such a document back.
\<close>

section \<open>Strings\<close>

definition hex_digit :: "nat \<Rightarrow> char" where
  "hex_digit n = char_of (if n < 10 then 48 + n else 87 + n)"

definition escaped :: "rune \<Rightarrow> string" where
  "escaped r =
     [char_of (92::nat), CHR ''u'', hex_digit (r div 4096 mod 16), hex_digit (r div 256 mod 16),
      hex_digit (r div 16 mod 16), hex_digit (r mod 16)]"

definition json_rune :: "rune \<Rightarrow> string" where
  "json_rune r =
     (if r = 34 \<or> r = 92 then [char_of (92::nat), char_of r]
      else if r = 8 then [char_of (92::nat), CHR ''b'']
      else if r = 12 then [char_of (92::nat), CHR ''f'']
      else if r = 10 then [char_of (92::nat), CHR ''n'']
      else if r = 13 then [char_of (92::nat), CHR ''r'']
      else if r = 9 then [char_of (92::nat), CHR ''t'']
      else if r < 32 \<or> r = 60 \<or> r = 62 \<or> r = 38 \<or> r = 8232 \<or> r = 8233 then escaped r
      else utf8_rune r)"

lemma utf8_rune_nonempty [simp]: "utf8_rune r \<noteq> []"
  by (simp add: utf8_rune_def)

text \<open>A byte at which no valid sequence starts is written as the escape of U+FFFD.\<close>

function json_bytes :: "string \<Rightarrow> string" where
  "json_bytes [] = []"
| "json_bytes (c # cs) =
     (let r = hd (runes (c # cs)) in
      if has_prefix (c # cs) (utf8_rune r) then json_rune r @ json_bytes (drop (length (utf8_rune r) - 1) cs)
      else escaped rune_error @ json_bytes cs)"
  by pat_completeness auto
termination by (relation "measure length") (simp_all del: runes.simps)

definition json_string :: "string \<Rightarrow> string" where
  "json_string s = quoted (json_bytes s)"

lemma json_bytes_utf8: "list_all valid_rune rs \<Longrightarrow> json_bytes (utf8 rs) = concat (map json_rune rs)"
proof (induction rs)
  case (Cons r rs)
  have r: "runes (utf8_rune r @ utf8 rs) = r # runes (utf8 rs)" using Cons.prems by (simp add: runes_utf8_rune)
  obtain c cs where c: "utf8_rune r @ utf8 rs = c # cs" by (cases "utf8_rune r @ utf8 rs") auto
  have tail: "drop (length (utf8_rune r) - 1) cs = utf8 rs"
    using c by (cases "utf8_rune r") auto
  have "json_bytes (c # cs) = json_rune r @ json_bytes (utf8 rs)"
    unfolding json_bytes.simps Let_def unfolding c [symmetric] r list.sel tail by (simp add: has_prefix_def)
  then show ?case using Cons by (simp add: utf8_Cons c [symmetric] del: json_bytes.simps)
qed simp

section \<open>Reading a string back\<close>

lemma hex_value_digit: "n < 16 \<Longrightarrow> hex_value (hex_digit n) = Some n"
  by (auto simp: hex_value_def hex_digit_def Let_def)

lemma hex4_digits:
  assumes "r < 65536"
  shows "hex4 (hex_digit (r div 4096 mod 16) # hex_digit (r div 256 mod 16) # hex_digit (r div 16 mod 16) # hex_digit (r mod 16) # s) =
    Some (r, s)"
proof -
  have a: "r div 256 div 16 = r div 4096" "r div 16 div 16 = r div 256" by (simp_all flip: div_mult2_eq)
  have "r div 4096 < 16" using assms by simp
  then have "((r div 4096 mod 16 * 16 + r div 256 mod 16) * 16 + r div 16 mod 16) * 16 + r mod 16 = r"
    using div_mult_mod_eq [of "r div 256" 16] div_mult_mod_eq [of "r div 16" 16] div_mult_mod_eq [of r 16]
    unfolding a by simp
  moreover have "hex4 (hex_digit (r div 4096 mod 16) # hex_digit (r div 256 mod 16) # hex_digit (r div 16 mod 16) # hex_digit (r mod 16) # s) =
      Some (((r div 4096 mod 16 * 16 + r div 256 mod 16) * 16 + r div 16 mod 16) * 16 + r mod 16, s)"
    by (simp add: hex_value_digit)
  ultimately show ?thesis by metis
qed

lemma string_bytes_escaped:
  assumes "r < 55296"
  shows "string_bytes (Suc n) acc (escaped r @ s) = string_bytes n (rev (utf8_rune r) @ acc) s"
  using assms hex4_digits [of r s] by (simp add: escaped_def unicode_escape_def high_surrogate_def low_surrogate_def)

lemma string_bytes_plain:
  "list_all (\<lambda>c. 32 \<le> byte c \<and> byte c \<noteq> 34 \<and> byte c \<noteq> 92) p \<Longrightarrow>
     string_bytes (length p + n) acc (p @ s) = string_bytes n (rev p @ acc) s"
  by (induction p arbitrary: acc) auto

lemma utf8_rune_plain:
  assumes "valid_rune r" "32 \<le> r" "r \<noteq> 34" "r \<noteq> 92"
  shows "list_all (\<lambda>c. 32 \<le> byte c \<and> byte c \<noteq> 34 \<and> byte c \<noteq> 92) (utf8_rune r)"
proof -
  have "r div 64 < 32 \<longrightarrow> 192 + r div 64 < 256" "r < 65536 \<Longrightarrow> 224 + r div 4096 < 256" "240 + r div 262144 < 256"
    "128 + r div 64 mod 64 < 256" "128 + r div 4096 mod 64 < 256" "128 + r mod 64 < 256" "r < 2048 \<Longrightarrow> 192 + r div 64 < 256"
    using assms(1) by (auto simp: valid_rune_def)
  then show ?thesis using assms by (auto simp: utf8_rune_def)
qed

lemma escape_bytes:
  "byte CHR ''b'' = 98" "byte CHR ''f'' = 102" "byte CHR ''n'' = 110" "byte CHR ''r'' = 114" "byte CHR ''t'' = 116"
  "char_of (34::nat) = CHR 0x22" "char_of (92::nat) = CHR 0x5C" "byte CHR 0x22 = 34" "byte CHR 0x5C = 92"
  by code_simp+

lemma string_bytes_rune:
  assumes "valid_rune r"
  shows "\<exists>k. 0 < k \<and> k \<le> length (json_rune r) \<and>
    (\<forall>n acc s. string_bytes (k + n) acc (json_rune r @ s) = string_bytes n (rev (utf8_rune r) @ acc) s)"
proof -
  consider (short) "r \<in> {34, 92, 8, 12, 10, 13, 9}" | (esc) "json_rune r = escaped r" "r < 55296"
    | (plain) "json_rune r = utf8_rune r" "32 \<le> r" "r \<noteq> 34" "r \<noteq> 92"
  proof (cases "r \<in> {34, 92, 8, 12, 10, 13, 9}")
    case False
    then show ?thesis
      using that(2,3) by (cases "r < 32 \<or> r = 60 \<or> r = 62 \<or> r = 38 \<or> r = 8232 \<or> r = 8233") (auto simp: json_rune_def)
  qed (use that in simp)
  then show ?thesis
  proof cases
    case short
    have "string_bytes (Suc n) acc (json_rune r @ s) = string_bytes n (rev (utf8_rune r) @ acc) s" for n acc s
      using short by (elim insertE emptyE) (simp_all add: json_rune_def utf8_rune_def simple_escape_def escape_bytes)
    then have "\<forall>n acc s. string_bytes (1 + n) acc (json_rune r @ s) = string_bytes n (rev (utf8_rune r) @ acc) s" by simp
    moreover have "1 \<le> length (json_rune r)" using short by (auto simp: json_rune_def)
    ultimately show ?thesis by (intro exI [of _ 1]) simp
  next
    case esc
    then show ?thesis using string_bytes_escaped [OF esc(2)] by (intro exI [of _ 1]) (simp add: escaped_def)
  next
    case plain
    then show ?thesis using string_bytes_plain [OF utf8_rune_plain [OF assms plain(2-4)]]
      by (intro exI [of _ "length (utf8_rune r)"]) (simp add: utf8_rune_def)
  qed
qed

lemma string_bytes_runes:
  "list_all valid_rune rs \<Longrightarrow> length (concat (map json_rune rs)) < n \<Longrightarrow>
     string_bytes n acc (concat (map json_rune rs) @ char_of (34::nat) # s) = Some (rev acc @ utf8 rs, s)"
proof (induction rs arbitrary: n acc)
  case Nil
  then show ?case by (cases n) (simp_all add: byte_def)
next
  case (Cons r rs)
  obtain k where k: "0 < k" "k \<le> length (json_rune r)"
      "\<And>n acc s. string_bytes (k + n) acc (json_rune r @ s) = string_bytes n (rev (utf8_rune r) @ acc) s"
    using string_bytes_rune [of r] Cons.prems(1) by auto
  obtain m where m: "n = k + m" "length (concat (map json_rune rs)) < m"
    using Cons.prems(2) k(2) that [of "n - k"] by simp
  show ?case using Cons k(3) m by (simp add: utf8_Cons)
qed

lemma parse_json_string:
  assumes "list_all valid_rune rs"
  shows "parse_string (json_bytes (utf8 rs) @ char_of (34::nat) # s) = Some (utf8 rs, s)"
proof -
  have "string_bytes (Suc (length (json_bytes (utf8 rs) @ char_of (34::nat) # s))) [] (json_bytes (utf8 rs) @ char_of (34::nat) # s) =
      Some (utf8 rs, s)"
    unfolding json_bytes_utf8 [OF assms] by (subst string_bytes_runes [OF assms]) simp_all
  then show ?thesis using assms by (simp add: parse_string_def)
qed

section \<open>Objects\<close>

text \<open>An object of strings and integers with its members in the order given.\<close>

definition json_scalar :: "string + int \<Rightarrow> string" where
  "json_scalar v = (case v of Inl s \<Rightarrow> json_string s | Inr n \<Rightarrow> itoa n)"

definition member_text :: "string \<times> (string + int) \<Rightarrow> string" where
  "member_text m = (case m of (k, v) \<Rightarrow> json_string k @ '':'' @ json_scalar v)"

definition json_object :: "(string \<times> (string + int)) list \<Rightarrow> string" where
  "json_object ms = ''{'' @ join '','' (map member_text ms) @ ''}''"

definition scalar_value :: "string + int \<Rightarrow> json" where
  "scalar_value v = (case v of Inl s \<Rightarrow> JStr s | Inr n \<Rightarrow> JNum (itoa n))"

text \<open>Strings that are the UTF-8 of some code points.\<close>

definition text_ok :: "string \<Rightarrow> bool" where
  "text_ok s \<longleftrightarrow> (\<exists>rs. list_all valid_rune rs \<and> s = utf8 rs)"

definition scalar_ok :: "string + int \<Rightarrow> bool" where
  "scalar_ok v = (case v of Inl s \<Rightarrow> text_ok s | Inr n \<Rightarrow> True)"

lemma parse_text: "text_ok s \<Longrightarrow> parse_string (json_bytes s @ char_of (34::nat) # t) = Some (s, t)"
  by (auto simp: text_ok_def parse_json_string)

lemma byte_quote [simp]: "byte (char_of (34::nat)) = 34" "json_space (char_of (34::nat)) = False"
  by (simp_all add: json_space_def)

lemma skip_space_stop [simp]: "\<not> json_space c \<Longrightarrow> skip_space (c # s) = c # s"
  by (simp add: skip_space_def)

lemma parse_json_string_value:
  "text_ok s \<Longrightarrow> parse_value (Suc n) (json_string s @ t) = Some (JStr s, t)"
  using parse_text [of s t] by (simp add: json_string_def quoted_def escape_bytes json_space_def)

lemma nat_digits_all: "list_all digit_char (nat_digits n)"
proof (induction n rule: nat_digits.induct)
  case (1 n)
  have d: "k < 10 \<Longrightarrow> digit_char (char_of (48 + k))" for k :: nat by (simp add: digit_char_def)
  show ?case using 1 by (subst nat_digits.simps) (auto intro: d)
qed

text \<open>A decimal number ends at any byte that cannot continue one.\<close>

definition stops :: "string \<Rightarrow> bool" where
  "stops t \<longleftrightarrow> t \<noteq> [] \<and> (hd t = CHR '','' \<or> hd t = CHR ''}'')"

lemma digits_stop:
  "list_all digit_char d \<Longrightarrow> stops t \<Longrightarrow> takeWhile digit_char (d @ t) = d \<and> dropWhile digit_char (d @ t) = t"
  by (cases t) (auto simp: stops_def list_all_iff takeWhile_append dropWhile_append digit_char_def byte_def)

lemma nat_digits_lead: "0 < n \<Longrightarrow> \<exists>d::nat. \<exists>cs. nat_digits n = char_of (48 + d) # cs \<and> 0 < d \<and> d < 10"
proof (induction n rule: nat_digits.induct)
  case (1 n)
  show ?case
  proof (cases "n < 10")
    case True
    then show ?thesis using 1(2) by (intro exI [of _ n] exI [of _ "[]"]) (subst nat_digits.simps, simp)
  next
    case False
    then have "0 < n div 10" by (simp add: div_greater_zero_iff)
    then obtain d :: nat and cs where "nat_digits (n div 10) = char_of (48 + d) # cs" "0 < d" "d < 10"
      using 1(1) [OF False] by blast
    then show ?thesis using False
      by (intro exI [of _ d] exI [of _ "cs @ [char_of (48 + n mod 10)]"]) (subst nat_digits.simps, simp)
  qed
qed

lemma int_part_digits:
  assumes "stops t"
  shows "int_part (nat_digits n @ t) = Some (nat_digits n, t)"
proof (cases "n = 0")
  case True
  have "nat_digits 0 = ''0''" by code_simp
  then show ?thesis by (simp add: True int_part_def starts_def)
next
  case False
  then obtain d :: nat and cs where d: "nat_digits n = char_of (48 + d) # cs" "0 < d" "d < 10"
    using nat_digits_lead by blast
  have "byte (char_of (48 + d)) = 48 + d" "byte CHR ''0'' = 48" using d(3) by (simp, code_simp)
  then have "char_of (48 + d) \<noteq> CHR ''0''" using d(2) by (metis add_eq_self_zero less_not_refl)
  then have "\<not> starts CHR ''0'' (nat_digits n @ t)" by (simp add: starts_def d(1))
  then show ?thesis using digits_stop [OF nat_digits_all assms, of n]
    by (simp add: int_part_def digits_of_def Let_def)
qed

lemma number_tail: "stops t \<Longrightarrow> frac_part t = Some ([], t) \<and> exp_part t = Some ([], t)"
  by (cases t) (auto simp: stops_def frac_part_def exp_part_def starts_def)

lemma parse_itoa:
  assumes "stops t"
  shows "parse_number (itoa n @ t) = Some (itoa n, t)"
proof (cases "n < 0")
  case True
  then show ?thesis using int_part_digits [OF assms, of "nat (- n)"] number_tail [OF assms]
    by (simp add: parse_number_def itoa_def starts_def)
next
  case False
  obtain d :: nat and cs where d: "nat_digits (nat n) = char_of (48 + d) # cs" "d < 10"
    using nat_digits_hd by blast
  have "byte (char_of (48 + d)) = 48 + d" "byte CHR ''-'' = 45" using d(2) by (simp, code_simp)
  then have "char_of (48 + d) \<noteq> CHR ''-''" by auto
  then have "\<not> starts CHR ''-'' (nat_digits (nat n) @ t)" by (simp add: starts_def d(1))
  then show ?thesis using False int_part_digits [OF assms, of "nat n"] number_tail [OF assms]
    by (simp add: parse_number_def itoa_def)
qed

lemma parse_scalar:
  assumes "scalar_ok v" "stops t"
  shows "parse_value (Suc n) (json_scalar v @ t) = Some (scalar_value v, t)"
proof (cases v)
  case (Inl s)
  then show ?thesis using assms parse_json_string_value by (simp add: json_scalar_def scalar_value_def scalar_ok_def)
next
  case (Inr k)
  obtain d :: nat and cs where d: "nat_digits (nat \<bar>k\<bar>) = char_of (48 + d) # cs" "d < 10"
    using nat_digits_hd by blast
  obtain c u where c: "itoa k @ t = c # u" "byte c = 45 \<or> (48 \<le> byte c \<and> byte c < 58)"
    using d by (cases "k < 0") (auto simp: itoa_def byte_def of_char_of)
  have "c \<notin> {CHR ''{'', CHR ''['', CHR ''t'', CHR ''f'', CHR ''n''}" "byte c \<noteq> 34" "\<not> json_space c"
    using c(2) by (auto simp: byte_def json_space_def)
  then have "parse_value (Suc n) (c # u) = map_option (\<lambda>(x, u). (JNum x, u)) (parse_number (c # u))" by simp
  then show ?thesis using parse_itoa [OF assms(2), of k] by (simp add: Inr c(1) [symmetric] json_scalar_def scalar_value_def)
qed


lemma parse_member:
  assumes "text_ok k" "scalar_ok v" "stops t"
  shows "parse_members (Suc (Suc n)) acc (member_text (k, v) @ t) =
    (if hd t = CHR '','' then parse_members (Suc n) (acc @ [(k, scalar_value v)]) (tl t)
     else Some (JObj (acc @ [(k, scalar_value v)]), tl t))"
proof -
  have k: "parse_string (json_bytes k @ char_of (34::nat) # '':'' @ json_scalar v @ t) = Some (k, '':'' @ json_scalar v @ t)"
    by (rule parse_text [OF assms(1)])
  have sp: "\<not> json_space CHR '':''" "\<not> json_space CHR '',''" "\<not> json_space CHR ''}''" by code_simp+
  obtain c u where t: "t = c # u" "c = CHR '','' \<or> c = CHR ''}''" using assms(3) by (cases t) (auto simp: stops_def)
  have v: "parse_value (Suc n) (json_scalar v @ c # u) = Some (scalar_value v, c # u)"
    using parse_scalar [OF assms(2,3)] t(1) by simp
  show ?thesis using k t(2) v sp
    by (auto simp: member_text_def json_string_def quoted_def starts_def t(1) simp del: parse_value.simps)
qed

lemma parse_joined:
  "ms \<noteq> [] \<Longrightarrow> list_all (\<lambda>(k, v). text_ok k \<and> scalar_ok v) ms \<Longrightarrow> length ms < n \<Longrightarrow>
     parse_members n acc (join '','' (map member_text ms) @ ''}'' @ t) =
       Some (JObj (acc @ map (\<lambda>(k, v). (k, scalar_value v)) ms), t)"
proof (induction ms arbitrary: n acc)
  case (Cons m ms)
  obtain k v where m: "m = (k, v)" by force
  obtain n' where n: "n = Suc (Suc n')" using Cons.prems(3) by (cases n; cases "n - 1") auto
  have ok: "text_ok k" "scalar_ok v" using Cons.prems(2) m by auto
  show ?case
  proof (cases "ms = []")
    case True
    have "stops (''}'' @ t)" by (simp add: stops_def)
    from parse_member [OF ok this] show ?thesis by (simp add: True m n)
  next
    case False
    have "stops ('','' @ join '','' (map member_text ms) @ ''}'' @ t)" by (simp add: stops_def)
    from parse_member [OF ok this, of n' acc] False
    have "parse_members n acc (join '','' (map member_text (m # ms)) @ ''}'' @ t) =
        parse_members (Suc n') (acc @ [(k, scalar_value v)]) (join '','' (map member_text ms) @ ''}'' @ t)"
      by (simp add: n m join_Cons)
    also have "\<dots> = Some (JObj ((acc @ [(k, scalar_value v)]) @ map (\<lambda>(k, v). (k, scalar_value v)) ms), t)"
      using Cons.IH [OF False, of "Suc n'"] Cons.prems n by (simp del: parse_members.simps)
    finally show ?thesis by (simp add: m)
  qed
qed simp

lemma members_long: "length ms \<le> length (join '','' (map member_text ms))"
proof (induction ms)
  case (Cons m ms)
  have "0 < length (member_text m)" by (cases m) (simp add: member_text_def)
  then show ?case using Cons by (cases "ms = []") (auto simp: join_Cons Suc_le_eq simp del: length_greater_0_conv)
qed simp

text \<open>What was written is read back.\<close>

lemma unmarshal_object:
  assumes "ms \<noteq> []" "list_all (\<lambda>(k, v). text_ok k \<and> scalar_ok v) ms"
  shows "unmarshal (json_object ms) = Some (JObj (map (\<lambda>(k, v). (k, scalar_value v)) ms))"
proof -
  let ?b = "join '','' (map member_text ms) @ ''}''"
  have doc: "json_object ms = CHR ''{'' # ?b" by (simp add: json_object_def)
  obtain b u where b: "join [CHR '',''] (map member_text ms) @ [CHR ''}''] = b # u" "byte b = 34"
  proof (cases ms)
    case (Cons m ms1)
    then show ?thesis using that
      by (cases "ms1 = []"; cases m) (auto simp: member_text_def json_string_def quoted_def join_Cons)
  qed (use assms in simp)
  have nb: "b \<noteq> CHR ''}''" "\<not> json_space b" using b(2) by (auto simp: byte_def json_space_def)
  have sp: "\<not> json_space CHR ''{''" by code_simp
  have "parse_value (2 * length (json_object ms) + 2) (json_object ms) = parse_members (2 * length (json_object ms) + 1) [] ?b"
    unfolding doc using nb sp by (simp add: b(1) starts_def)
  also have "\<dots> = Some (JObj ([] @ map (\<lambda>(k, v). (k, scalar_value v)) ms), [])"
    using parse_joined [OF assms, of "2 * length (json_object ms) + 1" "[]" "[]"] members_long [of ms] by (simp add: doc)
  finally show ?thesis by (simp add: unmarshal_def skip_space_def)
qed

end
