(* ===== verification/TripsJobs.thy ===== *)
theory TripsJobs
  imports TripsPersist Jobs JsonText
begin

text \<open>
  The jobs of the trip synchronisation (\<open>sync/trips_jobs.go\<close>), the events of new terminals
  (\<open>PublishTerminalCreated\<close> of \<open>sync/trips_promote.go\<close>), whose payloads are JSON documents, and the expiry of staged trips
  (\<open>sync/staging_expiry.go\<close>).
\<close>

section \<open>Decoding into a struct\<close>

text \<open>Members are matched with fields up to the case of letters, as \<open>encoding/json\<close> folds it: also the long s and
the Kelvin sign. Of the members of one field the last one that is not \<open>null\<close> counts; one that is no string is an error.\<close>

definition fold_rune :: "rune \<Rightarrow> rune" where
  "fold_rune r = (if 97 \<le> r \<and> r \<le> 122 then r - 32 else if r = 383 then 83 else if r = 8490 then 75 else r)"

definition key_is :: "string \<Rightarrow> string \<Rightarrow> bool" where
  "key_is field key \<longleftrightarrow> map fold_rune (runes key) = map fold_rune (runes field)"

definition set_string :: "json \<Rightarrow> string option \<Rightarrow> string option" where
  "set_string v old =
     (case old of
        None \<Rightarrow> None
      | Some s \<Rightarrow> (case v of JStr t \<Rightarrow> Some t | JNull \<Rightarrow> Some s | _ \<Rightarrow> None))"

definition string_member :: "string \<Rightarrow> (string \<times> json) list \<Rightarrow> string option" where
  "string_member field ms = fold (\<lambda>(k, v). if key_is field k then set_string v else id) ms (Some '''')"

section \<open>Payloads\<close>

record TripsAttachPayload =
  ta_source :: string
  ta_route :: string
  ta_region :: string
  ta_plan :: string

definition Encode :: "TripsAttachPayload \<Rightarrow> string" where
  "Encode p = json_object ([(''source'', Inl (ta_source p)), (''route'', Inl (ta_route p))] @
     (if ta_region p = '''' then [] else [(''region'', Inl (ta_region p))]) @
     (if ta_plan p = '''' then [] else [(''plan_id'', Inl (ta_plan p))]))"

datatype payload_error = EmptyPayload | BadPayload | NoRoute

definition payload_of :: "json \<Rightarrow> TripsAttachPayload option" where
  "payload_of v =
     (case v of
        JNull \<Rightarrow> Some \<lparr>ta_source = '''', ta_route = '''', ta_region = '''', ta_plan = ''''\<rparr>
      | JObj ms \<Rightarrow>
          (case (string_member ''source'' ms, string_member ''route'' ms, string_member ''region'' ms, string_member ''plan_id'' ms) of
             (Some s, Some r, Some g, Some p) \<Rightarrow> Some \<lparr>ta_source = s, ta_route = r, ta_region = g, ta_plan = p\<rparr>
           | _ \<Rightarrow> None)
      | _ \<Rightarrow> None)"

definition DecodeTripsAttachPayload :: "string \<Rightarrow> payload_error + TripsAttachPayload" where
  "DecodeTripsAttachPayload raw =
     (if raw = '''' then Inl EmptyPayload
      else (case Option.bind (unmarshal raw) payload_of of
          None \<Rightarrow> Inl BadPayload
        | Some p \<Rightarrow>
            if ta_route p = '''' then Inl NoRoute
            else Inr (if ta_source p = '''' then p\<lparr>ta_source := ''mintrans''\<rparr> else p)))"

section \<open>Jobs\<close>

definition attach_job :: "TripsAttachPayload \<Rightarrow> JobRow" where
  "attach_job p = \<lparr>jb_id = 0, jb_type = ''sync_trips_attach'', jb_payload = Encode p, jb_region = ta_region p, jb_state = ''pending'',
     jb_attempts = 0, jb_next_run = '''', jb_last_error = '''', jb_created = 0\<rparr>"

fun enqueue_routes :: "TripsAttachPayload \<Rightarrow> string list \<Rightarrow> MemoryStore \<Rightarrow> MemoryStore \<times> int list" where
  "enqueue_routes base [] m = (m, [])"
| "enqueue_routes base (r # rs) m =
     (let (m, i) = EnqueueJob (attach_job (base\<lparr>ta_route := r\<rparr>)) m;
          (m, ids) = enqueue_routes base rs m
      in (m, i # ids))"

definition EnqueueTripsAttachJobs :: "string list \<Rightarrow> TripsAttachPayload \<Rightarrow> MemoryStore \<Rightarrow> MemoryStore \<times> int list" where
  "EnqueueTripsAttachJobs routes base m =
     (let base = (if ta_source base = '''' then base\<lparr>ta_source := ''mintrans''\<rparr> else base)
      in enqueue_routes base (sort_by (<) routes) m)"

datatype 'e handle_error = PayloadRefused payload_error | RunRefused 'e | NotPersisted persist_error

definition HandleTripsAttachJob :: "(nat \<Rightarrow> bool) \<Rightarrow> (string \<Rightarrow> MemoryStore \<Rightarrow> MemoryStore \<times> ('e + AttachReport)) \<Rightarrow> JobRow \<Rightarrow>
    MemoryStore \<Rightarrow> MemoryStore \<times> PersistSummary \<times> 'e handle_error option" where
  "HandleTripsAttachJob ctx run job m =
     (case DecodeTripsAttachPayload (jb_payload job) of
        Inl e \<Rightarrow> (m, empty_persist, Some (PayloadRefused e))
      | Inr p \<Rightarrow>
          (case run (ta_route p) m of
             (m, Inl e) \<Rightarrow> (m, empty_persist, Some (RunRefused e))
           | (m, Inr rep) \<Rightarrow>
               (case PersistAttachReport ctx rep (ta_source p) m of
                  ((m, s), e) \<Rightarrow> (m, s, map_option NotPersisted e))))"

definition CheckAttachBarrier :: "(string \<Rightarrow> bool) \<Rightarrow> string list \<Rightarrow> bool \<times> string list" where
  "CheckAttachBarrier skeletonDone regions =
     (let waiting = sort_by (<) (filter (\<lambda>r. \<not> skeletonDone r) regions) in (waiting = [], waiting))"

section \<open>Events of new terminals\<close>

definition PublishTerminalCreated :: "int \<Rightarrow> string \<Rightarrow> MemoryStore \<Rightarrow> MemoryStore" where
  "PublishTerminalCreated terminal region m =
     PublishOutbox ''terminal'' (itoa terminal) ''terminal.created''
       (json_object [(''region'', Inl region), (''terminal_id'', Inr terminal)]) m"

section \<open>Expiry of staged trips\<close>

record StagingExpiryResult =
  xr_expired :: nat
  xr_by_state :: "(string \<times> nat) list"
  xr_alert :: bool \<comment> \<open>no code sets it\<close>

definition ExpireStaleStagingTrips :: "duration \<Rightarrow> MemoryStore \<Rightarrow> MemoryStore \<times> StagingExpiryResult option" where
  "ExpireStaleStagingTrips olderThan m =
     (if olderThan \<le> 0 then (m, None)
      else (case ExpireStagingTripsOlderThan (m_clock m - olderThan) m of
          (m, n) \<Rightarrow> (m, Some \<lparr>xr_expired = n, xr_by_state = CountStagingByState m, xr_alert = False\<rparr>)))"

definition wrap64 :: "int \<Rightarrow> int" where
  "wrap64 n = (n + 2 ^ 63) mod 2 ^ 64 - 2 ^ 63"

text \<open>A duration is 64 bits of nanoseconds.\<close>

definition expiry_age :: "int \<Rightarrow> duration" where
  "expiry_age days = (let older = wrap64 (days * day_ns) in if older \<le> 0 then 14 * day_ns else older)"

definition HandleCleanupJob :: "int \<Rightarrow> MemoryStore \<Rightarrow> MemoryStore \<times> bool" where
  "HandleCleanupJob days m =
     (case ExpireStaleStagingTrips (expiry_age days) m of (m, r) \<Rightarrow> (m, r \<noteq> None))"

section \<open>Round trips\<close>

lemma runes_ascii: "list_all (\<lambda>c. byte c < 128) s \<Longrightarrow> runes s = map byte s"
  by (induction s) auto

lemma utf8_ascii: "list_all (\<lambda>c. byte c < 128) s \<Longrightarrow> utf8 (map byte s) = s"
  by (induction s) (auto simp: utf8_Cons utf8_rune_def byte_def)

lemma text_ok_ascii: "list_all (\<lambda>c. byte c < 128) s \<Longrightarrow> text_ok s"
  unfolding text_ok_def
  by (intro exI [of _ "map byte s"] conjI) (auto simp: utf8_ascii list_all_iff valid_rune_def)

text \<open>The members of a payload, by field.\<close>

lemma payload_members:
  "string_member ''source'' ([(''source'', JStr s), (''route'', JStr r)] @ (if g = '''' then [] else [(''region'', JStr g)]) @
     (if p = '''' then [] else [(''plan_id'', JStr p)])) = Some s"
  "string_member ''route'' ([(''source'', JStr s), (''route'', JStr r)] @ (if g = '''' then [] else [(''region'', JStr g)]) @
     (if p = '''' then [] else [(''plan_id'', JStr p)])) = Some r"
  "string_member ''region'' ([(''source'', JStr s), (''route'', JStr r)] @ (if g = '''' then [] else [(''region'', JStr g)]) @
     (if p = '''' then [] else [(''plan_id'', JStr p)])) = Some g"
  "string_member ''plan_id'' ([(''source'', JStr s), (''route'', JStr r)] @ (if g = '''' then [] else [(''region'', JStr g)]) @
     (if p = '''' then [] else [(''plan_id'', JStr p)])) = Some p"
  by (simp_all add: string_member_def key_is_def set_string_def fold_rune_def runes_ascii byte_def)


lemma names_ok: "text_ok ''source''" "text_ok ''route''" "text_ok ''region''" "text_ok ''plan_id''" "text_ok ''terminal_id''"
  by (rule text_ok_ascii, simp add: byte_def)+

definition payload_ok :: "TripsAttachPayload \<Rightarrow> bool" where
  "payload_ok p \<longleftrightarrow> text_ok (ta_source p) \<and> text_ok (ta_route p) \<and> text_ok (ta_region p) \<and> text_ok (ta_plan p) \<and>
     ta_source p \<noteq> '''' \<and> ta_route p \<noteq> ''''"

lemma encoded_payload:
  assumes "payload_ok p"
  shows "unmarshal (Encode p) = Some (JObj ([(''source'', JStr (ta_source p)), (''route'', JStr (ta_route p))] @
     (if ta_region p = '''' then [] else [(''region'', JStr (ta_region p))]) @
     (if ta_plan p = '''' then [] else [(''plan_id'', JStr (ta_plan p))])))"
proof -
  let ?ms = "[(''source'', Inl (ta_source p)), (''route'', Inl (ta_route p))] @
     (if ta_region p = '''' then [] else [(''region'', Inl (ta_region p))]) @
     (if ta_plan p = '''' then [] else [(''plan_id'', Inl (ta_plan p))])"
  have "list_all (\<lambda>(k, v). text_ok k \<and> scalar_ok v) ?ms"
    using assms names_ok by (simp add: payload_ok_def scalar_ok_def)
  from unmarshal_object [OF _ this] show ?thesis by (simp add: Encode_def scalar_value_def)
qed

lemma decode_encode:
  assumes "payload_ok p"
  shows "DecodeTripsAttachPayload (Encode p) = Inr p"
proof -
  have "Encode p \<noteq> ''''" by (simp add: Encode_def json_object_def)
  moreover have "Option.bind (unmarshal (Encode p)) payload_of = Some p"
    unfolding encoded_payload [OF assms] Option.bind.bind_lunit payload_of_def json.case payload_members by simp
  ultimately show ?thesis using assms by (simp add: DecodeTripsAttachPayload_def payload_ok_def)
qed


section \<open>Jobs that run what they were enqueued for\<close>

lemma map_transfer:
  "map f xs = map g ys \<Longrightarrow> (\<And>x y. f x = g y \<Longrightarrow> y \<in> set ys \<Longrightarrow> h x = k y) \<Longrightarrow> map h xs = map k ys"
proof (induction xs arbitrary: ys)
  case (Cons x xs)
  then show ?case by (cases ys) auto
qed simp

lemma enqueue_keeps:
  "enqueue_routes base rs m = (m', ids) \<Longrightarrow> i < m_next_id m \<Longrightarrow> map_of (m_jobs m') i = map_of (m_jobs m) i"
proof (induction rs arbitrary: m ids)
  case (Cons r rs)
  then show ?case
    by (fastforce simp: EnqueueJob_def allocID_def Let_def split: prod.splits if_splits)
qed simp

lemma enqueued_payloads:
  "enqueue_routes base rs m = (m', ids) \<Longrightarrow>
     map (\<lambda>i. map_option jb_payload (map_of (m_jobs m') i)) ids = map (\<lambda>r. Some (Encode (base\<lparr>ta_route := r\<rparr>))) rs"
proof (induction rs arbitrary: m ids)
  case (Cons r rs)
  obtain m1 i where e: "EnqueueJob (attach_job (base\<lparr>ta_route := r\<rparr>)) m = (m1, i)" by force
  obtain ids1 where r: "enqueue_routes base rs m1 = (m', ids1)" "ids = i # ids1"
    using Cons.prems e by (auto split: prod.splits)
  have i: "i < m_next_id m1" "map_option jb_payload (map_of (m_jobs m1) i) = Some (Encode (base\<lparr>ta_route := r\<rparr>))"
    using e by (auto simp: EnqueueJob_def allocID_def attach_job_def Let_def)
  show ?case using Cons.IH [OF r(1)] enqueue_keeps [OF r(1) i(1)] i(2) r(2) by simp
qed simp

text \<open>The jobs that are enqueued for routes are handled for these routes: each of them, found under its identifier in
the store, runs the attachment of its own route, in the order of the routes, and writes the report under the source.\<close>

theorem enqueued_jobs_run_their_routes:
  assumes "list_all (\<lambda>r. payload_ok (base\<lparr>ta_route := r\<rparr>)) routes"
    and "EnqueueTripsAttachJobs routes base m = (m', ids)"
  shows "\<exists>jobs. map (map_of (m_jobs m')) ids = map Some jobs \<and>
    map (\<lambda>j. HandleTripsAttachJob ctx run j) jobs =
    map (\<lambda>r s. case run r s of
           (s, Inl e) \<Rightarrow> (s, empty_persist, Some (RunRefused e))
         | (s, Inr rep) \<Rightarrow> (case PersistAttachReport ctx rep (ta_source base) s of ((s, n), e) \<Rightarrow> (s, n, map_option NotPersisted e)))
      (sort_by (<) routes)"
proof -
  have base: "routes = [] \<or> ta_source base \<noteq> ''''" using assms(1) by (cases routes) (auto simp: payload_ok_def)
  then have e: "enqueue_routes base (sort_by (<) routes) m = (m', ids)"
    using assms(2) by (auto simp: EnqueueTripsAttachJobs_def)
  note p = enqueued_payloads [OF e]
  define jobs where "jobs = map (\<lambda>i. the (map_of (m_jobs m') i)) ids"
  have some: "map_of (m_jobs m') i \<noteq> None" if "i \<in> set ids" for i
  proof -
    have "map_option jb_payload (map_of (m_jobs m') i) \<in> set (map (\<lambda>i. map_option jb_payload (map_of (m_jobs m') i)) ids)"
      using that by simp
    then show ?thesis unfolding p by auto
  qed
  then have "map (map_of (m_jobs m')) ids = map Some jobs" by (auto simp: jobs_def)
  moreover have "map jb_payload jobs = map (\<lambda>r. Encode (base\<lparr>ta_route := r\<rparr>)) (sort_by (<) routes)"
  proof -
    have "map Some (map jb_payload jobs) = map (\<lambda>i. map_option jb_payload (map_of (m_jobs m') i)) ids"
      using some by (auto simp: jobs_def) (metis option.sel option.simps(9))
    also have "\<dots> = map Some (map (\<lambda>r. Encode (base\<lparr>ta_route := r\<rparr>)) (sort_by (<) routes))" unfolding p by simp
    finally show ?thesis by (simp only: inj_map_eq_map inj_Some)
  qed
  moreover have "HandleTripsAttachJob ctx run j = (\<lambda>s. case run r s of
           (s, Inl e) \<Rightarrow> (s, empty_persist, Some (RunRefused e))
         | (s, Inr rep) \<Rightarrow> (case PersistAttachReport ctx rep (ta_source base) s of ((s, n), e) \<Rightarrow> (s, n, map_option NotPersisted e)))"
    if "jb_payload j = Encode (base\<lparr>ta_route := r\<rparr>)" "r \<in> set routes" for j r
    using that assms(1) decode_encode [of "base\<lparr>ta_route := r\<rparr>"]
    by (intro ext) (auto simp: HandleTripsAttachJob_def list_all_iff)
  ultimately have "map (map_of (m_jobs m')) ids = map Some jobs \<and> map (\<lambda>j. HandleTripsAttachJob ctx run j) jobs =
    map (\<lambda>r s. case run r s of
           (s, Inl e) \<Rightarrow> (s, empty_persist, Some (RunRefused e))
         | (s, Inr rep) \<Rightarrow> (case PersistAttachReport ctx rep (ta_source base) s of ((s, n), e) \<Rightarrow> (s, n, map_option NotPersisted e)))
      (sort_by (<) routes)"
    using map_transfer [of jb_payload jobs "\<lambda>r. Encode (base\<lparr>ta_route := r\<rparr>)" "sort_by (<) routes" "HandleTripsAttachJob ctx run"]
    by simp
  then show ?thesis by blast
qed


section \<open>Events that are published are handled\<close>

lemma created_payload:
  assumes "text_ok region"
  shows "payload_region (json_object [(''region'', Inl region), (''terminal_id'', Inr n)]) = region"
proof -
  have "list_all (\<lambda>(k, v). text_ok k \<and> scalar_ok v) [(''region'', Inl region), (''terminal_id'', Inr n)]"
    using assms names_ok by (simp add: scalar_ok_def)
  from unmarshal_object [OF _ this] show ?thesis
    by (simp add: payload_region_def unmarshal_map_def json_member_def scalar_value_def)
qed

definition created_event :: "int \<Rightarrow> int \<times> string \<Rightarrow> OutboxEvent" where
  "created_event i t = \<lparr>ob_id = i, ob_aggregate = ''terminal'', ob_aggregate_id = itoa (fst t), ob_event = ''terminal.created'',
     ob_payload = json_object [(''region'', Inl (snd t)), (''terminal_id'', Inr (fst t))]\<rparr>"

fun created_events :: "int \<Rightarrow> (int \<times> string) list \<Rightarrow> OutboxEvent list" where
  "created_events i [] = []"
| "created_events i (t # ts) = created_event i t # created_events (i + 1) ts"

lemma published_events:
  "m_outbox (fold (\<lambda>(n, r). PublishTerminalCreated n r) ts m) = m_outbox m @ created_events (m_next_id m) ts"
proof (induction ts arbitrary: m)
  case (Cons t ts)
  obtain n r where t: "t = (n, r)" by force
  let ?m = "PublishTerminalCreated n r m"
  have m: "m_outbox ?m = m_outbox m @ [created_event (m_next_id m) t]" "m_next_id ?m = m_next_id m + 1"
    by (simp_all add: PublishTerminalCreated_def PublishOutbox_def allocID_def created_event_def t json_object_def Let_def)
  show ?case using Cons [of ?m] m by (simp add: t)
qed simp

lemma created_events_facts:
  "sorted_wrt (\<lambda>a b. ob_id a < ob_id b) (created_events i ts)"
  "\<forall>e \<in> set (created_events i ts). i \<le> ob_id e \<and> terminal_created e"
  "length (created_events i ts) = length ts"
  "list_all (\<lambda>t. text_ok (snd t)) ts \<Longrightarrow> map (\<lambda>e. payload_region (ob_payload e)) (created_events i ts) = map snd ts"
proof -
  have range_of: "\<forall>e \<in> set (created_events i ts). i \<le> ob_id e \<and> terminal_created e" for i ts
    by (induction ts arbitrary: i) (fastforce simp: created_event_def terminal_created_def)+
  then show "\<forall>e \<in> set (created_events i ts). i \<le> ob_id e \<and> terminal_created e" .
  show "sorted_wrt (\<lambda>a b. ob_id a < ob_id b) (created_events i ts)"
  proof (induction ts arbitrary: i)
    case (Cons t ts)
    then show ?case using range_of [of "i + 1" ts] by (force simp: created_event_def)
  qed simp
  show "length (created_events i ts) = length ts" by (induction ts arbitrary: i) simp_all
  show "list_all (\<lambda>t. text_ok (snd t)) ts \<Longrightarrow> map (\<lambda>e. payload_region (ob_payload e)) (created_events i ts) = map snd ts"
    by (induction ts arbitrary: i) (simp_all add: created_event_def created_payload)
qed

lemma run_all_outbox:
  "(\<And>r m. m_outbox (fst (handle r m)) = m_outbox m) \<Longrightarrow> m_outbox (fst (run_all (map handle rs) m)) = m_outbox m"
proof (induction rs arbitrary: m)
  case (Cons r rs)
  obtain m1 e where h: "handle r m = (m1, e)" by force
  then have "m_outbox m1 = m_outbox m" using Cons.prems [of r m] by simp
  then show ?case using Cons h by (cases e) simp_all
qed simp

lemma delete_all: "m_outbox (fold (\<lambda>e. DeleteOutbox (ob_id e)) es m) = filter (\<lambda>e. ob_id e \<notin> set (map ob_id es)) (m_outbox m)"
  by (induction es arbitrary: m) (auto simp: DeleteOutbox_def intro!: filter_cong)

lemma delete_only: "\<exists>xs. fold (\<lambda>e. DeleteOutbox (ob_id e)) es m = m\<lparr>m_outbox := xs\<rparr>"
proof (induction es arbitrary: m)
  case Nil
  have "m = m\<lparr>m_outbox := m_outbox m\<rparr>" by simp
  then show ?case by (metis fold_simps(1))
next
  case (Cons e es)
  obtain xs where "fold (\<lambda>e. DeleteOutbox (ob_id e)) es (DeleteOutbox (ob_id e) m) = (DeleteOutbox (ob_id e) m)\<lparr>m_outbox := xs\<rparr>"
    using Cons by blast
  moreover have "(DeleteOutbox (ob_id e) m)\<lparr>m_outbox := xs\<rparr> = m\<lparr>m_outbox := xs\<rparr>" by (simp add: DeleteOutbox_def)
  ultimately show ?case by auto
qed

text \<open>What is published about new terminals is handled: when the outbox is consumed, the handler is called once for each
region that the events name, in order, and afterwards the outbox is empty; if the handler fails, its error is
returned and every event stays for the next time.\<close>

theorem created_terminals_are_handled:
  assumes "m_outbox m = []" "length ts \<le> 100" "list_all (\<lambda>t. text_ok (snd t)) ts"
    and keep: "\<And>r m. m_outbox (fst (handle r m)) = m_outbox m"
    and M: "M = fold (\<lambda>(n, r). PublishTerminalCreated n r) ts m"
  shows "case run_all (map handle (sort_by (<) (remdups (filter (\<lambda>r. r \<noteq> '''') (map snd ts))))) M of
      (m', None) \<Rightarrow> ConsumeTerminalCreated handle M = (m'\<lparr>m_outbox := []\<rparr>, Inr (length ts))
    | (m', Some e) \<Rightarrow> ConsumeTerminalCreated handle M = (m', Inl e) \<and> m_outbox m' = m_outbox M"
proof -
  let ?es = "created_events (m_next_id m) ts"
  have box: "m_outbox M = ?es" using published_events [of ts m] assms(1) M by simp
  note es = created_events_facts [where i = "m_next_id m" and ts = ts]
  let ?regions = "sort_by (<) (remdups (filter (\<lambda>r. r \<noteq> []) (map snd ts)))"
  have sorted: "sort_by (\<lambda>a b. ob_id a < ob_id b) ?es = ?es"
    by (rule sort_by_id [OF sorted_wrt_mono_rel [OF _ es(1)]]) simp
  have events: "filter terminal_created (ListOutbox 100 M) = ?es"
    using es(2,3) assms(2) sorted by (simp add: ListOutbox_def box filter_id_conv)
  have regions: "event_regions ?es = ?regions" using es(4) assms(3) by (simp add: event_regions_def)
  obtain m' e where r: "run_all (map handle ?regions) M = (m', e)" by force
  have keep': "m_outbox m' = ?es" using run_all_outbox [of handle, OF keep, where rs = ?regions and m = M] r box by simp
  have clear: "fold (\<lambda>e. DeleteOutbox (ob_id e)) ?es m' = m'\<lparr>m_outbox := []\<rparr>"
  proof -
    obtain xs where xs: "fold (\<lambda>e. DeleteOutbox (ob_id e)) ?es m' = m'\<lparr>m_outbox := xs\<rparr>" using delete_only by blast
    moreover have "m_outbox (fold (\<lambda>e. DeleteOutbox (ob_id e)) ?es m') = []" by (simp add: delete_all keep')
    ultimately show ?thesis by simp
  qed
  show ?thesis
  proof (cases "ts = []")
    case True
    then show ?thesis using box by (simp add: ConsumeTerminalCreated_def ListOutbox_def)
  next
    case False
    then have some: "?es \<noteq> []" using es(3) by (metis length_0_conv)
    show ?thesis
      unfolding ConsumeTerminalCreated_def events Let_def regions r
      using some box keep' es(3) clear by (cases e) simp_all
  qed
qed


section \<open>Examples\<close>

definition demo_payload :: TripsAttachPayload where
  "demo_payload = \<lparr>ta_source = ''mintrans'', ta_route = quoted ''7'', ta_region = '''', ta_plan = ''p''\<rparr>"


lemma enqueued_jobs_run_their_routes_witness:
  "\<exists>jobs. map (map_of (m_jobs (fst (EnqueueTripsAttachJobs [''7'', ''12''] demo_payload (NewMemoryStore 0 0)))))
      (snd (EnqueueTripsAttachJobs [''7'', ''12''] demo_payload (NewMemoryStore 0 0))) = map Some jobs \<and>
    map (HandleTripsAttachJob (\<lambda>_. False) (\<lambda>r s. (s, Inl r))) jobs =
    map (\<lambda>r s. (s, empty_persist, Some (RunRefused r))) (sort_by (<) [''7'', ''12''])"
proof -
  have "list_all (\<lambda>r. payload_ok (demo_payload\<lparr>ta_route := r\<rparr>)) [''7'', ''12'']"
    by (simp add: payload_ok_def demo_payload_def text_ok_ascii byte_def)
  from enqueued_jobs_run_their_routes [OF this prod.collapse [symmetric], where ctx = "\<lambda>_. False" and run = "\<lambda>r s. (s, Inl r)"]
  show ?thesis by simp
qed

lemma created_terminals_are_handled_witness:
  "ConsumeTerminalCreated (\<lambda>_ m. (m, None :: unit option))
     (fold (\<lambda>(n, r). PublishTerminalCreated n r) [(1, ''42''), (2, ''54''), (3, ''42'')] (NewMemoryStore 0 0)) =
   ((fold (\<lambda>(n, r). PublishTerminalCreated n r) [(1, ''42''), (2, ''54''), (3, ''42'')] (NewMemoryStore 0 0))\<lparr>m_outbox := []\<rparr>, Inr 3)"
proof -
  let ?h = "\<lambda>_ m. (m, None :: unit option)" and ?ts = "[(1::int, ''42''), (2, ''54''), (3, ''42'')]"
  have run: "run_all (map (\<lambda>_ m. (m, None)) xs) m = (m, None)" for xs :: "string list" and m :: MemoryStore
    by (induction xs) simp_all
  have "m_outbox (NewMemoryStore 0 0) = []" "length ?ts \<le> 100" "list_all (\<lambda>t. text_ok (snd t)) ?ts"
    by (simp_all add: NewMemoryStore_def text_ok_ascii byte_def)
  from created_terminals_are_handled [OF this, of ?h, OF _ refl] show ?thesis unfolding run by simp
qed

end
